(* ===== verification/Scope_Prelude.thy ===== *)
theory Scope_Prelude
  imports Main "HOL-Library.Char_ord" "HOL-Library.List_Lexorder" "HOL-Library.Sublist"
begin

text \<open>
  Shared vocabulary of the development: the exceptions the adapter raises and catches, the
  collections that carry the component proofs, and generic facts on prefixes, sums and
  stable sorting that several components use.
\<close>

section \<open>Exceptions\<close>

text \<open>
  The exception classes that some \<open>except\<close> clause or caller of the adapter distinguishes.
  \<open>ProcessKilled\<close> stands for what no \<open>except Exception\<close> clause catches: the process dies
  (or a \<open>KeyboardInterrupt\<close> unwinds it) at that point.
\<close>

datatype exn_class =
    CredentialUnavailableError
  | ResourceNotFoundError
  | ResourceExistsError
  | ResourceModifiedError
  | FileNotFoundErr
  | ValueErr
  | KeyErr
  | TypeErr
  | AttributeErr
  | OverflowErr
  | RuntimeErr
  | DbtRuntimeError
  | DbtDatabaseError
  | ModelSupersededError
  | RequestsConnectionError
  | RequestsTimeout
  | OtherError
  | ProcessKilled

datatype pyexn = PyExn (exn_class: exn_class) (exn_text: string)

text \<open>What \<open>except Exception\<close> catches.\<close>

definition is_Exception :: "pyexn \<Rightarrow> bool" where
  "is_Exception e \<longleftrightarrow> exn_class e \<noteq> ProcessKilled"

section \<open>Collections used by the component proofs\<close>

named_theorems py_text_simps \<open>string functions of the standard library\<close>
named_theorems eff_rules \<open>Hoare rules of the effect combinators\<close>
named_theorems eff_run \<open>running an effect in a given world\<close>
named_theorems eff_defs \<open>definitions of the effect combinators\<close>

section \<open>Fallible pure computations\<close>

text \<open>\<open>bindE\<close> sequences computations that may raise: the first exception wins.\<close>

definition bindE :: "'e + 'a \<Rightarrow> ('a \<Rightarrow> 'e + 'b) \<Rightarrow> 'e + 'b" where
  "bindE m f = (case m of Inl e \<Rightarrow> Inl e | Inr a \<Rightarrow> f a)"

lemma bindE_Inl [simp]: "bindE (Inl e) f = Inl e"
  by (simp add: bindE_def)

lemma bindE_Inr [simp]: "bindE (Inr a) f = f a"
  by (simp add: bindE_def)

lemma bindE_eq_Inr: "bindE m f = Inr b \<longleftrightarrow> (\<exists>a. m = Inr a \<and> f a = Inr b)"
  by (cases m) auto

lemma bindE_eq_Inl: "bindE m f = Inl e \<longleftrightarrow> m = Inl e \<or> (\<exists>a. m = Inr a \<and> f a = Inl e)"
  by (cases m) auto

fun mapE :: "('a \<Rightarrow> 'e + 'b) \<Rightarrow> 'a list \<Rightarrow> 'e + 'b list" where
  "mapE f [] = Inr []"
| "mapE f (x # xs) = bindE (f x) (\<lambda>y. bindE (mapE f xs) (\<lambda>ys. Inr (y # ys)))"

lemma mapE_all_Inr: "(\<And>x. x \<in> set xs \<Longrightarrow> f x = Inr (g x)) \<Longrightarrow> mapE f xs = Inr (map g xs)"
  by (induction xs) auto

lemma mapE_length: "mapE f xs = Inr ys \<Longrightarrow> length ys = length xs"
  by (induction xs arbitrary: ys) (auto simp: bindE_eq_Inr)

section \<open>Lists\<close>

lemma takeWhile_not_mem_append:
  "x \<notin> set xs \<Longrightarrow> takeWhile (\<lambda>c. c \<noteq> x) (xs @ x # ys) = xs"
  by (induction xs) auto

lemma dropWhile_not_mem_append:
  "x \<notin> set xs \<Longrightarrow> dropWhile (\<lambda>c. c \<noteq> x) (xs @ x # ys) = x # ys"
  by (induction xs) auto

lemma takeWhile_not_mem: "x \<notin> set xs \<Longrightarrow> takeWhile (\<lambda>c. c \<noteq> x) xs = xs"
  by (induction xs) auto

text \<open>Lexicographic comparison of two lists of the same length, from the end.\<close>

lemma snoc_less_snoc_iff:
  fixes xs ys :: "('a::order) list"
  assumes "length xs = length ys"
  shows "xs @ [a] < ys @ [b] \<longleftrightarrow> xs < ys \<or> (xs = ys \<and> a < b)"
  using assms by (induction xs ys rule: list_induct2) (auto simp: list_less_def)

text \<open>A list sorted by a key splits into the elements at or below a bound and the others.\<close>

lemma sorted_filter_gt_append:
  fixes key :: "'a \<Rightarrow> 'k::linorder"
  assumes "\<And>x. x \<in> set xs \<Longrightarrow> key x \<le> b" and "\<And>y. y \<in> set ys \<Longrightarrow> b < key y"
  shows "filter (\<lambda>x. b < key x) (xs @ ys) = ys"
proof -
  have "filter (\<lambda>x. b < key x) xs = []"
    using assms(1) by (force simp: filter_empty_conv)
  moreover have "filter (\<lambda>x. b < key x) ys = ys"
    using assms(2) by (simp add: filter_id_conv)
  ultimately show ?thesis by simp
qed

lemma sorted_map_append_le:
  "sorted (map key (xs @ ys)) \<Longrightarrow> x \<in> set xs \<Longrightarrow> y \<in> set ys \<Longrightarrow> key x \<le> key y"
  by (auto simp: sorted_append)

lemma sum_list_take_le:
  fixes f :: "'a \<Rightarrow> int"
  assumes "\<And>x. x \<in> set xs \<Longrightarrow> 0 \<le> f x" and "m \<le> n"
  shows "(\<Sum>x\<leftarrow>take m xs. f x) \<le> (\<Sum>x\<leftarrow>take n xs. f x)"
proof -
  have "take n xs = take m xs @ take (n - m) (drop m xs)"
    using assms(2) by (metis le_add_diff_inverse take_add)
  moreover have "0 \<le> (\<Sum>x\<leftarrow>take (n - m) (drop m xs). f x)"
    using assms(1) by (intro sum_list_nonneg) (auto dest!: in_set_takeD in_set_dropD)
  ultimately show ?thesis by simp
qed

text \<open>A Python dict as an association list: lookup is \<open>map_of\<close>, an insertion keeps the place of a key.\<close>

fun assoc_put :: "'k \<Rightarrow> 'v \<Rightarrow> ('k \<times> 'v) list \<Rightarrow> ('k \<times> 'v) list" where
  "assoc_put k v [] = [(k, v)]"
| "assoc_put k v ((k', v') # m) = (if k' = k then (k, v) # m else (k', v') # assoc_put k v m)"

lemma map_of_assoc_put [simp]: "map_of (assoc_put k v m) = (map_of m)(k \<mapsto> v)"
  by (induction m) auto

lemma set_keys_assoc_put [simp]: "fst ` set (assoc_put k v m) = insert k (fst ` set m)"
  by (induction k v m rule: assoc_put.induct) (simp_all add: insert_commute)

lemma distinct_keys_assoc_put:
  "distinct (map fst m) \<Longrightarrow> distinct (map fst (assoc_put k v m))"
  by (induction k v m rule: assoc_put.induct) (simp_all, metis insert_iff list.set_map set_keys_assoc_put)

lemma length_assoc_put_le: "length (assoc_put k v m) \<le> Suc (length m)"
  by (induction m) auto

end
