(* ===== verification/Py_Text.thy ===== *)
theory Py_Text
  imports Scope_Prelude
begin

text \<open>
  The string functions of Python's standard library that the adapter uses, over UTF-8 bytes
  (a \<open>char\<close> is one byte): \<open>strip\<close>, \<open>lower\<close>, \<open>startswith\<close>, \<open>endswith\<close>, \<open>in\<close>, \<open>replace\<close>,
  \<open>join\<close>, \<open>str(int)\<close>, \<open>int(str)\<close> and zero-padded decimal formatting. White space, letters and
  digits are the ASCII ones. The lemmas are the round trips and orders that the components use.
\<close>

section \<open>Characters\<close>

definition is_space :: "char \<Rightarrow> bool" where
  "is_space c \<longleftrightarrow> (let n = of_char c :: nat in n = 32 \<or> (9 \<le> n \<and> n \<le> 13) \<or> (28 \<le> n \<and> n \<le> 31))"

definition is_digit :: "char \<Rightarrow> bool" where
  "is_digit c \<longleftrightarrow> (let n = of_char c :: nat in 48 \<le> n \<and> n \<le> 57)"

definition is_upper :: "char \<Rightarrow> bool" where
  "is_upper c \<longleftrightarrow> (let n = of_char c :: nat in 65 \<le> n \<and> n \<le> 90)"

definition is_lower :: "char \<Rightarrow> bool" where
  "is_lower c \<longleftrightarrow> (let n = of_char c :: nat in 97 \<le> n \<and> n \<le> 122)"

definition is_alpha :: "char \<Rightarrow> bool" where
  "is_alpha c \<longleftrightarrow> is_upper c \<or> is_lower c"

definition lower_char :: "char \<Rightarrow> char" where
  "lower_char c = (if is_upper c then char_of ((of_char c :: nat) + 32) else c)"

definition digit_char :: "nat \<Rightarrow> char" where
  "digit_char d = char_of (48 + d)"

definition digit_val :: "char \<Rightarrow> nat" where
  "digit_val c = of_char c - 48"

lemma of_char_digit_char: "d < 10 \<Longrightarrow> (of_char (digit_char d) :: nat) = 48 + d"
  by (simp add: digit_char_def)

lemma digit_val_digit_char [simp]: "d < 10 \<Longrightarrow> digit_val (digit_char d) = d"
  by (simp add: digit_val_def of_char_digit_char)

lemma is_digit_digit_char [simp]: "d < 10 \<Longrightarrow> is_digit (digit_char d)"
  by (simp add: is_digit_def of_char_digit_char)

lemma digit_char_less_iff:
  "a < 10 \<Longrightarrow> b < 10 \<Longrightarrow> digit_char a < digit_char b \<longleftrightarrow> a < b"
  by (simp add: less_char_def of_char_digit_char)

lemma digit_char_eq_iff:
  "a < 10 \<Longrightarrow> b < 10 \<Longrightarrow> digit_char a = digit_char b \<longleftrightarrow> a = b"
  by (metis digit_val_digit_char)

section \<open>Strings\<close>

definition py_startswith :: "string \<Rightarrow> string \<Rightarrow> bool" where
  "py_startswith s p \<longleftrightarrow> prefix p s"

definition py_endswith :: "string \<Rightarrow> string \<Rightarrow> bool" where
  "py_endswith s p \<longleftrightarrow> suffix p s"

fun py_contains :: "string \<Rightarrow> string \<Rightarrow> bool" where
  "py_contains pat [] = (pat = [])"
| "py_contains pat (c # s) = (prefix pat (c # s) \<or> py_contains pat s)"

definition rstrip_if :: "(char \<Rightarrow> bool) \<Rightarrow> string \<Rightarrow> string" where
  "rstrip_if p s = rev (dropWhile p (rev s))"

definition py_strip :: "string \<Rightarrow> string" where
  "py_strip s = rstrip_if is_space (dropWhile is_space s)"

definition py_lower :: "string \<Rightarrow> string" where
  "py_lower s = map lower_char s"

text \<open>\<open>s.rsplit(c, 1)[-1]\<close> and \<open>s.split(c, 1)[0]\<close>.\<close>

definition after_last :: "char \<Rightarrow> string \<Rightarrow> string" where
  "after_last c s = rev (takeWhile (\<lambda>x. x \<noteq> c) (rev s))"

definition before_first :: "char \<Rightarrow> string \<Rightarrow> string" where
  "before_first c s = takeWhile (\<lambda>x. x \<noteq> c) s"

definition replace_char :: "char \<Rightarrow> string \<Rightarrow> string \<Rightarrow> string" where
  "replace_char c r s = concat (map (\<lambda>x. if x = c then r else [x]) s)"

fun py_join :: "string \<Rightarrow> string list \<Rightarrow> string" where
  "py_join sep [] = []"
| "py_join sep [s] = s"
| "py_join sep (s # t # ts) = s @ sep @ py_join sep (t # ts)"

text \<open>Text between single quotes, as in a message.\<close>

definition squoted :: "string \<Rightarrow> string" where
  "squoted s = CHR 0x27 # s @ [CHR 0x27]"

lemma py_contains_iff: "py_contains pat s \<longleftrightarrow> (\<exists>u v. s = u @ pat @ v)"
proof (induction s)
  case Nil
  show ?case by auto
next
  case (Cons c s)
  show ?case
  proof
    assume "py_contains pat (c # s)"
    then consider "prefix pat (c # s)" | "py_contains pat s" by auto
    then show "\<exists>u v. c # s = u @ pat @ v"
    proof cases
      case 1
      then obtain v where "c # s = [] @ pat @ v" by (auto simp: prefix_def)
      then show ?thesis by blast
    next
      case 2
      then obtain u v where "c # s = (c # u) @ pat @ v" using Cons.IH by auto
      then show ?thesis by blast
    qed
  next
    assume "\<exists>u v. c # s = u @ pat @ v"
    then obtain u v where uv: "c # s = u @ pat @ v" by blast
    show "py_contains pat (c # s)"
    proof (cases u)
      case Nil
      then have "prefix pat (c # s)" using uv by (simp add: prefix_def)
      then show ?thesis by simp
    next
      case (Cons d u')
      then have "s = u' @ pat @ v" using uv by simp
      then show ?thesis using Cons.IH by auto
    qed
  qed
qed

lemma after_last_no_occurrence: "c \<notin> set (after_last c s)"
  by (auto simp: after_last_def dest: set_takeWhileD)

lemma after_last_append: "c \<notin> set t \<Longrightarrow> after_last c (s @ c # t) = t"
  by (simp add: after_last_def takeWhile_not_mem_append)

lemma rstrip_if_append_keep:
  "\<not> p c \<Longrightarrow> rstrip_if p (s @ [c]) = s @ [c]"
  by (simp add: rstrip_if_def)

lemma rstrip_if_last: "rstrip_if p s \<noteq> [] \<Longrightarrow> \<not> p (last (rstrip_if p s))"
  by (metis hd_dropWhile last_rev rev_is_Nil_conv rstrip_if_def)

lemma rstrip_if_prefix: "prefix (rstrip_if p s) s"
proof -
  have "rev s = takeWhile p (rev s) @ dropWhile p (rev s)" by simp
  then have "s = rev (dropWhile p (rev s)) @ rev (takeWhile p (rev s))"
    by (metis rev_append rev_rev_ident)
  then show ?thesis by (metis prefixI rstrip_if_def)
qed

lemma rstrip_if_idem: "rstrip_if p (rstrip_if p s) = rstrip_if p s"
  by (simp add: rstrip_if_def)

section \<open>Decimal numbers\<close>

text \<open>\<open>str(n)\<close> for a natural number and for an integer.\<close>

fun show_nat :: "nat \<Rightarrow> string" where
  "show_nat n = (if n < 10 then [digit_char n] else show_nat (n div 10) @ [digit_char (n mod 10)])"

declare show_nat.simps [simp del]

definition show_int :: "int \<Rightarrow> string" where
  "show_int i = (if i < 0 then CHR ''-'' # show_nat (nat (- i)) else show_nat (nat i))"

text \<open>Fixed width: the last \<open>k\<close> decimal digits of \<open>n\<close>, with leading zeros.\<close>

fun pad_nat :: "nat \<Rightarrow> nat \<Rightarrow> string" where
  "pad_nat 0 n = []"
| "pad_nat (Suc k) n = pad_nat k (n div 10) @ [digit_char (n mod 10)]"

text \<open>The value of a string of digits, read from the left.\<close>

fun digits_val :: "nat \<Rightarrow> string \<Rightarrow> nat" where
  "digits_val acc [] = acc"
| "digits_val acc (c # s) = digits_val (10 * acc + digit_val c) s"

lemma digits_val_append: "digits_val acc (s @ t) = digits_val (digits_val acc s) t"
  by (induction s arbitrary: acc) auto

lemma length_pad_nat [simp]: "length (pad_nat k n) = k"
  by (induction k arbitrary: n) auto

lemma all_digits_pad_nat [simp]: "list_all is_digit (pad_nat k n)"
  by (induction k arbitrary: n) auto

lemma digits_val_pad_nat [simp]: "n < 10 ^ k \<Longrightarrow> digits_val 0 (pad_nat k n) = n"
proof (induction k arbitrary: n)
  case 0
  then show ?case by simp
next
  case (Suc k)
  have "n div 10 < 10 ^ k" using Suc.prems by (simp add: less_mult_imp_div_less mult.commute)
  then show ?case using Suc.IH [of "n div 10"] by (simp add: digits_val_append)
qed

lemma pad_nat_inject: "m < 10 ^ k \<Longrightarrow> n < 10 ^ k \<Longrightarrow> pad_nat k m = pad_nat k n \<longleftrightarrow> m = n"
  by (metis digits_val_pad_nat)

lemma less_iff_div_mod_10:
  "(m::nat) < n \<longleftrightarrow> m div 10 < n div 10 \<or> (m div 10 = n div 10 \<and> m mod 10 < n mod 10)"
proof -
  have m: "m = 10 * (m div 10) + m mod 10" and n: "n = 10 * (n div 10) + n mod 10"
    and "m mod 10 < 10" and "n mod 10 < 10" by simp_all
  then show ?thesis
    by (cases "m div 10" "n div 10" rule: linorder_cases) linarith+
qed

text \<open>Zero-padded numbers of the same width compare as strings as they compare as numbers.\<close>

lemma pad_nat_less_iff:
  "m < 10 ^ k \<Longrightarrow> n < 10 ^ k \<Longrightarrow> pad_nat k m < pad_nat k n \<longleftrightarrow> m < n"
proof (induction k arbitrary: m n)
  case 0
  then show ?case by simp
next
  case (Suc k)
  have b: "m div 10 < 10 ^ k" "n div 10 < 10 ^ k"
    using Suc.prems by (simp_all add: less_mult_imp_div_less mult.commute)
  have "pad_nat (Suc k) m < pad_nat (Suc k) n \<longleftrightarrow>
      m div 10 < n div 10 \<or> (m div 10 = n div 10 \<and> m mod 10 < n mod 10)"
    using Suc.IH [OF b] b by (simp add: snoc_less_snoc_iff digit_char_less_iff pad_nat_inject)
  also have "\<dots> \<longleftrightarrow> m < n" by (rule less_iff_div_mod_10 [symmetric])
  finally show ?case .
qed

lemma all_digits_show_nat [simp]: "list_all is_digit (show_nat n)"
  by (induction n rule: show_nat.induct) (subst show_nat.simps, simp)

lemma show_nat_not_Nil [simp]: "show_nat n \<noteq> []"
  by (subst show_nat.simps) simp

lemma digits_val_show_nat [simp]: "digits_val 0 (show_nat n) = n"
proof (induction n rule: show_nat.induct)
  case (1 n)
  then show ?case by (subst show_nat.simps) (simp add: digits_val_append)
qed

text \<open>
  \<open>int(s)\<close>: surrounding white space, an optional sign, digits with single underscores between
  them; \<open>None\<close> where Python raises \<open>ValueError\<close>.
\<close>

fun read_digits :: "bool \<Rightarrow> nat \<Rightarrow> string \<Rightarrow> nat option" where
  "read_digits ok acc [] = (if ok then Some acc else None)"
| "read_digits ok acc (c # s) =
     (if is_digit c then read_digits True (10 * acc + digit_val c) s
      else if c = CHR ''_'' \<and> ok then read_digits False acc s
      else None)"

definition py_int :: "string \<Rightarrow> int option" where
  "py_int s =
     (case py_strip s of
        [] \<Rightarrow> None
      | c # t \<Rightarrow>
          if c = CHR ''-'' then map_option (\<lambda>n. - int n) (read_digits False 0 t)
          else if c = CHR ''+'' then map_option int (read_digits False 0 t)
          else map_option int (read_digits False 0 (c # t)))"

lemma read_digits_all:
  "list_all is_digit s \<Longrightarrow> s \<noteq> [] \<or> ok \<Longrightarrow> read_digits ok acc s = Some (digits_val acc s)"
  by (induction s arbitrary: ok acc) auto

lemma is_digit_not_space: "is_digit c \<Longrightarrow> \<not> is_space c"
  by (auto simp: is_digit_def is_space_def Let_def)

lemma dropWhile_none: "\<forall>c \<in> set s. \<not> p c \<Longrightarrow> dropWhile p s = s"
  by (induction s) auto

lemma py_strip_digits: "list_all is_digit s \<Longrightarrow> py_strip s = s"
proof -
  assume s: "list_all is_digit s"
  then have "dropWhile is_space s = s" and "dropWhile is_space (rev s) = rev s"
    by (auto simp: list_all_iff intro!: dropWhile_none dest: is_digit_not_space)
  then show ?thesis by (simp add: py_strip_def rstrip_if_def)
qed

lemma py_int_digits:
  assumes "list_all is_digit s" and "s \<noteq> []"
  shows "py_int s = Some (int (digits_val 0 s))"
proof -
  obtain c t where s: "s = c # t" using assms(2) by (cases s) auto
  have "c \<noteq> CHR ''-''" "c \<noteq> CHR ''+''"
    using assms(1) s by (auto simp: is_digit_def)
  moreover have "read_digits False 0 s = Some (digits_val 0 s)"
    using assms by (intro read_digits_all) auto
  ultimately show ?thesis
    using py_strip_digits [OF assms(1)] s by (simp add: py_int_def)
qed

lemma py_int_show_nat [simp]: "py_int (show_nat n) = Some (int n)"
  using py_int_digits [of "show_nat n"] by simp

lemma read_digits_bad_end:
  "\<not> is_digit c \<Longrightarrow> c \<noteq> CHR ''_'' \<Longrightarrow> read_digits ok acc (t @ [c]) = None"
  by (induction t arbitrary: ok acc) auto

lemma py_int_bad_end:
  assumes "\<not> is_digit c" and "c \<noteq> CHR ''_''" and "\<not> is_space c"
  shows "py_int (s @ [c]) = None"
proof -
  have strip: "py_strip (s @ [c]) = dropWhile is_space s @ [c]"
    using assms(3) by (auto simp: py_strip_def dropWhile_append rstrip_if_def)
  show ?thesis
  proof (cases "dropWhile is_space s")
    case Nil
    then have "py_strip (s @ [c]) = [c]" using strip by simp
    then show ?thesis using assms(1,2) by (simp add: py_int_def)
  next
    case (Cons d t)
    then have "py_strip (s @ [c]) = d # (t @ [c])" using strip by simp
    moreover have "read_digits False 0 (d # (t @ [c])) = None"
      using read_digits_bad_end [OF assms(1,2), of False 0 "d # t"] by simp
    ultimately show ?thesis
      using read_digits_bad_end [OF assms(1,2)] by (simp add: py_int_def del: read_digits.simps)
  qed
qed

text \<open>\<open>f"{n:020d}"\<close>.\<close>

definition fmt020d :: "int \<Rightarrow> string" where
  "fmt020d i =
     (if i < 0
      then (if - i < 10 ^ 19 then CHR ''-'' # pad_nat 19 (nat (- i)) else show_int i)
      else if i < 10 ^ 20 then pad_nat 20 (nat i) else show_int i)"

lemma fmt020d_less_iff:
  assumes "0 \<le> i" "i < 10 ^ 20" "0 \<le> j" "j < 10 ^ 20"
  shows "fmt020d i < fmt020d j \<longleftrightarrow> i < j"
proof -
  have "nat i < 10 ^ 20" "nat j < 10 ^ 20" using assms by auto
  then show ?thesis using assms by (auto simp: fmt020d_def pad_nat_less_iff)
qed

lemma fmt020d_eq_iff:
  assumes "0 \<le> i" "i < 10 ^ 20" "0 \<le> j" "j < 10 ^ 20"
  shows "fmt020d i = fmt020d j \<longleftrightarrow> i = j"
proof -
  have "nat i < 10 ^ 20" "nat j < 10 ^ 20" using assms by auto
  then show ?thesis using assms by (auto simp: fmt020d_def pad_nat_inject)
qed

end
