(* ===== verification/Py_Datetime.thy ===== *)
theory Py_Datetime
  imports Py_Text
begin

text \<open>
  The part of Python's \<open>datetime\<close> module the adapter uses. A \<open>datetime\<close> is its wall-clock time
  in microseconds since 1970-01-01 and its UTC offset in microseconds (\<open>None\<close> for a naive one);
  \<open>isoformat\<close> and \<open>fromisoformat\<close> convert it to and from the text stored in \<open>watermark.json\<close>,
  \<open>owner.json\<close> and the source records, in the format that Python 3.10 accepts. The main lemma is
  that \<open>fromisoformat\<close> inverts \<open>isoformat\<close>.
\<close>

section \<open>The proleptic Gregorian calendar\<close>

definition is_leap :: "int \<Rightarrow> bool" where
  "is_leap y \<longleftrightarrow> y mod 4 = 0 \<and> (y mod 100 \<noteq> 0 \<or> y mod 400 = 0)"

definition month_lengths :: "bool \<Rightarrow> int list" where
  "month_lengths leap = [31, if leap then 29 else 28, 31, 30, 31, 30, 31, 31, 30, 31, 30, 31]"

definition days_before_year :: "int \<Rightarrow> int" where
  "days_before_year y = (y - 1) * 365 + (y - 1) div 4 - (y - 1) div 100 + (y - 1) div 400"

text \<open>Ordinal of a date: 0001-01-01 is day 1. Months count from 1.\<close>

definition ymd2ord :: "int \<Rightarrow> nat \<Rightarrow> int \<Rightarrow> int" where
  "ymd2ord y m d = days_before_year y + sum_list (take (m - 1) (month_lengths (is_leap y))) + d"

fun find_month :: "int list \<Rightarrow> nat \<Rightarrow> int \<Rightarrow> nat \<times> int" where
  "find_month [] m r = (m, r + 1)"
| "find_month (l # ls) m r = (if r < l then (m, r + 1) else find_month ls (Suc m) (r - l))"

definition ord2ymd :: "int \<Rightarrow> int \<times> nat \<times> int" where
  "ord2ymd n =
     (let a = (n - 1) div 146097; r1 = (n - 1) mod 146097;
          b = r1 div 36524; r2 = r1 mod 36524;
          c = r2 div 1461; r3 = r2 mod 1461;
          e = r3 div 365; r4 = r3 mod 365;
          year = a * 400 + b * 100 + c * 4 + e + 1
      in if e = 4 \<or> b = 4 then (year - 1, 12, 31)
         else (year, find_month (month_lengths (is_leap year)) 1 r4))"

lemma find_month_sum:
  assumes "0 \<le> r" and "r < 365"
  shows "case find_month (month_lengths leap) 1 r of (m, d) \<Rightarrow>
    1 \<le> m \<and> m \<le> 12 \<and> 1 \<le> d \<and> d \<le> month_lengths leap ! (m - 1) \<and>
    sum_list (take (m - 1) (month_lengths leap)) + d = r + 1"
  using assms by (cases leap) (auto simp: month_lengths_def)

lemma div_eq_of_bounds: "(c::int) * q \<le> n \<Longrightarrow> n < c * q + c \<Longrightarrow> n div c = q"
  by (metis add.commute diff_add_cancel distrib_left int_div_pos_eq mult.commute le_add_diff_inverse
      diff_ge_0_iff_ge add_less_cancel_left)

lemma mod_eq_of_bounds: "(c::int) * q \<le> n \<Longrightarrow> n < c * q + c \<Longrightarrow> n mod c = n - c * q"
  using div_eq_of_bounds [of c q n] by (simp add: minus_mult_div_eq_mod [symmetric])

lemma ymd_of_parts:
  fixes a b c e :: int
  assumes "0 \<le> b" "b \<le> 3" "0 \<le> c" "c \<le> 24" "0 \<le> e" "e \<le> 3"
  defines "y \<equiv> a * 400 + b * 100 + c * 4 + e + 1"
  shows "days_before_year y = 146097 * a + 36524 * b + 1461 * c + 365 * e"
    and "is_leap y \<longleftrightarrow> e = 3 \<and> (c \<noteq> 24 \<or> b = 3)"
proof -
  have d4: "(y - 1) div 4 = 100 * a + 25 * b + c"
    unfolding y_def by (rule div_eq_of_bounds) (use assms in simp_all)
  have d100: "(y - 1) div 100 = 4 * a + b"
    unfolding y_def by (rule div_eq_of_bounds) (use assms in simp_all)
  have d400: "(y - 1) div 400 = a"
    unfolding y_def by (rule div_eq_of_bounds) (use assms in simp_all)
  show "days_before_year y = 146097 * a + 36524 * b + 1461 * c + 365 * e"
    unfolding days_before_year_def d4 d100 d400 by (simp add: y_def)
  show "is_leap y \<longleftrightarrow> e = 3 \<and> (c \<noteq> 24 \<or> b = 3)"
  proof (cases "e = 3")
    case False
    have "y mod 4 = e + 1"
      using mod_eq_of_bounds [of 4 "100 * a + 25 * b + c" y] False assms by (simp add: y_def)
    then show ?thesis using False assms by (simp add: is_leap_def)
  next
    case True
    have "y mod 4 = 0"
      using mod_eq_of_bounds [of 4 "100 * a + 25 * b + c + 1" y] True by (simp add: y_def)
    moreover have "y mod 100 = (if c = 24 then 0 else 4 * c + 4)"
      using mod_eq_of_bounds [of 100 "4 * a + b + (if c = 24 then 1 else 0)" y] True assms
      by (auto simp: y_def)
    moreover have "c = 24 \<Longrightarrow> y mod 400 = (if b = 3 then 0 else 100 * b + 100)"
      using mod_eq_of_bounds [of 400 "a + (if b = 3 then 1 else 0)" y] True assms
      by (auto simp: y_def)
    ultimately show ?thesis using True assms by (auto simp: is_leap_def)
  qed
qed

lemma days_before_year_last:
  fixes a b c :: int
  assumes "0 \<le> b" "b \<le> 3" "0 \<le> c" "c \<le> 24" "c \<noteq> 24 \<or> b = 3"
  shows "ymd2ord (a * 400 + b * 100 + c * 4 + 4) 12 31 = 146097 * a + 36524 * b + 1461 * c + 1461"
proof -
  have "is_leap (a * 400 + b * 100 + c * 4 + 4)"
    and "days_before_year (a * 400 + b * 100 + c * 4 + 4) = 146097 * a + 36524 * b + 1461 * c + 1095"
    using ymd_of_parts [of b c 3 a] assms by (simp_all add: algebra_simps)
  then show ?thesis by (simp add: ymd2ord_def month_lengths_def)
qed

text \<open>Converting an ordinal to a date and back is the identity, and the date is well formed.\<close>

definition ymd_ok :: "int \<times> nat \<times> int \<Rightarrow> bool" where
  "ymd_ok t \<longleftrightarrow> (case t of (y, m, d) \<Rightarrow>
     1 \<le> m \<and> m \<le> 12 \<and> 1 \<le> d \<and> d \<le> month_lengths (is_leap y) ! (m - 1))"

lemma ord2ymd_roundtrip:
  "(case ord2ymd n of (y, m, d) \<Rightarrow> ymd2ord y m d = n) \<and> ymd_ok (ord2ymd n)"
proof -
  define a where "a = (n - 1) div 146097"
  define r1 where "r1 = (n - 1) mod 146097"
  define b where "b = r1 div 36524"
  define r2 where "r2 = r1 mod 36524"
  define c where "c = r2 div 1461"
  define r3 where "r3 = r2 mod 1461"
  define e where "e = r3 div 365"
  define r4 where "r4 = r3 mod 365"
  define y where "y = a * 400 + b * 100 + c * 4 + e + 1"
  have n: "n - 1 = 146097 * a + r1" and r1: "r1 = 36524 * b + r2"
    and r2: "r2 = 1461 * c + r3" and r3: "r3 = 365 * e + r4"
    by (simp_all add: a_def r1_def b_def r2_def c_def r3_def e_def r4_def)
  have bnd: "0 \<le> r1" "r1 < 146097" "0 \<le> r2" "r2 < 36524" "0 \<le> r3" "r3 < 1461" "0 \<le> r4" "r4 < 365"
    by (simp_all add: r1_def r2_def r3_def r4_def)
  have pos: "0 \<le> b" "0 \<le> c" "0 \<le> e"
    using bnd by (simp_all add: b_def c_def e_def pos_imp_zdiv_nonneg_iff)
  have up: "b \<le> 4" "c \<le> 24" "e \<le> 4" using n r1 r2 r3 bnd by linarith+
  have o: "ord2ymd n = (if e = 4 \<or> b = 4 then (y - 1, 12, 31)
      else (y, find_month (month_lengths (is_leap y)) 1 r4))"
    by (simp add: ord2ymd_def Let_def a_def r1_def b_def r2_def c_def r3_def e_def r4_def y_def)
  consider "b = 4" | "e = 4" "b \<le> 3" | "e \<le> 3" "b \<le> 3" using up by linarith
  then show ?thesis
  proof cases
    case 1
    then have z: "c = 0" "e = 0" "r4 = 0" using n r1 r2 r3 bnd pos by linarith+
    have yy: "y - 1 = a * 400 + 3 * 100 + 24 * 4 + 4" using 1 z by (simp add: y_def)
    have "ymd2ord (y - 1) 12 31 = 146097 * a + 36524 * 3 + 1461 * 24 + 1461"
      unfolding yy by (rule days_before_year_last) simp_all
    moreover have "n = 146097 * a + 36524 * 3 + 1461 * 24 + 1461" using n r1 r2 r3 1 z by simp
    ultimately show ?thesis using o 1 by (simp add: ymd_ok_def month_lengths_def)
  next
    case 2
    then have z: "r4 = 0" "c \<noteq> 24" using r2 r3 bnd pos by linarith+
    have yy: "y - 1 = a * 400 + b * 100 + c * 4 + 4" using 2 by (simp add: y_def)
    have "ymd2ord (y - 1) 12 31 = 146097 * a + 36524 * b + 1461 * c + 1461"
      unfolding yy using 2 z pos up by (intro days_before_year_last) simp_all
    moreover have "n = 146097 * a + 36524 * b + 1461 * c + 1461" using n r1 r2 r3 2 z by simp
    ultimately show ?thesis using o 2 by (simp add: ymd_ok_def month_lengths_def)
  next
    case 3
    have dy: "days_before_year y = 146097 * a + 36524 * b + 1461 * c + 365 * e"
      unfolding y_def by (rule ymd_of_parts(1)) (use 3 pos up in simp_all)
    have m: "case find_month (month_lengths (is_leap y)) 1 r4 of (m, d) \<Rightarrow>
      1 \<le> m \<and> m \<le> 12 \<and> 1 \<le> d \<and> d \<le> month_lengths (is_leap y) ! (m - 1) \<and>
      sum_list (take (m - 1) (month_lengths (is_leap y))) + d = r4 + 1"
      by (rule find_month_sum) (use bnd in simp_all)
    have "ord2ymd n = (y, find_month (month_lengths (is_leap y)) 1 r4)" using o 3 by simp
    then show ?thesis
      using m dy n r1 r2 r3 by (auto simp: ymd2ord_def ymd_ok_def split: prod.splits)
  qed
qed

section \<open>Datetimes\<close>

record pydt =
  dt_wall :: int
  dt_offset :: "int option"

definition utc_dt :: "int \<Rightarrow> pydt" where
  "utc_dt t = \<lparr>dt_wall = t, dt_offset = Some 0\<rparr>"

text \<open>The instant an aware datetime denotes, in microseconds since the epoch.\<close>

definition instant :: "pydt \<Rightarrow> int" where
  "instant d = dt_wall d - (case dt_offset d of None \<Rightarrow> 0 | Some off \<Rightarrow> off)"

definition is_aware :: "pydt \<Rightarrow> bool" where
  "is_aware d \<longleftrightarrow> dt_offset d \<noteq> None"

lemma instant_utc_dt [simp]: "instant (utc_dt t) = t"
  by (simp add: instant_def utc_dt_def)

lemma is_aware_utc_dt [simp]: "is_aware (utc_dt t)"
  by (simp add: is_aware_def utc_dt_def)

lemma dt_offset_utc_dt [simp]: "dt_offset (utc_dt t) = Some 0"
  by (simp add: utc_dt_def)

text \<open>\<open>datetime.fromtimestamp(ms / 1000, tz=timezone.utc)\<close>; milliseconds are whole microseconds.\<close>

definition of_epoch_ms :: "int \<Rightarrow> int" where
  "of_epoch_ms ms = ms * 1000"

text \<open>\<open>int(dt.timestamp() * 1000)\<close> truncates toward zero; \<open>round\<close> goes to the nearest even.\<close>

definition epoch_ms_trunc :: "int \<Rightarrow> int" where
  "epoch_ms_trunc t = (if 0 \<le> t then t div 1000 else - ((- t) div 1000))"

definition epoch_ms_round :: "int \<Rightarrow> int" where
  "epoch_ms_round t =
     (let q = t div 1000; r = t mod 1000
      in if r < 500 then q else if r > 500 then q + 1 else if even q then q else q + 1)"

lemma epoch_ms_trunc_of_epoch_ms [simp]: "epoch_ms_trunc (of_epoch_ms ms) = ms"
  by (auto simp: epoch_ms_trunc_def of_epoch_ms_def)

lemma epoch_ms_round_of_epoch_ms [simp]: "epoch_ms_round (of_epoch_ms ms) = ms"
  by (simp add: epoch_ms_round_def of_epoch_ms_def)

abbreviation us_per_day :: int where
  "us_per_day \<equiv> 86400000000"

abbreviation epoch_ordinal :: int where
  "epoch_ordinal \<equiv> 719163"

text \<open>Representable datetimes: years 1 to 9999, offsets of less than a day.\<close>

definition dt_ok :: "pydt \<Rightarrow> bool" where
  "dt_ok d \<longleftrightarrow>
     (case ord2ymd (dt_wall d div us_per_day + epoch_ordinal) of (y, m, dd) \<Rightarrow> 1 \<le> y \<and> y \<le> 9999) \<and>
     (case dt_offset d of None \<Rightarrow> True | Some off \<Rightarrow> - us_per_day < off \<and> off < us_per_day)"

section \<open>ISO 8601 text\<close>

text \<open>\<open>HH:MM[:SS[.ffffff]]\<close>; \<open>secs\<close> forces the seconds, as the time of day has them and an offset need not.\<close>

definition fmt_hms :: "bool \<Rightarrow> nat \<Rightarrow> string" where
  "fmt_hms secs t =
     (let us = t mod 1000000; s = t div 1000000 mod 60; m = t div 60000000 mod 60; h = t div 3600000000
      in pad_nat 2 h @ CHR '':'' # pad_nat 2 m @
         (if secs \<or> s \<noteq> 0 \<or> us \<noteq> 0
          then CHR '':'' # pad_nat 2 s @ (if us \<noteq> 0 then CHR ''.'' # pad_nat 6 us else [])
          else []))"

definition fmt_offset :: "int option \<Rightarrow> string" where
  "fmt_offset off =
     (case off of None \<Rightarrow> []
      | Some z \<Rightarrow> (if z < 0 then CHR ''-'' else CHR ''+'') # fmt_hms False (nat \<bar>z\<bar>))"

definition isoformat :: "pydt \<Rightarrow> string" where
  "isoformat d =
     (case ord2ymd (dt_wall d div us_per_day + epoch_ordinal) of (y, m, dd) \<Rightarrow>
        pad_nat 4 (nat y) @ CHR ''-'' # pad_nat 2 m @ CHR ''-'' # pad_nat 2 (nat dd) @
        CHR ''T'' # fmt_hms True (nat (dt_wall d mod us_per_day)) @ fmt_offset (dt_offset d))"

definition take_digits :: "nat \<Rightarrow> string \<Rightarrow> (nat \<times> string) option" where
  "take_digits k s =
     (if k \<le> length s \<and> list_all is_digit (take k s) then Some (digits_val 0 (take k s), drop k s) else None)"

definition expect :: "char \<Rightarrow> string \<Rightarrow> string option" where
  "expect c s = (case s of [] \<Rightarrow> None | x # t \<Rightarrow> if x = c then Some t else None)"

text \<open>Fraction of a second: three or six digits and nothing after them.\<close>

definition parse_fraction :: "string \<Rightarrow> nat option" where
  "parse_fraction s =
     (if list_all is_digit s then
        (if length s = 3 then Some (digits_val 0 s * 1000)
         else if length s = 6 then Some (digits_val 0 s) else None)
      else None)"

text \<open>\<open>HH[:MM[:SS[.fff[fff]]]]\<close> as hours, minutes, seconds and microseconds.\<close>

definition parse_hms :: "string \<Rightarrow> (nat \<times> nat \<times> nat \<times> nat) option" where
  "parse_hms s0 =
     Option.bind (take_digits 2 s0) (\<lambda>(h, s1).
       if s1 = [] then Some (h, 0, 0, 0) else
     Option.bind (expect (CHR '':'') s1) (\<lambda>s2.
     Option.bind (take_digits 2 s2) (\<lambda>(m, s3).
       if s3 = [] then Some (h, m, 0, 0) else
     Option.bind (expect (CHR '':'') s3) (\<lambda>s4.
     Option.bind (take_digits 2 s4) (\<lambda>(s, s5).
       if s5 = [] then Some (h, m, s, 0) else
     Option.bind (expect (CHR ''.'') s5) (\<lambda>s6.
     Option.bind (parse_fraction s6) (\<lambda>us. Some (h, m, s, us))))))))"

definition hms_us :: "nat \<times> nat \<times> nat \<times> nat \<Rightarrow> int" where
  "hms_us t = (case t of (h, m, s, us) \<Rightarrow>
     int h * 3600000000 + int m * 60000000 + int s * 1000000 + int us)"

definition is_sign :: "char \<Rightarrow> bool" where
  "is_sign c \<longleftrightarrow> c = CHR ''+'' \<or> c = CHR ''-''"

definition parse_offset :: "string \<Rightarrow> int option option" where
  "parse_offset s =
     (case s of [] \<Rightarrow> Some None
      | c # t \<Rightarrow>
          Option.bind (parse_hms t) (\<lambda>p.
            (let off = (if c = CHR ''-'' then - hms_us p else hms_us p)
             in if - us_per_day < off \<and> off < us_per_day then Some (Some off) else None)))"

definition parse_time :: "string \<Rightarrow> (int \<times> int option) option" where
  "parse_time s =
     Option.bind (parse_hms (takeWhile (\<lambda>c. \<not> is_sign c) s)) (\<lambda>(h, m, sec, us).
     Option.bind (parse_offset (dropWhile (\<lambda>c. \<not> is_sign c) s)) (\<lambda>off.
       if h < 24 \<and> m < 60 \<and> sec < 60 then Some (hms_us (h, m, sec, us), off) else None))"

definition parse_date :: "string \<Rightarrow> (int \<times> string) option" where
  "parse_date s0 =
     Option.bind (take_digits 4 s0) (\<lambda>(y, s1).
     Option.bind (expect (CHR ''-'') s1) (\<lambda>s2.
     Option.bind (take_digits 2 s2) (\<lambda>(m, s3).
     Option.bind (expect (CHR ''-'') s3) (\<lambda>s4.
     Option.bind (take_digits 2 s4) (\<lambda>(d, s5).
       if 1 \<le> y \<and> ymd_ok (int y, m, int d) then Some (ymd2ord (int y) m (int d), s5) else None)))))"

definition fromisoformat :: "string \<Rightarrow> pyexn + pydt" where
  "fromisoformat s =
     (let r = Option.bind (parse_date s) (\<lambda>(n, rest).
          (let midnight = (n - epoch_ordinal) * us_per_day
           in case rest of [] \<Rightarrow> Some \<lparr>dt_wall = midnight, dt_offset = None\<rparr>
              | sep # t \<Rightarrow> map_option (\<lambda>(tod, off). \<lparr>dt_wall = midnight + tod, dt_offset = off\<rparr>) (parse_time t)))
      in case r of Some d \<Rightarrow> Inr d
         | None \<Rightarrow> Inl (PyExn ValueErr (''Invalid isoformat string: '' @ s)))"

subsection \<open>Parsing what was printed\<close>

lemma take_digits_pad_nat [simp]:
  "n < 10 ^ k \<Longrightarrow> take_digits k (pad_nat k n @ s) = Some (n, s)"
  by (simp add: take_digits_def)

lemma take_digits_pad_nat_only [simp]:
  "n < 10 ^ k \<Longrightarrow> take_digits k (pad_nat k n) = Some (n, [])"
  using take_digits_pad_nat [of n k "[]"] by simp

lemma expect_Cons [simp]: "expect c (c # s) = Some s"
  by (simp add: expect_def)

lemma parse_fraction_pad [simp]: "us < 1000000 \<Longrightarrow> parse_fraction (pad_nat 6 us) = Some us"
  by (simp add: parse_fraction_def)

lemma fmt_hms_parts:
  fixes t :: nat
  assumes "t < 360000000000"
  shows "t div 3600000000 < 10 ^ 2" "t div 60000000 mod 60 < 10 ^ 2" "t div 1000000 mod 60 < 10 ^ 2"
    "t mod 1000000 < 1000000"
  using assms by (auto intro: order_less_trans [OF mod_less_divisor])

lemma parse_hms_fmt_hms:
  assumes "t < 360000000000"
  shows "parse_hms (fmt_hms secs t) =
    Some (t div 3600000000, t div 60000000 mod 60, t div 1000000 mod 60, t mod 1000000)"
  using fmt_hms_parts [OF assms] by (auto simp: parse_hms_def fmt_hms_def Let_def)

lemma hms_us_split:
  "hms_us (t div 3600000000, t div 60000000 mod 60, t div 1000000 mod 60, t mod 1000000) = int t"
proof -
  define q1 where "q1 = t div 1000000"
  define q2 where "q2 = t div 60000000"
  define q3 where "q3 = t div 3600000000"
  define us where "us = t mod 1000000"
  have "q1 div 60 = q2" "q2 div 60 = q3" by (simp_all add: q1_def q2_def q3_def div_mult2_eq [symmetric])
  then have "q2 * 60 + q1 mod 60 = q1" "q3 * 60 + q2 mod 60 = q2"
    using div_mult_mod_eq [of q1 60] div_mult_mod_eq [of q2 60] by simp_all
  moreover have "q1 * 1000000 + us = t" by (simp add: q1_def us_def)
  ultimately have "q3 * 3600000000 + q2 mod 60 * 60000000 + q1 mod 60 * 1000000 + us = t" by linarith
  then have "int q3 * 3600000000 + int (q2 mod 60) * 60000000 + int (q1 mod 60) * 1000000 + int us = int t"
    by linarith
  then show ?thesis by (simp only: hms_us_def prod.case q1_def q2_def q3_def us_def)
qed

lemma list_all_pad_not_sign: "list_all (\<lambda>c. \<not> is_sign c) (pad_nat k n)"
proof -
  have "is_digit c \<Longrightarrow> \<not> is_sign c" for c by (auto simp: is_digit_def is_sign_def)
  then show ?thesis using all_digits_pad_nat [of k n] by (auto simp: list_all_iff)
qed

lemma fmt_hms_no_sign: "list_all (\<lambda>c. \<not> is_sign c) (fmt_hms secs t)"
  using list_all_pad_not_sign by (simp add: fmt_hms_def Let_def is_sign_def)

lemma parse_hms_printed:
  assumes "t < 360000000000"
  obtains h m s us where "parse_hms (fmt_hms secs t) = Some (h, m, s, us)"
    and "hms_us (h, m, s, us) = int t" and "t < 86400000000 \<Longrightarrow> h < 24" and "m < 60" and "s < 60"
proof (rule that [OF parse_hms_fmt_hms [OF assms] hms_us_split])
  show "t < 86400000000 \<Longrightarrow> t div 3600000000 < 24" by (simp add: less_mult_imp_div_less)
qed simp_all

lemma parse_offset_fmt_offset:
  assumes "case off of None \<Rightarrow> True | Some z \<Rightarrow> - us_per_day < z \<and> z < us_per_day"
  shows "parse_offset (fmt_offset off) = Some off"
proof (cases off)
  case None
  then show ?thesis by (simp add: parse_offset_def fmt_offset_def)
next
  case (Some z)
  define t where "t = nat \<bar>z\<bar>"
  have t: "int t = \<bar>z\<bar>" by (simp add: t_def)
  have z: "- us_per_day < z" "z < us_per_day" using Some assms by simp_all
  then have "t < 360000000000" using t by linarith
  then obtain h m s us where "parse_hms (fmt_hms False t) = Some (h, m, s, us)"
    and "hms_us (h, m, s, us) = int t"
    by (rule parse_hms_printed)
  then show ?thesis
    using Some z t by (simp add: parse_offset_def fmt_offset_def t_def [symmetric])
qed

lemma takeWhile_fmt_hms [simp]:
  "takeWhile (\<lambda>c. \<not> is_sign c) (fmt_hms secs t @ fmt_offset off) = fmt_hms secs t"
proof -
  have "\<And>x. x \<in> set (fmt_hms secs t) \<Longrightarrow> \<not> is_sign x"
    using fmt_hms_no_sign [of secs t] by (auto simp: list_all_iff)
  then show ?thesis
    by (simp add: takeWhile_append2 fmt_offset_def is_sign_def split: option.splits)
qed

lemma dropWhile_fmt_hms [simp]:
  "dropWhile (\<lambda>c. \<not> is_sign c) (fmt_hms secs t @ fmt_offset off) = fmt_offset off"
proof -
  have "\<And>x. x \<in> set (fmt_hms secs t) \<Longrightarrow> \<not> is_sign x"
    using fmt_hms_no_sign [of secs t] by (auto simp: list_all_iff)
  then show ?thesis
    by (simp add: dropWhile_append2 fmt_offset_def is_sign_def split: option.splits)
qed

lemma parse_time_fmt:
  assumes "t < 86400000000"
    and "case off of None \<Rightarrow> True | Some z \<Rightarrow> - us_per_day < z \<and> z < us_per_day"
  shows "parse_time (fmt_hms True t @ fmt_offset off) = Some (int t, off)"
proof -
  have "t < 360000000000" using assms(1) by simp
  then obtain h m s us where "parse_hms (fmt_hms True t) = Some (h, m, s, us)"
    and "hms_us (h, m, s, us) = int t" "h < 24" "m < 60" "s < 60"
    using assms(1) by (metis parse_hms_printed)
  then show ?thesis
    by (simp add: parse_time_def parse_offset_fmt_offset [OF assms(2)])
qed

lemma parse_date_fmt:
  assumes "ord2ymd n = (y, m, d)" and "1 \<le> y" and "y \<le> 9999"
  shows "parse_date (pad_nat 4 (nat y) @ CHR ''-'' # pad_nat 2 m @ CHR ''-'' # pad_nat 2 (nat d) @ s) =
    Some (n, s)"
proof -
  have ok: "ymd_ok (y, m, d)" and n: "ymd2ord y m d = n"
    using ord2ymd_roundtrip [of n] assms(1) by auto
  have m: "m \<le> 12" "1 \<le> m" and d: "1 \<le> d" "d \<le> month_lengths (is_leap y) ! (m - 1)"
    using ok by (auto simp: ymd_ok_def)
  have "\<forall>l \<in> set (month_lengths (is_leap y)). l \<le> 31" by (simp add: month_lengths_def)
  moreover have "m - 1 < length (month_lengths (is_leap y))" using m by (simp add: month_lengths_def)
  ultimately have "d \<le> 31" using d nth_mem order_trans by blast
  then have "nat y < 10 ^ 4" "m < 10 ^ 2" "nat d < 10 ^ 2" using assms m by auto
  then show ?thesis using ok n assms(2) d by (simp add: parse_date_def)
qed

text \<open>\<open>datetime.fromisoformat(d.isoformat()) == d\<close>.\<close>

lemma fromisoformat_isoformat:
  assumes "dt_ok d"
  shows "fromisoformat (isoformat d) = Inr d"
proof -
  obtain y m dd where o: "ord2ymd (dt_wall d div us_per_day + epoch_ordinal) = (y, m, dd)"
    by (metis prod_cases3)
  have y: "1 \<le> y" "y \<le> 9999"
    and off: "case dt_offset d of None \<Rightarrow> True | Some z \<Rightarrow> - us_per_day < z \<and> z < us_per_day"
    using assms o by (simp_all add: dt_ok_def)
  define t where "t = nat (dt_wall d mod us_per_day)"
  have t: "int t = dt_wall d mod us_per_day" by (simp add: t_def)
  then have "t < 86400000000" using pos_mod_bound [of us_per_day "dt_wall d"] by linarith
  then have "parse_time (fmt_hms True t @ fmt_offset (dt_offset d)) = Some (int t, dt_offset d)"
    using off by (rule parse_time_fmt)
  moreover have "dt_wall d div us_per_day * us_per_day + int t = dt_wall d"
    unfolding t by (rule div_mult_mod_eq)
  ultimately show ?thesis
    using parse_date_fmt [OF o y]
    by (simp add: fromisoformat_def isoformat_def o Let_def t_def [symmetric])
qed

lemma fromisoformat_isoformat_utc [simp]:
  "dt_ok (utc_dt t) \<Longrightarrow> fromisoformat (isoformat (utc_dt t)) = Inr (utc_dt t)"
  by (rule fromisoformat_isoformat)

lemma isoformat_not_Nil [simp]: "isoformat d \<noteq> []"
  by (auto simp: isoformat_def split: prod.splits)

lemma isoformat_inject:
  "dt_ok d \<Longrightarrow> dt_ok d' \<Longrightarrow> isoformat d = isoformat d' \<longleftrightarrow> d = d'"
  by (metis Inr_inject fromisoformat_isoformat)

lemma fromisoformat_raises_ValueError: "fromisoformat s = Inl e \<Longrightarrow> exn_class e = ValueErr"
  by (auto simp: fromisoformat_def Let_def split: option.splits)

end
