(* ===== verification/Checkpoint_Records.thy ===== *)
theory Checkpoint_Records
  imports Py_Datetime
begin

text \<open>
  The records that \<open>dbt/adapters/scope/checkpoint.py\<close> keeps under \<open>_checkpoint/\<close>: \<open>Watermark\<close>,
  \<open>PendingBatch\<close> and \<open>TableOwner\<close>, with their conversions to and from JSON. JSON text is
  represented by the value \<open>json.loads\<close> makes of it (\<open>Doc\<close>), or by \<open>Malformed\<close> when it raises
  \<open>JSONDecodeError\<close>, a \<open>ValueError\<close>. The lemmas show the round trips, that a valid
  \<open>owner.json\<close> is the only thing \<open>TableOwner.from_json\<close> accepts, and that runs are totally
  ranked.
\<close>

section \<open>JSON values\<close>

datatype json =
    JNull
  | JBool bool
  | JInt int
  | JStr string
  | JList "json list"
  | JDict "(string \<times> json) list"

datatype doc = Malformed | Doc json

definition json_loads :: "doc \<Rightarrow> pyexn + json" where
  "json_loads d = (case d of Malformed \<Rightarrow> Inl (PyExn ValueErr ''JSONDecodeError'') | Doc v \<Rightarrow> Inr v)"

text \<open>Truth value of a JSON value, as \<open>if v\<close> tests it.\<close>

fun jtruthy :: "json \<Rightarrow> bool" where
  "jtruthy JNull = False"
| "jtruthy (JBool b) = b"
| "jtruthy (JInt i) = (i \<noteq> 0)"
| "jtruthy (JStr s) = (s \<noteq> [])"
| "jtruthy (JList xs) = (xs \<noteq> [])"
| "jtruthy (JDict m) = (m \<noteq> [])"

text \<open>\<open>data.get(...)\<close> needs a dict; \<open>data[key]\<close> raises \<open>KeyError\<close> or, on another type, \<open>TypeError\<close>.\<close>

fun jattr_dict :: "json \<Rightarrow> pyexn + (string \<times> json) list" where
  "jattr_dict (JDict m) = Inr m"
| "jattr_dict _ = Inl (PyExn AttributeErr ''object has no attribute get'')"

definition dget :: "(string \<times> json) list \<Rightarrow> string \<Rightarrow> json \<Rightarrow> json" where
  "dget m k d = (case map_of m k of None \<Rightarrow> d | Some v \<Rightarrow> v)"

fun jindex :: "json \<Rightarrow> string \<Rightarrow> pyexn + json" where
  "jindex (JDict m) k = (case map_of m k of None \<Rightarrow> Inl (PyExn KeyErr k) | Some v \<Rightarrow> Inr v)"
| "jindex _ k = Inl (PyExn TypeErr k)"

text \<open>\<open>int(v)\<close>.\<close>

fun jint :: "json \<Rightarrow> pyexn + int" where
  "jint (JInt i) = Inr i"
| "jint (JBool b) = Inr (if b then 1 else 0)"
| "jint (JStr s) = (case py_int s of None \<Rightarrow> Inl (PyExn ValueErr s) | Some i \<Rightarrow> Inr i)"
| "jint _ = Inl (PyExn TypeErr ''int()'')"

text \<open>
  A value stored in a field annotated \<open>int\<close>, \<open>str\<close> or \<open>int | None\<close>. The dataclasses do not check
  their fields; a document with another type there makes the model raise \<open>TypeError\<close> when it is
  read instead of at the field's first use.
\<close>

fun field_int :: "json \<Rightarrow> pyexn + int" where
  "field_int (JInt i) = Inr i"
| "field_int (JBool b) = Inr (if b then 1 else 0)"
| "field_int _ = Inl (PyExn TypeErr ''not an int'')"

fun field_str :: "json \<Rightarrow> pyexn + string" where
  "field_str (JStr s) = Inr s"
| "field_str _ = Inl (PyExn TypeErr ''not a str'')"

fun field_int_opt :: "json \<Rightarrow> pyexn + int option" where
  "field_int_opt JNull = Inr None"
| "field_int_opt v = bindE (field_int v) (\<lambda>i. Inr (Some i))"

text \<open>\<open>str(v)\<close>; strings inside a list or dict are taken to need no escaping.\<close>

fun jrepr :: "json \<Rightarrow> string" where
  "jrepr JNull = ''None''"
| "jrepr (JBool b) = (if b then ''True'' else ''False'')"
| "jrepr (JInt i) = show_int i"
| "jrepr (JStr s) = CHR 0x27 # s @ [CHR 0x27]"
| "jrepr (JList xs) = CHR ''['' # py_join '', '' (map jrepr xs) @ '']''"
| "jrepr (JDict m) =
     CHR ''{'' # py_join '', '' (map (\<lambda>(k, v). CHR 0x27 # k @ CHR 0x27 # '': '' @ jrepr v) m) @ ''}''"

fun jstr :: "json \<Rightarrow> string" where
  "jstr (JStr s) = s"
| "jstr v = jrepr v"

section \<open>Watermark\<close>

record watermark =
  wm_version :: int
  wm_modified_time :: string
  wm_batch_id :: int
  wm_delta_version :: "int option"

text \<open>\<open>Watermark(modified_time=...)\<close> with the dataclass defaults for the other fields.\<close>

definition watermark_at :: "string \<Rightarrow> watermark" where
  "watermark_at t = \<lparr>wm_version = 0, wm_modified_time = t, wm_batch_id = 0, wm_delta_version = None\<rparr>"

definition modified_time_dt :: "watermark \<Rightarrow> pyexn + pydt option" where
  "modified_time_dt w =
     (if wm_modified_time w = [] then Inr None
      else bindE (fromisoformat (wm_modified_time w)) (\<lambda>d. Inr (Some d)))"

definition same_position :: "watermark \<Rightarrow> watermark option \<Rightarrow> bool" where
  "same_position w other =
     (case other of None \<Rightarrow> False
      | Some v \<Rightarrow> wm_version w = wm_version v \<and> wm_modified_time w = wm_modified_time v \<and>
                  wm_batch_id w = wm_batch_id v)"

definition watermark_to_dict :: "watermark \<Rightarrow> json" where
  "watermark_to_dict w = JDict
     ([(''version'', JInt (wm_version w)), (''modifiedTime'', JStr (wm_modified_time w)),
       (''batchId'', JInt (wm_batch_id w))] @
      (case wm_delta_version w of None \<Rightarrow> [] | Some v \<Rightarrow> [(''deltaVersion'', JInt v)]))"

definition watermark_from_dict :: "json \<Rightarrow> pyexn + watermark" where
  "watermark_from_dict data =
     bindE (jattr_dict data) (\<lambda>m.
     bindE (field_int (dget m ''version'' (JInt 0))) (\<lambda>version.
     bindE (field_str (dget m ''modifiedTime'' (JStr []))) (\<lambda>modified_time.
     bindE (field_int (dget m ''batchId'' (JInt 0))) (\<lambda>batch_id.
     bindE (field_int_opt (dget m ''deltaVersion'' JNull)) (\<lambda>delta_version.
       Inr \<lparr>wm_version = version, wm_modified_time = modified_time, wm_batch_id = batch_id,
            wm_delta_version = delta_version\<rparr>)))))"

definition watermark_from_json :: "doc \<Rightarrow> pyexn + watermark" where
  "watermark_from_json raw = bindE (json_loads raw) watermark_from_dict"

definition watermark_to_json :: "watermark \<Rightarrow> doc" where
  "watermark_to_json w = Doc (watermark_to_dict w)"

lemma watermark_from_dict_to_dict [simp]: "watermark_from_dict (watermark_to_dict w) = Inr w"
  by (cases "wm_delta_version w") (simp_all add: watermark_to_dict_def watermark_from_dict_def dget_def)

lemma watermark_json_roundtrip_lemma [simp]: "watermark_from_json (watermark_to_json w) = Inr w"
  by (simp add: watermark_from_json_def watermark_to_json_def json_loads_def)

lemma same_position_refl [simp]: "same_position w (Some w)"
  by (simp add: same_position_def)

lemma same_position_delta_version [simp]:
  "same_position w (Some (w\<lparr>wm_delta_version := v\<rparr>))"
  by (simp add: same_position_def)

lemma modified_time_dt_isoformat [simp]:
  "wm_modified_time w = isoformat (utc_dt t) \<Longrightarrow> dt_ok (utc_dt t) \<Longrightarrow>
    modified_time_dt w = Inr (Some (utc_dt t))"
  by (simp add: modified_time_dt_def)

section \<open>PendingBatch\<close>

definition pending_schema_version :: int where
  "pending_schema_version = 1"

record pending_batch =
  pb_token :: string
  pb_batch_id :: int
  pb_run_id :: string
  pb_job_name :: string
  pb_files :: "(string \<times> int) list"
  pb_watermark_before :: "watermark option"
  pb_delta_version_before :: int
  pb_created_at :: string
  pb_schema_version :: int

definition applies_to :: "pending_batch \<Rightarrow> watermark option \<Rightarrow> bool" where
  "applies_to p w =
     (case pb_watermark_before p of None \<Rightarrow> w = None | Some wb \<Rightarrow> same_position wb w)"

definition pending_file_paths :: "pending_batch \<Rightarrow> string list" where
  "pending_file_paths p = map fst (pb_files p)"

definition pending_modification_times :: "pending_batch \<Rightarrow> int list" where
  "pending_modification_times p = map (\<lambda>f. of_epoch_ms (snd f)) (pb_files p)"

definition pending_to_json :: "pending_batch \<Rightarrow> doc" where
  "pending_to_json p = Doc (JDict
     [(''schemaVersion'', JInt (pb_schema_version p)),
      (''batchId'', JInt (pb_batch_id p)),
      (''token'', JStr (pb_token p)),
      (''runId'', JStr (pb_run_id p)),
      (''jobName'', JStr (pb_job_name p)),
      (''files'', JList (map (\<lambda>(path, ms). JDict [(''path'', JStr path), (''modificationTime'', JInt ms)])
         (pb_files p))),
      (''watermarkBefore'',
        (case pb_watermark_before p of None \<Rightarrow> JNull | Some w \<Rightarrow> watermark_to_dict w)),
      (''deltaVersionBefore'', JInt (pb_delta_version_before p)),
      (''createdAt'', JStr (pb_created_at p))])"

definition pending_file_from_json :: "json \<Rightarrow> pyexn + string \<times> int" where
  "pending_file_from_json f =
     bindE (jindex f ''path'') (\<lambda>p.
     bindE (field_str p) (\<lambda>path.
     bindE (jindex f ''modificationTime'') (\<lambda>t.
     bindE (jint t) (\<lambda>ms. Inr (path, ms)))))"

fun jiter :: "json \<Rightarrow> pyexn + json list" where
  "jiter (JList xs) = Inr xs"
| "jiter (JDict m) = Inr (map (\<lambda>(k, _). JStr k) m)"
| "jiter (JStr s) = Inr (map (\<lambda>c. JStr [c]) s)"
| "jiter _ = Inl (PyExn TypeErr ''object is not iterable'')"

definition pending_from_json :: "doc \<Rightarrow> pyexn + pending_batch" where
  "pending_from_json raw =
     bindE (json_loads raw) (\<lambda>data.
     bindE (jattr_dict data) (\<lambda>m.
     bindE (jindex data ''token'') (\<lambda>tok.
     bindE (field_str tok) (\<lambda>token.
     bindE (field_int (dget m ''batchId'' (JInt 0))) (\<lambda>batch_id.
     bindE (field_str (dget m ''runId'' (JStr []))) (\<lambda>run_id.
     bindE (field_str (dget m ''jobName'' (JStr []))) (\<lambda>job_name.
     bindE (jiter (dget m ''files'' (JList []))) (\<lambda>fs.
     bindE (mapE pending_file_from_json fs) (\<lambda>files.
     bindE (let wb = dget m ''watermarkBefore'' JNull
            in if jtruthy wb then bindE (watermark_from_dict wb) (\<lambda>w. Inr (Some w)) else Inr None)
       (\<lambda>watermark_before.
     bindE (jint (dget m ''deltaVersionBefore'' (JInt (-1)))) (\<lambda>delta_version_before.
     bindE (field_str (dget m ''createdAt'' (JStr []))) (\<lambda>created_at.
     bindE (field_int (dget m ''schemaVersion'' (JInt pending_schema_version))) (\<lambda>schema_version.
       Inr \<lparr>pb_token = token, pb_batch_id = batch_id, pb_run_id = run_id, pb_job_name = job_name,
            pb_files = files, pb_watermark_before = watermark_before,
            pb_delta_version_before = delta_version_before, pb_created_at = created_at,
            pb_schema_version = schema_version\<rparr>)))))))))))))"

lemma pending_files_roundtrip:
  "mapE pending_file_from_json
     (map (\<lambda>(path, ms). JDict [(''path'', JStr path), (''modificationTime'', JInt ms)]) fs) = Inr fs"
  by (induction fs) (auto simp: pending_file_from_json_def)

lemma jtruthy_watermark_to_dict [simp]: "jtruthy (watermark_to_dict w)"
  by (simp add: watermark_to_dict_def)

lemma pending_json_roundtrip_lemma [simp]: "pending_from_json (pending_to_json p) = Inr p"
  by (cases "pb_watermark_before p")
     (simp_all add: pending_from_json_def pending_to_json_def json_loads_def dget_def pending_files_roundtrip)

section \<open>TableOwner\<close>

record table_owner =
  own_run_id :: string
  own_run_started_at :: pydt

text \<open>Runs are ranked by start time, then run ID, as the tuple comparison of \<open>outranks\<close> does.\<close>

datatype run_rank = RunRank (rank_started: int) (rank_run: string)

instantiation run_rank :: linorder
begin

definition less_run_rank :: "run_rank \<Rightarrow> run_rank \<Rightarrow> bool" where
  "a < b \<longleftrightarrow> rank_started a < rank_started b \<or>
     (rank_started a = rank_started b \<and> rank_run a < rank_run b)"

definition less_eq_run_rank :: "run_rank \<Rightarrow> run_rank \<Rightarrow> bool" where
  "a \<le> b \<longleftrightarrow> rank_started a < rank_started b \<or>
     (rank_started a = rank_started b \<and> rank_run a \<le> rank_run b)"

instance
  by intro_classes (auto simp: less_run_rank_def less_eq_run_rank_def run_rank.expand)

end

definition owner_rank :: "table_owner \<Rightarrow> run_rank" where
  "owner_rank o1 = RunRank (instant (own_run_started_at o1)) (own_run_id o1)"

definition outranks :: "table_owner \<Rightarrow> table_owner \<Rightarrow> bool" where
  "outranks self other \<longleftrightarrow> owner_rank other < owner_rank self"

text \<open>Dataclass equality: aware datetimes are equal when they denote the same instant.\<close>

definition owner_eq :: "table_owner \<Rightarrow> table_owner \<Rightarrow> bool" where
  "owner_eq a b \<longleftrightarrow> own_run_id a = own_run_id b \<and>
     instant (own_run_started_at a) = instant (own_run_started_at b)"

definition owner_to_json :: "table_owner \<Rightarrow> doc" where
  "owner_to_json o1 = Doc (JDict
     [(''runId'', JStr (own_run_id o1)), (''runStartedAt'', JStr (isoformat (own_run_started_at o1)))])"

fun jfromisoformat :: "json \<Rightarrow> pyexn + pydt" where
  "jfromisoformat (JStr s) = fromisoformat s"
| "jfromisoformat _ = Inl (PyExn TypeErr ''fromisoformat: argument must be str'')"

definition owner_record :: "doc \<Rightarrow> pyexn + table_owner" where
  "owner_record raw =
     bindE (json_loads raw) (\<lambda>data.
     bindE (jindex data ''runId'') (\<lambda>r.
     bindE (jindex data ''runStartedAt'') (\<lambda>t.
     bindE (jfromisoformat t) (\<lambda>dt.
       Inr \<lparr>own_run_id = jstr r, own_run_started_at = dt\<rparr>))))"

definition owner_from_json :: "doc \<Rightarrow> pyexn + table_owner" where
  "owner_from_json raw =
     (case owner_record raw of
        Inl e \<Rightarrow>
          if exn_class e \<in> {KeyErr, TypeErr} then Inl (PyExn ValueErr (''invalid owner.json: '' @ exn_text e))
          else Inl e
      | Inr own \<Rightarrow>
          if is_aware (own_run_started_at own) then Inr own
          else Inl (PyExn ValueErr ''invalid owner.json: runStartedAt has no timezone''))"

lemma owner_json_roundtrip_lemma:
  "dt_ok (own_run_started_at o1) \<Longrightarrow> is_aware (own_run_started_at o1) \<Longrightarrow>
    owner_from_json (owner_to_json o1) = Inr o1"
  by (simp add: owner_from_json_def owner_record_def owner_to_json_def json_loads_def fromisoformat_isoformat)

lemma jindex_exn: "jindex v k = Inl e \<Longrightarrow> exn_class e \<in> {KeyErr, TypeErr}"
  by (cases v) (auto split: option.splits)

lemma jfromisoformat_exn: "jfromisoformat v = Inl e \<Longrightarrow> exn_class e \<in> {ValueErr, TypeErr}"
  by (cases v) (auto dest: fromisoformat_raises_ValueError)

lemma owner_record_exn: "owner_record raw = Inl e \<Longrightarrow> exn_class e \<in> {ValueErr, KeyErr, TypeErr}"
  by (auto simp: owner_record_def bindE_eq_Inl json_loads_def split: doc.splits
      dest!: jindex_exn jfromisoformat_exn)

text \<open>\<open>owner_from_json\<close> raises nothing but \<open>ValueError\<close>, and what it returns is timezone-aware.\<close>

lemma owner_from_json_raises: "owner_from_json raw = Inl e \<Longrightarrow> exn_class e = ValueErr"
  by (auto simp: owner_from_json_def split: sum.splits if_splits dest: owner_record_exn)

lemma owner_from_json_aware: "owner_from_json raw = Inr o1 \<Longrightarrow> is_aware (own_run_started_at o1)"
  by (auto simp: owner_from_json_def split: sum.splits if_splits)

lemma owner_eq_rank: "owner_eq a b \<longleftrightarrow> owner_rank a = owner_rank b"
  by (auto simp: owner_eq_def owner_rank_def)

lemma outranks_trans: "outranks a b \<Longrightarrow> outranks b c \<Longrightarrow> outranks a c"
  by (auto simp: outranks_def)

lemma outranks_irrefl [simp]: "\<not> outranks a a"
  by (simp add: outranks_def)

lemma outranks_total: "outranks a b \<or> owner_eq a b \<or> outranks b a"
  by (auto simp: outranks_def owner_eq_rank)

section \<open>Properties\<close>

text \<open>
  What \<open>write_watermark\<close> stores in \<open>watermark.json\<close> is what the next \<open>read_watermark\<close> parses,
  with or without \<open>deltaVersion\<close>, and \<open>pending.json\<close> likewise: \<open>from_json\<close> inverts \<open>to_json\<close> for
  both records.
\<close>

theorem checkpoint_records_roundtrip:
  "watermark_from_json (watermark_to_json w) = Inr w \<and> pending_from_json (pending_to_json p) = Inr p"
  by simp

text \<open>
  Every text is either a valid owner record, which parses to a timezone-aware owner, or makes
  \<open>TableOwner.from_json\<close> raise \<open>ValueError\<close>, never another exception, and the record a run
  writes for itself parses to that run.
\<close>

theorem owner_json_total:
  "(case owner_from_json raw of Inl e \<Rightarrow> exn_class e = ValueErr
    | Inr o1 \<Rightarrow> is_aware (own_run_started_at o1)) \<and>
   (\<forall>run t. dt_ok (utc_dt t) \<longrightarrow>
      (let me = \<lparr>own_run_id = run, own_run_started_at = utc_dt t\<rparr>
       in owner_from_json (owner_to_json me) = Inr me))"
  using owner_from_json_raises owner_from_json_aware
  by (auto simp: Let_def owner_json_roundtrip_lemma split: sum.splits)

theorem owner_json_total_witness:
  "let me = \<lparr>own_run_id = ''run-1'', own_run_started_at = utc_dt 1793579218123456\<rparr>
   in owner_from_json (owner_to_json me) = Inr me"
proof -
  have "dt_ok (utc_dt 1793579218123456)"
    by (simp add: dt_ok_def utc_dt_def ord2ymd_def Let_def)
  then show ?thesis using owner_json_total [of Malformed] by (simp add: Let_def)
qed

end
