(* ===== verification/File_Batching.thy ===== *)
theory File_Batching
  imports Checkpoint_Records
begin

text \<open>
  \<open>dbt/adapters/scope/file_tracker.py\<close> (\<open>FileTracker\<close>) over the \<open>FileInfo\<close> records of
  \<open>adls_gen1_client.py\<close>, and \<open>_count_batches\<close> of \<open>impl.py\<close>: which listed files are unprocessed,
  how they are cut into batches, and how the watermark moves. The lemmas show that a batch is a
  maximal prefix within both limits, that batching a backlog consumes it in order, and when
  advancing the watermark over a batch leaves exactly the rest of the backlog discoverable.
  Datetimes of files are instants in microseconds (they are always UTC-aware).
\<close>

section \<open>FileInfo\<close>

record file_info =
  fi_path :: string
  fi_name :: string
  fi_length :: int
  fi_modification_time :: int
  fi_estimated_bytes :: "int option"
  fi_contributing_files :: "string list"

text \<open>The size the batching uses: the estimate when there is one, else the file length.\<close>

definition file_bytes :: "file_info \<Rightarrow> int" where
  "file_bytes f = (case fi_estimated_bytes f of Some b \<Rightarrow> b | None \<Rightarrow> fi_length f)"

section \<open>discover\_unprocessed\_files\<close>

text \<open>
  The loop over the listing. Comparing an aware modification time with a naive watermark raises
  \<open>TypeError\<close>, at the first file the safety buffer does not skip.
\<close>

fun keep_unprocessed :: "int \<Rightarrow> pydt option \<Rightarrow> file_info list \<Rightarrow> pyexn + file_info list" where
  "keep_unprocessed cutoff watermark_dt [] = Inr []"
| "keep_unprocessed cutoff watermark_dt (f # fs) =
     (if fi_modification_time f > cutoff then keep_unprocessed cutoff watermark_dt fs
      else case watermark_dt of
        None \<Rightarrow> bindE (keep_unprocessed cutoff watermark_dt fs) (\<lambda>rest. Inr (f # rest))
      | Some w \<Rightarrow>
          if \<not> is_aware w
          then Inl (PyExn TypeErr ''can't compare offset-naive and offset-aware datetimes'')
          else if fi_modification_time f \<le> instant w then keep_unprocessed cutoff watermark_dt fs
          else bindE (keep_unprocessed cutoff watermark_dt fs) (\<lambda>rest. Inr (f # rest)))"

definition discover_unprocessed_files ::
    "file_info list \<Rightarrow> int \<Rightarrow> watermark option \<Rightarrow> int \<Rightarrow> pyexn + file_info list" where
  "discover_unprocessed_files all_files now watermark safety_buffer_seconds =
     (let cutoff = now - safety_buffer_seconds * 1000000
      in bindE (case watermark of None \<Rightarrow> Inr None | Some w \<Rightarrow> modified_time_dt w) (\<lambda>watermark_dt.
           keep_unprocessed cutoff watermark_dt all_files))"

text \<open>With no watermark, or a readable timezone-aware one, the loop is a filter.\<close>

definition after_watermark :: "int option \<Rightarrow> file_info \<Rightarrow> bool" where
  "after_watermark wm f \<longleftrightarrow> (case wm of None \<Rightarrow> True | Some t \<Rightarrow> t < fi_modification_time f)"

lemma keep_unprocessed_None:
  "keep_unprocessed cutoff None fs =
    Inr (filter (\<lambda>f. fi_modification_time f \<le> cutoff \<and> after_watermark None f) fs)"
  by (induction fs) (auto simp: after_watermark_def)

lemma keep_unprocessed_Some:
  "is_aware w \<Longrightarrow> keep_unprocessed cutoff (Some w) fs =
    Inr (filter (\<lambda>f. fi_modification_time f \<le> cutoff \<and> after_watermark (Some (instant w)) f) fs)"
  by (induction fs) (auto simp: after_watermark_def)

text \<open>The instant a watermark stands for, for the watermarks the adapter itself writes.\<close>

definition wm_instant :: "watermark option \<Rightarrow> int option" where
  "wm_instant w = (case w of None \<Rightarrow> None
     | Some v \<Rightarrow> (case modified_time_dt v of Inr (Some d) \<Rightarrow> Some (instant d) | _ \<Rightarrow> None))"

definition wm_readable :: "watermark option \<Rightarrow> bool" where
  "wm_readable w \<longleftrightarrow> (case w of None \<Rightarrow> True
     | Some v \<Rightarrow> (case modified_time_dt v of Inr None \<Rightarrow> True | Inr (Some d) \<Rightarrow> is_aware d | Inl _ \<Rightarrow> False))"

lemma discover_unprocessed_filter:
  assumes "wm_readable w"
  shows "discover_unprocessed_files fs now w buf =
    Inr (filter (\<lambda>f. fi_modification_time f \<le> now - buf * 1000000 \<and> after_watermark (wm_instant w) f) fs)"
  using assms
  by (auto simp: discover_unprocessed_files_def wm_readable_def wm_instant_def keep_unprocessed_None
      keep_unprocessed_Some split: option.splits sum.splits)

section \<open>get\_next\_batch\<close>

text \<open>The loop with its accumulators: the batch so far and its bytes.\<close>

fun next_batch_loop :: "int \<Rightarrow> int \<Rightarrow> file_info list \<Rightarrow> int \<Rightarrow> file_info list \<Rightarrow> file_info list" where
  "next_batch_loop max_files max_bytes batch cumulative [] = batch"
| "next_batch_loop max_files max_bytes batch cumulative (f # fs) =
     (if batch \<noteq> [] \<and> int (length batch) \<ge> max_files then batch
      else if batch \<noteq> [] \<and> cumulative + file_bytes f > max_bytes then batch
      else next_batch_loop max_files max_bytes (batch @ [f]) (cumulative + file_bytes f) fs)"

definition get_next_batch :: "file_info list \<Rightarrow> int \<Rightarrow> int \<Rightarrow> file_info list" where
  "get_next_batch files max_files_per_trigger max_bytes_per_trigger =
     next_batch_loop max_files_per_trigger max_bytes_per_trigger [] 0 files"

text \<open>
  Specification: some prefix of the files, taken file by file while the next one fits. \<open>fits\<close> says
  that a batch of more than one file respects both limits.
\<close>

definition total_bytes :: "file_info list \<Rightarrow> int" where
  "total_bytes fs = (\<Sum>f\<leftarrow>fs. file_bytes f)"

definition fits :: "int \<Rightarrow> int \<Rightarrow> file_info list \<Rightarrow> bool" where
  "fits max_files max_bytes b \<longleftrightarrow>
     length b \<le> 1 \<or> (int (length b) \<le> max_files \<and> total_bytes b \<le> max_bytes)"

lemma total_bytes_append [simp]: "total_bytes (xs @ ys) = total_bytes xs + total_bytes ys"
  by (simp add: total_bytes_def)

lemma total_bytes_Nil [simp]: "total_bytes [] = 0"
  by (simp add: total_bytes_def)

lemma total_bytes_Cons [simp]: "total_bytes (f # fs) = file_bytes f + total_bytes fs"
  by (simp add: total_bytes_def)

lemma next_batch_loop_prefix:
  "\<exists>k \<le> length fs. next_batch_loop mf mb batch cum fs = batch @ take k fs"
proof (induction fs arbitrary: batch cum)
  case Nil
  then show ?case by simp
next
  case (Cons f fs)
  obtain k where "k \<le> length fs"
    and "next_batch_loop mf mb (batch @ [f]) (cum + file_bytes f) fs = (batch @ [f]) @ take k fs"
    using Cons.IH by blast
  moreover have "batch = batch @ take 0 (f # fs)" by simp
  ultimately show ?case
    by (metis Suc_le_mono append.assoc append_Cons append_Nil length_Cons
        next_batch_loop.simps(2) take_Suc_Cons zero_le)
qed

lemma get_next_batch_take:
  obtains k where "k \<le> length fs" and "get_next_batch fs mf mb = take k fs"
  using next_batch_loop_prefix [of fs mf mb "[]" 0] by (auto simp: get_next_batch_def)

lemma get_next_batch_append:
  "get_next_batch fs mf mb @ drop (length (get_next_batch fs mf mb)) fs = fs"
  by (rule get_next_batch_take [of fs mf mb]) (simp add: min_def)

lemma next_batch_loop_fits:
  assumes "fits mf mb batch" and "cum = total_bytes batch" and "1 \<le> length batch"
  shows "fits mf mb (next_batch_loop mf mb batch cum fs)"
  using assms
proof (induction fs arbitrary: batch cum)
  case Nil
  then show ?case by simp
next
  case (Cons f fs)
  have "fits mf mb (batch @ [f])"
    if "int (length batch) < mf" "cum + file_bytes f \<le> mb"
    using that Cons.prems by (auto simp: fits_def)
  then show ?case
    using Cons.IH [of "batch @ [f]" "cum + file_bytes f"] Cons.prems by auto
qed

lemma get_next_batch_fits: "fits mf mb (get_next_batch fs mf mb)"
  by (cases fs) (auto simp: get_next_batch_def fits_def [of _ _ "[]"] fits_def [of _ _ "[_]"]
      intro: next_batch_loop_fits)

lemma next_batch_loop_maximal:
  assumes "batch \<noteq> []" and "cum = total_bytes batch"
    and "next_batch_loop mf mb batch cum fs = batch @ take k fs" and "k < length fs"
  shows "\<not> fits mf mb (batch @ take (Suc k) fs)"
  using assms
proof (induction fs arbitrary: batch cum k)
  case Nil
  then show ?case by simp
next
  case (Cons f fs)
  let ?stop = "int (length batch) \<ge> mf \<or> cum + file_bytes f > mb"
  show ?case
  proof (cases ?stop)
    case True
    then have "next_batch_loop mf mb batch cum (f # fs) = batch" using Cons.prems(1) by auto
    then have "k = 0" using Cons.prems(3) by (cases k) auto
    moreover have "1 \<le> length batch" using Cons.prems(1) by (cases batch) auto
    ultimately show ?thesis using True Cons.prems(2) by (auto simp: fits_def)
  next
    case False
    then have step: "next_batch_loop mf mb batch cum (f # fs) =
        next_batch_loop mf mb (batch @ [f]) (cum + file_bytes f) fs" by simp
    obtain k' where k': "next_batch_loop mf mb (batch @ [f]) (cum + file_bytes f) fs =
        (batch @ [f]) @ take k' fs" and "k' \<le> length fs"
      using next_batch_loop_prefix by blast
    then have "take k (f # fs) = f # take k' fs" using step Cons.prems(3) by simp
    then obtain j where j: "k = Suc j" "take j fs = take k' fs" by (cases k) auto
    have "\<not> fits mf mb ((batch @ [f]) @ take (Suc j) fs)"
      by (rule Cons.IH) (use j k' Cons.prems in auto)
    then show ?thesis using j by simp
  qed
qed

lemma get_next_batch_Cons:
  "get_next_batch (f # fs) mf mb = next_batch_loop mf mb [f] (file_bytes f) fs"
  by (simp add: get_next_batch_def)

lemma get_next_batch_maximal:
  assumes "get_next_batch fs mf mb = take k fs" and "k < length fs"
  shows "\<not> fits mf mb (take (Suc k) fs)"
proof (cases fs)
  case Nil
  then show ?thesis using assms by simp
next
  case (Cons f gs)
  obtain k' where k': "next_batch_loop mf mb [f] (file_bytes f) gs = [f] @ take k' gs" "k' \<le> length gs"
    using next_batch_loop_prefix by blast
  then have "take k fs = f # take k' gs" using assms(1) Cons by (simp add: get_next_batch_Cons)
  then obtain j where j: "k = Suc j" "take j gs = take k' gs" using Cons by (cases k) auto
  have "\<not> fits mf mb ([f] @ take (Suc j) gs)"
    by (rule next_batch_loop_maximal [where cum = "file_bytes f"]) (use j k' assms(2) Cons in auto)
  then show ?thesis using j Cons by simp
qed

lemma get_next_batch_Nil_iff [simp]: "get_next_batch fs mf mb = [] \<longleftrightarrow> fs = []"
proof (cases fs)
  case Nil
  then show ?thesis by (simp add: get_next_batch_def)
next
  case (Cons f gs)
  then show ?thesis
    using next_batch_loop_prefix [of gs mf mb "[f]" "file_bytes f"] by (auto simp: get_next_batch_Cons)
qed

lemma length_get_next_batch_le: "length (get_next_batch fs mf mb) \<le> length fs"
  by (rule get_next_batch_take [of fs mf mb]) simp

section \<open>\_count\_batches\<close>

text \<open>The \<open>while remaining\<close> loop; it stops because every batch takes at least one file.\<close>

function count_batches_loop :: "file_info list \<Rightarrow> int \<Rightarrow> int \<Rightarrow> nat \<Rightarrow> nat" where
  "count_batches_loop remaining mf mb count =
     (if remaining = [] then count
      else let batch = get_next_batch remaining mf mb
           in if batch = [] then count
              else count_batches_loop (drop (length batch) remaining) mf mb (Suc count))"
  by pat_completeness auto
termination
  by (relation "measure (\<lambda>(r, _). length r)") auto

declare count_batches_loop.simps [simp del]

definition count_batches :: "file_info list \<Rightarrow> int \<Rightarrow> int \<Rightarrow> nat" where
  "count_batches files mf mb = count_batches_loop files mf mb 0"

text \<open>Specification: the backlog cut into batches, one \<open>get_next_batch\<close> after the other.\<close>

function batches :: "file_info list \<Rightarrow> int \<Rightarrow> int \<Rightarrow> file_info list list" where
  "batches fs mf mb =
     (if fs = [] then []
      else get_next_batch fs mf mb # batches (drop (length (get_next_batch fs mf mb)) fs) mf mb)"
  by pat_completeness auto
termination
  by (relation "measure (\<lambda>(r, _). length r)") auto

declare batches.simps [simp del]

lemma batches_Nil [simp]: "batches [] mf mb = []"
  by (simp add: batches.simps)

lemma batches_step:
  "fs \<noteq> [] \<Longrightarrow> batches fs mf mb =
    get_next_batch fs mf mb # batches (drop (length (get_next_batch fs mf mb)) fs) mf mb"
  by (subst batches.simps) simp

lemma count_batches_loop_batches: "count_batches_loop fs mf mb n = n + length (batches fs mf mb)"
proof (induction fs mf mb n rule: count_batches_loop.induct)
  case (1 fs mf mb n)
  show ?case
  proof (cases "fs = []")
    case True
    then show ?thesis by (simp add: count_batches_loop.simps)
  next
    case False
    then show ?thesis using "1.IH" [OF False refl]
      by (subst count_batches_loop.simps) (simp add: batches_step Let_def)
  qed
qed

lemma concat_batches: "concat (batches fs mf mb) = fs"
proof (induction fs mf mb rule: batches.induct)
  case (1 fs mf mb)
  then show ?case by (cases "fs = []") (simp_all add: batches_step get_next_batch_append)
qed

lemma batches_fit: "b \<in> set (batches fs mf mb) \<Longrightarrow> b \<noteq> [] \<and> fits mf mb b"
proof (induction fs mf mb rule: batches.induct)
  case (1 fs mf mb)
  show ?case
  proof (cases "fs = []")
    case True
    then show ?thesis using "1.prems" by simp
  next
    case False
    then have "b = get_next_batch fs mf mb \<or>
        b \<in> set (batches (drop (length (get_next_batch fs mf mb)) fs) mf mb)"
      using "1.prems" by (simp add: batches_step)
    then show ?thesis using "1.IH" [OF False] False get_next_batch_fits by auto
  qed
qed

section \<open>compute\_new\_watermark\<close>

definition compute_new_watermark :: "file_info list \<Rightarrow> watermark option \<Rightarrow> watermark" where
  "compute_new_watermark batch current =
     (if batch = [] then (case current of Some w \<Rightarrow> w | None \<Rightarrow> watermark_at [])
      else
        \<lparr>wm_version = (case current of Some w \<Rightarrow> wm_version w + 1 | None \<Rightarrow> 0),
         wm_modified_time = isoformat (utc_dt (Max (set (map fi_modification_time batch)))),
         wm_batch_id = (case current of Some w \<Rightarrow> wm_batch_id w + 1 | None \<Rightarrow> 0),
         wm_delta_version = None\<rparr>)"

definition times_ok :: "file_info list \<Rightarrow> bool" where
  "times_ok fs \<longleftrightarrow> (\<forall>f \<in> set fs. dt_ok (utc_dt (fi_modification_time f)))"

lemma Max_time_mem:
  "b \<noteq> [] \<Longrightarrow> Max (set (map fi_modification_time b)) \<in> fi_modification_time ` set b"
  using Max_in [of "set (map fi_modification_time b)"] by auto

lemma modified_time_compute_new_watermark:
  assumes "b \<noteq> []" and "times_ok b"
  shows "modified_time_dt (compute_new_watermark b cur) =
    Inr (Some (utc_dt (Max (set (map fi_modification_time b)))))"
proof -
  have "dt_ok (utc_dt (Max (set (map fi_modification_time b))))"
    using Max_time_mem [OF assms(1)] assms(2) by (auto simp: times_ok_def)
  then show ?thesis using assms(1)
    by (intro modified_time_dt_isoformat) (simp_all add: compute_new_watermark_def)
qed

lemma wm_instant_compute_new_watermark:
  "b \<noteq> [] \<Longrightarrow> times_ok b \<Longrightarrow>
    wm_instant (Some (compute_new_watermark b cur)) = Some (Max (set (map fi_modification_time b)))"
  by (simp add: wm_instant_def modified_time_compute_new_watermark)

lemma wm_readable_compute_new_watermark:
  "b \<noteq> [] \<Longrightarrow> times_ok b \<Longrightarrow> wm_readable (Some (compute_new_watermark b cur))"
  by (simp add: wm_readable_def modified_time_compute_new_watermark)

lemma Max_sorted_snoc:
  "sorted (map fi_modification_time (b @ [l])) \<Longrightarrow>
    Max (set (map fi_modification_time (b @ [l]))) = fi_modification_time l"
  by (intro Max_eqI) (auto simp: sorted_append)

text \<open>A moved watermark never applies to a pending batch recorded before the move.\<close>

lemma compute_new_watermark_moves:
  "b \<noteq> [] \<Longrightarrow> \<not> same_position w (Some (compute_new_watermark b (Some w)))"
  by (simp add: same_position_def compute_new_watermark_def)

section \<open>Properties\<close>

text \<open>
  C34: \<open>get_next_batch\<close> returns a prefix of the files that is empty only for an empty backlog, that
  respects both \<open>max_files_per_trigger\<close> and \<open>max_bytes_per_trigger\<close> unless it is a single file, and
  that is maximal: one file more would break a limit.
\<close>

theorem get_next_batch_maximal_prefix:
  "\<exists>k. get_next_batch fs mf mb = take k fs \<and> k \<le> length fs \<and>
    (fs \<noteq> [] \<longrightarrow> 1 \<le> k) \<and>
    (k \<le> 1 \<or> (int k \<le> mf \<and> total_bytes (take k fs) \<le> mb)) \<and>
    (k < length fs \<longrightarrow> \<not> (int (Suc k) \<le> mf \<and> total_bytes (take (Suc k) fs) \<le> mb))"
proof -
  obtain k where k: "k \<le> length fs" "get_next_batch fs mf mb = take k fs"
    by (rule get_next_batch_take)
  have "fits mf mb (take k fs)" using get_next_batch_fits [of mf mb fs] k by simp
  moreover have "k < length fs \<Longrightarrow> \<not> fits mf mb (take (Suc k) fs)"
    using get_next_batch_maximal k by blast
  moreover have "fs \<noteq> [] \<Longrightarrow> 1 \<le> k" using k get_next_batch_Nil_iff [of fs mf mb] by (cases k) auto
  ultimately show ?thesis using k by (auto simp: fits_def)
qed

theorem get_next_batch_maximal_prefix_witness:
  "\<exists>k. get_next_batch
      [\<lparr>fi_path = ''/a'', fi_name = ''a'', fi_length = 5, fi_modification_time = 1,
        fi_estimated_bytes = Some 70, fi_contributing_files = []\<rparr>] 2 50 = take k
      [\<lparr>fi_path = ''/a'', fi_name = ''a'', fi_length = 5, fi_modification_time = 1,
        fi_estimated_bytes = Some 70, fi_contributing_files = []\<rparr>] \<and> 1 \<le> k"
  using get_next_batch_maximal_prefix
    [of "[\<lparr>fi_path = ''/a'', fi_name = ''a'', fi_length = 5, fi_modification_time = 1,
      fi_estimated_bytes = Some 70, fi_contributing_files = []\<rparr>]" 2 50]
  by (metis list.distinct(1))

text \<open>
  C35: the total that \<open>_count_batches\<close> announces is the number of batches a run makes: the batches are
  non-empty, each within the limits, and together they are the backlog, in order and without loss.
\<close>

theorem count_batches_partition:
  "count_batches fs mf mb = length (batches fs mf mb) \<and> concat (batches fs mf mb) = fs \<and>
    list_all (\<lambda>b. b \<noteq> [] \<and> (length b = 1 \<or> (int (length b) \<le> mf \<and> total_bytes b \<le> mb)))
      (batches fs mf mb)"
proof -
  have "b \<noteq> [] \<and> (length b = 1 \<or> (int (length b) \<le> mf \<and> total_bytes b \<le> mb))"
    if "b \<in> set (batches fs mf mb)" for b
    using batches_fit [OF that] by (cases b) (auto simp: fits_def)
  then show ?thesis
    by (simp add: count_batches_def count_batches_loop_batches concat_batches list_all_iff)
qed

text \<open>
  After a batch is checkpointed, the next discovery returns exactly the rest of the backlog, in
  order, provided the first file left over was modified strictly after the last file of the batch.
\<close>

theorem next_discovery_is_rest:
  assumes "sorted (map fi_modification_time fs)" and "times_ok fs" and "fs = b @ rest" and "b \<noteq> []"
    and "rest \<noteq> [] \<Longrightarrow> fi_modification_time (last b) < fi_modification_time (hd rest)"
    and "\<forall>f \<in> set fs. fi_modification_time f \<le> now - buf * 1000000"
  shows "discover_unprocessed_files fs now (Some (compute_new_watermark b cur)) buf = Inr rest"
proof -
  let ?m = "Max (set (map fi_modification_time b))"
  have b: "times_ok b" using assms(2,3) by (simp add: times_ok_def)
  have m: "?m = fi_modification_time (last b)"
    using Max_sorted_snoc [of "butlast b" "last b"] assms(1,3,4) by (simp add: sorted_append)
  have low: "fi_modification_time x \<le> ?m" if "x \<in> set b" for x
    using that by simp
  have high: "?m < fi_modification_time y" if "y \<in> set rest" for y
  proof -
    obtain h t where rest: "rest = h # t" using \<open>y \<in> set rest\<close> by (cases rest) auto
    have "fi_modification_time h \<le> fi_modification_time y"
      using assms(1,3) rest that by (auto simp: sorted_append)
    then show ?thesis using assms(5) rest m by simp
  qed
  have "filter (\<lambda>f. ?m < fi_modification_time f) (b @ rest) = rest"
    by (rule sorted_filter_gt_append) (use low high in auto)
  moreover have "filter (\<lambda>f. fi_modification_time f \<le> now - buf * 1000000 \<and> ?m < fi_modification_time f) fs
      = filter (\<lambda>f. ?m < fi_modification_time f) fs"
    using assms(6) by (intro filter_cong) auto
  ultimately show ?thesis
    using assms(3,4) b
    by (simp add: discover_unprocessed_filter wm_readable_compute_new_watermark
        wm_instant_compute_new_watermark after_watermark_def)
qed

text \<open>A file \<open>n\<close> of \<open>len\<close> bytes modified at instant \<open>t\<close>, for the examples.\<close>

definition sample_file :: "string \<Rightarrow> int \<Rightarrow> int \<Rightarrow> file_info" where
  "sample_file n len t = \<lparr>fi_path = CHR ''/'' # n, fi_name = n, fi_length = len,
     fi_modification_time = t, fi_estimated_bytes = None, fi_contributing_files = []\<rparr>"

theorem next_discovery_is_rest_witness:
  "discover_unprocessed_files [sample_file ''a'' 1 1000000, sample_file ''b'' 1 2000000] 60000000
     (Some (compute_new_watermark [sample_file ''a'' 1 1000000] None)) 30 = Inr [sample_file ''b'' 1 2000000]"
  by (rule next_discovery_is_rest)
     (simp_all add: sample_file_def times_ok_def dt_ok_def utc_dt_def ord2ymd_def Let_def)

text \<open>No discovery after a checkpointed batch returns a file that is not newer than every file of the batch.\<close>

lemma skipped_after_checkpoint:
  assumes "b \<noteq> []" and "times_ok b" and "x \<in> set b"
    and "fi_modification_time f \<le> fi_modification_time x"
    and "discover_unprocessed_files listing now (Some (compute_new_watermark b cur)) buf = Inr found"
  shows "f \<notin> set found"
proof -
  let ?m = "Max (set (map fi_modification_time b))"
  have "fi_modification_time x \<le> ?m" using assms(3) by simp
  then have "\<not> after_watermark (Some ?m) f" using assms(4) by (simp add: after_watermark_def)
  then show ?thesis
    using assms(1,2,5)
    by (auto simp: discover_unprocessed_filter wm_readable_compute_new_watermark
        wm_instant_compute_new_watermark)
qed

text \<open>
  C36: where the batch limit cuts between files with the same modification time, the files left over
  are skipped for good: once the batch is checkpointed, no later discovery returns a file that is
  not newer than the newest file of the batch, at any time and for any listing.
\<close>

theorem equal_times_are_skipped:
  assumes "b \<noteq> []" and "times_ok b" and "x \<in> set b"
    and "fi_modification_time f \<le> fi_modification_time x"
    and "discover_unprocessed_files listing now (Some (compute_new_watermark b cur)) buf = Inr found"
  shows "f \<notin> set found"
  using assms by (rule skipped_after_checkpoint)

theorem equal_times_are_skipped_witness:
  "get_next_batch [sample_file ''a'' 1 1000000, sample_file ''b'' 1 1000000] 1 100
     = [sample_file ''a'' 1 1000000] \<and>
   (\<exists>found. discover_unprocessed_files [sample_file ''a'' 1 1000000, sample_file ''b'' 1 1000000] 60000000
      (Some (compute_new_watermark [sample_file ''a'' 1 1000000] None)) 30 = Inr found \<and>
      sample_file ''b'' 1 1000000 \<notin> set found)"
proof
  show "get_next_batch [sample_file ''a'' 1 1000000, sample_file ''b'' 1 1000000] 1 100
     = [sample_file ''a'' 1 1000000]"
    by (simp add: get_next_batch_def file_bytes_def sample_file_def)
  have t: "times_ok [sample_file ''a'' 1 1000000]"
    by (simp add: sample_file_def times_ok_def dt_ok_def utc_dt_def ord2ymd_def Let_def)
  then obtain found where f: "discover_unprocessed_files
      [sample_file ''a'' 1 1000000, sample_file ''b'' 1 1000000] 60000000
      (Some (compute_new_watermark [sample_file ''a'' 1 1000000] None)) 30 = Inr found"
    by (simp add: discover_unprocessed_filter wm_readable_compute_new_watermark)
  have "sample_file ''b'' 1 1000000 \<notin> set found"
    by (rule equal_times_are_skipped [OF _ t _ _ f, of "sample_file ''a'' 1 1000000"])
       (simp_all add: sample_file_def)
  with f show "\<exists>found. discover_unprocessed_files
      [sample_file ''a'' 1 1000000, sample_file ''b'' 1 1000000] 60000000
      (Some (compute_new_watermark [sample_file ''a'' 1 1000000] None)) 30 = Inr found \<and>
      sample_file ''b'' 1 1000000 \<notin> set found" by blast
qed

end
