(* ===== verification/Credentials.thy ===== *)
theory Credentials
  imports Complex_Main Checkpoint_Records
begin

text \<open>
  \<open>dbt/adapters/scope/credentials.py\<close>: the profile fields of \<open>ScopeCredentials\<close> with their
  defaults, and the validation \<open>__post_init__\<close> runs on them. Durations the profile gives as floats
  are reals. The main lemma lists what a validated profile guarantees.
\<close>

record scope_credentials =
  adla_account :: string
  storage_account :: string
  cred_container :: string
  delta_base_path :: string
  adls_gen1_account :: string
  cred_au :: int
  cred_priority :: int
  poll_interval_seconds :: int
  job_timeout_seconds :: int
  cred_max_files_per_trigger :: int
  cred_max_bytes_per_trigger :: int
  cred_max_file_count_per_output_file_set :: int
  cancel_jobs_on_shutdown :: bool
  wait_on_cancel_seconds :: int
  http_timeout_seconds :: int
  http_retries :: int
  scope_feature_previews :: "string option"
  cred_delta_lake_commit_condition :: string
  retry_on_error_messages :: "json list"
  max_retries_on_error :: int
  initial_wait_on_error_seconds :: real
  max_wait_on_error_seconds :: real
  enable_job_retry :: bool
  job_retry_on_messages :: "json list"
  job_retry_max_attempts :: int
  job_retry_initial_wait_seconds :: real
  job_retry_max_wait_seconds :: real
  enable_quota_eviction :: bool
  quota_eviction_max_attempts :: int
  quota_eviction_cancel_num :: int
  quota_eviction_wait_seconds :: real
  quota_eviction_jitter_seconds :: real
  authentication :: string
  credential_class :: "string option"
  credential_kwargs :: "(string \<times> json) list"

definition default_credentials :: scope_credentials where
  "default_credentials =
     \<lparr>adla_account = [], storage_account = [], cred_container = [], delta_base_path = ''delta'',
      adls_gen1_account = [], cred_au = 100, cred_priority = 1, poll_interval_seconds = 5,
      job_timeout_seconds = 36000, cred_max_files_per_trigger = 50,
      cred_max_bytes_per_trigger = 10737418240000, cred_max_file_count_per_output_file_set = 5000,
      cancel_jobs_on_shutdown = True, wait_on_cancel_seconds = 30, http_timeout_seconds = 120,
      http_retries = 10, scope_feature_previews = Some ''EnableDeltaTableDynamicInsert:on'',
      cred_delta_lake_commit_condition = ''FailIfFileConflict'',
      retry_on_error_messages = [], max_retries_on_error = 25, initial_wait_on_error_seconds = 1,
      max_wait_on_error_seconds = 30, enable_job_retry = True, job_retry_on_messages = [],
      job_retry_max_attempts = 3, job_retry_initial_wait_seconds = 30,
      job_retry_max_wait_seconds = 300, enable_quota_eviction = True,
      quota_eviction_max_attempts = 25, quota_eviction_cancel_num = 5,
      quota_eviction_wait_seconds = 30, quota_eviction_jitter_seconds = 5,
      authentication = ''cli'', credential_class = None, credential_kwargs = []\<rparr>"

text \<open>\<open>isinstance(entry, str) and entry\<close>.\<close>

fun nonempty_str :: "json \<Rightarrow> bool" where
  "nonempty_str (JStr s) = (s \<noteq> [])"
| "nonempty_str _ = False"

definition dbt_error :: "string \<Rightarrow> pyexn" where
  "dbt_error msg = PyExn DbtRuntimeError msg"

text \<open>\<open>if not ok: raise DbtRuntimeError(msg)\<close>.\<close>

definition require :: "bool \<Rightarrow> string \<Rightarrow> pyexn + unit \<Rightarrow> pyexn + unit" where
  "require ok msg rest = (if ok then rest else Inl (dbt_error msg))"

definition str_truthy :: "string option \<Rightarrow> bool" where
  "str_truthy s = (case s of None \<Rightarrow> False | Some t \<Rightarrow> t \<noteq> [])"

definition post_init :: "scope_credentials \<Rightarrow> pyexn + unit" where
  "post_init c =
     (let is_token_credential_auth = (py_lower (authentication c) = ''token_credential'')
      in
      require (\<not> (is_token_credential_auth \<and> \<not> str_truthy (credential_class c)))
        ''authentication='token_credential' requires `credential_class`'' (
      require (\<not> (\<not> is_token_credential_auth \<and> (str_truthy (credential_class c) \<or> credential_kwargs c \<noteq> [])))
        ''`credential_class` and `credential_kwargs` are only valid when authentication='token_credential'.'' (
      require (\<not> max_retries_on_error c < 0) ''max_retries_on_error must be >= 0'' (
      require (\<not> initial_wait_on_error_seconds c \<le> 0) ''initial_wait_on_error_seconds must be > 0'' (
      require (\<not> max_wait_on_error_seconds c \<le> 0) ''max_wait_on_error_seconds must be > 0'' (
      require (\<not> initial_wait_on_error_seconds c > max_wait_on_error_seconds c)
        ''initial_wait_on_error_seconds must be <= max_wait_on_error_seconds'' (
      require (list_all nonempty_str (retry_on_error_messages c))
        ''retry_on_error_messages entries must be non-empty strings'' (
      require (\<not> job_retry_max_attempts c < 1) ''job_retry_max_attempts must be >= 1'' (
      require (\<not> job_retry_initial_wait_seconds c \<le> 0) ''job_retry_initial_wait_seconds must be > 0'' (
      require (\<not> job_retry_max_wait_seconds c \<le> 0) ''job_retry_max_wait_seconds must be > 0'' (
      require (\<not> job_retry_initial_wait_seconds c > job_retry_max_wait_seconds c)
        ''job_retry_initial_wait_seconds must be <= job_retry_max_wait_seconds'' (
      require (list_all nonempty_str (job_retry_on_messages c))
        ''job_retry_on_messages entries must be non-empty strings'' (
      require (\<not> quota_eviction_max_attempts c < 0) ''quota_eviction_max_attempts must be >= 0'' (
      require (\<not> quota_eviction_cancel_num c < 1) ''quota_eviction_cancel_num must be >= 1'' (
      require (\<not> quota_eviction_wait_seconds c \<le> 0) ''quota_eviction_wait_seconds must be > 0'' (
      require (\<not> quota_eviction_jitter_seconds c < 0) ''quota_eviction_jitter_seconds must be >= 0''
        (Inr ())))))))))))))))))"

lemma require_eq_Inr [simp]: "require ok msg rest = Inr u \<longleftrightarrow> ok \<and> rest = Inr u"
  by (simp add: require_def)

lemma post_init_ok: "post_init c = Inr () \<longleftrightarrow>
    (if py_lower (authentication c) = ''token_credential'' then str_truthy (credential_class c)
     else \<not> str_truthy (credential_class c) \<and> credential_kwargs c = []) \<and>
    0 \<le> max_retries_on_error c \<and> 0 < initial_wait_on_error_seconds c \<and>
    initial_wait_on_error_seconds c \<le> max_wait_on_error_seconds c \<and>
    list_all nonempty_str (retry_on_error_messages c) \<and>
    1 \<le> job_retry_max_attempts c \<and> 0 < job_retry_initial_wait_seconds c \<and>
    job_retry_initial_wait_seconds c \<le> job_retry_max_wait_seconds c \<and>
    list_all nonempty_str (job_retry_on_messages c) \<and>
    0 \<le> quota_eviction_max_attempts c \<and> 1 \<le> quota_eviction_cancel_num c \<and>
    0 < quota_eviction_wait_seconds c \<and> 0 \<le> quota_eviction_jitter_seconds c"
  by (auto simp: post_init_def Let_def)

lemma post_init_error: "post_init c = Inl e \<Longrightarrow> exn_class e = DbtRuntimeError"
  by (auto simp: post_init_def Let_def require_def dbt_error_def split: if_splits)

lemma post_init_default: "post_init default_credentials = Inr ()"
  by (simp add: post_init_ok default_credentials_def py_lower_def lower_char_def is_upper_def
      str_truthy_def)

end
