(* ===== verification/Py_Effects.thy ===== *)
theory Py_Effects
  imports Scope_Prelude
begin

text \<open>
  Stateful code that may raise, as functions from a world to a result and the world afterwards.
  An exception keeps the changes made before it, as in Python. \<open>ProcessKilled\<close> models the death of
  the process: no handler and no \<open>finally\<close> runs after it. \<open>wp\<close> is the weakest precondition of such
  a program, with one equation per combinator; the component proofs rewrite with them.
\<close>

type_synonym ('w, 'a) eff = "'w \<Rightarrow> (pyexn + 'a) \<times> 'w"

section \<open>Combinators\<close>

definition ret :: "'a \<Rightarrow> ('w, 'a) eff" where
  "ret a = (\<lambda>w. (Inr a, w))"

definition raise :: "pyexn \<Rightarrow> ('w, 'a) eff" where
  "raise e = (\<lambda>w. (Inl e, w))"

definition liftE :: "pyexn + 'a \<Rightarrow> ('w, 'a) eff" where
  "liftE r = (\<lambda>w. (r, w))"

definition asks :: "('w \<Rightarrow> 'a) \<Rightarrow> ('w, 'a) eff" where
  "asks f = (\<lambda>w. (Inr (f w), w))"

definition modifyM :: "('w \<Rightarrow> 'w) \<Rightarrow> ('w, unit) eff" where
  "modifyM f = (\<lambda>w. (Inr (), f w))"

definition bindM :: "('w, 'a) eff \<Rightarrow> ('a \<Rightarrow> ('w, 'b) eff) \<Rightarrow> ('w, 'b) eff" where
  "bindM m f = (\<lambda>w. case m w of (Inl e, w') \<Rightarrow> (Inl e, w') | (Inr a, w') \<Rightarrow> f a w')"

definition thenM :: "('w, 'a) eff \<Rightarrow> ('w, 'b) eff \<Rightarrow> ('w, 'b) eff" where
  "thenM m k = bindM m (\<lambda>_. k)"

definition whenM :: "bool \<Rightarrow> ('w, unit) eff \<Rightarrow> ('w, unit) eff" where
  "whenM b m = (if b then m else ret ())"

text \<open>\<open>try: m except BaseException as e: h e\<close>; a handler re-raises what its clause does not name.\<close>

definition tryM :: "('w, 'a) eff \<Rightarrow> (pyexn \<Rightarrow> ('w, 'a) eff) \<Rightarrow> ('w, 'a) eff" where
  "tryM m h = (\<lambda>w. case m w of
       (Inl e, w') \<Rightarrow> if exn_class e = ProcessKilled then (Inl e, w') else h e w'
     | (Inr a, w') \<Rightarrow> (Inr a, w'))"

definition finallyM :: "('w, 'a) eff \<Rightarrow> ('w, unit) eff \<Rightarrow> ('w, 'a) eff" where
  "finallyM m f = (\<lambda>w. case m w of
       (Inl e, w') \<Rightarrow>
         if exn_class e = ProcessKilled then (Inl e, w')
         else (case f w' of (Inl e', w'') \<Rightarrow> (Inl e', w'') | (Inr _, w'') \<Rightarrow> (Inl e, w''))
     | (Inr a, w') \<Rightarrow> (case f w' of (Inl e', w'') \<Rightarrow> (Inl e', w'') | (Inr _, w'') \<Rightarrow> (Inr a, w'')))"

fun forM :: "'b list \<Rightarrow> ('b \<Rightarrow> ('w, unit) eff) \<Rightarrow> ('w, unit) eff" where
  "forM [] f = ret ()"
| "forM (x # xs) f = thenM (f x) (forM xs f)"

fun mapM :: "('b \<Rightarrow> ('w, 'a) eff) \<Rightarrow> 'b list \<Rightarrow> ('w, 'a list) eff" where
  "mapM f [] = ret []"
| "mapM f (x # xs) = bindM (f x) (\<lambda>y. bindM (mapM f xs) (\<lambda>ys. ret (y # ys)))"

lemmas eff_unfold [eff_defs] =
  ret_def raise_def liftE_def asks_def modifyM_def bindM_def thenM_def whenM_def tryM_def finallyM_def

subsection \<open>Running a combinator\<close>

lemma run_ret [eff_run]: "ret a w = (Inr a, w)"
  by (simp add: ret_def)

lemma run_raise [eff_run]: "raise e w = (Inl e, w)"
  by (simp add: raise_def)

lemma run_liftE [eff_run]: "liftE r w = (r, w)"
  by (simp add: liftE_def)

lemma run_asks [eff_run]: "asks f w = (Inr (f w), w)"
  by (simp add: asks_def)

lemma run_modifyM [eff_run]: "modifyM f w = (Inr (), f w)"
  by (simp add: modifyM_def)

lemma run_bindM_Inr: "m w = (Inr a, w') \<Longrightarrow> bindM m f w = f a w'"
  by (simp add: bindM_def eff_run)

lemma run_bindM_Inl: "m w = (Inl e, w') \<Longrightarrow> bindM m f w = (Inl e, w')"
  by (simp add: bindM_def eff_run)

lemma run_bindM_ret [eff_run]: "bindM (ret a) f w = f a w"
  by (simp add: bindM_def eff_run)

lemma run_bindM_asks [eff_run]: "bindM (asks g) f w = f (g w) w"
  by (simp add: bindM_def eff_run)

lemma run_bindM_liftE [eff_run]:
  "bindM (liftE r) f w = (case r of Inl e \<Rightarrow> (Inl e, w) | Inr a \<Rightarrow> f a w)"
  by (cases r) (simp_all add: bindM_def liftE_def)

lemma run_bindM_raise [eff_run]: "bindM (raise e) f w = (Inl e, w)"
  by (simp add: bindM_def eff_run)

lemma run_thenM_modifyM [eff_run]: "thenM (modifyM g) k w = k (g w)"
  by (simp add: thenM_def bindM_def modifyM_def)

lemma run_bindM_modifyM [eff_run]: "bindM (modifyM g) f w = f () (g w)"
  by (simp add: bindM_def eff_run)

lemma run_thenM_Inr: "m w = (Inr a, w') \<Longrightarrow> thenM m k w = k w'"
  by (simp add: thenM_def bindM_def)

lemma run_thenM_Inl: "m w = (Inl e, w') \<Longrightarrow> thenM m k w = (Inl e, w')"
  by (simp add: thenM_def bindM_def)

lemma run_tryM_Inr: "m w = (Inr a, w') \<Longrightarrow> tryM m h w = (Inr a, w')"
  by (simp add: tryM_def)

lemma run_tryM_Inl:
  "m w = (Inl e, w') \<Longrightarrow> exn_class e \<noteq> ProcessKilled \<Longrightarrow> tryM m h w = h e w'"
  by (simp add: tryM_def)

lemma run_tryM_killed:
  "m w = (Inl e, w') \<Longrightarrow> exn_class e = ProcessKilled \<Longrightarrow> tryM m h w = (Inl e, w')"
  by (simp add: tryM_def)

text \<open>The same by cases on the outcome of the first part, for a run whose first part rewrites to a value.\<close>

lemma run_bindM: "bindM m f w = (case m w of (Inl e, w') \<Rightarrow> (Inl e, w') | (Inr a, w') \<Rightarrow> f a w')"
  by (simp add: bindM_def)

lemma run_thenM: "thenM m k w = (case m w of (Inl e, w') \<Rightarrow> (Inl e, w') | (Inr _, w') \<Rightarrow> k w')"
  by (simp add: thenM_def bindM_def)

lemma run_tryM: "tryM m h w = (case m w of
    (Inl e, w') \<Rightarrow> if exn_class e = ProcessKilled then (Inl e, w') else h e w' | (Inr a, w') \<Rightarrow> (Inr a, w'))"
  by (simp add: tryM_def)

lemmas run_simps = run_bindM_Inr run_bindM_Inl run_thenM_Inr run_thenM_Inl run_tryM_Inr run_tryM_Inl

section \<open>Weakest preconditions\<close>

definition wp :: "('w, 'a) eff \<Rightarrow> ('a \<Rightarrow> 'w \<Rightarrow> bool) \<Rightarrow> (pyexn \<Rightarrow> 'w \<Rightarrow> bool) \<Rightarrow> 'w \<Rightarrow> bool" where
  "wp m q e w = (case m w of (Inl x, w') \<Rightarrow> e x w' | (Inr a, w') \<Rightarrow> q a w')"

lemma wp_ret [eff_rules]: "wp (ret a) q e w = q a w"
  by (simp add: wp_def ret_def)

lemma wp_raise [eff_rules]: "wp (raise x) q e w = e x w"
  by (simp add: wp_def raise_def)

lemma wp_liftE [eff_rules]: "wp (liftE r) q e w = (case r of Inl x \<Rightarrow> e x w | Inr a \<Rightarrow> q a w)"
  by (cases r) (simp_all add: wp_def liftE_def)

lemma wp_asks [eff_rules]: "wp (asks f) q e w = q (f w) w"
  by (simp add: wp_def asks_def)

lemma wp_modifyM [eff_rules]: "wp (modifyM f) q e w = q () (f w)"
  by (simp add: wp_def modifyM_def)

lemma wp_bindM [eff_rules]: "wp (bindM m f) q e w = wp m (\<lambda>a. wp (f a) q e) e w"
  by (auto simp: wp_def bindM_def split: sum.splits prod.splits)

lemma wp_thenM [eff_rules]: "wp (thenM m k) q e w = wp m (\<lambda>_. wp k q e) e w"
  by (simp add: thenM_def wp_bindM)

lemma wp_whenM [eff_rules]: "wp (whenM b m) q e w = (if b then wp m q e w else q () w)"
  by (simp add: whenM_def wp_ret)

lemma wp_tryM [eff_rules]:
  "wp (tryM m h) q e w =
     wp m q (\<lambda>x w'. if exn_class x = ProcessKilled then e x w' else wp (h x) q e w') w"
  by (auto simp: wp_def tryM_def split: sum.splits prod.splits)

lemma wp_finallyM [eff_rules]:
  "wp (finallyM m f) q e w =
     wp m (\<lambda>a. wp f (\<lambda>_. q a) e)
       (\<lambda>x w'. if exn_class x = ProcessKilled then e x w' else wp f (\<lambda>_. e x) e w') w"
  by (auto simp: wp_def finallyM_def split: sum.splits prod.splits)

lemma wp_mono:
  "wp m q e w \<Longrightarrow> (\<And>a w. q a w \<Longrightarrow> q' a w) \<Longrightarrow> (\<And>x w. e x w \<Longrightarrow> e' x w) \<Longrightarrow> wp m q' e' w"
  by (auto simp: wp_def split: sum.splits prod.splits)

lemma wp_conj: "wp m q e w \<Longrightarrow> wp m q' e' w \<Longrightarrow> wp m (\<lambda>a w. q a w \<and> q' a w) (\<lambda>x w. e x w \<and> e' x w) w"
  by (auto simp: wp_def split: sum.splits prod.splits)

lemma wp_Inr: "wp m q e w \<Longrightarrow> m w = (Inr a, w') \<Longrightarrow> q a w'"
  by (simp add: wp_def)

lemma wp_Inl: "wp m q e w \<Longrightarrow> m w = (Inl x, w') \<Longrightarrow> e x w'"
  by (simp add: wp_def)

text \<open>A loop keeps what every iteration keeps, however it ends.\<close>

lemma wp_forM:
  assumes "\<And>x w. x \<in> set xs \<Longrightarrow> J w \<Longrightarrow> wp (f x) (\<lambda>_. J) e w" and "J w"
  shows "wp (forM xs f) (\<lambda>_. J) e w"
  using assms
proof (induction xs arbitrary: w)
  case Nil
  then show ?case by (simp add: eff_rules)
next
  case (Cons x xs)
  have "wp (f x) (\<lambda>_. J) e w" using Cons.prems by simp
  then have "wp (f x) (\<lambda>_. wp (forM xs f) (\<lambda>_. J) e) e w"
    by (rule wp_mono) (use Cons in auto)
  then show ?case by (simp add: eff_rules)
qed

end
