(* ===== verification/Message_Retry.thy ===== *)
theory Message_Retry
  imports Credentials Py_Effects
begin

text \<open>
  \<open>dbt/adapters/scope/message_retry.py\<close>: the retry rules, \<open>MessageRetryPolicy\<close> and
  \<open>retry_on_message\<close>. Python's regular expression engine, which runs patterns the profile supplies,
  is the parameter \<open>regex_engine\<close>; no lemma assumes anything of it. The lemmas give the exact number
  of attempts and the exact sleeps, the bounds of the back-off and the rule by which a retried
  operation keeps an invariant.
\<close>

section \<open>Patterns and policies\<close>

record regex_engine =
  re_compiles :: "string \<Rightarrow> bool"
  re_search :: "string \<Rightarrow> string \<Rightarrow> bool"

text \<open>A compiled entry: a plain substring, or a regular expression with its pattern text.\<close>

datatype retry_pattern = Substring string | Regex string

record retry_rule =
  rule_name :: string
  rule_pattern :: string
  rule_description :: string

definition default_job_retry_rules :: "retry_rule list" where
  "default_job_retry_rules =
     [\<lparr>rule_name = ''vertex_stream_open_timeout'',
       rule_pattern = ''Exception in VertexManager.*Failed to open stream.*Operation timed out'',
       rule_description = ''Transient DMS/Cosmos stream-open timeout in a vertex.''\<rparr>,
      \<lparr>rule_name = ''job_cancelled_by_user'',
       rule_pattern = ''Job cancelled by user .*'',
       rule_description = ''Job cancelled by an external actor (e.g. another pipeline's quota eviction). Our own run's jobs are excluded from eviction separately ''\<rparr>]"

fun compile_patterns :: "regex_engine \<Rightarrow> json list \<Rightarrow> pyexn + retry_pattern list" where
  "compile_patterns eng [] = Inr []"
| "compile_patterns eng (entry # rest) =
     bindE
       (case entry of
          JStr s \<Rightarrow>
            if s = [] then Inl (PyExn ValueErr ''retry pattern entries must be non-empty strings'')
            else if py_startswith s ''re:'' then
              (let pattern_text = drop 3 s
               in if pattern_text = [] then Inl (PyExn ValueErr ''retry regex entry is empty after re:'')
                  else if re_compiles eng pattern_text then Inr (Regex pattern_text)
                  else Inl (PyExn OtherError ''re.error''))
            else Inr (Substring s)
        | _ \<Rightarrow> Inl (PyExn ValueErr ''retry pattern entries must be non-empty strings''))
       (\<lambda>p. bindE (compile_patterns eng rest) (\<lambda>ps. Inr (p # ps)))"

record retry_policy =
  rp_patterns :: "retry_pattern list"
  rp_max_retries :: int
  rp_initial_wait_seconds :: real
  rp_max_wait_seconds :: real

definition disabled_policy :: retry_policy where
  "disabled_policy = \<lparr>rp_patterns = [], rp_max_retries = 25, rp_initial_wait_seconds = 1,
     rp_max_wait_seconds = 30\<rparr>"

definition value_error :: "string \<Rightarrow> pyexn + 'a" where
  "value_error msg = Inl (PyExn ValueErr msg)"

definition policy_from_credentials :: "regex_engine \<Rightarrow> scope_credentials \<Rightarrow> pyexn + retry_policy" where
  "policy_from_credentials eng c =
     bindE (compile_patterns eng (retry_on_error_messages c)) (\<lambda>compiled.
       let max_retries = max_retries_on_error c;
           initial_wait = initial_wait_on_error_seconds c;
           max_wait = max_wait_on_error_seconds c
       in if max_retries < 0 then value_error ''max_retries_on_error must be >= 0''
          else if initial_wait \<le> 0 then value_error ''initial_wait_on_error_seconds must be > 0''
          else if max_wait \<le> 0 then value_error ''max_wait_on_error_seconds must be > 0''
          else if initial_wait > max_wait
          then value_error ''initial_wait_on_error_seconds must be <= max_wait_on_error_seconds''
          else Inr \<lparr>rp_patterns = compiled, rp_max_retries = max_retries,
                    rp_initial_wait_seconds = initial_wait, rp_max_wait_seconds = max_wait\<rparr>)"

definition policy_for_job_retry :: "regex_engine \<Rightarrow> scope_credentials \<Rightarrow> pyexn + retry_policy" where
  "policy_for_job_retry eng c =
     (if \<not> enable_job_retry c then Inr disabled_policy
      else
        bindE (compile_patterns eng (job_retry_on_messages c)) (\<lambda>user.
          let compiled = user @ map (\<lambda>r. Regex (rule_pattern r)) default_job_retry_rules;
              max_attempts = job_retry_max_attempts c;
              initial_wait = job_retry_initial_wait_seconds c;
              max_wait = job_retry_max_wait_seconds c
          in if max_attempts < 1 then value_error ''job_retry_max_attempts must be >= 1''
             else if initial_wait \<le> 0 then value_error ''job_retry_initial_wait_seconds must be > 0''
             else if max_wait \<le> 0 then value_error ''job_retry_max_wait_seconds must be > 0''
             else if initial_wait > max_wait
             then value_error ''job_retry_initial_wait_seconds must be <= job_retry_max_wait_seconds''
             else Inr \<lparr>rp_patterns = compiled, rp_max_retries = max_attempts - 1,
                       rp_initial_wait_seconds = initial_wait, rp_max_wait_seconds = max_wait\<rparr>))"

definition retry_enabled :: "retry_policy \<Rightarrow> bool" where
  "retry_enabled p \<longleftrightarrow> rp_patterns p \<noteq> [] \<and> rp_max_retries p > 0"

fun pattern_matches :: "regex_engine \<Rightarrow> string \<Rightarrow> retry_pattern \<Rightarrow> bool" where
  "pattern_matches eng text (Regex p) = re_search eng p text"
| "pattern_matches eng text (Substring p) = py_contains p text"

fun pattern_label :: "retry_pattern \<Rightarrow> string" where
  "pattern_label (Regex p) = ''re:'' @ p"
| "pattern_label (Substring p) = p"

definition retry_matches :: "regex_engine \<Rightarrow> retry_policy \<Rightarrow> pyexn \<Rightarrow> string option" where
  "retry_matches eng p e =
     map_option pattern_label (find (pattern_matches eng (exn_text e)) (rp_patterns p))"

text \<open>
  \<open>initial * 2 ** (attempt - 1)\<close> converts the power to a float, which raises \<open>OverflowError\<close> from
  \<open>2 ** 1024\<close> on.
\<close>

definition delay_for_attempt :: "retry_policy \<Rightarrow> int \<Rightarrow> pyexn + real" where
  "delay_for_attempt p attempt0 =
     (let attempt = (if attempt0 < 1 then 1 else attempt0); k = nat (attempt - 1)
      in if k \<ge> 1024 then Inl (PyExn OverflowErr ''int too large to convert to float'')
         else Inr (min (rp_initial_wait_seconds p * 2 ^ k) (rp_max_wait_seconds p)))"

section \<open>retry\_on\_message\<close>

fun retry_loop ::
    "regex_engine \<Rightarrow> retry_policy \<Rightarrow> ('w, 'a) eff \<Rightarrow> (real \<Rightarrow> ('w, unit) eff) \<Rightarrow> ('w, bool) eff option \<Rightarrow>
     nat \<Rightarrow> int \<Rightarrow> pyexn option \<Rightarrow> ('w, 'a) eff" where
  "retry_loop eng p operation sleep abort 0 attempt last_exc =
     raise (case last_exc of Some e \<Rightarrow> e | None \<Rightarrow> PyExn OtherError ''AssertionError'')"
| "retry_loop eng p operation sleep abort (Suc n) attempt last_exc =
     tryM operation (\<lambda>exc.
       case retry_matches eng p exc of
         None \<Rightarrow> raise exc
       | Some matched \<Rightarrow>
           bindM (case abort of None \<Rightarrow> ret False | Some a \<Rightarrow> a) (\<lambda>aborting.
             if aborting then raise exc
             else if attempt \<ge> rp_max_retries p + 1 then raise exc
             else bindM (liftE (delay_for_attempt p attempt)) (\<lambda>delay.
               thenM (sleep delay)
                 (retry_loop eng p operation sleep abort n (attempt + 1) (Some exc)))))"

definition retry_on_message ::
    "regex_engine \<Rightarrow> retry_policy \<Rightarrow> (real \<Rightarrow> ('w, unit) eff) \<Rightarrow> ('w, bool) eff option \<Rightarrow>
     ('w, 'a) eff \<Rightarrow> ('w, 'a) eff" where
  "retry_on_message eng p sleep abort operation =
     (if \<not> retry_enabled p then operation
      else retry_loop eng p operation sleep abort (nat (rp_max_retries p + 1)) 1 None)"

subsection \<open>Retrying keeps an invariant\<close>

lemma delay_for_attempt_raises: "delay_for_attempt p k = Inl x \<Longrightarrow> exn_class x = OverflowErr"
  by (auto simp: delay_for_attempt_def Let_def split: if_splits)

lemma if_boolI: "(b \<Longrightarrow> P) \<Longrightarrow> (\<not> b \<Longrightarrow> Q) \<Longrightarrow> if b then P else Q"
  by simp

lemma wp_retry_handler:
  assumes again: "\<And>w. J w \<Longrightarrow> wp (retry_loop eng p operation sleep abort n (attempt + 1) (Some exc)) q (\<lambda>x w. J w \<and> ex x) w"
    and sl: "\<And>k d w. delay_for_attempt p k = Inr d \<Longrightarrow> J w \<Longrightarrow> wp (sleep d) (\<lambda>_. J) (\<lambda>x w. J w \<and> ex x) w"
    and ab: "\<And>a w. abort = Some a \<Longrightarrow> J w \<Longrightarrow> wp a (\<lambda>_. J) (\<lambda>x w. J w \<and> ex x) w"
    and ov: "\<And>x. exn_class x = OverflowErr \<Longrightarrow> ex x" and exc: "ex exc" and J: "J w"
  shows "wp (case retry_matches eng p exc of None \<Rightarrow> raise exc
       | Some matched \<Rightarrow>
           bindM (case abort of None \<Rightarrow> ret False | Some a \<Rightarrow> a) (\<lambda>aborting.
             if aborting then raise exc
             else if attempt \<ge> rp_max_retries p + 1 then raise exc
             else bindM (liftE (delay_for_attempt p attempt)) (\<lambda>delay.
               thenM (sleep delay)
                 (retry_loop eng p operation sleep abort n (attempt + 1) (Some exc)))))
      q (\<lambda>x w. J w \<and> ex x) w"
proof -
  have "wp (thenM (sleep d) (retry_loop eng p operation sleep abort n (attempt + 1) (Some exc)))
      q (\<lambda>x w. J w \<and> ex x) w" if "delay_for_attempt p attempt = Inr d" "J w" for d w
    unfolding wp_thenM by (rule wp_mono [OF sl [OF that]]) (use again in auto)
  then have rest: "wp (if aborting then raise exc
           else if attempt \<ge> rp_max_retries p + 1 then raise exc
           else bindM (liftE (delay_for_attempt p attempt)) (\<lambda>delay.
             thenM (sleep delay)
               (retry_loop eng p operation sleep abort n (attempt + 1) (Some exc))))
      q (\<lambda>x w. J w \<and> ex x) w" if "J w" for aborting w
    using exc that ov delay_for_attempt_raises
    by (auto simp: wp_bindM wp_liftE wp_raise split: sum.splits)
  have "wp (case abort of None \<Rightarrow> ret False | Some a \<Rightarrow> a) (\<lambda>_. J) (\<lambda>x w. J w \<and> ex x) w"
    using ab J by (auto simp: eff_rules split: option.splits)
  then have "wp (case abort of None \<Rightarrow> ret False | Some a \<Rightarrow> a) (\<lambda>aborting.
      wp (if aborting then raise exc
           else if attempt \<ge> rp_max_retries p + 1 then raise exc
           else bindM (liftE (delay_for_attempt p attempt)) (\<lambda>delay.
             thenM (sleep delay)
               (retry_loop eng p operation sleep abort n (attempt + 1) (Some exc))))
      q (\<lambda>x w. J w \<and> ex x)) (\<lambda>x w. J w \<and> ex x) w"
    by (rule wp_mono) (use rest in auto)
  then show ?thesis
  proof (cases "retry_matches eng p exc")
    case None
    then show ?thesis using exc J by (simp add: wp_raise)
  qed (simp only: option.case wp_bindM)
qed

lemma wp_retry_loop:
  assumes op: "\<And>w. J w \<Longrightarrow> wp operation q (\<lambda>x w. J w \<and> ex x) w"
    and sl: "\<And>k d w. delay_for_attempt p k = Inr d \<Longrightarrow> J w \<Longrightarrow> wp (sleep d) (\<lambda>_. J) (\<lambda>x w. J w \<and> ex x) w"
    and ab: "\<And>a w. abort = Some a \<Longrightarrow> J w \<Longrightarrow> wp a (\<lambda>_. J) (\<lambda>x w. J w \<and> ex x) w"
    and ov: "\<And>x. exn_class x = OverflowErr \<Longrightarrow> ex x"
    and as: "\<And>x. exn_class x = OtherError \<Longrightarrow> ex x"
    and last: "\<And>x. last_exc = Some x \<Longrightarrow> ex x"
    and J: "J w"
  shows "wp (retry_loop eng p operation sleep abort n attempt last_exc) q (\<lambda>x w. J w \<and> ex x) w"
  using last J
proof (induction n arbitrary: attempt last_exc w)
  case 0
  then show ?case using as by (auto simp: eff_rules split: option.splits)
next
  case (Suc n)
  have again: "wp (retry_loop eng p operation sleep abort n (attempt + 1) (Some exc)) q (\<lambda>x w. J w \<and> ex x) w"
    if "ex exc" "J w" for exc w
    by (rule Suc.IH) (use that in auto)
  show ?case
    unfolding retry_loop.simps wp_tryM
    by (rule wp_mono [OF op [OF Suc.prems(2)]], assumption, rule if_boolI, assumption)
       (rule wp_retry_handler [OF again sl ab ov]; (elim conjE)?; assumption)
qed

lemma wp_retry_on_message:
  assumes "\<And>w. J w \<Longrightarrow> wp operation q (\<lambda>x w. J w \<and> ex x) w"
    and "\<And>k d w. delay_for_attempt p k = Inr d \<Longrightarrow> J w \<Longrightarrow> wp (sleep d) (\<lambda>_. J) (\<lambda>x w. J w \<and> ex x) w"
    and "\<And>a w. abort = Some a \<Longrightarrow> J w \<Longrightarrow> wp a (\<lambda>_. J) (\<lambda>x w. J w \<and> ex x) w"
    and "\<And>x. exn_class x = OverflowErr \<Longrightarrow> ex x" and "\<And>x. exn_class x = OtherError \<Longrightarrow> ex x"
    and "J w"
  shows "wp (retry_on_message eng p sleep abort operation) q (\<lambda>x w. J w \<and> ex x) w"
proof (cases "retry_enabled p")
  case False
  then show ?thesis using assms(1,6) by (simp add: retry_on_message_def)
next
  case True
  have "wp (retry_loop eng p operation sleep abort (nat (rp_max_retries p + 1)) 1 None)
      q (\<lambda>x w. J w \<and> ex x) w"
    by (rule wp_retry_loop) (use assms in auto)
  then show ?thesis using True by (simp add: retry_on_message_def)
qed

text \<open>What the first attempt brings about, whatever its outcome, the retries keep.\<close>

lemma wp_retry_first:
  assumes op: "\<And>w. J w \<Longrightarrow> wp operation q (\<lambda>x w. J w \<and> ex x) w"
    and sl: "\<And>k d w. delay_for_attempt p k = Inr d \<Longrightarrow> J w \<Longrightarrow> wp (sleep d) (\<lambda>_. J) (\<lambda>x w. J w \<and> ex x) w"
    and ab: "\<And>a w. abort = Some a \<Longrightarrow> J w \<Longrightarrow> wp a (\<lambda>_. J) (\<lambda>x w. J w \<and> ex x) w"
    and ov: "\<And>x. exn_class x = OverflowErr \<Longrightarrow> ex x" and as: "\<And>x. exn_class x = OtherError \<Longrightarrow> ex x"
    and start: "wp operation q (\<lambda>x w. J w \<and> ex x) w"
  shows "wp (retry_on_message eng p sleep abort operation) q (\<lambda>x w. J w \<and> ex x) w"
proof (cases "retry_enabled p")
  case False
  then show ?thesis using start by (simp add: retry_on_message_def)
next
  case True
  then obtain n where n: "nat (rp_max_retries p + 1) = Suc n"
    by (metis Suc_nat_eq_nat_zadd1 add.commute less_le retry_enabled_def)
  have again: "wp (retry_loop eng p operation sleep abort n (1 + 1) (Some exc)) q (\<lambda>x w. J w \<and> ex x) w"
    if "ex exc" "J w" for exc w
    by (rule wp_retry_loop [OF op sl ab ov as]) (use that in auto)
  have "wp (retry_loop eng p operation sleep abort (Suc n) 1 None) q (\<lambda>x w. J w \<and> ex x) w"
    unfolding retry_loop.simps wp_tryM
    by (rule wp_mono [OF start], assumption, rule if_boolI, assumption)
       (rule wp_retry_handler [OF again sl ab ov]; (elim conjE)?; assumption)
  then show ?thesis using True n by (simp add: retry_on_message_def)
qed

text \<open>An operation that succeeds is run once.\<close>

lemma retry_on_message_success:
  assumes "operation w = (Inr a, w')"
  shows "retry_on_message eng p sleep abort operation w = (Inr a, w')"
proof (cases "retry_enabled p")
  case False
  then show ?thesis using assms by (simp add: retry_on_message_def)
next
  case True
  then obtain n where "nat (rp_max_retries p + 1) = Suc n"
    by (metis Suc_nat_eq_nat_zadd1 add.commute less_le retry_enabled_def)
  then show ?thesis using assms True by (simp add: retry_on_message_def run_tryM_Inr)
qed

text \<open>An exception that matches no pattern ends the retries at once.\<close>

lemma retry_on_message_no_match:
  assumes "operation w = (Inl x, w')" and "exn_class x = ProcessKilled \<or> retry_matches eng p x = None"
  shows "retry_on_message eng p sleep abort operation w = (Inl x, w')"
proof (cases "retry_enabled p")
  case False
  then show ?thesis using assms by (simp add: retry_on_message_def)
next
  case True
  then obtain n where "nat (rp_max_retries p + 1) = Suc n"
    by (metis Suc_nat_eq_nat_zadd1 add.commute less_le retry_enabled_def)
  then show ?thesis
    using assms True by (auto simp: retry_on_message_def tryM_def raise_def)
qed

section \<open>A scripted operation\<close>

text \<open>
  An operation whose outcomes are given in advance, and a sleep that records its argument: the world
  in which the number of attempts and the delays can be stated.
\<close>

record 'a script =
  sc_outcomes :: "(pyexn + 'a) list"
  sc_slept :: "real list"

definition scripted :: "('a script, 'a) eff" where
  "scripted w = (case sc_outcomes w of
       [] \<Rightarrow> (Inl (PyExn ProcessKilled []), w)
     | r # rs \<Rightarrow> (r, w\<lparr>sc_outcomes := rs\<rparr>))"

definition record_sleep :: "real \<Rightarrow> ('a script, unit) eff" where
  "record_sleep d = modifyM (\<lambda>w. w\<lparr>sc_slept := sc_slept w @ [d]\<rparr>)"

definition retryable :: "regex_engine \<Rightarrow> retry_policy \<Rightarrow> pyexn + 'a \<Rightarrow> bool" where
  "retryable eng p r = (case r of Inr _ \<Rightarrow> False
     | Inl e \<Rightarrow> exn_class e \<noteq> ProcessKilled \<and> retry_matches eng p e \<noteq> None)"

definition delay_of :: "retry_policy \<Rightarrow> nat \<Rightarrow> real" where
  "delay_of p k = min (rp_initial_wait_seconds p * 2 ^ k) (rp_max_wait_seconds p)"

lemma delay_for_attempt_eq:
  "k < 1024 \<Longrightarrow> delay_for_attempt p (int k + 1) = Inr (delay_of p k)"
  by (simp add: delay_for_attempt_def delay_of_def)

lemma delay_of_mono: "0 < rp_initial_wait_seconds p \<Longrightarrow> i \<le> k \<Longrightarrow> delay_of p i \<le> delay_of p k"
  unfolding delay_of_def by (intro min.mono mult_left_mono power_increasing) simp_all

lemma retry_loop_scripted:
  assumes "1 \<le> n" and "int m + int n = rp_max_retries p + 1" and "m + n \<le> 1025"
    and "n \<le> length outs"
    and "j = min (length (takeWhile (retryable eng p) outs)) (n - 1)"
  shows "retry_loop eng p scripted record_sleep None n (int m + 1) le
      \<lparr>sc_outcomes = outs, sc_slept = sl\<rparr> =
    (outs ! j, \<lparr>sc_outcomes = drop (Suc j) outs, sc_slept = sl @ map (delay_of p) [m ..< m + j]\<rparr>)"
  using assms
proof (induction n arbitrary: m outs sl j le)
  case 0
  then show ?case by simp
next
  case (Suc n)
  obtain r rs where outs: "outs = r # rs" using Suc.prems(4) by (cases outs) auto
  have op: "scripted \<lparr>sc_outcomes = outs, sc_slept = sl\<rparr> = (r, \<lparr>sc_outcomes = rs, sc_slept = sl\<rparr>)"
    by (simp add: scripted_def outs)
  show ?case
  proof (cases "retryable eng p r")
    case False
    then have j: "j = 0" using Suc.prems(5) outs by simp
    show ?thesis
    proof (cases r)
      case (Inr a)
      then show ?thesis using op j outs by (simp add: run_tryM_Inr)
    next
      case (Inl x)
      then have "exn_class x = ProcessKilled \<or> retry_matches eng p x = None"
        using False by (auto simp: retryable_def)
      then show ?thesis using op j outs Inl by (auto simp: tryM_def raise_def)
    qed
  next
    case True
    then obtain x t where x: "r = Inl x" "exn_class x \<noteq> ProcessKilled" "retry_matches eng p x = Some t"
      by (cases r) (auto simp: retryable_def)
    show ?thesis
    proof (cases "n = 0")
      case True
      then have "j = 0" using Suc.prems(5) by simp
      moreover have "int m + 1 \<ge> rp_max_retries p + 1" using True Suc.prems(2) by simp
      ultimately show ?thesis
        using op x outs by (simp add: run_tryM_Inl bindM_def ret_def raise_def)
    next
      case False
      then have lt: "\<not> int m + 1 \<ge> rp_max_retries p + 1" and m: "m < 1024"
        using Suc.prems(2,3) by auto
      define i where "i = min (length (takeWhile (retryable eng p) rs)) (n - 1)"
      have j: "j = Suc i" using Suc.prems(5) True outs False by (auto simp: i_def)
      have eq: "int m + 1 + 1 = int (Suc m) + 1" by simp
      have IH: "retry_loop eng p scripted record_sleep None n (int (Suc m) + 1) (Some x)
          \<lparr>sc_outcomes = rs, sc_slept = sl @ [delay_of p m]\<rparr> =
        (rs ! i, \<lparr>sc_outcomes = drop (Suc i) rs,
          sc_slept = (sl @ [delay_of p m]) @ map (delay_of p) [Suc m ..< Suc m + i]\<rparr>)"
        by (rule Suc.IH) (use False Suc.prems outs i_def in auto)
      have upt: "[m ..< m + j] = m # [Suc m ..< Suc m + i]" using j by (simp add: upt_rec [of m])
      have "retry_loop eng p scripted record_sleep None (Suc n) (int m + 1) le
          \<lparr>sc_outcomes = outs, sc_slept = sl\<rparr> =
        retry_loop eng p scripted record_sleep None n (int (Suc m) + 1) (Some x)
          \<lparr>sc_outcomes = rs, sc_slept = sl @ [delay_of p m]\<rparr>"
        using op x lt m delay_for_attempt_eq [of m p]
        by (simp add: run_tryM_Inl bindM_def ret_def liftE_def thenM_def record_sleep_def modifyM_def
            eq [simplified])
      then show ?thesis using IH j outs upt by simp
    qed
  qed
qed

section \<open>Properties\<close>

text \<open>
  C39: \<open>retry_on_message\<close> runs the operation until its outcome is not a retryable exception, at most
  \<open>max_retries + 1\<close> times; it returns or re-raises exactly the outcome of the last attempt, has slept
  the back-off of every earlier attempt, and has made no further attempt.
\<close>

theorem retry_on_message_scripted:
  fixes outs :: "(pyexn + 'a) list"
  assumes "retry_enabled p" and "rp_max_retries p \<le> 1024" and "rp_max_retries p < int (length outs)"
  shows "let j = min (length (takeWhile (retryable eng p) outs)) (nat (rp_max_retries p))
    in retry_on_message eng p record_sleep None scripted \<lparr>sc_outcomes = outs, sc_slept = []\<rparr> =
      (outs ! j, \<lparr>sc_outcomes = drop (Suc j) outs, sc_slept = map (delay_of p) [0 ..< j]\<rparr>)"
proof -
  define j where "j = min (length (takeWhile (retryable eng p) outs)) (nat (rp_max_retries p))"
  have pos: "0 < rp_max_retries p" using assms(1) by (simp add: retry_enabled_def)
  have "retry_loop eng p scripted record_sleep None (nat (rp_max_retries p + 1)) (int 0 + 1) None
      \<lparr>sc_outcomes = outs, sc_slept = []\<rparr> =
    (outs ! j, \<lparr>sc_outcomes = drop (Suc j) outs, sc_slept = [] @ map (delay_of p) [0 ..< 0 + j]\<rparr>)"
    by (rule retry_loop_scripted) (use pos assms in \<open>auto simp: nat_add_distrib j_def\<close>)
  then show ?thesis using assms(1) by (simp add: retry_on_message_def Let_def j_def)
qed

theorem retry_on_message_scripted_witness:
  "retry_on_message \<lparr>re_compiles = (\<lambda>_. True), re_search = (\<lambda>_ _. False)\<rparr>
     \<lparr>rp_patterns = [Substring ''busy''], rp_max_retries = 2, rp_initial_wait_seconds = 1,
      rp_max_wait_seconds = 30\<rparr> record_sleep None scripted
     \<lparr>sc_outcomes = [Inl (PyExn DbtDatabaseError ''busy''), Inr (7::int), Inr 8], sc_slept = []\<rparr> =
   (Inr 7, \<lparr>sc_outcomes = [Inr 8], sc_slept = [1]\<rparr>)"
proof -
  let ?eng = "\<lparr>re_compiles = (\<lambda>_. True), re_search = (\<lambda>_ _. False)\<rparr>"
  let ?p = "\<lparr>rp_patterns = [Substring ''busy''], rp_max_retries = 2, rp_initial_wait_seconds = 1,
      rp_max_wait_seconds = 30\<rparr>"
  let ?outs = "[Inl (PyExn DbtDatabaseError ''busy''), Inr (7::int), Inr 8]"
  have "retry_enabled ?p" "rp_max_retries ?p \<le> 1024" "rp_max_retries ?p < int (length ?outs)"
    by (simp_all add: retry_enabled_def)
  note app = retry_on_message_scripted [OF this, of ?eng]
  have "min (length (takeWhile (retryable ?eng ?p) ?outs)) (nat (rp_max_retries ?p)) = 1"
    by (simp add: retryable_def retry_matches_def)
  then show ?thesis using app by (simp add: delay_of_def Let_def)
qed

text \<open>
  C40: the back-off is exponential: the first delay is the initial wait, every later one is twice the
  one before it or the maximum wait, whichever is less, so the delays the code computes never
  decrease and stay between the initial and the maximum wait, for every attempt up to 1024; from
  attempt 1025 on, computing the delay raises \<open>OverflowError\<close>, so the original exception is lost.
\<close>

theorem retry_delays:
  assumes "0 < rp_initial_wait_seconds p" and "rp_initial_wait_seconds p \<le> rp_max_wait_seconds p"
  shows "delay_for_attempt p 1 = Inr (rp_initial_wait_seconds p) \<and>
    (\<forall>k. 1 \<le> k \<and> k < 1024 \<longrightarrow> (\<exists>d d'. delay_for_attempt p k = Inr d \<and> delay_for_attempt p (k + 1) = Inr d' \<and>
       d' = min (2 * d) (rp_max_wait_seconds p) \<and> d \<le> d' \<and>
       rp_initial_wait_seconds p \<le> d \<and> d' \<le> rp_max_wait_seconds p)) \<and>
    (\<forall>k \<ge> 1025. \<exists>e. delay_for_attempt p k = Inl e \<and> exn_class e = OverflowErr)"
proof (intro conjI allI impI)
  fix k :: int
  assume k: "1 \<le> k \<and> k < 1024"
  define n where "n = nat (k - 1)"
  have n: "k = int n + 1" "k + 1 = int (Suc n) + 1" "n < 1024" "Suc n < 1024" using k by (auto simp: n_def)
  have step: "delay_of p (Suc n) = min (2 * delay_of p n) (rp_max_wait_seconds p)"
    using assms by (auto simp: delay_of_def min_def)
  have low: "rp_initial_wait_seconds p \<le> delay_of p n"
    using delay_of_mono [of p 0 n] assms by (simp add: delay_of_def)
  show "\<exists>d d'. delay_for_attempt p k = Inr d \<and> delay_for_attempt p (k + 1) = Inr d' \<and>
      d' = min (2 * d) (rp_max_wait_seconds p) \<and> d \<le> d' \<and>
      rp_initial_wait_seconds p \<le> d \<and> d' \<le> rp_max_wait_seconds p"
    unfolding n(1) using delay_for_attempt_eq [OF n(3), of p] delay_for_attempt_eq [OF n(4), of p] n(1,2) step low assms
      delay_of_mono [of p n "Suc n"] by (auto simp: delay_of_def)
next
  show "delay_for_attempt p 1 = Inr (rp_initial_wait_seconds p)"
    using assms(2) by (simp add: delay_for_attempt_def)
next
  fix k :: int
  assume "1025 \<le> k"
  then show "\<exists>e. delay_for_attempt p k = Inl e \<and> exn_class e = OverflowErr"
    by (auto simp: delay_for_attempt_def Let_def)
qed

theorem retry_delays_witness:
  "\<exists>d. delay_for_attempt \<lparr>rp_patterns = [], rp_max_retries = 25, rp_initial_wait_seconds = 1,
      rp_max_wait_seconds = 30\<rparr> 2 = Inr d \<and> d = 2"
proof -
  let ?p = "\<lparr>rp_patterns = [], rp_max_retries = 25, rp_initial_wait_seconds = 1, rp_max_wait_seconds = 30\<rparr>"
  have "0 < rp_initial_wait_seconds ?p" "rp_initial_wait_seconds ?p \<le> rp_max_wait_seconds ?p" by simp_all
  from retry_delays [OF this] show ?thesis by (auto dest!: spec [of _ 1])
qed

text \<open>
  For a profile that passed \<open>ScopeCredentials.__post_init__\<close> and whose patterns compile, building
  the two retry policies of a connection raises nothing; their waits satisfy the conditions of the
  back-off bounds, and job retry is on exactly when the profile enables it with more than one
  attempt.
\<close>

theorem validated_credentials_give_policies:
  assumes "post_init c = Inr ()"
    and "compile_patterns eng (retry_on_error_messages c) = Inr ps"
    and "compile_patterns eng (job_retry_on_messages c) = Inr qs"
  shows "\<exists>p q. policy_from_credentials eng c = Inr p \<and> policy_for_job_retry eng c = Inr q \<and>
    0 < rp_initial_wait_seconds p \<and> rp_initial_wait_seconds p \<le> rp_max_wait_seconds p \<and>
    0 < rp_initial_wait_seconds q \<and> rp_initial_wait_seconds q \<le> rp_max_wait_seconds q \<and>
    rp_patterns p = ps \<and> (retry_enabled q \<longleftrightarrow> enable_job_retry c \<and> 1 < job_retry_max_attempts c)"
  using assms
  by (auto simp: post_init_ok policy_from_credentials_def policy_for_job_retry_def Let_def
      disabled_policy_def retry_enabled_def default_job_retry_rules_def)

theorem validated_credentials_give_policies_witness:
  "\<exists>p q. policy_from_credentials \<lparr>re_compiles = (\<lambda>_. True), re_search = (\<lambda>_ _. False)\<rparr>
       default_credentials = Inr p \<and>
     policy_for_job_retry \<lparr>re_compiles = (\<lambda>_. True), re_search = (\<lambda>_ _. False)\<rparr>
       default_credentials = Inr q \<and> retry_enabled q"
proof -
  let ?eng = "\<lparr>re_compiles = (\<lambda>_. True), re_search = (\<lambda>_ _. False)\<rparr>"
  have "compile_patterns ?eng (retry_on_error_messages default_credentials) = Inr []"
    and "compile_patterns ?eng (job_retry_on_messages default_credentials) = Inr []"
    and "enable_job_retry default_credentials" and "1 < job_retry_max_attempts default_credentials"
    by (simp_all add: default_credentials_def)
  then show ?thesis
    using validated_credentials_give_policies [OF post_init_default, of ?eng "[]" "[]"] by blast
qed

end
