(* ===== verification/Abfss_Location.thy ===== *)
theory Abfss_Location
  imports Py_Text
begin

text \<open>
  \<open>abfss://\<close> locations: \<open>parse_abfss\<close> and \<open>AbfssLocation\<close> of \<open>delta_lake.py\<close>, the paths
  \<open>checkpoint.py\<close> derives from them, and \<open>ScopeRelation.delta_location\<close> of \<open>relation.py\<close>. The
  lemmas show that the parser inverts both ways the adapter builds such a location, and that
  distinct checkpoint files of a table have distinct paths.
\<close>

record abfss_location =
  loc_container :: string
  loc_account :: string
  loc_path :: string

abbreviation dfs_suffix :: string where
  "dfs_suffix \<equiv> ''.dfs.core.windows.net/''"

text \<open>
  \<open>_ABFSS_RE.match\<close>. Each group but the last excludes the character that must follow it, so the
  first occurrence of that character ends the group; \<open>.+\<close> stops at a line break.
\<close>

definition parse_abfss :: "string \<Rightarrow> (string \<times> string \<times> string) option" where
  "parse_abfss location =
     (if \<not> py_startswith location ''abfss://'' then None
      else
        let s = drop 8 location;
            container = takeWhile (\<lambda>c. c \<noteq> CHR ''@'') s;
            s' = dropWhile (\<lambda>c. c \<noteq> CHR ''@'') s
        in if container = [] \<or> s' = [] then None
           else
             let account = takeWhile (\<lambda>c. c \<noteq> CHR ''.'') (tl s');
                 s'' = dropWhile (\<lambda>c. c \<noteq> CHR ''.'') (tl s')
             in if account = [] \<or> \<not> py_startswith s'' dfs_suffix then None
                else
                  let path = takeWhile (\<lambda>c. c \<noteq> CHR 0x0A) (drop (length dfs_suffix) s'')
                  in if path = [] then None else Some (container, account, path))"

definition abfss_parse :: "string \<Rightarrow> abfss_location option" where
  "abfss_parse location =
     (case parse_abfss location of None \<Rightarrow> None
      | Some (container, account, path) \<Rightarrow>
          Some \<lparr>loc_container = container, loc_account = account, loc_path = path\<rparr>)"

definition account_url :: "abfss_location \<Rightarrow> string" where
  "account_url l = ''https://'' @ loc_account l @ ''.dfs.core.windows.net''"

definition is_slash :: "char \<Rightarrow> bool" where
  "is_slash c \<longleftrightarrow> c = CHR ''/''"

definition strip_slashes :: "string \<Rightarrow> string" where
  "strip_slashes s = rstrip_if is_slash (dropWhile is_slash s)"

definition abfss_url :: "abfss_location \<Rightarrow> string" where
  "abfss_url l =
     ''abfss://'' @ (loc_container l @ ''@'' @ loc_account l @ ''.dfs.core.windows.net'') @ ''/'' @
     strip_slashes (loc_path l)"

text \<open>\<open>parsed.path.rstrip('/')\<close>: the table root every checkpoint path starts with.\<close>

definition table_root :: "abfss_location \<Rightarrow> string" where
  "table_root l = rstrip_if is_slash (loc_path l)"

definition checkpoint_dir :: "abfss_location \<Rightarrow> string" where
  "checkpoint_dir l = table_root l @ ''/'' @ ''_checkpoint''"

definition checkpoint_file :: "abfss_location \<Rightarrow> string \<Rightarrow> string" where
  "checkpoint_file l name = checkpoint_dir l @ ''/'' @ name"

text \<open>\<open>ScopeRelation.delta_location\<close>, and \<open>ScriptConfig.resolved_delta_location\<close> builds the same text.\<close>

definition relation_delta_location :: "string \<Rightarrow> string \<Rightarrow> string \<Rightarrow> string \<Rightarrow> string" where
  "relation_delta_location storage_account container delta_base_path identifier =
     ''abfss://'' @ container @ ''@'' @ storage_account @ ''.dfs.core.windows.net/'' @ delta_base_path @
     ''/'' @ identifier"

section \<open>Parsing what was built\<close>

lemma parse_abfss_built:
  assumes "container \<noteq> []" "CHR ''@'' \<notin> set container"
    and "account \<noteq> []" "CHR ''.'' \<notin> set account"
    and "path \<noteq> []" "CHR 0x0A \<notin> set path"
  shows "parse_abfss (''abfss://'' @ container @ ''@'' @ account @ dfs_suffix @ path) =
    Some (container, account, path)"
proof -
  have a: "takeWhile (\<lambda>c. c \<noteq> CHR ''@'') (container @ CHR ''@'' # r) = container"
    "dropWhile (\<lambda>c. c \<noteq> CHR ''@'') (container @ CHR ''@'' # r) = CHR ''@'' # r" for r
    using assms(2) by (simp_all add: takeWhile_not_mem_append dropWhile_not_mem_append)
  have b: "takeWhile (\<lambda>c. c \<noteq> CHR ''.'') (account @ CHR ''.'' # r) = account"
    "dropWhile (\<lambda>c. c \<noteq> CHR ''.'') (account @ CHR ''.'' # r) = CHR ''.'' # r" for r
    using assms(4) by (simp_all add: takeWhile_not_mem_append dropWhile_not_mem_append)
  have p: "takeWhile (\<lambda>c. c \<noteq> CHR 0x0A) path = path" using assms(6) by (rule takeWhile_not_mem)
  show ?thesis
    using assms(1,3,5) by (simp add: parse_abfss_def py_startswith_def Let_def a b p)
qed

lemma parse_abfss_parts:
  assumes "parse_abfss s = Some (container, account, path)"
  shows "container \<noteq> []" "CHR ''@'' \<notin> set container" "account \<noteq> []" "CHR ''.'' \<notin> set account"
    "path \<noteq> []" "CHR 0x0A \<notin> set path"
  using assms
  by (auto simp: parse_abfss_def Let_def split: if_splits dest: set_takeWhileD)

lemma set_rstrip_if: "set (rstrip_if p s) \<subseteq> set s"
  by (auto simp: rstrip_if_def dest: set_dropWhileD)

lemma set_strip_slashes: "set (strip_slashes s) \<subseteq> set s"
  using set_rstrip_if by (fastforce simp: strip_slashes_def dest: set_dropWhileD)

lemma strip_slashes_idem [simp]: "strip_slashes (strip_slashes s) = strip_slashes s"
proof (cases "strip_slashes s")
  case Nil
  show ?thesis by (simp only: Nil) (simp add: strip_slashes_def rstrip_if_def)
next
  case (Cons c t)
  have "prefix (c # t) (dropWhile is_slash s)"
    using Cons rstrip_if_prefix [of is_slash "dropWhile is_slash s"] by (simp add: strip_slashes_def)
  then obtain u where u: "dropWhile is_slash s = (c # t) @ u" by (auto simp: prefix_def)
  then have "\<not> is_slash c" by (metis append_Cons dropWhile_eq_Cons_conv)
  then have "dropWhile is_slash (c # t) = c # t" by simp
  then show ?thesis
    using Cons by (metis rstrip_if_idem strip_slashes_def)
qed

lemma checkpoint_file_inject [simp]:
  "checkpoint_file l n = checkpoint_file l m \<longleftrightarrow> n = m"
  by (simp add: checkpoint_file_def)

section \<open>Properties\<close>

text \<open>
  For a parsed location, \<open>AbfssLocation.url\<close> parses back to the same container and account and to
  the path without its outer slashes, whenever that path is not empty; so the table URL the DuckDB
  reads use names the table the checkpoint is kept for.
\<close>

theorem abfss_url_roundtrip:
  assumes "abfss_parse s = Some l" and "strip_slashes (loc_path l) \<noteq> []"
  shows "abfss_parse (abfss_url l) = Some (l\<lparr>loc_path := strip_slashes (loc_path l)\<rparr>)"
proof -
  obtain c a p where p: "parse_abfss s = Some (c, a, p)"
    and l: "l = \<lparr>loc_container = c, loc_account = a, loc_path = p\<rparr>"
    using assms(1) by (auto simp: abfss_parse_def split: option.splits)
  have "CHR 0x0A \<notin> set (strip_slashes p)" using parse_abfss_parts(6) [OF p] set_strip_slashes by blast
  then have "parse_abfss (''abfss://'' @ c @ ''@'' @ a @ dfs_suffix @ strip_slashes p) =
      Some (c, a, strip_slashes p)"
    using parse_abfss_parts [OF p] assms(2) l by (intro parse_abfss_built) simp_all
  then show ?thesis by (simp add: abfss_parse_def abfss_url_def l)
qed

theorem abfss_url_roundtrip_witness:
  "abfss_parse (abfss_url \<lparr>loc_container = ''ctr'', loc_account = ''acct'', loc_path = ''delta/t/''\<rparr>) =
    Some \<lparr>loc_container = ''ctr'', loc_account = ''acct'', loc_path = ''delta/t''\<rparr>"
proof -
  let ?l = "\<lparr>loc_container = ''ctr'', loc_account = ''acct'', loc_path = ''delta/t/''\<rparr>"
  have "abfss_parse ''abfss://ctr@acct.dfs.core.windows.net/delta/t/'' = Some ?l"
    by (simp add: abfss_parse_def parse_abfss_def py_startswith_def Let_def)
  moreover have s: "strip_slashes (loc_path ?l) = ''delta/t''"
    by (simp add: strip_slashes_def rstrip_if_def is_slash_def)
  ultimately show ?thesis using abfss_url_roundtrip [of _ ?l] s by (metis abfss_location.update_convs(3) list.distinct(1))
qed

text \<open>
  The location a relation builds from its storage account, container, base path and identifier is
  always a location the checkpoint manager and the Delta client accept, and it parses to exactly
  those parts.
\<close>

theorem relation_location_parses:
  assumes "container \<noteq> []" "CHR ''@'' \<notin> set container"
    and "account \<noteq> []" "CHR ''.'' \<notin> set account"
    and "CHR 0x0A \<notin> set base" "CHR 0x0A \<notin> set ident"
  shows "abfss_parse (relation_delta_location account container base ident) =
    Some \<lparr>loc_container = container, loc_account = account, loc_path = base @ ''/'' @ ident\<rparr>"
proof -
  have "parse_abfss (''abfss://'' @ container @ ''@'' @ account @ dfs_suffix @ (base @ ''/'' @ ident)) =
      Some (container, account, base @ ''/'' @ ident)"
    by (rule parse_abfss_built) (use assms in auto)
  then show ?thesis by (simp add: abfss_parse_def relation_delta_location_def)
qed

theorem relation_location_parses_witness:
  "abfss_parse (relation_delta_location ''acct'' ''ctr'' ''delta'' ''my_table'') =
    Some \<lparr>loc_container = ''ctr'', loc_account = ''acct'', loc_path = ''delta/my_table''\<rparr>"
  using relation_location_parses [of "''ctr''" "''acct''" "''delta''" "''my_table''"] by simp

end
