(* ===== verification/Storage_World.thy ===== *)
theory Storage_World
  imports Checkpoint_Records Message_Retry Abfss_Location
begin

text \<open>
  The storage the checkpoint manager works on: per Delta table the files under \<open>_checkpoint/\<close>, a
  clock, and a schedule of outages. Every request of the Azure client is one \<open>storage_call\<close>; the
  schedule decides whether it is served, fails before it takes effect, takes effect and loses its
  response, or is the point where the process dies. The schedule is arbitrary, so a theorem that does
  not constrain \<open>st_faults\<close> holds for every pattern of failures. Requests to a file that is absent,
  or that a condition rejects, fail as the service documents it.
\<close>

section \<open>Files of a table\<close>

text \<open>
  A table is named by account, container and the path its checkpoint files start with
  (\<open>checkpoint_file_inject\<close>: distinct names are distinct paths).
\<close>

type_synonym table_key = "string \<times> string \<times> string"

definition table_key :: "abfss_location \<Rightarrow> table_key" where
  "table_key l = (loc_account l, loc_container l, table_root l)"

text \<open>
  A record of \<open>_checkpoint/sources/\<close>. Its processing time is ISO text, or the naive timestamp a
  Parquet snapshot holds.
\<close>

datatype source_time = IsoText string | Stamp int

record source_record =
  sr_path :: string
  sr_modification_time :: int
  sr_batch_id :: int
  sr_processed :: source_time

text \<open>A JSONL diff, line by line (\<open>None\<close>: a line that is not JSON), or a Parquet snapshot.\<close>

datatype source_blob = Jsonl "source_record option list" | Snapshot "source_record list"

record table_dir =
  wm_file :: "(doc \<times> int) option"
  pend_file :: "doc option"
  own_file :: "(doc \<times> nat) option"
  src_dir :: "(string \<times> source_blob) list option"

definition empty_dir :: table_dir where
  "empty_dir = \<lparr>wm_file = None, pend_file = None, own_file = None, src_dir = None\<rparr>"

section \<open>Outages\<close>

text \<open>
  What a request may fail with whatever it asks for: no credential, an error of the service or of its
  client library, a refused ADLA request, a lost connection, a timeout, the end of the process.
\<close>

datatype outage =
    NoCredential string
  | ServiceError string
  | HttpError string
  | ConnectionLost string
  | RequestTimeout string
  | Killed

fun outage_exn :: "outage \<Rightarrow> pyexn" where
  "outage_exn (NoCredential m) = PyExn CredentialUnavailableError m"
| "outage_exn (ServiceError m) = PyExn OtherError m"
| "outage_exn (HttpError m) = PyExn DbtDatabaseError m"
| "outage_exn (ConnectionLost m) = PyExn RequestsConnectionError m"
| "outage_exn (RequestTimeout m) = PyExn RequestsTimeout m"
| "outage_exn Killed = PyExn ProcessKilled []"

datatype fault = NoFault | FailBefore outage | FailAfter outage

record store =
  st_faults :: "fault list"
  st_clock :: int
  st_etag :: nat
  st_tables :: "table_key \<Rightarrow> table_dir"

definition storage_call :: "('z store_scheme, 'a) eff \<Rightarrow> ('z store_scheme, 'a) eff" where
  "storage_call req = (\<lambda>w.
     case st_faults w of
       [] \<Rightarrow> req w
     | f # fs \<Rightarrow>
         (let w' = w\<lparr>st_faults := fs\<rparr> in
          case f of
            NoFault \<Rightarrow> req w'
          | FailBefore x \<Rightarrow> (Inl (outage_exn x), w')
          | FailAfter x \<Rightarrow>
              (case req w' of
                 (Inl e, w'') \<Rightarrow> (Inl e, w'')
               | (Inr _, w'') \<Rightarrow> (Inl (outage_exn x), w''))))"

definition upd_table :: "table_key \<Rightarrow> (table_dir \<Rightarrow> table_dir) \<Rightarrow> 'z store_scheme \<Rightarrow> 'z store_scheme" where
  "upd_table k f w = w\<lparr>st_tables := (st_tables w)(k := f (st_tables w k))\<rparr>"

definition not_found :: "string \<Rightarrow> pyexn" where
  "not_found name = PyExn ResourceNotFoundError name"

text \<open>
  \<open>time.sleep\<close> lets the clock advance, never back: no delay of the code is negative, and an
  \<open>Event.wait\<close> for a negative time returns at once.
\<close>

definition sleepM :: "real \<Rightarrow> ('z store_scheme, unit) eff" where
  "sleepM d = modifyM (\<lambda>w. w\<lparr>st_clock := st_clock w + max 0 \<lceil>d * 1000000\<rceil>\<rparr>)"

text \<open>\<open>datetime.now(timezone.utc)\<close>, in microseconds.\<close>

definition now_us :: "('z store_scheme, int) eff" where
  "now_us = asks st_clock"

text \<open>\<open>int(time.time())\<close>.\<close>

definition now_seconds :: "('z store_scheme, int) eff" where
  "now_seconds = bindM now_us (\<lambda>now. ret (now div 1000000))"

section \<open>The checkpoint manager's configuration\<close>

text \<open>\<open>CheckpointManager.__init__\<close>: the message retry policy, with the regex engine it runs on.\<close>

record manager =
  mg_engine :: regex_engine
  mg_policy :: retry_policy

definition mg_retry :: "manager \<Rightarrow> ('z store_scheme, 'a) eff \<Rightarrow> ('z store_scheme, 'a) eff" where
  "mg_retry m op = retry_on_message (mg_engine m) (mg_policy m) sleepM None op"

section \<open>Reasoning about storage calls\<close>

lemma upd_table_simps [simp]:
  "st_tables (upd_table k f w) = (st_tables w)(k := f (st_tables w k))"
  "st_faults (upd_table k f w) = st_faults w"
  "st_clock (upd_table k f w) = st_clock w"
  "st_etag (upd_table k f w) = st_etag w"
  by (simp_all add: upd_table_def)

lemma storage_call_no_fault [eff_run]:
  "st_faults w = [] \<Longrightarrow> storage_call req w = req w"
  by (simp add: storage_call_def)

lemma wp_storage_call:
  assumes "\<And>fs. wp req (\<lambda>a w'. q a w' \<and> (\<forall>x. e (outage_exn x) w')) e (w\<lparr>st_faults := fs\<rparr>)"
    and "\<And>fs x. e (outage_exn x) (w\<lparr>st_faults := fs\<rparr>)"
  shows "wp (storage_call req) q e w"
proof -
  have "wp req (\<lambda>a w'. q a w' \<and> (\<forall>x. e (outage_exn x) w')) e w"
    using assms(1) [of "st_faults w"] by simp
  then show ?thesis
    using assms
    by (fastforce simp: storage_call_def wp_def Let_def split: list.splits fault.splits sum.splits prod.splits)
qed

text \<open>
  A world predicate that survives sleeping survives every retried request that keeps it. One that
  looks at the tables only also survives what the outage schedule does.
\<close>

definition clock_free :: "('z store_scheme \<Rightarrow> bool) \<Rightarrow> bool" where
  "clock_free J \<longleftrightarrow> (\<forall>w c. J w \<longrightarrow> st_clock w \<le> c \<longrightarrow> J (w\<lparr>st_clock := c\<rparr>))"

definition fault_free :: "('z store_scheme \<Rightarrow> bool) \<Rightarrow> bool" where
  "fault_free J \<longleftrightarrow> (\<forall>w fs. J w \<longrightarrow> J (w\<lparr>st_faults := fs\<rparr>))"

lemma fault_freeD: "fault_free J \<Longrightarrow> J w \<Longrightarrow> J (w\<lparr>st_faults := fs\<rparr>)"
  by (simp add: fault_free_def)

lemma wp_sleepM: "clock_free J \<Longrightarrow> J w \<Longrightarrow> wp (sleepM d) (\<lambda>_. J) e w"
  by (simp add: sleepM_def wp_modifyM clock_free_def)

lemma wp_mg_retry:
  assumes "clock_free J"
    and "\<And>w. J w \<Longrightarrow> wp op q (\<lambda>x w. J w \<and> ex x) w"
    and "\<And>x. exn_class x = OverflowErr \<or> exn_class x = OtherError \<Longrightarrow> ex x"
    and "J w"
  shows "wp (mg_retry m op) q (\<lambda>x w. J w \<and> ex x) w"
  unfolding mg_retry_def
  by (rule wp_retry_on_message) (use assms in \<open>auto intro: wp_sleepM\<close>)

text \<open>\<open>time.sleep\<close> raises for a negative time; a policy whose waits are not negative never asks for one.\<close>

definition patient :: "manager \<Rightarrow> bool" where
  "patient m \<longleftrightarrow> 0 \<le> rp_initial_wait_seconds (mg_policy m) \<and> 0 \<le> rp_max_wait_seconds (mg_policy m)"

lemma delay_not_negative: "delay_for_attempt p k = Inr d \<Longrightarrow> 0 \<le> rp_initial_wait_seconds p \<Longrightarrow>
    0 \<le> rp_max_wait_seconds p \<Longrightarrow> 0 \<le> d"
  by (auto simp: delay_for_attempt_def Let_def split: if_splits)

lemma wp_mg_retry_up:
  assumes "patient m" and "clock_free J" and "J w" and "\<And>w. J w \<Longrightarrow> wp op q (\<lambda>_. J) w"
  shows "wp (mg_retry m op) q (\<lambda>_. J) w"
proof -
  have "wp (mg_retry m op) q (\<lambda>x w. J w \<and> True) w"
    unfolding mg_retry_def
    by (rule wp_retry_on_message)
       (use assms delay_not_negative in \<open>fastforce intro: wp_sleepM simp: patient_def\<close>)+
  then show ?thesis by simp
qed

lemma mg_retry_success: "op w = (Inr a, w') \<Longrightarrow> mg_retry m op w = (Inr a, w')"
  by (simp add: mg_retry_def retry_on_message_success)

end
