(* ===== verification/Source_Log.thy ===== *)
theory Source_Log
  imports Storage_World "HOL-Library.Product_Lexorder"
begin

text \<open>
  \<open>_checkpoint/sources/\<close>: what \<open>CheckpointManager\<close> records of the processed files. A batch writes a
  JSONL diff, or on every compaction boundary a Parquet snapshot of the whole history;
  \<open>cleanup_sources\<close> bounds the number of files. What DuckDB makes of the records it is given as
  NDJSON is the parameter \<open>duck_load\<close>; \<open>duck_ok\<close> states what \<open>CAST ... AS TIMESTAMP\<close> documents.
\<close>

section \<open>Requests\<close>

definition list_sources :: "table_key \<Rightarrow> ('z store_scheme, string list) eff" where
  "list_sources k = storage_call (\<lambda>w.
     case src_dir (st_tables w k) of
       None \<Rightarrow> (Inl (not_found ''sources''), w)
     | Some fs \<Rightarrow> (Inr (map fst fs), w))"

definition download_source :: "table_key \<Rightarrow> string \<Rightarrow> ('z store_scheme, source_blob) eff" where
  "download_source k name = storage_call (\<lambda>w.
     case src_dir (st_tables w k) of
       None \<Rightarrow> (Inl (not_found name), w)
     | Some fs \<Rightarrow>
         (case map_of fs name of None \<Rightarrow> (Inl (not_found name), w) | Some b \<Rightarrow> (Inr b, w)))"

definition upload_source :: "table_key \<Rightarrow> string \<Rightarrow> source_blob \<Rightarrow> ('z store_scheme, unit) eff" where
  "upload_source k name b = storage_call (\<lambda>w.
     (Inr (), upd_table k (\<lambda>d. d\<lparr>src_dir := Some (assoc_put name b (case src_dir d of None \<Rightarrow> [] | Some fs \<Rightarrow> fs))\<rparr>) w))"

definition remove_source :: "string \<Rightarrow> table_dir \<Rightarrow> table_dir" where
  "remove_source name d = d\<lparr>src_dir := map_option (filter (\<lambda>f. fst f \<noteq> name)) (src_dir d)\<rparr>"

definition delete_source :: "table_key \<Rightarrow> string \<Rightarrow> ('z store_scheme, unit) eff" where
  "delete_source k name = storage_call (\<lambda>w.
     case src_dir (st_tables w k) of
       None \<Rightarrow> (Inl (not_found name), w)
     | Some fs \<Rightarrow>
         if name \<in> set (map fst fs) then (Inr (), upd_table k (remove_source name) w)
         else (Inl (not_found name), w))"

definition create_sources_dir :: "table_key \<Rightarrow> ('z store_scheme, unit) eff" where
  "create_sources_dir k = storage_call (\<lambda>w.
     (Inr (), upd_table k (\<lambda>d. d\<lparr>src_dir := Some (case src_dir d of None \<Rightarrow> [] | Some fs \<Rightarrow> fs)\<rparr>) w))"

section \<open>Records\<close>

text \<open>\<open>_json_default\<close>: a naive timestamp is written as UTC ISO text.\<close>

fun json_default :: "source_time \<Rightarrow> source_time" where
  "json_default (IsoText s) = IsoText s"
| "json_default (Stamp t) = IsoText (isoformat (utc_dt t))"

definition dump_record :: "source_record \<Rightarrow> source_record" where
  "dump_record r = r\<lparr>sr_processed := json_default (sr_processed r)\<rparr>"

fun build_source_records ::
    "string list \<Rightarrow> int list \<Rightarrow> int \<Rightarrow> string \<Rightarrow> pyexn + source_record list" where
  "build_source_records [] [] batch_id now = Inr []"
| "build_source_records (p # ps) (t # ts) batch_id now =
     bindE (build_source_records ps ts batch_id now) (\<lambda>rs.
       Inr (\<lparr>sr_path = p, sr_modification_time = epoch_ms_trunc t, sr_batch_id = batch_id,
             sr_processed = IsoText now\<rparr> # rs))"
| "build_source_records _ _ batch_id now = Inl (PyExn ValueErr ''zip() arguments differ in length'')"

definition write_jsonl :: "table_key \<Rightarrow> int \<Rightarrow> source_record list \<Rightarrow> ('z store_scheme, unit) eff" where
  "write_jsonl k batch_id records =
     upload_source k (show_int batch_id) (Jsonl (map (\<lambda>r. Some (dump_record r)) records))"

section \<open>Snapshots\<close>

definition parquet_suffix :: string where
  "parquet_suffix = ''.parquet''"

definition snapshot_name :: "int \<Rightarrow> string" where
  "snapshot_name batch_id = show_int batch_id @ parquet_suffix"

definition snapshot_id :: "string \<Rightarrow> int option" where
  "snapshot_id name =
     (if py_endswith name parquet_suffix then py_int (take (length name - length parquet_suffix) name)
      else None)"

text \<open>The first pass over the listing: the greatest snapshot id, starting from \<open>-1\<close>, and its file.\<close>

fun latest_snapshot :: "string list \<Rightarrow> int \<Rightarrow> string option \<Rightarrow> int \<times> string option" where
  "latest_snapshot [] best path = (best, path)"
| "latest_snapshot (name # names) best path =
     (case snapshot_id name of
        Some i \<Rightarrow> if i > best then latest_snapshot names i (Some name) else latest_snapshot names best path
      | None \<Rightarrow> latest_snapshot names best path)"

text \<open>\<open>read_parquet\<close> and the rows it returns; a file that is not Parquet makes DuckDB raise.\<close>

definition read_snapshot_file :: "table_key \<Rightarrow> string \<Rightarrow> ('z store_scheme, source_record list) eff" where
  "read_snapshot_file k name = bindM (download_source k name) (\<lambda>b.
     case b of Snapshot rs \<Rightarrow> ret rs | Jsonl _ \<Rightarrow> raise (PyExn OtherError ''duckdb: not a parquet file''))"

text \<open>Lines are appended until one does not parse.\<close>

fun parsed_lines :: "source_record option list \<Rightarrow> source_record list" where
  "parsed_lines [] = []"
| "parsed_lines (None # ls) = []"
| "parsed_lines (Some r # ls) = r # parsed_lines ls"

text \<open>One diff, or nothing with a warning when it cannot be read.\<close>

definition read_diff_file :: "table_key \<Rightarrow> string \<Rightarrow> ('z store_scheme, source_record list) eff" where
  "read_diff_file k name =
     tryM (bindM (download_source k name) (\<lambda>b.
             case b of Jsonl ls \<Rightarrow> ret (parsed_lines ls) | Snapshot _ \<Rightarrow> ret []))
       (\<lambda>_. ret [])"

text \<open>The second pass: the diffs above the snapshot, each read or skipped with a warning.\<close>

fun read_diffs_after :: "table_key \<Rightarrow> int \<Rightarrow> string list \<Rightarrow> ('z store_scheme, source_record list) eff" where
  "read_diffs_after k snap [] = ret []"
| "read_diffs_after k snap (name # names) =
     (if py_endswith name parquet_suffix then read_diffs_after k snap names
      else case py_int name of
        None \<Rightarrow> read_diffs_after k snap names
      | Some i \<Rightarrow>
          if i \<le> snap then read_diffs_after k snap names
          else bindM (read_diff_file k name) (\<lambda>rs. bindM (read_diffs_after k snap names) (\<lambda>rest. ret (rs @ rest))))"

type_synonym duckdb = "source_record list \<Rightarrow> pyexn + source_record list"

definition write_snapshot_parquet ::
    "duckdb \<Rightarrow> table_key \<Rightarrow> int \<Rightarrow> source_record list \<Rightarrow> ('z store_scheme, unit) eff" where
  "write_snapshot_parquet duck_load k batch_id current_batch_records =
     bindM (list_sources k) (\<lambda>names.
     case latest_snapshot names (-1) None of (snap, path) \<Rightarrow>
     bindM (case path of None \<Rightarrow> ret []
            | Some p \<Rightarrow> tryM (read_snapshot_file k p) (\<lambda>_. ret [])) (\<lambda>old.
     bindM (read_diffs_after k snap names) (\<lambda>diffs.
     bindM (liftE (duck_load (map dump_record (old @ diffs @ current_batch_records)))) (\<lambda>rows.
       upload_source k (snapshot_name batch_id) (Snapshot rows)))))"

section \<open>write\_batch\_sources\<close>

definition is_compaction :: "int \<Rightarrow> int \<Rightarrow> pyexn + bool" where
  "is_compaction batch_id interval =
     (if batch_id > 0
      then (if interval = 0 then Inl (PyExn OtherError ''ZeroDivisionError'')
            else Inr (batch_id mod interval = 0))
      else Inr False)"

definition write_batch_sources ::
    "duckdb \<Rightarrow> manager \<Rightarrow> string \<Rightarrow> int \<Rightarrow> string list \<Rightarrow> int list \<Rightarrow> int \<Rightarrow> ('z store_scheme, unit) eff" where
  "write_batch_sources duck_load m delta_location batch_id file_paths modification_times interval =
     (case abfss_parse delta_location of
        None \<Rightarrow> ret ()
      | Some parsed \<Rightarrow>
          let k = table_key parsed in
          bindM now_us (\<lambda>now.
          bindM (liftE (build_source_records file_paths modification_times batch_id (isoformat (utc_dt now))))
            (\<lambda>batch_records.
          bindM (liftE (is_compaction batch_id interval)) (\<lambda>compaction.
            mg_retry m
              (thenM (create_sources_dir k)
                (if compaction then write_snapshot_parquet duck_load k batch_id batch_records
                 else write_jsonl k batch_id batch_records))))))"

section \<open>cleanup\_sources, delete\_all\_sources, list\_source\_files\<close>

definition source_sort_key :: "string \<Rightarrow> nat \<times> string" where
  "source_sort_key name = (case py_int name of Some i \<Rightarrow> (0, fmt020d i) | None \<Rightarrow> (1, name))"

fun delete_each :: "table_key \<Rightarrow> string list \<Rightarrow> nat \<Rightarrow> ('z store_scheme, nat) eff" where
  "delete_each k [] deleted = ret deleted"
| "delete_each k (name # names) deleted =
     bindM (tryM (thenM (delete_source k name) (ret (deleted + 1))) (\<lambda>_. ret deleted))
       (delete_each k names)"

definition cleanup_sources :: "manager \<Rightarrow> string \<Rightarrow> int \<Rightarrow> ('z store_scheme, nat) eff" where
  "cleanup_sources m delta_location max_files =
     (case abfss_parse delta_location of
        None \<Rightarrow> ret 0
      | Some parsed \<Rightarrow>
          let k = table_key parsed in
          tryM
            (mg_retry m
              (bindM (list_sources k) (\<lambda>names.
                 if int (length names) \<le> max_files then ret 0
                 else delete_each k
                   (take (nat (int (length names) - max_files)) (sort_key source_sort_key names)) 0)))
            (\<lambda>_. ret 0))"

definition delete_all_sources :: "manager \<Rightarrow> string \<Rightarrow> ('z store_scheme, unit) eff" where
  "delete_all_sources m delta_location =
     (case abfss_parse delta_location of
        None \<Rightarrow> ret ()
      | Some parsed \<Rightarrow>
          let k = table_key parsed in
          tryM
            (mg_retry m
              (bindM (list_sources k) (\<lambda>names. bindM (delete_each k names 0) (\<lambda>_. ret ()))))
            (\<lambda>_. ret ()))"

definition list_source_files :: "manager \<Rightarrow> string \<Rightarrow> ('z store_scheme, string list) eff" where
  "list_source_files m delta_location =
     (case abfss_parse delta_location of
        None \<Rightarrow> ret []
      | Some parsed \<Rightarrow>
          tryM (mg_retry m (bindM (list_sources (table_key parsed)) (\<lambda>names. ret (sort names))))
            (\<lambda>_. ret []))"

section \<open>read\_batch\_source\<close>

text \<open>A line that does not parse, or a file that is no text, makes the JSONL attempt raise.\<close>

definition read_jsonl_file :: "table_key \<Rightarrow> string \<Rightarrow> ('z store_scheme, source_record list) eff" where
  "read_jsonl_file k name = bindM (download_source k name) (\<lambda>b.
     case b of
       Jsonl ls \<Rightarrow>
         if None \<in> set ls then raise (PyExn ValueErr ''JSONDecodeError'') else ret (parsed_lines ls)
     | Snapshot _ \<Rightarrow> raise (PyExn ValueErr ''UnicodeDecodeError''))"

definition read_batch_source :: "manager \<Rightarrow> string \<Rightarrow> int \<Rightarrow> ('z store_scheme, source_record list) eff" where
  "read_batch_source m delta_location batch_id =
     (case abfss_parse delta_location of
        None \<Rightarrow> ret []
      | Some parsed \<Rightarrow>
          let k = table_key parsed in
          tryM (mg_retry m (read_jsonl_file k (show_int batch_id)))
            (\<lambda>_. tryM
              (mg_retry m
                (bindM (read_snapshot_file k (snapshot_name batch_id)) (\<lambda>rs.
                   ret (filter (\<lambda>r. sr_batch_id r = batch_id) rs))))
              (\<lambda>_. ret [])))"

section \<open>DuckDB's cast\<close>

text \<open>
  \<open>CAST(... AS TIMESTAMP)\<close> of UTC ISO text gives the same instant as a naive timestamp, and the other
  columns keep their values when they fit \<open>BIGINT\<close>; an empty NDJSON file has no columns to cast.
\<close>

definition stamp_record :: "source_record \<Rightarrow> source_record" where
  "stamp_record r = r\<lparr>sr_processed :=
     (case sr_processed r of
        IsoText s \<Rightarrow> (case fromisoformat s of Inr d \<Rightarrow> Stamp (instant d) | Inl _ \<Rightarrow> IsoText s)
      | Stamp t \<Rightarrow> Stamp t)\<rparr>"

definition bigint :: "int \<Rightarrow> bool" where
  "bigint i \<longleftrightarrow> - (2 ^ 63) \<le> i \<and> i < 2 ^ 63"

definition wf_record :: "source_record \<Rightarrow> bool" where
  "wf_record r \<longleftrightarrow> bigint (sr_modification_time r) \<and> bigint (sr_batch_id r) \<and>
     (case sr_processed r of
        Stamp t \<Rightarrow> False
      | IsoText s \<Rightarrow>
          (case fromisoformat s of
             Inl _ \<Rightarrow> False
           | Inr d \<Rightarrow> dt_ok (utc_dt (instant d)) \<and> s = isoformat (utc_dt (instant d))))"

definition duck_ok :: "duckdb \<Rightarrow> bool" where
  "duck_ok duck_load \<longleftrightarrow>
     (\<forall>rs. rs \<noteq> [] \<and> list_all wf_record rs \<longrightarrow> duck_load rs = Inr (map stamp_record rs))"

text \<open>A cast that behaves so, for the examples.\<close>

definition duck_cast :: duckdb where
  "duck_cast rs = (if rs = [] then Inl (PyExn OtherError ''duckdb: no columns'') else Inr (map stamp_record rs))"

lemma duck_ok_duck_cast: "duck_ok duck_cast"
  by (simp add: duck_ok_def duck_cast_def)

lemma dump_stamp_record [simp]: "wf_record r \<Longrightarrow> dump_record (stamp_record r) = r"
  by (cases r) (auto simp: wf_record_def dump_record_def stamp_record_def fromisoformat_isoformat
      split: source_time.splits sum.splits)

lemma dump_wf_record [simp]: "wf_record r \<Longrightarrow> dump_record r = r"
  by (cases r) (auto simp: wf_record_def dump_record_def split: source_time.splits)

lemma sr_batch_id_stamp [simp]: "sr_batch_id (stamp_record r) = sr_batch_id r"
  by (simp add: stamp_record_def)

section \<open>Names of the files\<close>

lemma parquet_suffix_snoc: "parquet_suffix = ''.parque'' @ ''t''"
  by (simp add: parquet_suffix_def)

lemma py_int_snapshot_name [simp]: "py_int (snapshot_name i) = None"
proof -
  have "py_int ((show_int i @ ''.parque'') @ [CHR ''t'']) = None"
    by (rule py_int_bad_end) (simp_all add: is_digit_def is_space_def)
  then show ?thesis by (simp add: snapshot_name_def parquet_suffix_snoc)
qed

lemma snapshot_id_snapshot_name [simp]: "snapshot_id (snapshot_name (int i)) = Some (int i)"
  by (simp add: snapshot_id_def snapshot_name_def py_endswith_def suffix_def show_int_def)

lemma endswith_snapshot_name [simp]: "py_endswith (snapshot_name i) parquet_suffix"
  by (simp add: snapshot_name_def py_endswith_def suffix_def)

lemma not_endswith_number:
  assumes "list_all is_digit s"
  shows "\<not> py_endswith s parquet_suffix"
proof
  assume "py_endswith s parquet_suffix"
  then obtain u where "s = u @ parquet_suffix" by (auto simp: py_endswith_def suffix_def)
  then show False using assms by (simp add: parquet_suffix_def is_digit_def)
qed

lemma show_int_nat [simp]: "show_int (int i) = show_nat i"
  by (simp add: show_int_def)

lemma not_endswith_show_nat [simp]: "\<not> py_endswith (show_nat i) parquet_suffix"
  by (rule not_endswith_number) simp

lemma snapshot_id_show_nat [simp]: "snapshot_id (show_nat i) = None"
  by (simp add: snapshot_id_def)

lemma show_nat_inject [simp]: "show_nat i = show_nat j \<longleftrightarrow> i = j"
  by (metis py_int_show_nat of_nat_eq_iff option.inject)

lemma snapshot_name_inject [simp]: "snapshot_name (int i) = snapshot_name (int j) \<longleftrightarrow> i = j"
  by (simp add: snapshot_name_def)

lemma snapshot_name_neq [simp]:
  "snapshot_name i \<noteq> show_nat j" "show_nat j \<noteq> snapshot_name i"
  by (metis option.distinct(1) py_int_show_nat py_int_snapshot_name)+

section \<open>The log after the batches 0 to n - 1\<close>

definition compaction_at :: "nat \<Rightarrow> nat \<Rightarrow> bool" where
  "compaction_at c i \<longleftrightarrow> 0 < i \<and> i mod c = 0"

definition batch_file_name :: "nat \<Rightarrow> nat \<Rightarrow> string" where
  "batch_file_name c i = (if compaction_at c i then snapshot_name (int i) else show_nat i)"

definition history :: "(nat \<Rightarrow> source_record list) \<Rightarrow> nat \<Rightarrow> source_record list" where
  "history H n = concat (map H [0..<n])"

definition batch_blob :: "nat \<Rightarrow> (nat \<Rightarrow> source_record list) \<Rightarrow> nat \<Rightarrow> source_blob" where
  "batch_blob c H i =
     (if compaction_at c i then Snapshot (map stamp_record (history H (Suc i)))
      else Jsonl (map Some (H i)))"

definition expected_log :: "nat \<Rightarrow> (nat \<Rightarrow> source_record list) \<Rightarrow> nat \<Rightarrow> (string \<times> source_blob) list" where
  "expected_log c H n = map (\<lambda>i. (batch_file_name c i, batch_blob c H i)) [0..<n]"

definition log_names :: "nat \<Rightarrow> nat \<Rightarrow> string list" where
  "log_names c n = map (batch_file_name c) [0..<n]"

lemma map_fst_expected_log [simp]: "map fst (expected_log c H n) = log_names c n"
  by (simp add: expected_log_def log_names_def)

lemma log_names_Suc [simp]: "log_names c (Suc n) = log_names c n @ [batch_file_name c n]"
  by (simp add: log_names_def)

lemma history_Suc [simp]: "history H (Suc n) = history H n @ H n"
  by (simp add: history_def)

lemma history_0 [simp]: "history H 0 = []"
  by (simp add: history_def)

lemma batch_file_name_inject [simp]: "batch_file_name c i = batch_file_name c j \<longleftrightarrow> i = j"
  by (auto simp: batch_file_name_def)

lemma map_of_expected_log:
  "i < n \<Longrightarrow> map_of (expected_log c H n) (batch_file_name c i) = Some (batch_blob c H i)"
  by (induction n) (auto simp: expected_log_def map_add_def less_Suc_eq split: option.splits
      dest!: map_of_SomeD)

lemma assoc_put_new: "k \<notin> fst ` set m \<Longrightarrow> assoc_put k v m = m @ [(k, v)]"
  by (induction m) auto

lemma assoc_put_expected_log:
  "assoc_put (batch_file_name c n) (batch_blob c H n) (expected_log c H n) = expected_log c H (Suc n)"
proof -
  have "batch_file_name c n \<notin> fst ` set (expected_log c H n)"
    by (auto simp: expected_log_def)
  then show ?thesis by (simp add: assoc_put_new) (simp add: expected_log_def)
qed

lemma wf_history:
  assumes "\<And>i. i < n \<Longrightarrow> list_all wf_record (H i)"
  shows "list_all wf_record (history H n)"
  using assms by (induction n) simp_all

lemma history_cong: "(\<And>i. i < n \<Longrightarrow> H i = H' i) \<Longrightarrow> history H n = history H' n"
  unfolding history_def by (intro arg_cong [where f = concat] map_cong) auto

lemma expected_log_cong: "(\<And>i. i < n \<Longrightarrow> H i = H' i) \<Longrightarrow> expected_log c H n = expected_log c H' n"
  by (auto simp: expected_log_def batch_blob_def intro!: arg_cong [where f = "map stamp_record"] history_cong
      simp del: history_Suc)

subsection \<open>The latest snapshot\<close>

fun last_snapshot :: "nat \<Rightarrow> nat \<Rightarrow> nat option" where
  "last_snapshot c 0 = None"
| "last_snapshot c (Suc n) = (if compaction_at c n then Some n else last_snapshot c n)"

lemma last_snapshot_less: "last_snapshot c n = Some j \<Longrightarrow> j < n \<and> compaction_at c j"
  by (induction n) (auto split: if_splits)

lemma last_snapshot_none_after:
  "i < n \<Longrightarrow> (case last_snapshot c n of None \<Rightarrow> True | Some j \<Rightarrow> j < i) \<Longrightarrow> \<not> compaction_at c i"
  by (induction n) (auto simp: less_Suc_eq split: if_splits option.splits dest: last_snapshot_less)

lemma latest_snapshot_snoc:
  "latest_snapshot (ns @ [x]) b p =
     (case latest_snapshot ns b p of (b', p') \<Rightarrow>
        case snapshot_id x of Some i \<Rightarrow> if i > b' then (i, Some x) else (b', p') | None \<Rightarrow> (b', p'))"
  by (induction ns arbitrary: b p) (auto split: option.splits)

lemma latest_snapshot_log_names:
  "latest_snapshot (log_names c n) (-1) None =
     (case last_snapshot c n of None \<Rightarrow> (-1, None)
      | Some j \<Rightarrow> (int j, Some (snapshot_name (int j))))"
proof (induction n)
  case 0
  then show ?case by (simp add: log_names_def)
next
  case (Suc n)
  then show ?case
    by (auto simp: latest_snapshot_snoc batch_file_name_def split: option.splits dest: last_snapshot_less)
qed

subsection \<open>The diffs since\<close>

definition diff_records :: "(string \<times> source_blob) list \<Rightarrow> int \<Rightarrow> string \<Rightarrow> source_record list" where
  "diff_records fs snap name =
     (if py_endswith name parquet_suffix then []
      else case py_int name of
        None \<Rightarrow> []
      | Some i \<Rightarrow> if i \<le> snap then []
                else (case map_of fs name of Some (Jsonl ls) \<Rightarrow> parsed_lines ls | _ \<Rightarrow> []))"

lemma run_download_source:
  "st_faults w = [] \<Longrightarrow> src_dir (st_tables w k) = Some fs \<Longrightarrow>
   download_source k name w =
     (case map_of fs name of None \<Rightarrow> (Inl (not_found name), w) | Some b \<Rightarrow> (Inr b, w))"
  by (simp add: download_source_def eff_run)

lemma run_read_diff_file:
  "st_faults w = [] \<Longrightarrow> src_dir (st_tables w k) = Some fs \<Longrightarrow>
   read_diff_file k name w =
     (Inr (case map_of fs name of Some (Jsonl ls) \<Rightarrow> parsed_lines ls | _ \<Rightarrow> []), w)"
  by (simp add: read_diff_file_def run_tryM run_bindM run_download_source not_found_def run_ret
      split: option.splits source_blob.splits)

lemma run_read_diffs_after:
  assumes "st_faults w = []" and "src_dir (st_tables w k) = Some fs"
  shows "read_diffs_after k snap names w = (Inr (concat (map (diff_records fs snap) names)), w)"
  by (induction names)
     (simp_all add: run_ret run_bindM run_read_diff_file [OF assms] diff_records_def split: option.splits)

lemma parsed_lines_map_Some [simp]: "parsed_lines (map Some rs) = rs"
  by (induction rs) auto

lemma diff_records_log:
  assumes "i < n"
  shows "diff_records (expected_log c H n) snap (batch_file_name c i) =
    (if compaction_at c i \<or> int i \<le> snap then [] else H i)"
  using map_of_expected_log [OF assms, of c H]
  by (auto simp: diff_records_def batch_file_name_def batch_blob_def)

lemma concat_diffs_after:
  assumes "\<And>i. m \<le> i \<Longrightarrow> i < n \<Longrightarrow> \<not> compaction_at c i" and "m \<le> n"
    and "\<And>i. int i \<le> snap \<longleftrightarrow> i < m"
  shows "concat (map (\<lambda>i. if compaction_at c i \<or> int i \<le> snap then [] else H i) [0..<n]) =
    concat (map H [m..<n])"
proof -
  let ?f = "\<lambda>i. if compaction_at c i \<or> int i \<le> snap then [] else H i"
  have "[0..<n] = [0..<m] @ [m..<n]"
    using assms(2) upt_add_eq_append [of 0 m "n - m"] by simp
  moreover have "concat (map ?f [0..<m]) = []"
    using assms(3) by simp
  moreover have "map ?f [m..<n] = map H [m..<n]"
    using assms(1,3) by (intro map_cong) auto
  ultimately show ?thesis by (simp only: map_append concat_append append_Nil)
qed

lemma diffs_after_snapshot:
  "concat (map (diff_records (expected_log c H n) snap) (log_names c n)) =
     concat (map (\<lambda>i. if compaction_at c i \<or> int i \<le> snap then [] else H i) [0..<n])"
  unfolding log_names_def map_map comp_def
  by (intro arg_cong [where f = concat] map_cong) (auto simp: diff_records_log)

section \<open>Writing a batch extends the log\<close>

definition log_dir :: "nat \<Rightarrow> (nat \<Rightarrow> source_record list) \<Rightarrow> nat \<Rightarrow> (string \<times> source_blob) list option" where
  "log_dir c H n = (if n = 0 then None else Some (expected_log c H n))"

text \<open>The sources directory of the table holds the log of the first \<open>n\<close> batches, and nothing fails.\<close>

definition log_state :: "table_key \<Rightarrow> nat \<Rightarrow> (nat \<Rightarrow> source_record list) \<Rightarrow> nat \<Rightarrow> 'z store_scheme \<Rightarrow> bool" where
  "log_state k c H n w \<longleftrightarrow> st_faults w = [] \<and> src_dir (st_tables w k) = log_dir c H n"

lemma old_and_diffs:
  assumes "\<And>i. i < n \<Longrightarrow> list_all wf_record (H i)"
  shows "map dump_record
      ((case last_snapshot c n of None \<Rightarrow> [] | Some j \<Rightarrow> map stamp_record (history H (Suc j))) @
       concat (map (diff_records (expected_log c H n)
         (case last_snapshot c n of None \<Rightarrow> -1 | Some j \<Rightarrow> int j)) (log_names c n))) = history H n"
proof -
  let ?m = "case last_snapshot c n of None \<Rightarrow> 0 | Some j \<Rightarrow> Suc j"
  have m: "?m \<le> n" by (auto split: option.splits dest: last_snapshot_less)
  have wf: "wf_record r" if "r \<in> set (history H i)" "i \<le> n" for r i
  proof -
    have "list_all wf_record (history H i)" by (rule wf_history) (use assms that(2) in simp)
    then show ?thesis using that(1) by (simp add: list_all_iff)
  qed
  have "concat (map (diff_records (expected_log c H n)
      (case last_snapshot c n of None \<Rightarrow> -1 | Some j \<Rightarrow> int j)) (log_names c n)) = concat (map H [?m..<n])"
    unfolding diffs_after_snapshot
    by (rule concat_diffs_after)
       (use m last_snapshot_none_after [of _ n c] in \<open>auto split: option.splits\<close>)
  moreover have "map dump_record (concat (map H [?m..<n])) = concat (map H [?m..<n])"
    using assms by (intro map_idI dump_wf_record) (fastforce simp: list_all_iff)
  moreover have "map dump_record
      (case last_snapshot c n of None \<Rightarrow> [] | Some j \<Rightarrow> map stamp_record (history H (Suc j))) = history H ?m"
    using wf by (auto simp: comp_def intro!: map_idI split: option.splits dest!: last_snapshot_less
        simp del: history_Suc)
  moreover have "[0..<n] = [0..<?m] @ [?m..<n]"
    using m upt_add_eq_append [of 0 ?m "n - ?m"] by simp
  ultimately show ?thesis by (simp only: map_append history_def concat_append)
qed

lemma run_write_snapshot:
  assumes "st_faults w = []" and "src_dir (st_tables w k) = Some (expected_log c H n)"
    and "compaction_at c n" and "\<And>i. i \<le> n \<Longrightarrow> list_all wf_record (H i)" and "H n \<noteq> []" and "duck_ok duck"
  shows "write_snapshot_parquet duck k (int n) (H n) w =
    (Inr (), upd_table k (\<lambda>d. d\<lparr>src_dir := Some (expected_log c H (Suc n))\<rparr>) w)"
proof -
  let ?snap = "case last_snapshot c n of None \<Rightarrow> -1 | Some j \<Rightarrow> int j"
  let ?old = "case last_snapshot c n of None \<Rightarrow> [] | Some j \<Rightarrow> map stamp_record (history H (Suc j))"
  have names: "list_sources k w = (Inr (log_names c n), w)"
    using assms(1,2) by (simp add: list_sources_def eff_run)
  have latest: "latest_snapshot (log_names c n) (-1) None =
      (?snap, case last_snapshot c n of None \<Rightarrow> None | Some j \<Rightarrow> Some (snapshot_name (int j)))"
    by (simp add: latest_snapshot_log_names split: option.splits)
  have old: "(case (case last_snapshot c n of None \<Rightarrow> None | Some j \<Rightarrow> Some (snapshot_name (int j))) of
        None \<Rightarrow> ret [] | Some p \<Rightarrow> tryM (read_snapshot_file k p) (\<lambda>_. ret [])) w = (Inr ?old, w)"
  proof (cases "last_snapshot c n")
    case None
    then show ?thesis by (simp add: run_ret)
  next
    case (Some j)
    then have "j < n" "compaction_at c j" by (auto dest: last_snapshot_less)
    then have "map_of (expected_log c H n) (snapshot_name (int j)) =
        Some (Snapshot (map stamp_record (history H (Suc j))))"
      using map_of_expected_log [of j n c H] by (simp add: batch_file_name_def batch_blob_def)
    then show ?thesis
      using Some run_download_source [OF assms(1,2), of "snapshot_name (int j)"]
      by (simp add: read_snapshot_file_def run_tryM run_bindM run_ret)
  qed
  have rows: "duck (map dump_record (?old @
      concat (map (diff_records (expected_log c H n) ?snap) (log_names c n)) @ H n)) =
      Inr (map stamp_record (history H (Suc n)))"
  proof -
    have "map dump_record (H n) = H n"
      using assms(4) [of n] by (intro map_idI) (auto simp: list_all_iff)
    then have "map dump_record (?old @
        concat (map (diff_records (expected_log c H n) ?snap) (log_names c n)) @ H n) = history H (Suc n)"
      using old_and_diffs [of n H c] assms(4) by simp
    moreover have "list_all wf_record (history H (Suc n))"
      using assms(4) by (intro wf_history) simp
    ultimately show ?thesis using assms(5,6) by (simp add: duck_ok_def)
  qed
  have blob: "Snapshot (map stamp_record (history H (Suc n))) = batch_blob c H n"
    "snapshot_name (int n) = batch_file_name c n"
    using assms(3) by (simp_all add: batch_blob_def batch_file_name_def)
  show ?thesis
    by (simp add: write_snapshot_parquet_def run_bindM names latest old
        run_read_diffs_after [OF assms(1,2)] run_liftE rows [unfolded append_assoc]
        upload_source_def storage_call_no_fault [OF assms(1)] blob del: history_Suc map_append)
       (simp add: upd_table_def assms(2) assoc_put_expected_log)
qed

lemma run_write_jsonl:
  assumes "st_faults w = []" and "src_dir (st_tables w k) = Some (expected_log c H n)"
    and "\<not> compaction_at c n" and "list_all wf_record (H n)"
  shows "write_jsonl k (int n) (H n) w =
    (Inr (), upd_table k (\<lambda>d. d\<lparr>src_dir := Some (expected_log c H (Suc n))\<rparr>) w)"
proof -
  have "map (\<lambda>r. Some (dump_record r)) (H n) = map Some (H n)"
    using assms(4) by (auto simp: list_all_iff)
  then have blob: "Jsonl (map (\<lambda>r. Some (dump_record r)) (H n)) = batch_blob c H n"
    "show_nat n = batch_file_name c n"
    using assms(3) by (simp_all add: batch_blob_def batch_file_name_def)
  show ?thesis
    by (simp add: blob write_jsonl_def upload_source_def storage_call_no_fault [OF assms(1)] upd_table_def assms(2)
        assoc_put_expected_log del: history_Suc)
qed

text \<open>The records of batch \<open>i\<close>, written at clock \<open>t\<close> for the files \<open>ps\<close> with modification times \<open>ts\<close>.\<close>

definition records_of :: "nat \<Rightarrow> int \<times> string list \<times> int list \<Rightarrow> source_record list" where
  "records_of i b = (case b of (t, ps, ts) \<Rightarrow>
     map2 (\<lambda>p u. \<lparr>sr_path = p, sr_modification_time = epoch_ms_trunc u, sr_batch_id = int i,
                   sr_processed = IsoText (isoformat (utc_dt t))\<rparr>) ps ts)"

definition batch_ok :: "int \<times> string list \<times> int list \<Rightarrow> bool" where
  "batch_ok b \<longleftrightarrow> (case b of (t, ps, ts) \<Rightarrow>
     ps \<noteq> [] \<and> length ps = length ts \<and> dt_ok (utc_dt t) \<and> list_all (\<lambda>u. bigint (epoch_ms_trunc u)) ts)"

lemma build_source_records_eq:
  "length ps = length ts \<Longrightarrow> build_source_records ps ts (int i) (isoformat (utc_dt t)) = Inr (records_of i (t, ps, ts))"
  by (induction ps ts rule: list_induct2) (simp_all add: records_of_def)

lemma wf_records_of:
  assumes "batch_ok b" and "bigint (int i)"
  shows "list_all wf_record (records_of i b)" "records_of i b \<noteq> []"
  using assms by (auto simp: records_of_def batch_ok_def wf_record_def list_all_iff set_zip split: prod.splits)

lemma sr_batch_id_records_of: "r \<in> set (records_of i b) \<Longrightarrow> sr_batch_id r = int i"
  by (auto simp: records_of_def split: prod.splits)

lemma is_compaction_nat: "0 < c \<Longrightarrow> is_compaction (int n) (int c) = Inr (compaction_at c n)"
  by (auto simp: is_compaction_def compaction_at_def zmod_int [symmetric])

lemma run_write_batch_sources:
  assumes "log_state k c H n w" and "abfss_parse loc = Some l" and "k = table_key l" and "0 < c"
    and "\<And>i. i \<le> n \<Longrightarrow> list_all wf_record (H i)" and "H n \<noteq> []" and "duck_ok duck"
    and "length ps = length ts" and "H n = records_of n (st_clock w, ps, ts)"
  shows "write_batch_sources duck m loc (int n) ps ts (int c) w =
    (Inr (), upd_table k (\<lambda>d. d\<lparr>src_dir := Some (expected_log c H (Suc n))\<rparr>) w)"
proof -
  let ?w = "upd_table k (\<lambda>d. d\<lparr>src_dir := Some (expected_log c H n)\<rparr>) w"
  have nofault: "st_faults w = []" and dir: "src_dir (st_tables w k) = log_dir c H n"
    using assms(1) by (simp_all add: log_state_def)
  have create: "create_sources_dir k w = (Inr (), ?w)"
    using dir by (simp add: create_sources_dir_def storage_call_no_fault [OF nofault] log_dir_def upd_table_def
        expected_log_def)
  have w: "st_faults ?w = []" "src_dir (st_tables ?w k) = Some (expected_log c H n)"
    using nofault by simp_all
  have "(if compaction_at c n then write_snapshot_parquet duck k (int n) (H n) else write_jsonl k (int n) (H n)) ?w =
      (Inr (), upd_table k (\<lambda>d. d\<lparr>src_dir := Some (expected_log c H (Suc n))\<rparr>) ?w)"
    using run_write_snapshot [OF w _ assms(5,6,7)] run_write_jsonl [OF w, of] assms(5) by simp
  also have "\<dots> = (Inr (), upd_table k (\<lambda>d. d\<lparr>src_dir := Some (expected_log c H (Suc n))\<rparr>) w)"
    by (simp add: upd_table_def)
  finally have step: "thenM (create_sources_dir k)
      (if compaction_at c n then write_snapshot_parquet duck k (int n) (H n) else write_jsonl k (int n) (H n)) w =
      (Inr (), upd_table k (\<lambda>d. d\<lparr>src_dir := Some (expected_log c H (Suc n))\<rparr>) w)"
    by (simp only: run_thenM create prod.case sum.case)
  have "mg_retry m (thenM (create_sources_dir k)
      (if compaction_at c n then write_snapshot_parquet duck k (int n) (H n) else write_jsonl k (int n) (H n))) w =
      (Inr (), upd_table k (\<lambda>d. d\<lparr>src_dir := Some (expected_log c H (Suc n))\<rparr>) w)"
    by (rule mg_retry_success) (fact step)
  then show ?thesis
    using assms(2,4,8)
    by (simp add: write_batch_sources_def Let_def now_us_def run_bindM run_asks run_liftE build_source_records_eq
        is_compaction_nat assms(3) [symmetric] assms(9) [symmetric] del: if_split)
qed

lemma log_state_extended:
  "log_state k c H n w \<Longrightarrow>
   log_state k c H (Suc n) (upd_table k (\<lambda>d. d\<lparr>src_dir := Some (expected_log c H (Suc n))\<rparr>) w)"
  by (simp add: log_state_def log_dir_def)

section \<open>Reading a batch back\<close>

lemma clock_free_log_state: "clock_free (log_state k c H n)"
  by (simp add: clock_free_def log_state_def)

lemma filter_history:
  assumes "\<And>j r. r \<in> set (H j) \<Longrightarrow> sr_batch_id r = int j"
  shows "filter (\<lambda>r. sr_batch_id r = int i) (history H (Suc i)) = H i"
proof -
  have "filter (\<lambda>r. sr_batch_id r = int i) (history H n) = []" if "n \<le> i" for n
    using that assms by (induction n) (auto simp: filter_empty_conv)
  moreover have "filter (\<lambda>r. sr_batch_id r = int i) (H i) = H i"
    using assms by (auto simp: filter_id_conv)
  ultimately show ?thesis by simp
qed

text \<open>What a reader gets for batch \<open>i\<close>: the diff's records, or the rows of the snapshot written in its place.\<close>

definition recorded :: "nat \<Rightarrow> (nat \<Rightarrow> source_record list) \<Rightarrow> nat \<Rightarrow> source_record list" where
  "recorded c H i = (if compaction_at c i then map stamp_record (H i) else H i)"

lemma wp_read_batch_source:
  assumes "log_state k c H n w" and "i < n" and "abfss_parse loc = Some l" and "k = table_key l"
    and ids: "\<And>j r. r \<in> set (H j) \<Longrightarrow> sr_batch_id r = int j"
  shows "wp (read_batch_source m loc (int i)) (\<lambda>rs w'. rs = recorded c H i \<and> log_state k c H n w') (\<lambda>_ _. False) w"
proof -
  let ?J = "log_state k c H n"
  let ?q = "\<lambda>rs w'. rs = recorded c H i \<and> ?J w'"
  let ?snap = "bindM (read_snapshot_file k (snapshot_name (int i))) (\<lambda>rs.
      ret (filter (\<lambda>r. sr_batch_id r = int i) rs))"
  have entry: "map_of (expected_log c H n) (batch_file_name c i) = Some (batch_blob c H i)"
    using assms(2) by (rule map_of_expected_log)
  have dir: "st_faults v = []" "src_dir (st_tables v k) = Some (expected_log c H n)" if "?J v" for v
    using that assms(2) by (auto simp: log_state_def log_dir_def split: if_splits)
  have absent: "map_of (expected_log c H n) (show_nat i) = None" if "compaction_at c i"
    using that by (auto simp: expected_log_def map_of_eq_None_iff batch_file_name_def split: if_splits)
  have jsonl: "wp (read_jsonl_file k (show_nat i)) ?q
      (\<lambda>x w. ?J w \<and> exn_class x \<noteq> ProcessKilled \<and> compaction_at c i) v" if "?J v" for v
  proof (cases "compaction_at c i")
    case True
    then show ?thesis
      using that run_download_source [OF dir [OF that], of "show_nat i"] absent
      by (simp add: wp_def read_jsonl_file_def run_bindM not_found_def)
  next
    case False
    then have "map_of (expected_log c H n) (show_nat i) = Some (Jsonl (map Some (H i)))"
      using entry by (simp add: batch_file_name_def batch_blob_def)
    then show ?thesis
      using False that run_download_source [OF dir [OF that], of "show_nat i"]
      by (simp add: wp_def read_jsonl_file_def run_bindM run_ret recorded_def)
  qed
  have snap: "wp ?snap ?q (\<lambda>_ _. False) v" if c: "compaction_at c i" and "?J v" for v
  proof -
    have "map_of (expected_log c H n) (snapshot_name (int i)) =
        Some (Snapshot (map stamp_record (history H (Suc i))))"
      using entry c by (simp add: batch_file_name_def batch_blob_def)
    moreover have "filter (\<lambda>r. sr_batch_id r = int i) (map stamp_record (history H (Suc i))) =
        map stamp_record (H i)"
      using filter_history [OF ids] by (simp add: filter_map comp_def del: history_Suc)
    ultimately show ?thesis
      using that run_download_source [OF dir [OF that(2)], of "snapshot_name (int i)"]
      by (simp add: wp_def read_snapshot_file_def run_bindM run_ret recorded_def del: history_Suc)
  qed
  have snap': "wp (mg_retry m ?snap) ?q (\<lambda>_ _. False) v" if prem: "compaction_at c i" "?J v" for v
  proof -
    obtain rs v' where "?snap v = (Inr rs, v')" and "?q rs v'"
      using snap [OF prem] by (auto simp: wp_def split: prod.splits sum.splits)
    then show ?thesis by (simp add: wp_def mg_retry_success)
  qed
  have "wp (mg_retry m (read_jsonl_file k (show_nat i))) ?q
      (\<lambda>x w. if exn_class x = ProcessKilled then False else
         wp (tryM (mg_retry m ?snap) (\<lambda>_. ret [])) ?q (\<lambda>_ _. False) w) w"
  proof (cases "compaction_at c i")
    case True
    have "wp (mg_retry m (read_jsonl_file k (show_nat i))) ?q (\<lambda>x w. ?J w \<and> exn_class x \<noteq> ProcessKilled) w"
    proof (rule wp_mg_retry [OF clock_free_log_state _ _ assms(1)])
      show "wp (read_jsonl_file k (show_nat i)) ?q (\<lambda>x w. ?J w \<and> exn_class x \<noteq> ProcessKilled) v" if "?J v" for v
        by (rule wp_mono [OF jsonl [OF that]]) auto
    qed auto
    then show ?thesis
    proof (rule wp_mono)
      fix x v
      assume "?J v \<and> exn_class x \<noteq> ProcessKilled"
      moreover from this have "wp (mg_retry m ?snap) ?q (\<lambda>_ _. False) v" using snap' True by blast
      then have "wp (tryM (mg_retry m ?snap) (\<lambda>_. ret [])) ?q (\<lambda>_ _. False) v"
        unfolding wp_tryM by (rule wp_mono) auto
      ultimately show "if exn_class x = ProcessKilled then False else
          wp (tryM (mg_retry m ?snap) (\<lambda>_. ret [])) ?q (\<lambda>_ _. False) v" by simp
    qed simp
  next
    case False
    obtain rs v' where "read_jsonl_file k (show_nat i) w = (Inr rs, v')" and "?q rs v'"
      using jsonl [OF assms(1)] False by (auto simp: wp_def split: prod.splits sum.splits)
    then show ?thesis by (simp add: wp_def mg_retry_success)
  qed
  then have "wp (tryM (mg_retry m (read_jsonl_file k (show_nat i)))
      (\<lambda>_. tryM (mg_retry m ?snap) (\<lambda>_. ret []))) ?q (\<lambda>_ _. False) w"
    by (subst wp_tryM)
  then show ?thesis
    using assms(3,4) by (simp add: read_batch_source_def Let_def)
qed

section \<open>Retention\<close>

lemma run_list_sources:
  "st_faults w = [] \<Longrightarrow> src_dir (st_tables w k) = Some fs \<Longrightarrow> list_sources k w = (Inr (map fst fs), w)"
  by (simp add: list_sources_def eff_run)

definition without :: "string set \<Rightarrow> table_dir \<Rightarrow> table_dir" where
  "without names d = d\<lparr>src_dir := map_option (filter (\<lambda>f. fst f \<notin> names)) (src_dir d)\<rparr>"

lemma upd_table_upd_table [simp]: "upd_table k f (upd_table k g w) = upd_table k (f \<circ> g) w"
  by (simp add: upd_table_def)

lemma without_remove: "without names \<circ> remove_source name = without (insert name names)"
  by (auto simp: fun_eq_iff without_def remove_source_def option.map_comp comp_def intro!: filter_cong
      option.map_cong)

lemma run_delete_each:
  assumes "st_faults w = []" and "src_dir (st_tables w k) = Some fs" and "distinct names"
    and "set names \<subseteq> set (map fst fs)"
  shows "delete_each k names n w = (Inr (n + length names), upd_table k (without (set names)) w)"
  using assms
proof (induction names arbitrary: n w fs)
  case Nil
  have "without {} d = d" for d
    by (cases d, cases "src_dir d") (simp_all add: without_def)
  then have "upd_table k (without {}) w = w" by (simp add: upd_table_def)
  then show ?case by (simp add: run_ret)
next
  case (Cons name names)
  let ?w = "upd_table k (remove_source name) w"
  let ?fs = "filter (\<lambda>f. fst f \<noteq> name) fs"
  have one: "delete_source k name w = (Inr (), ?w)"
    using Cons.prems by (simp add: delete_source_def eff_run)
  have "delete_each k names (n + 1) ?w = (Inr (n + 1 + length names), upd_table k (without (set names)) ?w)"
  proof (rule Cons.IH)
    show "src_dir (st_tables ?w k) = Some ?fs" using Cons.prems(2) by (simp add: remove_source_def)
    show "set names \<subseteq> set (map fst ?fs)" using Cons.prems(3,4) by (force simp: image_iff)
  qed (use Cons.prems in simp_all)
  then show ?case
    by (simp add: run_bindM run_tryM run_thenM run_ret one without_remove)
qed

lemma mg_retry_bind_success:
  "op w = (Inr a, w') \<Longrightarrow> tryM (mg_retry m op) h w = (Inr a, w')"
  by (simp add: run_tryM mg_retry_success)

text \<open>The files that retention keeps of a listing: all but the first ones by the sort key.\<close>

definition retained :: "int \<Rightarrow> string list \<Rightarrow> string list" where
  "retained max_files names =
     (if int (length names) \<le> max_files then names
      else drop (nat (int (length names) - max_files)) (sort_key source_sort_key names))"

lemma run_cleanup_sources:
  assumes "st_faults w = []" and "src_dir (st_tables w k) = Some fs" and "distinct (map fst fs)"
    and "abfss_parse loc = Some l" and "k = table_key l" and "0 \<le> max_files"
  shows "\<exists>n fs' w'. cleanup_sources m loc max_files w = (Inr n, w') \<and>
    w' = upd_table k (\<lambda>d. d\<lparr>src_dir := Some fs'\<rparr>) w \<and>
    fs' = filter (\<lambda>f. fst f \<in> set (retained max_files (map fst fs))) fs \<and>
    int n = max 0 (int (length fs) - max_files)"
proof (cases "int (length fs) \<le> max_files")
  case True
  then have "bindM (list_sources k) (\<lambda>names.
      if int (length names) \<le> max_files then ret 0
      else delete_each k (take (nat (int (length names) - max_files)) (sort_key source_sort_key names)) 0) w =
      (Inr 0, w)"
    by (simp add: run_bindM run_list_sources [OF assms(1,2)] run_ret)
  then have "cleanup_sources m loc max_files w = (Inr 0, w)"
    using assms(4,5) by (simp only: cleanup_sources_def Let_def option.case mg_retry_bind_success)
  moreover have "filter (\<lambda>f. fst f \<in> set (retained max_files (map fst fs))) fs = fs"
    using True by (simp add: retained_def filter_id_conv)
  moreover have "upd_table k (\<lambda>d. d\<lparr>src_dir := Some fs\<rparr>) w = w"
    using assms(2) by (simp add: upd_table_def fun_upd_idem)
  ultimately show ?thesis using True by auto
next
  case False
  let ?names = "map fst fs"
  let ?n = "nat (int (length ?names) - max_files)"
  let ?sorted = "sort_key source_sort_key ?names"
  have gone: "set (take ?n ?sorted) \<subseteq> set ?names" "distinct (take ?n ?sorted)"
    using assms(3) set_take_subset [of ?n ?sorted] by (auto simp: distinct_take)
  have "set ?sorted = set (take ?n ?sorted) \<union> set (drop ?n ?sorted)"
    by (metis append_take_drop_id set_append)
  moreover have "set (take ?n ?sorted) \<inter> set (drop ?n ?sorted) = {}"
    using assms(3) by (intro set_take_disj_set_drop_if_distinct) simp_all
  ultimately have rest: "fst f \<notin> set (take ?n ?sorted) \<longleftrightarrow> fst f \<in> set (retained max_files ?names)"
    if "f \<in> set fs" for f
    using that False by (auto simp: retained_def)
  have "bindM (list_sources k) (\<lambda>names.
      if int (length names) \<le> max_files then ret 0
      else delete_each k (take (nat (int (length names) - max_files)) (sort_key source_sort_key names)) 0) w =
      (Inr (length (take ?n ?sorted)), upd_table k (without (set (take ?n ?sorted))) w)"
    using False run_delete_each [OF assms(1,2) gone(2,1), of 0]
    by (simp add: run_bindM run_list_sources [OF assms(1,2)])
  then have "cleanup_sources m loc max_files w =
      (Inr (length (take ?n ?sorted)), upd_table k (without (set (take ?n ?sorted))) w)"
    using assms(4,5) by (simp only: cleanup_sources_def Let_def option.case mg_retry_bind_success)
  moreover have "upd_table k (without (set (take ?n ?sorted))) w =
      upd_table k (\<lambda>d. d\<lparr>src_dir := Some (filter (\<lambda>f. fst f \<in> set (retained max_files ?names)) fs)\<rparr>) w"
    using rest assms(2) by (simp add: upd_table_def without_def cong: filter_cong)
  moreover have "int (length (take ?n ?sorted)) = max 0 (int (length fs) - max_files)"
    using False assms(6) by simp
  ultimately show ?thesis by blast
qed

lemma length_retained: "0 \<le> max_files \<Longrightarrow> int (length (retained max_files names)) = min (int (length names)) max_files"
  by (simp add: retained_def)

lemma sorted_key_split:
  fixes f :: "'a \<Rightarrow> 'k::linorder"
  assumes "sorted (map f ys)" and "\<And>x y. P x \<Longrightarrow> \<not> P y \<Longrightarrow> f x < f y"
  shows "ys = filter P ys @ filter (\<lambda>y. \<not> P y) ys"
  using assms(1)
proof (induction ys)
  case Nil
  show ?case by simp
next
  case (Cons y ys)
  then have IH: "ys = filter P ys @ filter (\<lambda>y. \<not> P y) ys" by simp
  show ?case
  proof (cases "P y")
    case True
    then show ?thesis using IH by simp
  next
    case False
    have "\<not> P z" if "z \<in> set ys" for z
      using Cons.prems that False assms(2) [of z y] by fastforce
    then show ?thesis using False by (simp add: filter_empty_conv filter_id_conv)
  qed
qed

lemma numeric_names_first:
  "py_int a \<noteq> None \<Longrightarrow> \<not> py_int b \<noteq> None \<Longrightarrow> source_sort_key a < source_sort_key b"
  by (auto simp: source_sort_key_def less_prod_def)

lemma retained_without_numbers:
  assumes "max_files \<le> int (length (filter (\<lambda>n. py_int n = None) names))" and "0 \<le> max_files"
    and "int (length names) > max_files" and "name \<in> set (retained max_files names)"
  shows "py_int name = None"
proof -
  let ?sorted = "sort_key source_sort_key names"
  let ?nums = "filter (\<lambda>n. py_int n \<noteq> None) ?sorted"
  let ?rest = "filter (\<lambda>n. py_int n = None) ?sorted"
  have split: "?sorted = ?nums @ ?rest"
    using sorted_key_split [of source_sort_key ?sorted "\<lambda>n. py_int n \<noteq> None"] numeric_names_first by simp
  have "length names = length ?nums + length ?rest"
    by (metis length_append length_sort split)
  moreover have "length ?rest = length (filter (\<lambda>n. py_int n = None) names)"
    by (metis filter_sort length_sort)
  ultimately have "length ?nums \<le> nat (int (length names) - max_files)"
    using assms(1) by linarith
  then have "set (drop (nat (int (length names) - max_files)) ?sorted) \<subseteq> set ?rest"
    by (subst split) (simp only: drop_append drop_all append_Nil set_drop_subset)
  moreover have "name \<in> set (drop (nat (int (length names) - max_files)) ?sorted)"
    using assms(3,4) by (simp add: retained_def)
  ultimately have "name \<in> set ?rest" by blast
  then show ?thesis by simp
qed

section \<open>Properties\<close>

text \<open>Batches written one after the other from number \<open>n\<close> on, each at its own time.\<close>

fun write_batches ::
    "duckdb \<Rightarrow> manager \<Rightarrow> string \<Rightarrow> nat \<Rightarrow> nat \<Rightarrow> (int \<times> string list \<times> int list) list \<Rightarrow> ('z store_scheme, unit) eff" where
  "write_batches duck m loc c n [] = ret ()"
| "write_batches duck m loc c n ((t, ps, ts) # bs) =
     thenM (modifyM (\<lambda>w. w\<lparr>st_clock := t\<rparr>))
       (thenM (write_batch_sources duck m loc (int n) ps ts (int c)) (write_batches duck m loc c (Suc n) bs))"

lemma run_write_batches:
  assumes "abfss_parse loc = Some l" and "0 < c" and "duck_ok duck" and "\<And>b. b \<in> set bs \<Longrightarrow> batch_ok b"
    and "bigint (int (n + length bs))" and "log_state (table_key l) c H n w"
    and "\<And>i. i < n \<Longrightarrow> list_all wf_record (H i)"
    and "\<And>i. i < length bs \<Longrightarrow> H (n + i) = records_of (n + i) (bs ! i)"
  shows "\<exists>w'. write_batches duck m loc c n bs w = (Inr (), w') \<and> log_state (table_key l) c H (n + length bs) w'"
  using assms(4-8)
proof (induction bs arbitrary: n w)
  case Nil
  then show ?case by (simp add: run_ret)
next
  case (Cons b bs)
  obtain t ps ts where b: "b = (t, ps, ts)" by (cases b)
  let ?w = "w\<lparr>st_clock := t\<rparr>"
  let ?w' = "upd_table (table_key l) (\<lambda>d. d\<lparr>src_dir := Some (expected_log c H (Suc n))\<rparr>) ?w"
  have log: "log_state (table_key l) c H n ?w" using Cons.prems(3) by (simp add: log_state_def)
  have "batch_ok b" using Cons.prems(1) by simp
  moreover have "bigint (int n)" using Cons.prems(2) by (simp add: bigint_def)
  ultimately have wf: "list_all wf_record (H n)" "H n \<noteq> []"
    using Cons.prems(5) [of 0] wf_records_of [of b n] by simp_all
  have one: "write_batch_sources duck m loc (int n) ps ts (int c) ?w = (Inr (), ?w')"
  proof (rule run_write_batch_sources [OF log assms(1) refl assms(2) _ wf(2) assms(3)])
    show "list_all wf_record (H i)" if "i \<le> n" for i
      using that wf(1) Cons.prems(4) by (cases "i = n") simp_all
    show "length ps = length ts" using \<open>batch_ok b\<close> b by (simp add: batch_ok_def)
    show "H n = records_of n (st_clock ?w, ps, ts)" using Cons.prems(5) [of 0] b by simp
  qed
  have "\<exists>w''. write_batches duck m loc c (Suc n) bs ?w' = (Inr (), w'') \<and>
      log_state (table_key l) c H (Suc n + length bs) w''"
  proof (rule Cons.IH)
    show "batch_ok b" if "b \<in> set bs" for b using Cons.prems(1) that by simp
    show "bigint (int (Suc n + length bs))" using Cons.prems(2) by simp
    show "log_state (table_key l) c H (Suc n) ?w'" using log by (rule log_state_extended)
    show "list_all wf_record (H i)" if "i < Suc n" for i
      using that wf(1) Cons.prems(4) by (cases "i = n") simp_all
    show "H (Suc n + i) = records_of (Suc n + i) (bs ! i)" if "i < length bs" for i
      using Cons.prems(5) [of "Suc i"] that by simp
  qed
  then show ?case by (simp add: b run_thenM run_modifyM one)
qed


definition sample_loc :: string where
  "sample_loc = ''abfss://ctr@acct.dfs.core.windows.net/delta/t''"

definition sample_location :: abfss_location where
  "sample_location = \<lparr>loc_container = ''ctr'', loc_account = ''acct'', loc_path = ''delta/t''\<rparr>"

lemma parse_sample_loc: "abfss_parse sample_loc = Some sample_location"
  by (simp add: sample_loc_def sample_location_def abfss_parse_def parse_abfss_def py_startswith_def Let_def)

definition sample_manager :: manager where
  "sample_manager = \<lparr>mg_engine = \<lparr>re_compiles = \<lambda>_. True, re_search = \<lambda>_ _. False\<rparr>, mg_policy = disabled_policy\<rparr>"

definition sample_store :: "table_dir \<Rightarrow> store" where
  "sample_store d = \<lparr>st_faults = [], st_clock = 0, st_etag = 0, st_tables = (\<lambda>_. d)\<rparr>"


text \<open>
  C29: \<open>cleanup_sources\<close> bounds \<open>sources/\<close>. Without failures it deletes exactly the surplus over
  \<open>max_files\<close>, reports that number, touches no file outside \<open>sources/\<close>, and what remains is what the
  sort key ranks last.
\<close>

theorem cleanup_bounds_sources:
  assumes "st_faults w = []" and "src_dir (st_tables w (table_key l)) = Some fs" and "distinct (map fst fs)"
    and "abfss_parse loc = Some l" and "0 \<le> max_files"
  shows "\<exists>n fs' w'. cleanup_sources m loc max_files w = (Inr n, w') \<and>
    w' = upd_table (table_key l) (\<lambda>d. d\<lparr>src_dir := Some fs'\<rparr>) w \<and>
    int n = max 0 (int (length fs) - max_files) \<and> int (length fs') = min (int (length fs)) max_files \<and>
    (\<forall>f \<in> set fs. \<forall>g \<in> set fs. f \<notin> set fs' \<and> g \<in> set fs' \<longrightarrow>
      source_sort_key (fst f) \<le> source_sort_key (fst g))"
proof -
  let ?kept = "retained max_files (map fst fs)"
  let ?fs' = "filter (\<lambda>f. fst f \<in> set ?kept) fs"
  obtain n w' where run: "cleanup_sources m loc max_files w = (Inr n, w')"
    "w' = upd_table (table_key l) (\<lambda>d. d\<lparr>src_dir := Some ?fs'\<rparr>) w" "int n = max 0 (int (length fs) - max_files)"
    using run_cleanup_sources [OF assms(1-4) refl assms(5), of m] by blast
  have sub: "set ?kept \<subseteq> set (map fst fs)" "distinct ?kept"
    using assms(3) set_drop_subset [of _ "sort_key source_sort_key (map fst fs)"]
    by (auto simp: retained_def distinct_drop)
  have "length ?fs' = length ?kept"
  proof -
    have "map fst ?fs' = filter (\<lambda>x. x \<in> set ?kept) (map fst fs)" by (simp add: filter_map comp_def)
    then have "set (map fst ?fs') = set ?kept" "distinct (map fst ?fs')"
      using sub(1) assms(3) by (auto simp: distinct_map_filter)
    then show ?thesis using sub(2) by (metis distinct_card length_map)
  qed
  then have "int (length ?fs') = min (int (length fs)) max_files"
    using length_retained [OF assms(5), of "map fst fs"] by simp
  moreover have "source_sort_key (fst f) \<le> source_sort_key (fst g)"
    if f: "f \<in> set fs" "f \<notin> set ?fs'" and g: "g \<in> set ?fs'" for f g
  proof -
    let ?s = "sort_key source_sort_key (map fst fs)"
    let ?n = "nat (int (length fs) - max_files)"
    have "int (length fs) > max_files" using f by (auto simp: retained_def split: if_splits)
    then have "fst f \<in> set (take ?n ?s)" "fst g \<in> set (drop ?n ?s)"
      using f g append_take_drop_id [of ?n ?s] set_append [of "take ?n ?s" "drop ?n ?s"]
      by (auto simp: retained_def)
    moreover have "sorted (map source_sort_key (take ?n ?s @ drop ?n ?s))" by simp
    ultimately show ?thesis by (rule sorted_map_append_le [rotated])
  qed
  ultimately show ?thesis using run by (intro exI [of _ n] exI [of _ ?fs'] exI [of _ w']) auto
qed

theorem cleanup_bounds_sources_witness:
  "\<exists>n fs' w'. cleanup_sources sample_manager sample_loc 1
      (sample_store (empty_dir\<lparr>src_dir := Some [(''0'', Jsonl []), (''1'', Jsonl [])]\<rparr>)) = (Inr n, w') \<and>
    int n = 1 \<and> int (length fs') = 1 \<and>
    w' = upd_table (table_key sample_location) (\<lambda>d. d\<lparr>src_dir := Some fs'\<rparr>)
      (sample_store (empty_dir\<lparr>src_dir := Some [(''0'', Jsonl []), (''1'', Jsonl [])]\<rparr>))"
  using cleanup_bounds_sources [of "sample_store (empty_dir\<lparr>src_dir := Some [(''0'', Jsonl []), (''1'', Jsonl [])]\<rparr>)"
      sample_location "[(''0'', Jsonl []), (''1'', Jsonl [])]" sample_loc 1 sample_manager] parse_sample_loc
  by (auto simp: sample_store_def empty_dir_def)

text \<open>
  C33: retention does not keep the newest files. All diffs rank before all snapshots, whatever their batch
  numbers, so from the moment \<open>sources/\<close> is over the limit and holds as many snapshots as the limit,
  \<open>cleanup_sources\<close> deletes every diff, the one the current batch has just written included; and
  snapshots rank by the text of their number, so the snapshot of batch 100 goes before that of batch 20.
\<close>

theorem cleanup_deletes_every_diff:
  assumes "st_faults w = []" and "src_dir (st_tables w (table_key l)) = Some fs" and "distinct (map fst fs)"
    and "abfss_parse loc = Some l" and "0 \<le> max_files" and "max_files < int (length fs)"
    and "max_files \<le> int (length (filter (\<lambda>f. py_int (fst f) = None) fs))"
  shows "(\<exists>n fs' w'. cleanup_sources m loc max_files w = (Inr n, w') \<and>
      src_dir (st_tables w' (table_key l)) = Some fs' \<and> (\<forall>f \<in> set fs'. py_int (fst f) = None)) \<and>
    source_sort_key ''100.parquet'' < source_sort_key ''20.parquet''"
proof
  have c: "max_files \<le> int (length (filter (\<lambda>n. py_int n = None) (map fst fs)))"
    using assms(7) by (simp add: filter_map comp_def)
  show "\<exists>n fs' w'. cleanup_sources m loc max_files w = (Inr n, w') \<and>
      src_dir (st_tables w' (table_key l)) = Some fs' \<and> (\<forall>f \<in> set fs'. py_int (fst f) = None)"
    using run_cleanup_sources [OF assms(1-4) refl assms(5), of m] retained_without_numbers [OF c assms(5)] assms(6)
    by fastforce
  have "py_int (s @ [CHR ''t'']) = None" for s
    by (rule py_int_bad_end) (simp_all add: is_digit_def is_space_def)
  from this [of "''100.parque''"] this [of "''20.parque''"]
  have "py_int ''100.parquet'' = None" "py_int ''20.parquet'' = None" by simp_all
  then show "source_sort_key ''100.parquet'' < source_sort_key ''20.parquet''"
    by (simp add: source_sort_key_def less_prod_def list_less_def less_char_def)
qed

theorem cleanup_deletes_every_diff_witness:
  "\<exists>n fs' w'. cleanup_sources sample_manager sample_loc 1 (sample_store
      (empty_dir\<lparr>src_dir := Some [(snapshot_name 10, Snapshot []), (''11'', Jsonl [])]\<rparr>)) = (Inr n, w') \<and>
    src_dir (st_tables w' (table_key sample_location)) = Some fs' \<and> (\<forall>f \<in> set fs'. py_int (fst f) = None)"
proof -
  have d: "snapshot_name 10 \<noteq> ''11''"
    by (auto simp: snapshot_name_def parquet_suffix_def dest: arg_cong [where f = last])
  show ?thesis
    using cleanup_deletes_every_diff [of "sample_store
        (empty_dir\<lparr>src_dir := Some [(snapshot_name 10, Snapshot []), (''11'', Jsonl [])]\<rparr>)" sample_location
        "[(snapshot_name 10, Snapshot []), (''11'', Jsonl [])]" sample_loc 1 sample_manager] parse_sample_loc d
    by (simp add: sample_store_def)
qed

end
