(* ===== verification/Checkpoint_Manager.thy ===== *)
theory Checkpoint_Manager
  imports Source_Log
begin

text \<open>
  \<open>CheckpointManager\<close>: \<open>watermark.json\<close>, \<open>pending.json\<close> and \<open>owner.json\<close> under \<open>_checkpoint/\<close>. Every
  method is the whole method: the location it refuses, the requests it makes inside the message
  retry, and the exceptions it swallows, maps or lets through. The lemmas give each method's effect for
  every outage schedule and every retry policy.
\<close>

section \<open>Requests\<close>

definition download_text :: "(table_dir \<Rightarrow> 'd option) \<Rightarrow> string \<Rightarrow> table_key \<Rightarrow> ('z store_scheme, 'd) eff" where
  "download_text field name k = storage_call (\<lambda>w.
     case field (st_tables w k) of None \<Rightarrow> (Inl (not_found name), w) | Some d \<Rightarrow> (Inr d, w))"

text \<open>\<open>except ResourceNotFoundError: return None\<close>.\<close>

definition or_absent :: "('w, 'd) eff \<Rightarrow> ('w, 'd option) eff" where
  "or_absent op = tryM (bindM op (\<lambda>d. ret (Some d)))
     (\<lambda>e. if exn_class e = ResourceNotFoundError then ret None else raise e)"

text \<open>Creating a directory that is there already changes nothing, and its parents appear with any upload.\<close>

definition create_checkpoint_dir :: "table_key \<Rightarrow> ('z store_scheme, unit) eff" where
  "create_checkpoint_dir k = storage_call (\<lambda>w. (Inr (), w))"

definition upload_text :: "(int \<Rightarrow> table_dir \<Rightarrow> table_dir) \<Rightarrow> table_key \<Rightarrow> ('z store_scheme, unit) eff" where
  "upload_text put k = storage_call (\<lambda>w. (Inr (), upd_table k (put (st_clock w)) w))"

definition delete_text ::
    "(table_dir \<Rightarrow> bool) \<Rightarrow> (table_dir \<Rightarrow> table_dir) \<Rightarrow> string \<Rightarrow> table_key \<Rightarrow> ('z store_scheme, unit) eff" where
  "delete_text present drop_it name k = storage_call (\<lambda>w.
     if present (st_tables w k) then (Inr (), upd_table k drop_it w) else (Inl (not_found name), w))"

definition watermark_doc :: "table_dir \<Rightarrow> doc option" where
  "watermark_doc d = map_option fst (wm_file d)"

definition put_watermark :: "doc \<Rightarrow> int \<Rightarrow> table_dir \<Rightarrow> table_dir" where
  "put_watermark v t d = d\<lparr>wm_file := Some (v, t)\<rparr>"

definition put_pending :: "doc \<Rightarrow> int \<Rightarrow> table_dir \<Rightarrow> table_dir" where
  "put_pending v t d = d\<lparr>pend_file := Some v\<rparr>"

definition drop_watermark :: "table_dir \<Rightarrow> table_dir" where
  "drop_watermark d = d\<lparr>wm_file := None\<rparr>"

definition drop_pending :: "table_dir \<Rightarrow> table_dir" where
  "drop_pending d = d\<lparr>pend_file := None\<rparr>"

section \<open>Watermark\<close>

definition read_watermark :: "manager \<Rightarrow> string \<Rightarrow> bool \<Rightarrow> ('z store_scheme, watermark option) eff" where
  "read_watermark m delta_location strict =
     (case abfss_parse delta_location of
        None \<Rightarrow> ret None
      | Some parsed \<Rightarrow>
          tryM
            (mg_retry m
              (bindM (or_absent (download_text watermark_doc ''watermark.json'' (table_key parsed))) (\<lambda>raw.
                 case raw of
                   None \<Rightarrow> ret None
                 | Some v \<Rightarrow> bindM (liftE (watermark_from_json v)) (\<lambda>wm. ret (Some wm)))))
            (\<lambda>e. if exn_class e = CredentialUnavailableError then raise e
                 else if strict then raise e
                 else ret None))"

definition write_watermark :: "manager \<Rightarrow> string \<Rightarrow> watermark \<Rightarrow> ('z store_scheme, unit) eff" where
  "write_watermark m delta_location wm =
     (case abfss_parse delta_location of
        None \<Rightarrow> ret ()
      | Some parsed \<Rightarrow>
          let k = table_key parsed in
          mg_retry m (thenM (create_checkpoint_dir k) (upload_text (put_watermark (watermark_to_json wm)) k)))"

definition watermark_last_modified :: "manager \<Rightarrow> string \<Rightarrow> ('z store_scheme, int option) eff" where
  "watermark_last_modified m delta_location =
     (case abfss_parse delta_location of
        None \<Rightarrow> ret None
      | Some parsed \<Rightarrow>
          mg_retry m (or_absent (download_text (\<lambda>d. map_option snd (wm_file d)) ''watermark.json''
            (table_key parsed))))"

section \<open>Pending batch\<close>

definition read_pending :: "manager \<Rightarrow> string \<Rightarrow> ('z store_scheme, pending_batch option) eff" where
  "read_pending m delta_location =
     (case abfss_parse delta_location of
        None \<Rightarrow> ret None
      | Some parsed \<Rightarrow>
          bindM (mg_retry m (or_absent (download_text pend_file ''pending.json'' (table_key parsed)))) (\<lambda>raw.
            case raw of
              None \<Rightarrow> ret None
            | Some v \<Rightarrow>
                tryM (bindM (liftE (pending_from_json v)) (\<lambda>p. ret (Some p)))
                  (\<lambda>e. if exn_class e \<in> {ValueErr, KeyErr, TypeErr} then ret None else raise e)))"

definition write_pending :: "manager \<Rightarrow> string \<Rightarrow> pending_batch \<Rightarrow> ('z store_scheme, unit) eff" where
  "write_pending m delta_location pending =
     (case abfss_parse delta_location of
        None \<Rightarrow> raise (PyExn ValueErr (''write_pending: invalid delta_location: '' @ delta_location))
      | Some parsed \<Rightarrow>
          let k = table_key parsed in
          mg_retry m (thenM (create_checkpoint_dir k) (upload_text (put_pending (pending_to_json pending)) k)))"

definition delete_pending :: "manager \<Rightarrow> string \<Rightarrow> bool \<Rightarrow> ('z store_scheme, unit) eff" where
  "delete_pending m delta_location strict =
     (case abfss_parse delta_location of
        None \<Rightarrow> ret ()
      | Some parsed \<Rightarrow>
          tryM
            (mg_retry m
              (bindM (or_absent (delete_text (\<lambda>d. pend_file d \<noteq> None) drop_pending ''pending.json''
                 (table_key parsed))) (\<lambda>_. ret ())))
            (\<lambda>e. if exn_class e = CredentialUnavailableError then raise e
                 else if strict then raise e
                 else ret ()))"

text \<open>Any error of the first deletion counts as \<open>already clean\<close>.\<close>

definition delete_watermark :: "manager \<Rightarrow> string \<Rightarrow> ('z store_scheme, unit) eff" where
  "delete_watermark m delta_location =
     (case abfss_parse delta_location of
        None \<Rightarrow> ret ()
      | Some parsed \<Rightarrow>
          thenM
            (tryM
              (mg_retry m (delete_text (\<lambda>d. wm_file d \<noteq> None) drop_watermark ''watermark.json''
                 (table_key parsed)))
              (\<lambda>_. ret ()))
            (thenM (delete_pending m delta_location True) (delete_all_sources m delta_location)))"

section \<open>Table owner\<close>

definition read_owner :: "manager \<Rightarrow> string \<Rightarrow> ('z store_scheme, table_owner option) eff" where
  "read_owner m delta_location =
     (case abfss_parse delta_location of
        None \<Rightarrow> raise (PyExn ValueErr (''read_owner: invalid delta_location: '' @ delta_location))
      | Some parsed \<Rightarrow>
          bindM (mg_retry m (or_absent (download_text own_file ''owner.json'' (table_key parsed)))) (\<lambda>raw.
            case raw of
              None \<Rightarrow> ret None
            | Some (v, _) \<Rightarrow> bindM (liftE (owner_from_json v)) (\<lambda>o1. ret (Some o1))))"

text \<open>
  The conditional uploads, \<open>IfMissing\<close> (no ETag was read) or \<open>IfNotModified\<close> with the ETag that was
  read: served exactly when the file still has that ETag, and giving it one that was never used.
\<close>

definition cond_upload ::
    "nat option \<Rightarrow> doc \<Rightarrow> (doc \<times> nat) option \<times> nat \<Rightarrow> ((doc \<times> nat) option \<times> nat) option" where
  "cond_upload etag v f = (if map_option snd (fst f) = etag then Some (Some (v, Suc (snd f)), Suc (snd f)) else None)"

definition set_owner_file :: "table_key \<Rightarrow> (doc \<times> nat) option \<times> nat \<Rightarrow> 'z store_scheme \<Rightarrow> 'z store_scheme" where
  "set_owner_file k f w = (upd_table k (\<lambda>d. d\<lparr>own_file := fst f\<rparr>) w)\<lparr>st_etag := snd f\<rparr>"

definition upload_owner :: "table_key \<Rightarrow> doc \<Rightarrow> nat option \<Rightarrow> ('z store_scheme, unit) eff" where
  "upload_owner k v etag = storage_call (\<lambda>w.
     case cond_upload etag v (own_file (st_tables w k), st_etag w) of
       Some f \<Rightarrow> (Inr (), set_owner_file k f w)
     | None \<Rightarrow>
         (Inl (if etag = None then PyExn ResourceExistsError ''PathAlreadyExists''
               else PyExn ResourceModifiedError ''ConditionNotMet''), w))"

definition owner_claim_attempts :: nat where
  "owner_claim_attempts = 5"

fun readable_owner :: "doc option \<Rightarrow> pyexn + table_owner option" where
  "readable_owner None = Inr None"
| "readable_owner (Some raw) =
     (case owner_from_json raw of
        Inr o1 \<Rightarrow> Inr (Some o1)
      | Inl e \<Rightarrow> if exn_class e = ValueErr then Inr None else Inl e)"

text \<open>What a claim does with the file it read: respect the owner, or write with the ETag it read.\<close>

datatype claim_decision = Keep table_owner | Write "nat option"

definition claim_decision :: "table_owner \<Rightarrow> (doc \<times> nat) option \<Rightarrow> pyexn + claim_decision" where
  "claim_decision claimant found =
     bindE (readable_owner (map_option fst found)) (\<lambda>current.
       case current of
         Some o1 \<Rightarrow>
           if owner_eq o1 claimant \<or> outranks o1 claimant then Inr (Keep o1)
           else Inr (Write (map_option snd found))
       | None \<Rightarrow> Inr (Write (map_option snd found)))"

text \<open>One round: the owner afterwards, or \<open>None\<close> when another run wrote first (\<open>continue\<close>).\<close>

definition claim_write :: "table_key \<Rightarrow> table_owner \<Rightarrow> nat option \<Rightarrow> ('z store_scheme, table_owner option) eff" where
  "claim_write k claimant etag =
     tryM
       (thenM (if etag = None then create_checkpoint_dir k else ret ())
         (thenM (upload_owner k (owner_to_json claimant) etag) (ret (Some claimant))))
       (\<lambda>e. if exn_class e \<in> {ResourceExistsError, ResourceModifiedError} then ret None else raise e)"

definition claim_attempt :: "table_key \<Rightarrow> table_owner \<Rightarrow> ('z store_scheme, table_owner option) eff" where
  "claim_attempt k claimant =
     bindM (or_absent (download_text own_file ''owner.json'' k)) (\<lambda>found.
     bindM (liftE (claim_decision claimant found)) (\<lambda>decision.
       case decision of Keep o1 \<Rightarrow> ret (Some o1) | Write etag \<Rightarrow> claim_write k claimant etag))"

fun claim_loop :: "nat \<Rightarrow> table_key \<Rightarrow> table_owner \<Rightarrow> ('z store_scheme, table_owner) eff" where
  "claim_loop 0 k claimant =
     raise (PyExn RuntimeErr ''Could not claim: owner.json changed during each of 5 attempts'')"
| "claim_loop (Suc n) k claimant =
     bindM (claim_attempt k claimant) (\<lambda>outcome.
       case outcome of Some o1 \<Rightarrow> ret o1 | None \<Rightarrow> claim_loop n k claimant)"

definition claim_owner :: "manager \<Rightarrow> string \<Rightarrow> table_owner \<Rightarrow> ('z store_scheme, table_owner) eff" where
  "claim_owner m delta_location claimant =
     (case abfss_parse delta_location of
        None \<Rightarrow> raise (PyExn ValueErr (''claim_owner: invalid delta_location: '' @ delta_location))
      | Some parsed \<Rightarrow> mg_retry m (claim_loop owner_claim_attempts (table_key parsed) claimant))"

section \<open>Rules for the requests\<close>

text \<open>
  A \<open>quiet\<close> predicate survives any advance of the clock and any outage schedule. What a read returns is stated
  about the state after it, which for a quiet predicate is the state before.
\<close>

definition quiet :: "('z store_scheme \<Rightarrow> bool) \<Rightarrow> bool" where
  "quiet J \<longleftrightarrow> clock_free J \<and> fault_free J"

lemma quiet_clock: "quiet J \<Longrightarrow> J w \<Longrightarrow> st_clock w \<le> c \<Longrightarrow> J (w\<lparr>st_clock := c\<rparr>)"
  by (simp add: quiet_def clock_free_def)

lemma quiet_faults: "quiet J \<Longrightarrow> J w \<Longrightarrow> J (w\<lparr>st_faults := fs\<rparr>)"
  by (simp add: quiet_def fault_free_def)

lemma quiet_clock_free [simp]: "quiet J \<Longrightarrow> clock_free J"
  by (simp add: quiet_def)

lemma quiet_or: "quiet J \<Longrightarrow> quiet K \<Longrightarrow> quiet (\<lambda>w. J w \<or> K w)"
  by (auto simp: quiet_def clock_free_def fault_free_def)

lemma wp_quiet_call:
  assumes "quiet J" and "J w"
    and "\<And>w. J w \<Longrightarrow> wp req (\<lambda>a w'. q a w' \<and> E w') (\<lambda>x w'. E w' \<and> P x) w"
    and "\<And>w. J w \<Longrightarrow> E w" and "\<And>x. P (outage_exn x)"
  shows "wp (storage_call req) q (\<lambda>x w'. E w' \<and> P x) w"
proof (rule wp_storage_call)
  fix fs x
  have J: "J (w\<lparr>st_faults := fs\<rparr>)" using assms(1,2) by (rule quiet_faults)
  show "wp req (\<lambda>a w'. q a w' \<and> (\<forall>x. E w' \<and> P (outage_exn x))) (\<lambda>x w'. E w' \<and> P x) (w\<lparr>st_faults := fs\<rparr>)"
    by (rule wp_mono [OF assms(3) [OF J]]) (use assms(5) in auto)
  show "E (w\<lparr>st_faults := fs\<rparr>) \<and> P (outage_exn x)" using J assms(4,5) by simp
qed

definition transport_or_missing :: "pyexn \<Rightarrow> bool" where
  "transport_or_missing x \<longleftrightarrow>
     exn_class x \<in> {ResourceNotFoundError, CredentialUnavailableError, OtherError, DbtDatabaseError,
       RequestsConnectionError, RequestsTimeout, ProcessKilled}"

lemma transport_or_missing_simps [simp]:
  "transport_or_missing (outage_exn x)" "transport_or_missing (not_found n)"
  by (cases x) (simp_all add: transport_or_missing_def not_found_def)

lemma outage_not_missing [simp]: "exn_class (outage_exn x) \<noteq> ResourceNotFoundError"
  by (cases x) simp_all

lemma wp_download_text:
  assumes "quiet J" and "J w"
  shows "wp (download_text field name k) (\<lambda>d w'. J w' \<and> field (st_tables w' k) = Some d)
    (\<lambda>x w'. J w' \<and> transport_or_missing x \<and>
       (exn_class x = ResourceNotFoundError \<longrightarrow> field (st_tables w' k) = None)) w"
proof -
  have "J v \<Longrightarrow> wp (\<lambda>w. case field (st_tables w k) of None \<Rightarrow> (Inl (not_found name), w) | Some d \<Rightarrow> (Inr d, w))
      (\<lambda>d w'. J w' \<and> field (st_tables w' k) = Some d)
      (\<lambda>x w'. J w' \<and> transport_or_missing x \<and> field (st_tables w' k) = None) v" for v
    by (simp add: wp_def split: option.splits)
  then show ?thesis
    unfolding download_text_def
    by (intro wp_storage_call)
       (use assms in \<open>auto intro: quiet_faults simp: wp_def split: option.splits\<close>)
qed

lemma wp_or_absent_download:
  assumes "quiet J" and "J w"
  shows "wp (or_absent (download_text field name k)) (\<lambda>a w'. J w' \<and> field (st_tables w' k) = a) (\<lambda>_. J) w"
  unfolding or_absent_def wp_tryM wp_bindM wp_ret
  by (rule wp_mono [OF wp_download_text [OF assms]]) (auto simp: wp_ret wp_raise)

text \<open>A read inside the message retry: the answer is about the tables afterwards, and nothing changed.\<close>

lemma wp_retried_read:
  assumes "quiet J" and "J w" and "\<And>w. J w \<Longrightarrow> wp op q (\<lambda>_. J) w"
  shows "wp (mg_retry m op) q (\<lambda>_. J) w"
proof -
  have "wp (mg_retry m op) q (\<lambda>x w. J w \<and> True) w"
    by (rule wp_mg_retry) (use assms in simp_all)
  then show ?thesis by simp
qed

lemma wp_create_checkpoint_dir:
  "quiet J \<Longrightarrow> J w \<Longrightarrow> wp (create_checkpoint_dir k) (\<lambda>_. J) (\<lambda>_. J) w"
  unfolding create_checkpoint_dir_def
  by (rule wp_storage_call) (simp_all add: wp_def quiet_faults)

lemma wp_upload_text:
  assumes "quiet J" and "quiet K" and "J w"
    and "\<And>w t. J w \<Longrightarrow> K (upd_table k (put t) w)"
  shows "wp (upload_text put k) (\<lambda>_. K) (\<lambda>_ w. J w \<or> K w) w"
  unfolding upload_text_def
  by (rule wp_storage_call) (use assms quiet_faults [OF assms(1,3)] in \<open>simp_all add: wp_def\<close>)

lemma wp_write_text:
  assumes "quiet J" and "quiet K" and "J w \<or> K w"
    and "\<And>w t. J w \<Longrightarrow> K (upd_table k (put t) w)" and "\<And>w t. K w \<Longrightarrow> K (upd_table k (put t) w)"
  shows "wp (mg_retry m (thenM (create_checkpoint_dir k) (upload_text put k))) (\<lambda>_. K) (\<lambda>_ w. J w \<or> K w) w"
proof (rule wp_retried_read)
  show q: "quiet (\<lambda>w. J w \<or> K w)" using assms(1,2) by (rule quiet_or)
  show "wp (thenM (create_checkpoint_dir k) (upload_text put k)) (\<lambda>_. K) (\<lambda>_ w. J w \<or> K w) v"
    if "J v \<or> K v" for v
  proof -
    have "wp (upload_text put k) (\<lambda>_. K) (\<lambda>_ w. J w \<or> K w) v" if "J v \<or> K v" for v
      by (rule wp_mono [OF wp_upload_text [where J = "\<lambda>w. J w \<or> K w" and K = K]])
         (use q assms that in auto)
    then show ?thesis
      unfolding wp_thenM by (intro wp_mono [OF wp_create_checkpoint_dir [OF q that]])
  qed
qed (use assms in simp_all)

lemma wp_delete_text:
  assumes "quiet J" and "J w" and "quiet K"
    and "\<And>w. J w \<Longrightarrow> present (st_tables w k) \<Longrightarrow> K (upd_table k drop_it w)"
  shows "wp (delete_text present drop_it name k) (\<lambda>_. K)
    (\<lambda>x w. (J w \<or> K w) \<and> transport_or_missing x \<and>
      (exn_class x = ResourceNotFoundError \<longrightarrow> J w \<and> \<not> present (st_tables w k))) w"
  unfolding delete_text_def
  by (rule wp_storage_call)
     (use assms quiet_faults [OF assms(1,2)] in \<open>auto simp: wp_def\<close>)

lemma wp_delete_or_absent:
  assumes "quiet J" and "quiet K" and "J w \<or> K w"
    and drop_J: "\<And>w. J w \<Longrightarrow> K (upd_table k drop_it w)" and drop_K: "\<And>w. K w \<Longrightarrow> K (upd_table k drop_it w)"
    and absent: "\<And>w. J w \<Longrightarrow> \<not> present (st_tables w k) \<Longrightarrow> K w"
  shows "wp (mg_retry m (bindM (or_absent (delete_text present drop_it name k)) (\<lambda>_. ret ())))
    (\<lambda>_. K) (\<lambda>_ w. J w \<or> K w) w"
proof (rule wp_retried_read)
  show q: "quiet (\<lambda>w. J w \<or> K w)" using assms(1,2) by (rule quiet_or)
  show "wp (bindM (or_absent (delete_text present drop_it name k)) (\<lambda>_. ret ())) (\<lambda>_. K)
      (\<lambda>_ w. J w \<or> K w) v" if "J v \<or> K v" for v
    unfolding or_absent_def wp_tryM wp_bindM wp_ret
    by (rule wp_mono [OF wp_delete_text [OF q that assms(2)]])
       (use drop_J drop_K absent in \<open>auto simp: wp_ret wp_raise\<close>)
qed (use assms in simp_all)

section \<open>What a read can return\<close>

definition stored_watermark :: "table_dir \<Rightarrow> pyexn + watermark option" where
  "stored_watermark d =
     (case watermark_doc d of None \<Rightarrow> Inr None
      | Some v \<Rightarrow> bindE (watermark_from_json v) (\<lambda>wm. Inr (Some wm)))"

lemma wp_read_watermark_strict:
  assumes "quiet J" and "J w" and "abfss_parse loc = Some l"
  shows "wp (read_watermark m loc True)
    (\<lambda>r w'. J w' \<and> stored_watermark (st_tables w' (table_key l)) = Inr r) (\<lambda>_. J) w"
proof -
  let ?op = "bindM (or_absent (download_text watermark_doc ''watermark.json'' (table_key l))) (\<lambda>raw.
      case raw of None \<Rightarrow> ret None | Some v \<Rightarrow> bindM (liftE (watermark_from_json v)) (\<lambda>wm. ret (Some wm)))"
  have "wp ?op (\<lambda>r w'. J w' \<and> stored_watermark (st_tables w' (table_key l)) = Inr r) (\<lambda>_. J) v" if "J v" for v
    unfolding wp_bindM
    by (rule wp_mono [OF wp_or_absent_download [OF assms(1) that]])
       (auto simp: eff_rules stored_watermark_def split: option.splits sum.splits)
  then have "wp (mg_retry m ?op) (\<lambda>r w'. J w' \<and> stored_watermark (st_tables w' (table_key l)) = Inr r) (\<lambda>_. J) w"
    by (intro wp_retried_read [OF assms(1,2)])
  then have "wp (tryM (mg_retry m ?op)
      (\<lambda>e. if exn_class e = CredentialUnavailableError then raise e else if True then raise e else ret None))
      (\<lambda>r w'. J w' \<and> stored_watermark (st_tables w' (table_key l)) = Inr r) (\<lambda>_. J) w"
    unfolding wp_tryM by (rule wp_mono) (auto simp: wp_raise)
  then show ?thesis using assms(3) by (simp add: read_watermark_def)
qed

definition stored_pending :: "table_dir \<Rightarrow> pyexn + pending_batch option" where
  "stored_pending d =
     (case pend_file d of None \<Rightarrow> Inr None
      | Some v \<Rightarrow>
          (case pending_from_json v of
             Inr p \<Rightarrow> Inr (Some p)
           | Inl e \<Rightarrow> if exn_class e \<in> {ValueErr, KeyErr, TypeErr} then Inr None else Inl e))"

lemma wp_read_pending:
  assumes "quiet J" and "J w" and "abfss_parse loc = Some l"
  shows "wp (read_pending m loc)
    (\<lambda>r w'. J w' \<and> stored_pending (st_tables w' (table_key l)) = Inr r) (\<lambda>_. J) w"
proof -
  let ?op = "or_absent (download_text pend_file ''pending.json'' (table_key l))"
  have "wp (mg_retry m ?op) (\<lambda>a w'. J w' \<and> pend_file (st_tables w' (table_key l)) = a) (\<lambda>_. J) w"
    by (rule wp_retried_read [OF assms(1,2)]) (rule wp_or_absent_download [OF assms(1)])
  then have "wp (mg_retry m ?op) (\<lambda>raw. wp (case raw of None \<Rightarrow> ret None | Some v \<Rightarrow>
        tryM (bindM (liftE (pending_from_json v)) (\<lambda>p. ret (Some p)))
          (\<lambda>e. if exn_class e \<in> {ValueErr, KeyErr, TypeErr} then ret None else raise e))
      (\<lambda>r w'. J w' \<and> stored_pending (st_tables w' (table_key l)) = Inr r) (\<lambda>_. J)) (\<lambda>_. J) w"
    by (rule wp_mono)
       (auto simp: eff_rules stored_pending_def split: option.splits sum.splits)
  then show ?thesis by (simp only: read_pending_def assms(3) option.case wp_bindM)
qed

lemma wp_write_watermark:
  assumes "quiet J" and "quiet K" and "J w \<or> K w" and "abfss_parse loc = Some l"
    and "\<And>w t. J w \<or> K w \<Longrightarrow> K (upd_table (table_key l) (put_watermark (watermark_to_json wm) t) w)"
  shows "wp (write_watermark m loc wm) (\<lambda>_. K) (\<lambda>_ w. J w \<or> K w) w"
  using wp_write_text [OF assms(1-3)] assms(4,5) by (simp add: write_watermark_def Let_def)

lemma wp_write_pending:
  assumes "quiet J" and "quiet K" and "J w \<or> K w" and "abfss_parse loc = Some l"
    and "\<And>w t. J w \<or> K w \<Longrightarrow> K (upd_table (table_key l) (put_pending (pending_to_json p) t) w)"
  shows "wp (write_pending m loc p) (\<lambda>_. K) (\<lambda>_ w. J w \<or> K w) w"
  using wp_write_text [OF assms(1-3)] assms(4,5) by (simp add: write_pending_def Let_def)

lemma drop_pending_absent [simp]: "pend_file (st_tables w k) = None \<Longrightarrow> upd_table k drop_pending w = w"
  by (simp add: upd_table_def drop_pending_def fun_upd_idem)

lemma wp_delete_pending:
  assumes "quiet J" and "quiet K" and "J w \<or> K w" and "abfss_parse loc = Some l"
    and "\<And>w. J w \<or> K w \<Longrightarrow> K (upd_table (table_key l) drop_pending w)"
  shows "wp (delete_pending m loc strict) (\<lambda>_ w. K w \<or> (\<not> strict \<and> J w)) (\<lambda>_ w. J w \<or> K w) w"
proof -
  let ?op = "bindM (or_absent (delete_text (\<lambda>d. pend_file d \<noteq> None) drop_pending ''pending.json''
      (table_key l))) (\<lambda>_. ret ())"
  have "wp (mg_retry m ?op) (\<lambda>_. K) (\<lambda>_ w. J w \<or> K w) w"
    by (rule wp_delete_or_absent [OF assms(1-3)]) (use assms(5) drop_pending_absent in fastforce)+
  then have "wp (tryM (mg_retry m ?op) (\<lambda>e. if exn_class e = CredentialUnavailableError then raise e
      else if strict then raise e else ret ())) (\<lambda>_ w. K w \<or> (\<not> strict \<and> J w)) (\<lambda>_ w. J w \<or> K w) w"
    unfolding wp_tryM by (rule wp_mono) (auto simp: eff_rules)
  then show ?thesis using assms(4) by (simp add: delete_pending_def)
qed

section \<open>Claiming a table without interference\<close>

text \<open>The incumbent a claim respects: a readable owner that is the claimant or outranks it.\<close>

definition incumbent :: "table_owner \<Rightarrow> table_dir \<Rightarrow> table_owner option" where
  "incumbent me d =
     (case own_file d of None \<Rightarrow> None
      | Some (v, _) \<Rightarrow>
          (case owner_from_json v of Inl _ \<Rightarrow> None
           | Inr o1 \<Rightarrow> if owner_eq o1 me \<or> outranks o1 me then Some o1 else None))"

definition owned_by :: "table_owner \<Rightarrow> table_dir \<Rightarrow> bool" where
  "owned_by me d \<longleftrightarrow> (\<exists>n. own_file d = Some (owner_to_json me, n))"

definition run_ok :: "table_owner \<Rightarrow> bool" where
  "run_ok me \<longleftrightarrow> dt_ok (own_run_started_at me) \<and> is_aware (own_run_started_at me)"

lemma incumbent_owned: "run_ok me \<Longrightarrow> owned_by me d \<Longrightarrow> incumbent me d = Some me"
  by (auto simp: incumbent_def owned_by_def run_ok_def owner_json_roundtrip_lemma owner_eq_def)

lemma incumbent_decision:
  "claim_decision me (own_file d) =
    Inr (case incumbent me d of Some o1 \<Rightarrow> Keep o1 | None \<Rightarrow> Write (map_option snd (own_file d)))"
  using owner_from_json_raises
  by (auto simp: claim_decision_def incumbent_def bindE_def split: option.splits sum.splits)

lemma wp_upload_owner:
  assumes "quiet J" and "quiet K" and "J w"
    and "\<And>w. J w \<Longrightarrow> map_option snd (own_file (st_tables w k)) = etag"
    and "\<And>w n. J w \<Longrightarrow> K (set_owner_file k (Some (v, n), n) w)"
  shows "wp (upload_owner k v etag) (\<lambda>_. K) (\<lambda>x w. (J w \<or> K w) \<and> exn_class x \<notin> {ResourceExistsError, ResourceModifiedError}) w"
proof -
  have out: "exn_class (outage_exn x) \<notin> {ResourceExistsError, ResourceModifiedError}" for x
    by (cases x) simp_all
  show ?thesis
    unfolding upload_owner_def
    by (rule wp_storage_call)
       (use assms(3-5) quiet_faults [OF assms(1,3)] out in \<open>simp_all add: wp_def cond_upload_def\<close>)
qed

lemma wp_claim_write:
  assumes "quiet J" and "quiet K" and "J w"
    and "\<And>w. J w \<Longrightarrow> map_option snd (own_file (st_tables w k)) = etag"
    and "\<And>w n. J w \<Longrightarrow> K (set_owner_file k (Some (owner_to_json me, n), n) w)"
  shows "wp (claim_write k me etag) (\<lambda>r w. r = Some me \<and> K w) (\<lambda>_ w. J w \<or> K w) w"
proof -
  let ?E = "\<lambda>x w. (J w \<or> K w) \<and> exn_class x \<notin> {ResourceExistsError, ResourceModifiedError}"
  have up: "wp (thenM (upload_owner k (owner_to_json me) etag) (ret (Some me))) (\<lambda>r w. r = Some me \<and> K w) ?E v"
    if "J v" for v
    unfolding wp_thenM by (rule wp_mono [OF wp_upload_owner]) (use assms that in \<open>auto simp: wp_ret\<close>)
  have dir: "wp (if etag = None then create_checkpoint_dir k else ret ()) (\<lambda>_. J) ?E w"
  proof -
    have "exn_class (outage_exn x) \<notin> {ResourceExistsError, ResourceModifiedError}" for x
      by (cases x) simp_all
    then have "wp (create_checkpoint_dir k) (\<lambda>_. J) ?E w"
      unfolding create_checkpoint_dir_def
      by (intro wp_storage_call) (use assms(3) quiet_faults [OF assms(1,3)] in \<open>auto simp: wp_def\<close>)
    then show ?thesis using assms(3) by (simp add: wp_ret)
  qed
  have "wp (thenM (if etag = None then create_checkpoint_dir k else ret ())
      (thenM (upload_owner k (owner_to_json me) etag) (ret (Some me)))) (\<lambda>r w. r = Some me \<and> K w) ?E w"
    unfolding wp_thenM [of "if etag = None then _ else _"] by (rule wp_mono [OF dir up]) simp_all
  then show ?thesis
    unfolding claim_write_def wp_tryM by (rule wp_mono) (auto simp: wp_raise)
qed

lemma wp_claim_attempt:
  fixes J K :: "'z store_scheme \<Rightarrow> bool"
  assumes "quiet J" and "quiet K" and "J w"
    and "\<And>w. J w \<Longrightarrow> incumbent me (st_tables w k) = inc"
    and "\<And>w. J w \<Longrightarrow> own_file (st_tables w k) = f"
    and "\<And>w n. inc = None \<Longrightarrow> J w \<Longrightarrow> K (set_owner_file k (Some (owner_to_json me, n), n) w)"
  shows "wp (claim_attempt k me) (\<lambda>r w. case inc of Some o1 \<Rightarrow> r = Some o1 \<and> J w | None \<Rightarrow> r = Some me \<and> K w)
    (\<lambda>_ w. J w \<or> (inc = None \<and> K w)) w"
proof -
  let ?q = "\<lambda>r w. case inc of Some o1 \<Rightarrow> r = Some o1 \<and> J w | None \<Rightarrow> r = Some me \<and> K w"
  let ?e = "\<lambda>(_::pyexn) w. J w \<or> (inc = None \<and> K w)"
  have wr: "wp (claim_write k me (map_option snd f)) ?q ?e v" if "J v" "inc = None" for v
    by (rule wp_mono [OF wp_claim_write [OF assms(1,2)]]) (use assms(4-6) that in auto)
  have dec: "claim_decision me f = Inr (case inc of Some o1 \<Rightarrow> Keep o1 | None \<Rightarrow> Write (map_option snd f))"
    using incumbent_decision [of me "st_tables w k"] assms(4) [OF assms(3)] assms(5) [OF assms(3)]
    by (simp split: option.splits)
  have "wp (bindM (liftE (claim_decision me a)) (\<lambda>decision. case decision of
      Keep o1 \<Rightarrow> ret (Some o1) | Write etag \<Rightarrow> claim_write k me etag)) ?q ?e v"
    if v: "J v \<and> own_file (st_tables v k) = a" for a v
  proof -
    have "a = f" using v assms(5) by auto
    show ?thesis unfolding \<open>a = f\<close> using v wr [of v] by (auto simp: wp_bindM wp_liftE dec wp_ret split: option.splits)
  qed
  then show ?thesis
    unfolding claim_attempt_def wp_bindM [of "or_absent _"]
    by (intro wp_mono [OF wp_or_absent_download [OF assms(1,3)]]) auto
qed

lemma wp_claim_loop:
  fixes J K :: "'z store_scheme \<Rightarrow> bool"
  assumes "quiet J" and "quiet K" and "J w" and "0 < n"
    and "\<And>w. J w \<Longrightarrow> incumbent me (st_tables w k) = inc"
    and "\<And>w. J w \<Longrightarrow> own_file (st_tables w k) = f"
    and "\<And>w n. inc = None \<Longrightarrow> J w \<Longrightarrow> K (set_owner_file k (Some (owner_to_json me, n), n) w)"
  shows "wp (claim_loop n k me) (\<lambda>r w. case inc of Some o1 \<Rightarrow> r = o1 \<and> J w | None \<Rightarrow> r = me \<and> K w)
    (\<lambda>_ w. J w \<or> (inc = None \<and> K w)) w"
proof -
  obtain n' where "n = Suc n'" using assms(4) by (cases n) auto
  then show ?thesis
    unfolding \<open>n = Suc n'\<close> claim_loop.simps wp_bindM
    by (intro wp_mono [OF wp_claim_attempt [OF assms(1-3,5-7)]]) (auto simp: wp_ret split: option.splits)
qed

text \<open>The tables with the owner of one of them replaced.\<close>

definition with_owner :: "table_key \<Rightarrow> table_owner \<Rightarrow> (table_key \<Rightarrow> table_dir) \<Rightarrow> (table_key \<Rightarrow> table_dir) \<Rightarrow> bool" where
  "with_owner k me T T' \<longleftrightarrow> (\<exists>n. T' = T(k := (T k)\<lparr>own_file := Some (owner_to_json me, n)\<rparr>))"

lemma wp_claim_owner:
  fixes w :: "'z store_scheme"
  assumes "abfss_parse loc = Some l" and "run_ok me" and "st_tables w = T" and "k = table_key l"
    and "quiet P" and "\<And>w f. P w \<Longrightarrow> P (set_owner_file k f w)" and "P w"
  shows "wp (claim_owner m loc me)
    (\<lambda>r w'. P w' \<and> (case incumbent me (T k) of Some o1 \<Rightarrow> r = o1 \<and> st_tables w' = T
            | None \<Rightarrow> r = me \<and> with_owner k me T (st_tables w')))
    (\<lambda>_ w'. P w' \<and> (st_tables w' = T \<or> (incumbent me (T k) = None \<and> with_owner k me T (st_tables w')))) w"
proof -
  let ?inc = "incumbent me (T k)"
  let ?J = "\<lambda>w :: 'z store_scheme. P w \<and> st_tables w = T"
  let ?K = "\<lambda>w :: 'z store_scheme. P w \<and> with_owner k me T (st_tables w)"
  let ?q = "\<lambda>r w'. case ?inc of Some o1 \<Rightarrow> r = o1 \<and> ?J w' | None \<Rightarrow> r = me \<and> ?K w'"
  let ?I = "\<lambda>w'. ?J w' \<or> (?inc = None \<and> ?K w')"
  have qJ: "quiet ?J" and qK: "quiet ?K" using assms(5) by (auto simp: quiet_def clock_free_def fault_free_def)
  have put: "?K (set_owner_file k (Some (owner_to_json me, n), n) w)" if "?J w" for w n
    using that assms(6) by (auto simp: set_owner_file_def with_owner_def)
  have from_J: "wp (claim_loop owner_claim_attempts k me) ?q (\<lambda>_. ?I) v" if "?J v" for v
    by (rule wp_claim_loop [OF qJ qK that, where f = "own_file (T k)"])
       (use put in \<open>auto simp: owner_claim_attempts_def\<close>)
  have from_K: "wp (claim_loop owner_claim_attempts k me) ?q (\<lambda>_. ?I) v" if "?K v" and i: "?inc = None" for v
  proof -
    let ?T = "st_tables v"
    have "owned_by me (?T k)" using that(1) by (auto simp: with_owner_def owned_by_def)
    then have "incumbent me (?T k) = Some me" using assms(2) by (rule incumbent_owned [rotated])
    then have "wp (claim_loop owner_claim_attempts k me)
        (\<lambda>r w. case Some me of Some o1 \<Rightarrow> r = o1 \<and> P w \<and> st_tables w = ?T | None \<Rightarrow> r = me \<and> False)
        (\<lambda>_ w. (P w \<and> st_tables w = ?T) \<or> (Some me = None \<and> False)) v"
      using assms(5) that(1)
      by (intro wp_claim_loop [where f = "own_file (?T k)"])
         (auto simp: quiet_def clock_free_def fault_free_def owner_claim_attempts_def)
    then show ?thesis by (rule wp_mono) (use i that(1) in auto)
  qed
  have "quiet ?I" using assms(5) by (auto simp: quiet_def clock_free_def fault_free_def)
  then have "wp (mg_retry m (claim_loop owner_claim_attempts k me)) ?q (\<lambda>_. ?I) w"
    by (rule wp_retried_read) (use assms(3,7) from_J from_K in auto)
  then have "wp (claim_owner m loc me) ?q (\<lambda>_. ?I) w" using assms(1,4) by (simp add: claim_owner_def)
  then show ?thesis by (rule wp_mono) (auto split: option.splits)
qed

section \<open>Deleting a checkpoint\<close>

lemma wp_swallowed:
  assumes "wp op q (\<lambda>x w. J w \<and> exn_class x \<noteq> ProcessKilled) w" and "\<And>w. J w \<Longrightarrow> q a w"
  shows "wp (tryM op (\<lambda>_. ret a)) q e w"
  unfolding wp_tryM by (rule wp_mono [OF assms(1)]) (use assms(2) in \<open>auto simp: wp_ret\<close>)

lemma wp_retried_no_fault:
  assumes "clock_free J" and "\<And>w. J w \<Longrightarrow> wp op q (\<lambda>x w. J w \<and> exn_class x \<noteq> ProcessKilled) w" and "J w"
  shows "wp (mg_retry m op) q (\<lambda>x w. J w \<and> exn_class x \<noteq> ProcessKilled) w"
  by (rule wp_mg_retry [OF assms(1)]) (use assms(2,3) in auto)

definition calm :: "table_key \<Rightarrow> table_dir \<Rightarrow> 'z store_scheme \<Rightarrow> bool" where
  "calm k d w \<longleftrightarrow> st_faults w = [] \<and> st_tables w k = d"

lemma clock_free_calm [simp]: "clock_free (calm k d)"
  by (simp add: clock_free_def calm_def)

lemma calm_upd_table: "calm k d w \<Longrightarrow> calm k (f d) (upd_table k f w)"
  by (simp add: calm_def)

definition no_sources :: "table_dir \<Rightarrow> bool" where
  "no_sources d \<longleftrightarrow> src_dir d = None \<or> src_dir d = Some []"

lemma wp_delete_all_sources:
  assumes "calm k d w" and "abfss_parse loc = Some l" and "k = table_key l"
    and "\<And>fs. src_dir d = Some fs \<Longrightarrow> distinct (map fst fs)"
  shows "wp (delete_all_sources m loc) (\<lambda>_ w'. \<exists>s. calm k (d\<lparr>src_dir := s\<rparr>) w' \<and> (s = None \<or> s = Some []))
    (\<lambda>_ _. False) w"
proof -
  let ?op = "bindM (list_sources k) (\<lambda>names. bindM (delete_each k names 0) (\<lambda>_. ret ()))"
  let ?q = "\<lambda>_ w'. \<exists>s. calm k (d\<lparr>src_dir := s\<rparr>) w' \<and> (s = None \<or> s = Some [])"
  have "wp (tryM (mg_retry m ?op) (\<lambda>_. ret ())) ?q (\<lambda>_ _. False) w"
  proof (cases "src_dir d")
    case None
    then have "d\<lparr>src_dir := None\<rparr> = d" by (cases d) simp
    then have "\<exists>s. calm k (d\<lparr>src_dir := s\<rparr>) v \<and> (s = None \<or> s = Some [])" if "calm k d v" for v
      using that by (intro exI [of _ None]) simp
    moreover have "wp (mg_retry m ?op) ?q (\<lambda>x w. calm k d w \<and> exn_class x \<noteq> ProcessKilled) w"
      by (rule wp_retried_no_fault [OF clock_free_calm _ assms(1)])
         (use None in \<open>auto simp: wp_def run_bindM list_sources_def storage_call_no_fault calm_def not_found_def\<close>)
    ultimately show ?thesis by (rule wp_swallowed [where J = "calm k d", rotated])
  next
    case (Some fs)
    then have w: "st_faults w = []" "src_dir (st_tables w k) = Some fs" using assms(1) by (simp_all add: calm_def)
    have "delete_each k (map fst fs) 0 w =
        (Inr (0 + length (map fst fs)), upd_table k (without (set (map fst fs))) w)"
      by (rule run_delete_each [OF w assms(4) [OF Some]]) simp
    then have "?op w = (Inr (), upd_table k (without (set (map fst fs))) w)"
      by (simp add: run_bindM run_list_sources [OF w] run_ret)
    then have "tryM (mg_retry m ?op) (\<lambda>_. ret ()) w = (Inr (), upd_table k (without (set (map fst fs))) w)"
      by (rule mg_retry_bind_success)
    moreover have "without (set (map fst fs)) d = d\<lparr>src_dir := Some []\<rparr>"
      using Some by (simp add: without_def filter_empty_conv)
    ultimately show ?thesis
      using calm_upd_table [OF assms(1), of "without (set (map fst fs))"] by (auto simp: wp_def)
  qed
  then show ?thesis using assms(2,3) by (simp add: delete_all_sources_def Let_def)
qed

lemma wp_delete_pending_calm:
  assumes "calm k d w" and "abfss_parse loc = Some l" and "k = table_key l"
  shows "wp (delete_pending m loc strict) (\<lambda>_. calm k (drop_pending d)) (\<lambda>_ _. False) w"
proof -
  have "(bindM (or_absent (delete_text (\<lambda>d. pend_file d \<noteq> None) drop_pending ''pending.json'' k)) (\<lambda>_. ret ())) w =
      (Inr (), upd_table k drop_pending w)"
    using assms(1) by (simp add: run_bindM or_absent_def run_tryM delete_text_def storage_call_no_fault calm_def
        run_ret not_found_def)
  then have "delete_pending m loc strict w = (Inr (), upd_table k drop_pending w)"
    using assms(2,3) by (simp only: delete_pending_def option.case run_tryM mg_retry_success prod.case sum.case)
  then show ?thesis using calm_upd_table [OF assms(1), of drop_pending] by (simp add: wp_def)
qed

lemma wp_delete_rest:
  assumes "calm (table_key l) d w" and "abfss_parse loc = Some l"
    and "\<And>fs. src_dir d = Some fs \<Longrightarrow> distinct (map fst fs)"
  shows "wp (thenM (delete_pending m loc True) (delete_all_sources m loc))
    (\<lambda>_ w'. \<exists>s. calm (table_key l) ((drop_pending d)\<lparr>src_dir := s\<rparr>) w' \<and> (s = None \<or> s = Some []))
    (\<lambda>_ _. False) w"
proof -
  have "wp (delete_all_sources m loc) (\<lambda>_ w'. \<exists>s. calm (table_key l) ((drop_pending d)\<lparr>src_dir := s\<rparr>) w' \<and>
      (s = None \<or> s = Some [])) (\<lambda>_ _. False) v" if "calm (table_key l) (drop_pending d) v" for v
    using that assms(2)
    by (rule wp_delete_all_sources) (use assms(3) in \<open>simp_all add: drop_pending_def\<close>)
  then show ?thesis
    unfolding wp_thenM by (intro wp_mono [OF wp_delete_pending_calm [OF assms(1,2) refl]])
qed

section \<open>Properties\<close>

text \<open>
  C30: a strict read of the watermark is never wrong about its absence. Whatever requests fail and
  whatever the retry policy, if \<open>read_watermark(strict=True)\<close> returns, it returns what
  \<open>watermark.json\<close> holds, \<open>None\<close> only when the file does not exist; and a read that is not strict
  raises nothing but the credential failure (or the process dies).
\<close>

theorem watermark_read_exact:
  assumes "abfss_parse loc = Some l"
  shows "(case read_watermark m loc True w of
      (Inr r, w') \<Rightarrow> st_tables w' = st_tables w \<and> stored_watermark (st_tables w (table_key l)) = Inr r
    | (Inl _, w') \<Rightarrow> st_tables w' = st_tables w) \<and>
    (case read_watermark m loc False w of
      (Inr _, w') \<Rightarrow> True
    | (Inl e, w') \<Rightarrow> exn_class e \<in> {CredentialUnavailableError, ProcessKilled})"
proof
  let ?J = "\<lambda>v. st_tables v = st_tables w"
  have "quiet ?J" by (simp add: quiet_def clock_free_def fault_free_def)
  from wp_read_watermark_strict [OF this refl assms, of m]
  show "case read_watermark m loc True w of
      (Inr r, w') \<Rightarrow> st_tables w' = st_tables w \<and> stored_watermark (st_tables w (table_key l)) = Inr r
    | (Inl _, w') \<Rightarrow> st_tables w' = st_tables w"
    by (auto simp: wp_def split: prod.splits sum.splits)
  show "case read_watermark m loc False w of
      (Inr _, w') \<Rightarrow> True | (Inl e, w') \<Rightarrow> exn_class e \<in> {CredentialUnavailableError, ProcessKilled}"
    using assms by (auto simp: read_watermark_def run_tryM run_raise run_ret split: prod.splits sum.splits)
qed

theorem watermark_read_exact_witness:
  "case read_watermark sample_manager sample_loc True
      (sample_store empty_dir\<lparr>st_faults := [FailBefore (ServiceError ''503'')]\<rparr>) of
      (Inr r, w') \<Rightarrow> r = None \<and> st_tables w' = st_tables (sample_store empty_dir)
    | (Inl _, w') \<Rightarrow> st_tables w' = st_tables (sample_store empty_dir)"
  using watermark_read_exact [OF parse_sample_loc, where m = sample_manager and
      w = "sample_store empty_dir\<lparr>st_faults := [FailBefore (ServiceError ''503'')]\<rparr>"]
  by (auto simp: sample_store_def stored_watermark_def watermark_doc_def empty_dir_def split: prod.splits sum.splits)



text \<open>
  C29: claiming a table, with any failures and any retries. A readable owner that outranks the claimant,
  or is the claimant, keeps the table and is returned; otherwise \<open>claim_owner\<close> returns only once
  \<open>owner.json\<close> holds the claimant's own record. When it raises, the record is the old one or the
  claimant's, and never has a run lost the table to one it outranks.
\<close>

theorem claim_owner_outcome:
  assumes "abfss_parse loc = Some l" and "run_ok me"
  shows "let k = table_key l; T = st_tables w in
    case incumbent me (T k) of
      Some o1 \<Rightarrow>
        (case claim_owner m loc me w of
           (Inr r, w') \<Rightarrow> r = o1 \<and> st_tables w' = T
         | (Inl _, w') \<Rightarrow> st_tables w' = T)
    | None \<Rightarrow>
        (case claim_owner m loc me w of
           (Inr r, w') \<Rightarrow> r = me \<and> with_owner k me T (st_tables w') \<and> incumbent me (st_tables w' k) = Some me
         | (Inl _, w') \<Rightarrow> st_tables w' = T \<or> with_owner k me T (st_tables w'))"
proof -
  have "incumbent me (T' (table_key l)) = Some me" if "with_owner (table_key l) me (st_tables w) T'" for T'
    using that assms(2) by (auto simp: with_owner_def owned_by_def intro!: incumbent_owned)
  then show ?thesis
    using wp_claim_owner [where P = "\<lambda>_. True" and w = w and m = m, OF assms refl refl]
    by (auto simp: wp_def Let_def quiet_def clock_free_def fault_free_def split: option.splits prod.splits sum.splits)
qed

definition sample_run :: "string \<Rightarrow> int \<Rightarrow> table_owner" where
  "sample_run r t = \<lparr>own_run_id = r, own_run_started_at = utc_dt t\<rparr>"

lemma run_ok_sample_run: "run_ok (sample_run ''r'' 1000000)"
  by (simp add: run_ok_def sample_run_def dt_ok_def utc_dt_def is_aware_def ord2ymd_def Let_def)

theorem claim_owner_outcome_witness:
  "case claim_owner sample_manager sample_loc (sample_run ''r'' 1000000)
      (sample_store empty_dir\<lparr>st_faults := [FailAfter (ServiceError ''x'')]\<rparr>) of
     (Inr r, w') \<Rightarrow> r = sample_run ''r'' 1000000 \<and>
       incumbent (sample_run ''r'' 1000000) (st_tables w' (table_key sample_location)) = Some (sample_run ''r'' 1000000)
   | (Inl _, w') \<Rightarrow> st_tables w' = st_tables (sample_store empty_dir) \<or>
       with_owner (table_key sample_location) (sample_run ''r'' 1000000) (st_tables (sample_store empty_dir)) (st_tables w')"
  using claim_owner_outcome [OF parse_sample_loc run_ok_sample_run, where m = sample_manager and
      w = "sample_store empty_dir\<lparr>st_faults := [FailAfter (ServiceError ''x'')]\<rparr>"]
  by (auto simp: Let_def incumbent_def sample_store_def empty_dir_def split: prod.splits sum.splits)

text \<open>
  A full refresh starts clean when nothing fails: \<open>delete_watermark\<close> returns with no watermark, no
  pending batch and no source files, and leaves the owner record alone.
\<close>

theorem delete_watermark_cleans:
  assumes "st_faults w = []" and "abfss_parse loc = Some l"
    and "\<And>fs. src_dir (st_tables w (table_key l)) = Some fs \<Longrightarrow> distinct (map fst fs)"
  shows "let k = table_key l; d = st_tables w k in
    case delete_watermark m loc w of
      (Inr _, w') \<Rightarrow> wm_file (st_tables w' k) = None \<and> pend_file (st_tables w' k) = None \<and>
        no_sources (st_tables w' k) \<and> own_file (st_tables w' k) = own_file d
    | (Inl _, _) \<Rightarrow> False"
proof -
  let ?k = "table_key l" and ?d = "st_tables w (table_key l)"
  let ?op = "delete_text (\<lambda>d. wm_file d \<noteq> None) drop_watermark ''watermark.json'' ?k"
  have c: "calm ?k ?d w" using assms(1) by (simp add: calm_def)
  have "wp (tryM (mg_retry m ?op) (\<lambda>_. ret ())) (\<lambda>_. calm ?k (drop_watermark ?d)) (\<lambda>_ _. False) w"
  proof (cases "wm_file ?d")
    case None
    then have "drop_watermark ?d = ?d" by (cases ?d) (simp add: drop_watermark_def)
    then have "calm ?k (drop_watermark ?d) v" if "calm ?k ?d v" for v using that by simp
    moreover have "wp (mg_retry m ?op) (\<lambda>_. calm ?k (drop_watermark ?d))
        (\<lambda>x w. calm ?k ?d w \<and> exn_class x \<noteq> ProcessKilled) w"
      by (rule wp_retried_no_fault [OF clock_free_calm _ c])
         (use None in \<open>auto simp: wp_def delete_text_def storage_call_no_fault calm_def not_found_def\<close>)
    ultimately show ?thesis by (rule wp_swallowed [where J = "calm ?k ?d", rotated])
  next
    case (Some f)
    then have "?op w = (Inr (), upd_table ?k drop_watermark w)"
      using assms(1) by (simp add: delete_text_def storage_call_no_fault)
    then show ?thesis
      using calm_upd_table [OF c, of drop_watermark] by (simp add: wp_def mg_retry_bind_success)
  qed
  moreover have "wp (thenM (delete_pending m loc True) (delete_all_sources m loc))
      (\<lambda>_ w'. \<exists>s. calm ?k ((drop_pending (drop_watermark ?d))\<lparr>src_dir := s\<rparr>) w' \<and> (s = None \<or> s = Some []))
      (\<lambda>_ _. False) v" if "calm ?k (drop_watermark ?d) v" for v
    using that assms(2) by (rule wp_delete_rest) (use assms(3) in \<open>simp add: drop_watermark_def\<close>)
  ultimately have "wp (delete_watermark m loc) (\<lambda>_ w'. \<exists>s. calm ?k ((drop_pending (drop_watermark ?d))\<lparr>src_dir := s\<rparr>) w' \<and>
      (s = None \<or> s = Some [])) (\<lambda>_ _. False) w"
    unfolding delete_watermark_def assms(2) option.case wp_thenM [of "tryM _ _"] by (blast intro: wp_mono)
  then show ?thesis
    by (auto simp: wp_def Let_def calm_def no_sources_def drop_pending_def drop_watermark_def
        split: prod.splits sum.splits)
qed

theorem delete_watermark_cleans_witness:
  "case delete_watermark sample_manager sample_loc (sample_store
      (empty_dir\<lparr>wm_file := Some (Malformed, 0), src_dir := Some [(''0'', Jsonl [])]\<rparr>)) of
     (Inr _, w') \<Rightarrow> wm_file (st_tables w' (table_key sample_location)) = None \<and>
       no_sources (st_tables w' (table_key sample_location))
   | (Inl _, _) \<Rightarrow> False"
  using delete_watermark_cleans [OF _ parse_sample_loc, where m = sample_manager and w = "sample_store
      (empty_dir\<lparr>wm_file := Some (Malformed, 0), src_dir := Some [(''0'', Jsonl [])]\<rparr>)"]
  by (auto simp: Let_def sample_store_def split: prod.splits sum.splits)

text \<open>
  A full refresh can keep its old watermark. When the request that deletes \<open>watermark.json\<close> fails
  with anything but the death of the process, a credential failure included, \<open>delete_watermark\<close> takes it
  for \<open>already clean\<close> and returns normally, having deleted the pending batch and the source files; the
  watermark is still there, and the next discovery skips every file up to it.
\<close>

theorem delete_watermark_swallows_failure:
  assumes "abfss_parse loc = Some l" and "\<not> retry_enabled (mg_policy m)" and "outage \<noteq> Killed"
    and "st_faults w = [FailBefore outage]"
    and "\<And>fs. src_dir (st_tables w (table_key l)) = Some fs \<Longrightarrow> distinct (map fst fs)"
  shows "let k = table_key l in
    case delete_watermark m loc w of
      (Inr _, w') \<Rightarrow> wm_file (st_tables w' k) = wm_file (st_tables w k) \<and> pend_file (st_tables w' k) = None \<and>
        no_sources (st_tables w' k)
    | (Inl _, _) \<Rightarrow> False"
proof -
  let ?k = "table_key l" and ?d = "st_tables w (table_key l)" and ?w = "w\<lparr>st_faults := []\<rparr>"
  have "exn_class (outage_exn outage) \<noteq> ProcessKilled" using assms(3) by (cases outage) simp_all
  then have "tryM (mg_retry m (delete_text (\<lambda>d. wm_file d \<noteq> None) drop_watermark ''watermark.json'' ?k))
      (\<lambda>_. ret ()) w = (Inr (), ?w)"
    using assms(2,4) by (simp add: run_tryM mg_retry_def retry_on_message_def delete_text_def storage_call_def
        run_ret Let_def)
  moreover have "wp (thenM (delete_pending m loc True) (delete_all_sources m loc))
      (\<lambda>_ w'. \<exists>s. calm ?k ((drop_pending ?d)\<lparr>src_dir := s\<rparr>) w' \<and> (s = None \<or> s = Some [])) (\<lambda>_ _. False) ?w"
    by (rule wp_delete_rest [OF _ assms(1,5)]) (simp_all add: calm_def)
  ultimately have "wp (delete_watermark m loc)
      (\<lambda>_ w'. \<exists>s. calm ?k ((drop_pending ?d)\<lparr>src_dir := s\<rparr>) w' \<and> (s = None \<or> s = Some [])) (\<lambda>_ _. False) w"
    unfolding delete_watermark_def assms(1) option.case wp_thenM [of "tryM _ _"] by (simp add: wp_def)
  then show ?thesis
    by (auto simp: wp_def Let_def calm_def no_sources_def drop_pending_def split: prod.splits sum.splits)
qed

theorem delete_watermark_swallows_failure_witness:
  "case delete_watermark sample_manager sample_loc (sample_store
      (empty_dir\<lparr>wm_file := Some (watermark_to_json (watermark_at ''t''), 0)\<rparr>)\<lparr>st_faults := [FailBefore (NoCredential ''no token'')]\<rparr>) of
     (Inr _, w') \<Rightarrow> wm_file (st_tables w' (table_key sample_location)) = Some (watermark_to_json (watermark_at ''t''), 0)
   | (Inl _, _) \<Rightarrow> False"
  using delete_watermark_swallows_failure [OF parse_sample_loc, where m = sample_manager and
      outage = "NoCredential ''no token''" and w = "sample_store
      (empty_dir\<lparr>wm_file := Some (watermark_to_json (watermark_at ''t''), 0)\<rparr>)\<lparr>st_faults := [FailBefore (NoCredential ''no token'')]\<rparr>"]
  by (auto simp: Let_def sample_store_def empty_dir_def sample_manager_def retry_enabled_def disabled_policy_def
      split: prod.splits sum.splits)

end
