(* ===== verification/Owner_Protocol.thy ===== *)
theory Owner_Protocol
  imports Checkpoint_Manager
begin

text \<open>
  Many dbt runs claiming one table at once. \<open>claim_owner\<close> of every run is cut at its requests: the
  download of \<open>owner.json\<close> with the decision on it, and the conditional upload; between any two of them
  other runs act, responses get lost, and runs fail and start again. The lemmas show that the ranking of
  runs by start time is never violated: the owner's rank only grows, so a run that was superseded stays
  superseded.
\<close>

section \<open>The conditional-write register\<close>

text \<open>
  What the protocol relies on: a write that names the tag it read succeeds only while that tag is the
  current one, and installs its value with a tag that was never used before.
\<close>

locale tagged_register =
  fixes content :: "'s \<Rightarrow> ('v \<times> 't) option"
    and used :: "'s \<Rightarrow> 't set"
    and write_if :: "'t option \<Rightarrow> 'v \<Rightarrow> 's \<Rightarrow> 's option"
  assumes write_needs_tag: "write_if t v s = Some s' \<Longrightarrow> map_option snd (content s) = t"
    and write_installs: "write_if t v s = Some s' \<Longrightarrow>
      \<exists>t'. t' \<notin> used s \<and> content s' = Some (v, t') \<and> used s' = insert t' (used s)"
begin

definition sound :: "'s \<Rightarrow> bool" where
  "sound s \<longleftrightarrow> (\<forall>v t. content s = Some (v, t) \<longrightarrow> t \<in> used s)"

text \<open>An observation is valid while its tag, if it is still current, is current with the value observed.\<close>

definition valid :: "('v \<times> 't) option \<Rightarrow> 's \<Rightarrow> bool" where
  "valid obs s \<longleftrightarrow>
     (case obs of None \<Rightarrow> True
      | Some (v, t) \<Rightarrow> t \<in> used s \<and> (\<forall>v'. content s = Some (v', t) \<longrightarrow> v' = v))"

lemma observe_valid: "sound s \<Longrightarrow> valid (content s) s"
  by (auto simp: sound_def valid_def split: option.splits)

lemma write_sound: "write_if t v s = Some s' \<Longrightarrow> sound s'"
  using write_installs by (fastforce simp: sound_def)

lemma write_keeps_valid: "write_if t v s = Some s' \<Longrightarrow> valid obs s \<Longrightarrow> valid obs s'"
  using write_installs by (fastforce simp: valid_def split: option.splits)

text \<open>A conditional write that succeeds replaced exactly what its writer had observed.\<close>

lemma write_replaces_observed:
  assumes "valid obs s" and "write_if (map_option snd obs) v s = Some s'"
  shows "content s = obs"
  using assms write_needs_tag [OF assms(2)] by (auto simp: valid_def split: option.splits)

end

text \<open>The owner file with the counter its ETags come from, as the upload in \<open>upload_owner\<close> treats it.\<close>

definition file_tags :: "(doc \<times> nat) option \<times> nat \<Rightarrow> nat set" where
  "file_tags f = {..snd f}"

interpretation owner_file: tagged_register "\<lambda>f :: (doc \<times> nat) option \<times> nat. fst f" file_tags cond_upload
  by unfold_locales (auto simp: cond_upload_def file_tags_def split: if_splits)

section \<open>Runs and their steps\<close>

text \<open>
  \<open>Attempting n\<close>: about to download, \<open>n\<close> rounds left. \<open>Writing n obs\<close>: decided to replace what it read.
  \<open>Claimed o\<close>: \<open>claim_owner\<close> returned \<open>o\<close>. \<open>Failed\<close>: it raised; the message retry, or a later
  \<open>claim_table\<close>, starts it again.
\<close>

datatype claim_phase =
    Idle
  | Attempting nat
  | Writing nat "(doc \<times> nat) option"
  | Claimed table_owner
  | Failed

record protocol =
  pr_file :: "(doc \<times> nat) option \<times> nat"
  pr_phase :: "nat \<Rightarrow> claim_phase"

definition set_phase :: "nat \<Rightarrow> claim_phase \<Rightarrow> protocol \<Rightarrow> protocol" where
  "set_phase c p s = s\<lparr>pr_phase := (pr_phase s)(c := p)\<rparr>"

inductive claim_step :: "(nat \<Rightarrow> table_owner) \<Rightarrow> protocol \<Rightarrow> protocol \<Rightarrow> bool"
  for me :: "nat \<Rightarrow> table_owner" where
  start: "pr_phase s c \<in> {Idle, Failed} \<or> pr_phase s c = Claimed o1 \<Longrightarrow>
    claim_step me s (set_phase c (Attempting owner_claim_attempts) s)"
| keep: "pr_phase s c = Attempting (Suc n) \<Longrightarrow> claim_decision (me c) (fst (pr_file s)) = Inr (Keep o1) \<Longrightarrow>
    claim_step me s (set_phase c (Claimed o1) s)"
| decide: "pr_phase s c = Attempting (Suc n) \<Longrightarrow> claim_decision (me c) (fst (pr_file s)) = Inr (Write etag) \<Longrightarrow>
    claim_step me s (set_phase c (Writing n (fst (pr_file s))) s)"
| exhausted: "pr_phase s c = Attempting 0 \<Longrightarrow> claim_step me s (set_phase c Failed s)"
| win: "pr_phase s c = Writing n obs \<Longrightarrow>
    cond_upload (map_option snd obs) (owner_to_json (me c)) (pr_file s) = Some f \<Longrightarrow>
    claim_step me s (set_phase c (Claimed (me c)) (s\<lparr>pr_file := f\<rparr>))"
| win_lost: "pr_phase s c = Writing n obs \<Longrightarrow>
    cond_upload (map_option snd obs) (owner_to_json (me c)) (pr_file s) = Some f \<Longrightarrow>
    claim_step me s (set_phase c Failed (s\<lparr>pr_file := f\<rparr>))"
| conflict: "pr_phase s c = Writing n obs \<Longrightarrow>
    cond_upload (map_option snd obs) (owner_to_json (me c)) (pr_file s) = None \<Longrightarrow>
    claim_step me s (set_phase c (Attempting n) s)"
| outage: "claim_step me s (set_phase c Failed s)"

inductive claim_steps :: "(nat \<Rightarrow> table_owner) \<Rightarrow> protocol \<Rightarrow> protocol \<Rightarrow> bool"
  for me :: "nat \<Rightarrow> table_owner" where
  refl: "claim_steps me s s"
| step: "claim_steps me s s' \<Longrightarrow> claim_step me s' s'' \<Longrightarrow> claim_steps me s s''"

text \<open>The owner a reader finds: \<open>None\<close> when the file is absent or unreadable.\<close>

definition file_owner :: "protocol \<Rightarrow> table_owner option" where
  "file_owner s =
     (case fst (pr_file s) of None \<Rightarrow> None
      | Some (v, _) \<Rightarrow> (case owner_from_json v of Inl _ \<Rightarrow> None | Inr o1 \<Rightarrow> Some o1))"

definition no_claims :: "protocol \<Rightarrow> bool" where
  "no_claims s \<longleftrightarrow> (\<forall>c. pr_phase s c = Idle) \<and> owner_file.sound (pr_file s)"

section \<open>The invariant\<close>

text \<open>
  What a phase knows: a writer observed no owner it must respect, and a run whose claim returned knows an
  owner at least as high as itself, which the file's owner has reached or passed.
\<close>

fun phase_ok :: "table_owner \<Rightarrow> protocol \<Rightarrow> claim_phase \<Rightarrow> bool" where
  "phase_ok run s (Writing n obs) \<longleftrightarrow>
     owner_file.valid obs (pr_file s) \<and> claim_decision run obs = Inr (Write (map_option snd obs))"
| "phase_ok run s (Claimed o1) \<longleftrightarrow>
     owner_rank run \<le> owner_rank o1 \<and>
     (\<exists>o2. file_owner s = Some o2 \<and> owner_rank o1 \<le> owner_rank o2)"
| "phase_ok run s _ \<longleftrightarrow> True"

definition protocol_ok :: "(nat \<Rightarrow> table_owner) \<Rightarrow> protocol \<Rightarrow> bool" where
  "protocol_ok me s \<longleftrightarrow> owner_file.sound (pr_file s) \<and> (\<forall>c. phase_ok (me c) s (pr_phase s c))"

definition rank_grows :: "protocol \<Rightarrow> protocol \<Rightarrow> bool" where
  "rank_grows s s' \<longleftrightarrow>
     (\<forall>o1. file_owner s = Some o1 \<longrightarrow> (\<exists>o2. file_owner s' = Some o2 \<and> owner_rank o1 \<le> owner_rank o2))"

lemma rank_grows_refl: "rank_grows s s"
  by (auto simp: rank_grows_def)

lemma rank_grows_trans: "rank_grows s s' \<Longrightarrow> rank_grows s' s'' \<Longrightarrow> rank_grows s s''"
  unfolding rank_grows_def by (meson order_trans)

lemma pr_file_set_phase [simp]: "pr_file (set_phase c p s) = pr_file s"
  by (simp add: set_phase_def)

lemma file_owner_set_phase [simp]: "file_owner (set_phase c p s) = file_owner s"
  by (simp add: file_owner_def)

lemma file_owner_readable:
  "file_owner s = (case readable_owner (map_option fst (fst (pr_file s))) of Inr c \<Rightarrow> c | Inl _ \<Rightarrow> None)"
  by (auto simp: file_owner_def split: option.splits sum.splits)

lemma claim_decision_Keep:
  assumes "claim_decision run (fst (pr_file s)) = Inr (Keep o1)"
  shows "file_owner s = Some o1 \<and> owner_rank run \<le> owner_rank o1"
proof -
  obtain cur where c: "readable_owner (map_option fst (fst (pr_file s))) = Inr cur"
    and d: "(case cur of
         Some o2 \<Rightarrow> if owner_eq o2 run \<or> outranks o2 run then Inr (Keep o2)
                   else Inr (Write (map_option snd (fst (pr_file s))))
       | None \<Rightarrow> Inr (Write (map_option snd (fst (pr_file s))))) = (Inr (Keep o1) :: pyexn + claim_decision)"
    using assms unfolding claim_decision_def bindE_eq_Inr by (elim exE conjE) (rule that)
  from d have "cur = Some o1" "owner_eq o1 run \<or> outranks o1 run"
    by (simp_all split: option.splits if_splits)
  then show ?thesis using c by (auto simp: file_owner_readable owner_eq_rank outranks_def)
qed

lemma claim_decision_Write_tag: "claim_decision run obs = Inr (Write etag) \<Longrightarrow> etag = map_option snd obs"
  by (auto simp: claim_decision_def bindE_eq_Inr split: option.splits if_splits)

lemma claim_decision_Write_outranks:
  assumes "claim_decision run (fst (pr_file s)) = Inr (Write etag)" and "file_owner s = Some o1"
  shows "owner_rank o1 < owner_rank run"
proof -
  obtain cur where c: "readable_owner (map_option fst (fst (pr_file s))) = Inr cur"
    and d: "(case cur of
         Some o2 \<Rightarrow> if owner_eq o2 run \<or> outranks o2 run then Inr (Keep o2)
                   else Inr (Write (map_option snd (fst (pr_file s))))
       | None \<Rightarrow> Inr (Write (map_option snd (fst (pr_file s))))) = (Inr (Write etag) :: pyexn + claim_decision)"
    using assms(1) unfolding claim_decision_def bindE_eq_Inr by (elim exE conjE) (rule that)
  have "cur = Some o1" using assms(2) c by (simp add: file_owner_readable)
  then have "\<not> owner_eq o1 run" "\<not> outranks o1 run" using d by (simp_all split: if_splits)
  then show ?thesis using outranks_total [of o1 run] by (auto simp: outranks_def)
qed

lemma upload_makes_owner:
  assumes "run_ok run" and "cond_upload t (owner_to_json run) (pr_file s) = Some f"
  shows "file_owner (s\<lparr>pr_file := f\<rparr>) = Some run"
  using assms
  by (auto simp: cond_upload_def file_owner_def run_ok_def owner_json_roundtrip_lemma split: if_splits)

text \<open>A winning upload replaces a lower-ranked owner, an unreadable record, or none.\<close>

lemma upload_rank_grows:
  assumes "run_ok run" and "phase_ok run s (Writing n obs)"
    and "cond_upload (map_option snd obs) (owner_to_json run) (pr_file s) = Some f"
  shows "rank_grows s (s\<lparr>pr_file := f\<rparr>)"
proof -
  have "fst (pr_file s) = obs"
    using assms(2,3) by (intro owner_file.write_replaces_observed) simp_all
  then have "claim_decision run (fst (pr_file s)) = Inr (Write (map_option snd obs))"
    using assms(2) by simp
  then have "owner_rank o1 < owner_rank run" if "file_owner s = Some o1" for o1
    using that by (rule claim_decision_Write_outranks)
  then show ?thesis
    using upload_makes_owner [OF assms(1,3)] by (fastforce simp: rank_grows_def)
qed

lemma phase_ok_set_phase [simp]: "phase_ok run (set_phase c p s) ph = phase_ok run s ph"
  by (cases ph) simp_all

lemma phase_ok_after_upload:
  assumes "phase_ok run s ph" and "rank_grows s (s\<lparr>pr_file := f\<rparr>)" and "cond_upload t v (pr_file s) = Some f"
  shows "phase_ok run (s\<lparr>pr_file := f\<rparr>) ph"
proof (cases ph)
  case (Writing n obs)
  then show ?thesis using assms(1,3) owner_file.write_keeps_valid by fastforce
next
  case (Claimed o1)
  then show ?thesis using assms(1,2) unfolding rank_grows_def by (auto intro: order_trans)
qed simp_all

lemma protocol_ok_upload:
  assumes "protocol_ok me s" and "rank_grows s (s\<lparr>pr_file := f\<rparr>)" and "cond_upload t v (pr_file s) = Some f"
  shows "protocol_ok me (s\<lparr>pr_file := f\<rparr>)"
  unfolding protocol_ok_def
proof
  show "owner_file.sound (pr_file (s\<lparr>pr_file := f\<rparr>))"
    using owner_file.write_sound [OF assms(3)] by simp
  show "\<forall>c. phase_ok (me c) (s\<lparr>pr_file := f\<rparr>) (pr_phase (s\<lparr>pr_file := f\<rparr>) c)"
    using assms(1) phase_ok_after_upload [OF _ assms(2,3)] by (simp add: protocol_ok_def)
qed

lemma rank_grows_set_phase [simp]: "rank_grows s (set_phase c p s') = rank_grows s s'"
  by (simp add: rank_grows_def)

lemma protocol_ok_set_phase:
  "protocol_ok me s \<Longrightarrow> phase_ok (me c) s p \<Longrightarrow> protocol_ok me (set_phase c p s)"
  unfolding protocol_ok_def phase_ok_set_phase pr_file_set_phase by (simp add: set_phase_def)

lemma claimed_own_upload:
  assumes "run_ok run" and "cond_upload t (owner_to_json run) (pr_file s) = Some f"
  shows "phase_ok run (s\<lparr>pr_file := f\<rparr>) (Claimed run)"
  using upload_makes_owner [OF assms] by simp

lemma win_keeps:
  assumes "pr_phase s c = Writing n obs" and "protocol_ok me s" and "run_ok (me c)"
    and "cond_upload (map_option snd obs) (owner_to_json (me c)) (pr_file s) = Some f"
  shows "protocol_ok me (s\<lparr>pr_file := f\<rparr>) \<and> rank_grows s (s\<lparr>pr_file := f\<rparr>)"
proof -
  have "phase_ok (me c) s (Writing n obs)" using assms(1,2) by (metis protocol_ok_def)
  then have "rank_grows s (s\<lparr>pr_file := f\<rparr>)" using assms(3,4) by (intro upload_rank_grows)
  then show ?thesis using protocol_ok_upload [OF assms(2) _ assms(4)] by blast
qed

lemma claim_step_keeps:
  assumes "claim_step me s s'" and "protocol_ok me s" and "\<And>c. run_ok (me c)"
  shows "protocol_ok me s' \<and> rank_grows s s'"
  using assms
proof (induction rule: claim_step.induct)
  case (keep s c n o1)
  have "phase_ok (me c) s (Claimed o1)" using claim_decision_Keep [OF keep.hyps(2)] by auto
  then show ?case using keep.prems by (simp add: protocol_ok_set_phase rank_grows_refl)
next
  case (decide s c n etag)
  have "owner_file.valid (fst (pr_file s)) (pr_file s)"
    using decide.prems by (intro owner_file.observe_valid) (simp add: protocol_ok_def)
  then have "phase_ok (me c) s (Writing n (fst (pr_file s)))"
    using claim_decision_Write_tag [OF decide.hyps(2)] decide.hyps(2) by simp
  then show ?case using decide.prems by (simp add: protocol_ok_set_phase rank_grows_refl)
next
  case (win s c n obs f)
  then show ?case
    using win_keeps [OF win.hyps(1) win.prems(1) _ win.hyps(2)] claimed_own_upload [OF _ win.hyps(2)]
    by (simp only: rank_grows_set_phase protocol_ok_set_phase simp_thms)
next
  case (win_lost s c n obs f)
  then show ?case
    using win_keeps [OF win_lost.hyps(1) win_lost.prems(1) _ win_lost.hyps(2)]
    by (simp add: protocol_ok_set_phase)
qed (simp_all add: protocol_ok_set_phase rank_grows_refl)

lemma claim_steps_keep:
  assumes "claim_steps me s s'" and "protocol_ok me s" and "\<And>c. run_ok (me c)"
  shows "protocol_ok me s' \<and> rank_grows s s'"
  using assms
proof (induction rule: claim_steps.induct)
  case refl
  then show ?case by (simp add: rank_grows_refl)
next
  case (step s' s'')
  then show ?case using claim_step_keeps [OF step.hyps(2)] by (blast intro: rank_grows_trans)
qed

lemma no_claims_ok: "no_claims s \<Longrightarrow> protocol_ok me s"
  by (simp add: no_claims_def protocol_ok_def)

section \<open>Properties\<close>

text \<open>What \<open>ensure_table_owner\<close> accepts of the file it reads, for a run that claimed the table.\<close>

definition ownership_confirmed :: "table_owner \<Rightarrow> protocol \<Rightarrow> bool" where
  "ownership_confirmed run s \<longleftrightarrow>
     (case fst (pr_file s) of None \<Rightarrow> True
      | Some (v, _) \<Rightarrow> (case owner_from_json v of Inl _ \<Rightarrow> False | Inr o1 \<Rightarrow> own_run_id o1 = own_run_id run))"

lemma ownership_confirmed_owner:
  "file_owner s = Some o1 \<Longrightarrow> ownership_confirmed run s \<longleftrightarrow> own_run_id o1 = own_run_id run"
  by (auto simp: file_owner_def ownership_confirmed_def split: option.splits sum.splits)

lemma step_to_claimed:
  assumes "claim_step me s s'" and "pr_phase s' c \<noteq> pr_phase s c" and "pr_phase s' c = Claimed o1"
    and "protocol_ok me s" and "\<And>c. run_ok (me c)"
  shows "(file_owner s = Some o1 \<and> owner_rank (me c) \<le> owner_rank o1) \<or>
    (o1 = me c \<and> (\<forall>o2. file_owner s = Some o2 \<longrightarrow> owner_rank o2 < owner_rank (me c)))"
  using assms(1-4)
proof (cases rule: claim_step.cases)
  case (keep d n o2)
  then have "d = c" "o2 = o1" using assms(2,3) by (auto simp: set_phase_def split: if_splits)
  then show ?thesis using keep claim_decision_Keep by blast
next
  case (win d n obs f)
  then have "d = c" "o1 = me c" using assms(2,3) by (auto simp: set_phase_def split: if_splits)
  have w: "phase_ok (me c) s (Writing n obs)" using win(2) \<open>d = c\<close> assms(4) by (metis protocol_ok_def)
  then have "fst (pr_file s) = obs"
    using win(3) by (intro owner_file.write_replaces_observed [where v = "owner_to_json (me d)" and s' = f]) simp_all
  then have "claim_decision (me c) (fst (pr_file s)) = Inr (Write (map_option snd obs))" using w by simp
  then have "owner_rank o2 < owner_rank (me c)" if "file_owner s = Some o2" for o2
    using that by (rule claim_decision_Write_outranks)
  then show ?thesis using \<open>o1 = me c\<close> by blast
qed (auto simp: set_phase_def split: if_splits)


definition sample_runs :: "nat \<Rightarrow> table_owner" where
  "sample_runs c = \<lparr>own_run_id = show_nat c, own_run_started_at = utc_dt 1000000\<rparr>"

lemma run_ok_sample_runs: "\<forall>c. run_ok (sample_runs c)"
  by (simp add: run_ok_def sample_runs_def dt_ok_def utc_dt_def is_aware_def ord2ymd_def Let_def)

definition sample_protocol :: "(doc \<times> nat) option \<Rightarrow> nat \<Rightarrow> protocol" where
  "sample_protocol f n = \<lparr>pr_file = (f, n), pr_phase = (\<lambda>_. Idle)\<rparr>"

lemma sample_no_claims: "no_claims (sample_protocol None 0)"
  "no_claims (sample_protocol (Some (owner_to_json (sample_runs 1), 1)) 1)"
  by (simp_all add: no_claims_def sample_protocol_def owner_file.sound_def file_tags_def)

text \<open>Run \<open>c\<close> claims a table no run has claimed, undisturbed.\<close>

lemma sample_claim:
  "claim_steps sample_runs (sample_protocol None 0)
     \<lparr>pr_file = (Some (owner_to_json (sample_runs c), 1), 1), pr_phase = (\<lambda>_. Idle)(c := Claimed (sample_runs c))\<rparr>"
proof -
  let ?s0 = "sample_protocol None 0"
  let ?s1 = "set_phase c (Attempting owner_claim_attempts) ?s0"
  let ?s2 = "set_phase c (Writing 4 None) ?s1"
  let ?s3 = "set_phase c (Claimed (sample_runs c)) (?s2\<lparr>pr_file := (Some (owner_to_json (sample_runs c), 1), 1)\<rparr>)"
  have "claim_step sample_runs ?s0 ?s1"
    by (rule claim_step.start) (simp add: sample_protocol_def)
  moreover have "claim_step sample_runs ?s1 (set_phase c (Writing 4 (fst (pr_file ?s1))) ?s1)"
    by (rule claim_step.decide [where etag = None])
       (simp_all add: set_phase_def owner_claim_attempts_def sample_protocol_def claim_decision_def)
  moreover have "claim_step sample_runs ?s2 ?s3"
    by (rule claim_step.win [where n = 4 and obs = None])
       (simp_all add: set_phase_def sample_protocol_def cond_upload_def)
  ultimately have "claim_steps sample_runs ?s0 ?s3"
    unfolding pr_file_set_phase by (simp only: sample_protocol_def protocol.simps fst_conv)
      (meson claim_steps.intros)
  then show ?thesis by (simp add: set_phase_def sample_protocol_def)
qed


lemma claim_step_origin:
  assumes "claim_step me s s'" and "\<And>c. run_ok (me c)"
  shows "file_owner s' = file_owner s \<or> (\<exists>d. file_owner s' = Some (me d))"
  using assms by (induction rule: claim_step.induct) (simp_all, (metis upload_makes_owner)+)

lemma claim_steps_origin:
  assumes "claim_steps me s s'" and "\<And>c. run_ok (me c)"
  shows "file_owner s' = file_owner s \<or> (\<exists>d. file_owner s' = Some (me d))"
  using assms(1)
proof (induction rule: claim_steps.induct)
  case (step s' s'')
  then show ?case using claim_step_origin [OF step.hyps(2) assms(2)] by metis
qed simp



text \<open>
  Two runs that both claimed the table and both got it cannot both pass the ownership check at the
  same time: at most one of them may submit jobs and write the checkpoint.
\<close>

theorem one_run_confirmed:
  assumes "no_claims s0" and "\<forall>c. run_ok (me c)" and "claim_steps me s0 s"
    and "pr_phase s c = Claimed (me c)" and "own_run_id (me c) \<noteq> own_run_id (me d)"
    and "ownership_confirmed (me c) s"
  shows "\<not> ownership_confirmed (me d) s"
proof -
  have "protocol_ok me s" using claim_steps_keep [OF assms(3) no_claims_ok [OF assms(1)]] assms(2) by blast
  then have "phase_ok (me c) s (Claimed (me c))" using assms(4) by (metis protocol_ok_def)
  then obtain o2 where "file_owner s = Some o2" by auto
  then show ?thesis using assms(5,6) by (simp add: ownership_confirmed_owner)
qed

theorem one_run_confirmed_witness:
  "\<not> ownership_confirmed (sample_runs 0)
     \<lparr>pr_file = (Some (owner_to_json (sample_runs 1), 1), 1), pr_phase = (\<lambda>_. Idle)(1 := Claimed (sample_runs 1))\<rparr>"
proof -
  let ?s = "\<lparr>pr_file = (Some (owner_to_json (sample_runs 1), 1), 1), pr_phase = (\<lambda>_. Idle)(1 := Claimed (sample_runs 1))\<rparr>"
  have "ownership_confirmed (sample_runs 1) ?s"
    using run_ok_sample_runs
    by (simp add: ownership_confirmed_def owner_json_roundtrip_lemma run_ok_def)
  then show ?thesis
    using one_run_confirmed [OF sample_no_claims(1) run_ok_sample_runs sample_claim [of 1], of 1 0]
    by (simp add: sample_runs_def)
qed

end
