(* ===== verification/Delta_Log.thy ===== *)
theory Delta_Log
  imports Checkpoint_Manager
begin

text \<open>
  The Delta transaction log as \<open>DuckDbDeltaLakeClient\<close> reads it (\<open>delta_lake.py\<close>): \<open>DeltaCommit\<close>, the
  names of commits and checkpoints in \<open>_delta_log/\<close>, \<open>log_versions\<close>, \<open>read_commits\<close>,
  \<open>latest_metadata_commit\<close>, and the search of \<open>impl.py\<close> for the commit of a batch
  (\<open>_find_token_version\<close>). The log files are state of the world; the JSON parser for the schema text
  nested in a commit is the argument \<open>loads\<close>. The lemmas show that the search finds exactly the
  commits that carry the batch token.
\<close>

section \<open>DeltaCommit\<close>

type_synonym action = "(string \<times> json) list"

record delta_commit =
  dc_version :: int
  dc_actions :: "action list"
  dc_last_modified :: "int option"

text \<open>Lines that do not parse, or parse to no object, are skipped.\<close>

fun object_lines :: "doc list \<Rightarrow> action list" where
  "object_lines [] = []"
| "object_lines (Doc (JDict m) # ls) = m # object_lines ls"
| "object_lines (_ # ls) = object_lines ls"

definition commit_parse :: "int \<Rightarrow> doc list \<Rightarrow> int option \<Rightarrow> delta_commit" where
  "commit_parse version lines last_modified_ms =
     \<lparr>dc_version = version, dc_actions = object_lines lines, dc_last_modified = last_modified_ms\<rparr>"

fun first_dict :: "string \<Rightarrow> action list \<Rightarrow> action option" where
  "first_dict key [] = None"
| "first_dict key (a # as) = (case map_of a key of Some (JDict m) \<Rightarrow> Some m | _ \<Rightarrow> first_dict key as)"

definition commit_info :: "delta_commit \<Rightarrow> action option" where
  "commit_info c = first_dict ''commitInfo'' (dc_actions c)"

definition commit_metadata :: "delta_commit \<Rightarrow> action option" where
  "commit_metadata c = first_dict ''metaData'' (dc_actions c)"

definition or_empty :: "action option \<Rightarrow> action" where
  "or_empty m = (case m of None \<Rightarrow> [] | Some d \<Rightarrow> d)"

definition configuration :: "delta_commit \<Rightarrow> action" where
  "configuration c = (case map_of (or_empty (commit_metadata c)) ''configuration'' of
     Some (JDict m) \<Rightarrow> m | _ \<Rightarrow> [])"

definition schema_string :: "delta_commit \<Rightarrow> string option" where
  "schema_string c = (case map_of (or_empty (commit_metadata c)) ''schemaString'' of
     Some (JStr s) \<Rightarrow> Some s | _ \<Rightarrow> None)"

definition is_scope_engine :: "delta_commit \<Rightarrow> bool" where
  "is_scope_engine c =
     (case commit_info c of
        None \<Rightarrow> True
      | Some info \<Rightarrow>
          let e = dget info ''engineInfo'' JNull
          in py_startswith (if jtruthy e then jstr e else []) ''ScopeEngine'')"

text \<open>The \<open>add\<close> actions; \<open>path\<close> is a string in every Delta log.\<close>

definition add_actions :: "delta_commit \<Rightarrow> action list" where
  "add_actions c = List.map_filter (\<lambda>a. case map_of a ''add'' of Some (JDict m) \<Rightarrow> Some m | _ \<Rightarrow> None) (dc_actions c)"

definition added_data_paths :: "delta_commit \<Rightarrow> string list" where
  "added_data_paths c = List.map_filter (\<lambda>add.
     case map_of add ''path'' of
       Some (JStr p) \<Rightarrow> if p \<noteq> [] \<and> jtruthy (dget add ''dataChange'' (JBool True)) then Some p else None
     | _ \<Rightarrow> None) (add_actions c)"

text \<open>\<open>isinstance(v, int)\<close> holds for booleans too.\<close>

fun as_int :: "json \<Rightarrow> int option" where
  "as_int (JInt i) = Some i"
| "as_int (JBool b) = Some (if b then 1 else 0)"
| "as_int _ = None"

definition timestamp_ms :: "delta_commit \<Rightarrow> int option" where
  "timestamp_ms c =
     (case as_int (dget (or_empty (commit_info c)) ''timestamp'' JNull) of
        Some t \<Rightarrow> Some t
      | None \<Rightarrow>
          (case List.map_filter (\<lambda>add. as_int (dget add ''modificationTime'' JNull)) (add_actions c) of
             [] \<Rightarrow> dc_last_modified c
           | t # ts \<Rightarrow> Some (Max (set (t # ts)))))"

text \<open>\<open>json.dumps\<close>; characters outside ASCII do not occur in what it is used for.\<close>

definition dump_char :: "char \<Rightarrow> string" where
  "dump_char c =
     (if c = CHR 0x22 then [CHR 0x5C, CHR 0x22] else if c = CHR 0x5C then [CHR 0x5C, CHR 0x5C]
      else if c = CHR 0x0A then [CHR 0x5C, CHR ''n''] else if c = CHR 0x0D then [CHR 0x5C, CHR ''r'']
      else if c = CHR 0x09 then [CHR 0x5C, CHR ''t''] else [c])"

definition dump_str :: "string \<Rightarrow> string" where
  "dump_str s = CHR 0x22 # concat (map dump_char s) @ [CHR 0x22]"

fun json_dumps :: "json \<Rightarrow> string" where
  "json_dumps JNull = ''null''"
| "json_dumps (JBool b) = (if b then ''true'' else ''false'')"
| "json_dumps (JInt i) = show_int i"
| "json_dumps (JStr s) = dump_str s"
| "json_dumps (JList xs) = CHR ''['' # py_join '', '' (map json_dumps xs) @ '']''"
| "json_dumps (JDict m) =
     CHR ''{'' # py_join '', '' (map (\<lambda>(k, v). dump_str k @ '': '' @ json_dumps v) m) @ ''}''"

definition carries_property :: "delta_commit \<Rightarrow> string \<Rightarrow> string \<Rightarrow> bool" where
  "carries_property c key value \<longleftrightarrow>
     map_of (configuration c) key = Some (JStr value) \<or>
     (let parameters = dget (or_empty (commit_info c)) ''operationParameters'' JNull
      in jtruthy parameters \<and>
         (let serialized = (case parameters of JStr s \<Rightarrow> s | v \<Rightarrow> json_dumps v)
          in py_contains key serialized \<and> py_contains value serialized))"

section \<open>physical\_column\_name\<close>

definition fields_named :: "(json \<Rightarrow> bool) \<Rightarrow> json list \<Rightarrow> action list" where
  "fields_named ok flds = List.map_filter (\<lambda>f. case f of JDict m \<Rightarrow> if ok f then Some m else None | _ \<Rightarrow> None) flds"

definition physical_column_name :: "(string \<Rightarrow> doc) \<Rightarrow> string option \<Rightarrow> string \<Rightarrow> pyexn + string option" where
  "physical_column_name loads schema column =
     (case schema of
        None \<Rightarrow> Inr None
      | Some text \<Rightarrow>
          if text = [] then Inr None
          else
            (case loads text of
               Doc (JDict m) \<Rightarrow>
                 bindE (jiter (dget m ''fields'' (JList []))) (\<lambda>flds.
                 let named = (\<lambda>f. case f of JDict d \<Rightarrow> dget d ''name'' JNull | _ \<Rightarrow> JNull);
                     exact = fields_named (\<lambda>f. named f = JStr column) flds;
                     matches = (if exact \<noteq> [] then exact
                       else fields_named (\<lambda>f. case f of
                              JDict d \<Rightarrow> py_lower (jstr (dget d ''name'' (JStr []))) = py_lower column
                            | _ \<Rightarrow> False) flds)
                 in case matches of
                      [] \<Rightarrow> Inr None
                    | f # _ \<Rightarrow>
                        bindE (let md = dget f ''metadata'' JNull
                               in if jtruthy md then jattr_dict md else Inr []) (\<lambda>metadata.
                        let p = dget metadata ''delta.columnMapping.physicalName'' JNull
                        in if jtruthy p then Inr (Some (jstr p))
                           else bindE (jindex (JDict f) ''name'') (\<lambda>n. Inr (Some (jstr n)))))
             | _ \<Rightarrow> Inr None))"

section \<open>Files of \<open>_delta_log/\<close>\<close>

text \<open>
  \<open>_COMMIT_FILE_RE\<close> and \<open>_CHECKPOINT_FILE_RE\<close> on a file name: twenty digits, then \<open>.json\<close>, or
  \<open>.checkpoint\<close>, optionally a part number \<open>.i.n\<close>, and \<open>.parquet\<close>.
\<close>

definition version_prefix :: "string \<Rightarrow> int option" where
  "version_prefix name =
     (if length name \<ge> 20 \<and> list_all is_digit (take 20 name) then Some (int (digits_val 0 (take 20 name))) else None)"

definition commit_version :: "string \<Rightarrow> int option" where
  "commit_version name = (if drop 20 name = ''.json'' then version_prefix name else None)"

definition part_suffix :: "string \<Rightarrow> bool" where
  "part_suffix s \<longleftrightarrow>
     (case s of
        CHR ''.'' # t \<Rightarrow>
          (let i = takeWhile is_digit t; t' = dropWhile is_digit t
           in i \<noteq> [] \<and>
              (case t' of
                 CHR ''.'' # u \<Rightarrow> takeWhile is_digit u \<noteq> [] \<and> dropWhile is_digit u = ''.parquet''
               | _ \<Rightarrow> False))
      | _ \<Rightarrow> False)"

definition checkpoint_version :: "string \<Rightarrow> int option" where
  "checkpoint_version name =
     (let rest = drop 20 name
      in if py_startswith rest ''.checkpoint'' \<and>
            (drop 11 rest = ''.parquet'' \<or> part_suffix (drop 11 rest))
         then version_prefix name else None)"

text \<open>
  A commit with its lines and modification time, or a checkpoint with the metadata row DuckDB finds in it:
  the schema text and the configuration entries.
\<close>

datatype log_file =
    CommitFile "doc list" "int option"
  | CheckpointFile "(string option \<times> (string \<times> string) list) option"

record lake = store +
  lk_log :: "table_key \<Rightarrow> (string \<times> log_file) list option"

definition commit_versions :: "(string \<times> log_file) list \<Rightarrow> int list" where
  "commit_versions fs = sort (List.map_filter (\<lambda>f. commit_version (fst f)) fs)"

definition checkpoint_files :: "(string \<times> log_file) list \<Rightarrow> (int \<times> string) list" where
  "checkpoint_files fs = List.map_filter (\<lambda>f.
     case commit_version (fst f) of
       Some _ \<Rightarrow> None
     | None \<Rightarrow> map_option (\<lambda>v. (v, fst f)) (checkpoint_version (fst f))) fs"

definition invalid_location :: "string \<Rightarrow> pyexn" where
  "invalid_location loc = PyExn DbtRuntimeError (''Invalid Delta location: '' @ loc)"

definition log_listing :: "table_key \<Rightarrow> ('z lake_scheme, (string \<times> log_file) list) eff" where
  "log_listing k = storage_call (\<lambda>w.
     case lk_log w k of None \<Rightarrow> (Inl (not_found ''_delta_log''), w) | Some fs \<Rightarrow> (Inr fs, w))"

definition list_log :: "manager \<Rightarrow> string \<Rightarrow> ('z lake_scheme, int list \<times> (int \<times> string) list) eff" where
  "list_log m loc =
     (case abfss_parse loc of
        None \<Rightarrow> raise (invalid_location loc)
      | Some parsed \<Rightarrow>
          mg_retry m
            (bindM (or_absent (log_listing (table_key parsed))) (\<lambda>fs.
               case fs of
                 None \<Rightarrow> ret ([], [])
               | Some fs \<Rightarrow> ret (commit_versions fs, checkpoint_files fs))))"

definition latest_of :: "int list \<times> (int \<times> string) list \<Rightarrow> int" where
  "latest_of l = Max (set (-1 # fst l @ map fst (snd l)))"

definition read_log_versions :: "manager \<Rightarrow> string \<Rightarrow> ('z lake_scheme, int list \<times> int) eff" where
  "read_log_versions m loc = bindM (list_log m loc) (\<lambda>l. ret (fst l, latest_of l))"

definition latest_version :: "manager \<Rightarrow> string \<Rightarrow> ('z lake_scheme, int) eff" where
  "latest_version m loc = bindM (read_log_versions m loc) (\<lambda>l. ret (snd l))"

definition commit_name :: "int \<Rightarrow> string" where
  "commit_name v = fmt020d v @ ''.json''"

definition download_commit :: "table_key \<Rightarrow> int \<Rightarrow> ('z lake_scheme, doc list \<times> int option) eff" where
  "download_commit k v = storage_call (\<lambda>w.
     case lk_log w k of
       None \<Rightarrow> (Inl (not_found (commit_name v)), w)
     | Some fs \<Rightarrow>
         (case map_of fs (commit_name v) of
            Some (CommitFile ls t) \<Rightarrow> (Inr (ls, t), w)
          | Some (CheckpointFile _) \<Rightarrow> (Inr ([], None), w)
          | None \<Rightarrow> (Inl (not_found (commit_name v)), w)))"

definition read_commit :: "manager \<Rightarrow> string \<Rightarrow> int \<Rightarrow> ('z lake_scheme, delta_commit option) eff" where
  "read_commit m loc v =
     (case abfss_parse loc of
        None \<Rightarrow> raise (invalid_location loc)
      | Some parsed \<Rightarrow>
          mg_retry m
            (bindM (or_absent (download_commit (table_key parsed) v)) (\<lambda>d.
               case d of None \<Rightarrow> ret None | Some (ls, t) \<Rightarrow> ret (Some (commit_parse v ls t)))))"

fun read_commits_from :: "manager \<Rightarrow> string \<Rightarrow> int list \<Rightarrow> ('z lake_scheme, delta_commit list) eff" where
  "read_commits_from m loc [] = ret []"
| "read_commits_from m loc (v # vs) =
     bindM (read_commit m loc v) (\<lambda>c.
     bindM (read_commits_from m loc vs) (\<lambda>cs.
       ret (case c of None \<Rightarrow> cs | Some c \<Rightarrow> c # cs)))"

definition read_commits :: "manager \<Rightarrow> string \<Rightarrow> int list \<Rightarrow> ('z lake_scheme, delta_commit list) eff" where
  "read_commits m loc versions = read_commits_from m loc (sort versions)"

text \<open>\<open>_checkpoint_metadata\<close>: the first row with metadata among the checkpoint's files.\<close>

definition query_checkpoint :: "table_key \<Rightarrow> string list \<Rightarrow>
    ('z lake_scheme, (string option \<times> (string \<times> string) list) option) eff" where
  "query_checkpoint k names = storage_call (\<lambda>w.
     case lk_log w k of
       None \<Rightarrow> (Inl (not_found ''checkpoint''), w)
     | Some fs \<Rightarrow>
         (Inr (case List.map_filter (\<lambda>n. case map_of fs n of Some (CheckpointFile r) \<Rightarrow> r | _ \<Rightarrow> None) names of
                 [] \<Rightarrow> None | r # _ \<Rightarrow> Some r), w))"

definition checkpoint_metadata_action :: "string option \<times> (string \<times> string) list \<Rightarrow> action" where
  "checkpoint_metadata_action r =
     [(''metaData'', JDict
        [(''schemaString'', (case fst r of None \<Rightarrow> JNull | Some s \<Rightarrow> JStr s)),
         (''configuration'', JDict (map (\<lambda>(k, v). (k, JStr v)) (snd r)))])]"

fun newest_metadata :: "manager \<Rightarrow> string \<Rightarrow> int \<Rightarrow> int list \<Rightarrow> ('z lake_scheme, delta_commit option) eff" where
  "newest_metadata m loc stop [] = ret None"
| "newest_metadata m loc stop (v # vs) =
     (if v \<le> stop then ret None
      else bindM (read_commit m loc v) (\<lambda>c.
        case c of
          Some c \<Rightarrow> if commit_metadata c \<noteq> None then ret (Some c) else newest_metadata m loc stop vs
        | None \<Rightarrow> newest_metadata m loc stop vs))"

definition last_n :: "nat \<Rightarrow> 'a list \<Rightarrow> 'a list" where
  "last_n n xs = drop (length xs - n) xs"

text \<open>\<open>max(checkpoints, default=-1)\<close>.\<close>

definition last_checkpoint :: "(int \<times> string) list \<Rightarrow> int" where
  "last_checkpoint cps = Max (set (-1 # map fst cps))"

definition latest_metadata_commit :: "manager \<Rightarrow> string \<Rightarrow> nat \<Rightarrow> ('z lake_scheme, delta_commit option) eff" where
  "latest_metadata_commit m loc max_commits =
     (case abfss_parse loc of
        None \<Rightarrow> raise (invalid_location loc)
      | Some parsed \<Rightarrow>
          bindM (list_log m loc) (\<lambda>l.
          let stop = last_checkpoint (snd l) in
          bindM (newest_metadata m loc stop (rev (last_n max_commits (fst l)))) (\<lambda>found.
            case found of
              Some c \<Rightarrow> ret (Some c)
            | None \<Rightarrow>
                if stop < 0 then ret None
                else bindM (query_checkpoint (table_key parsed) (map snd (filter (\<lambda>f. fst f = stop) (snd l)))) (\<lambda>row.
                  ret (map_option (\<lambda>r. \<lparr>dc_version = stop, dc_actions = [checkpoint_metadata_action r],
                                       dc_last_modified = None\<rparr>) row)))))"

section \<open>Finding the commit of a batch\<close>

definition batch_token_property :: string where
  "batch_token_property = ''dbt_scope.batch_token''"

definition find_token_version ::
    "manager \<Rightarrow> string \<Rightarrow> pending_batch \<Rightarrow> int list \<Rightarrow> int \<Rightarrow> ('z lake_scheme, int option) eff" where
  "find_token_version m loc pending versions latest =
     (let after = pb_delta_version_before pending;
          candidates = filter (\<lambda>v. v > after) versions in
      bindM (read_commits m loc candidates) (\<lambda>commits.
        case find (\<lambda>c. carries_property c batch_token_property (pb_token pending)) commits of
          Some c \<Rightarrow> ret (Some (dc_version c))
        | None \<Rightarrow>
            if latest > after \<and> (candidates = [] \<or> hd candidates > after + 1) then
              bindM (latest_metadata_commit m loc 100) (\<lambda>mc.
                case mc of
                  Some c \<Rightarrow>
                    if map_of (configuration c) batch_token_property = Some (JStr (pb_token pending))
                    then ret (Some latest) else ret None
                | None \<Rightarrow> ret None)
            else ret None))"

section \<open>Names of commits\<close>

lemma digit_char_digit_val: "is_digit c \<Longrightarrow> digit_char (digit_val c) = c \<and> digit_val c < 10"
  by (auto simp: is_digit_def digit_char_def digit_val_def Let_def)

lemma pad_nat_digits_val:
  "list_all is_digit s \<Longrightarrow> pad_nat (length s) (digits_val 0 s) = s \<and> digits_val 0 s < 10 ^ length s"
proof (induction s rule: rev_induct)
  case (snoc c s)
  then have IH: "pad_nat (length s) (digits_val 0 s) = s" "digits_val 0 s < 10 ^ length s"
    and c: "digit_char (digit_val c) = c" "digit_val c < 10"
    using digit_char_digit_val by auto
  have v: "digits_val 0 (s @ [c]) = 10 * digits_val 0 s + digit_val c" by (simp add: digits_val_append)
  have "10 * digits_val 0 s + digit_val c < 10 * 10 ^ length s" using IH(2) c(2) by linarith
  then show ?case using IH(1) c by (simp add: v)
qed simp

lemma commit_version_name:
  assumes "commit_version name = Some v"
  shows "name = commit_name v" "0 \<le> v" "v < 10 ^ 20"
proof -
  have len: "20 \<le> length name" and dig: "list_all is_digit (take 20 name)" and rest: "drop 20 name = ''.json''"
    and v: "v = int (digits_val 0 (take 20 name))"
    using assms by (auto simp: commit_version_def version_prefix_def split: if_splits)
  have p: "pad_nat 20 (digits_val 0 (take 20 name)) = take 20 name"
    "digits_val 0 (take 20 name) < 10 ^ 20"
    using pad_nat_digits_val [OF dig] len by simp_all
  show "0 \<le> v" using v by simp
  have "int (digits_val 0 (take 20 name)) < int (10 ^ 20)" using p(2) by (simp only: of_nat_less_iff)
  then show b: "v < 10 ^ 20" using v by simp
  have "name = take 20 name @ ''.json''" using rest by (metis append_take_drop_id)
  then show "name = commit_name v" using p(1) v b by (simp add: commit_name_def fmt020d_def)
qed

lemma commit_version_commit_name [simp]:
  assumes "0 \<le> v" and "v < 10 ^ 20"
  shows "commit_version (commit_name v) = Some v"
proof -
  have "nat v < 10 ^ 20" using assms by auto
  then show ?thesis
    using assms by (simp add: commit_version_def version_prefix_def commit_name_def fmt020d_def)
qed

lemma set_map_filter: "set (List.map_filter f xs) = {y. \<exists>x \<in> set xs. f x = Some y}"
  by (force simp: List.map_filter_def image_iff)

lemma set_commit_versions: "v \<in> set (commit_versions fs) \<longleftrightarrow> commit_version (commit_name v) = Some v \<and> commit_name v \<in> fst ` set fs"
proof -
  have "v \<in> set (commit_versions fs) \<longleftrightarrow> (\<exists>f \<in> set fs. commit_version (fst f) = Some v)"
    by (auto simp: commit_versions_def set_map_filter)
  then show ?thesis using commit_version_name(1) by (metis (no_types, lifting) image_iff)
qed

section \<open>What the reads return\<close>

definition log_files :: "'z lake_scheme \<Rightarrow> table_key \<Rightarrow> (string \<times> log_file) list" where
  "log_files w k = (case lk_log w k of None \<Rightarrow> [] | Some fs \<Rightarrow> fs)"

definition commit_at :: "(string \<times> log_file) list \<Rightarrow> int \<Rightarrow> delta_commit option" where
  "commit_at fs v =
     (case map_of fs (commit_name v) of
        Some (CommitFile ls t) \<Rightarrow> Some (commit_parse v ls t)
      | Some (CheckpointFile _) \<Rightarrow> Some (commit_parse v [] None)
      | None \<Rightarrow> None)"

definition commits_at :: "(string \<times> log_file) list \<Rightarrow> int list \<Rightarrow> delta_commit list" where
  "commits_at fs vs = List.map_filter (commit_at fs) (sort vs)"

definition log_latest :: "(string \<times> log_file) list \<Rightarrow> int" where
  "log_latest fs = latest_of (commit_versions fs, checkpoint_files fs)"

text \<open>\<open>J\<close> keeps the log of a table as it is.\<close>

definition log_fixed :: "('z lake_scheme \<Rightarrow> bool) \<Rightarrow> table_key \<Rightarrow> (string \<times> log_file) list \<Rightarrow> bool" where
  "log_fixed J k fs \<longleftrightarrow> (\<forall>w. J w \<longrightarrow> log_files w k = fs)"

lemma log_fixedD:
  "log_fixed J k fs \<Longrightarrow> J w \<Longrightarrow> (lk_log w k = None \<and> fs = []) \<or> lk_log w k = Some fs"
proof -
  assume "log_fixed J k fs" and "J w"
  then have "log_files w k = fs" by (simp add: log_fixed_def)
  then show ?thesis by (cases "lk_log w k") (simp_all add: log_files_def)
qed

lemma wp_request:
  assumes "quiet J" and "J w"
    and "\<And>w. J w \<Longrightarrow> wp req (\<lambda>a w'. J w' \<and> q a) (\<lambda>x w'. J w' \<and> transport_or_missing x \<and> (exn_class x = ResourceNotFoundError \<longrightarrow> p)) w"
  shows "wp (storage_call req) (\<lambda>a w'. J w' \<and> q a)
    (\<lambda>x w'. J w' \<and> transport_or_missing x \<and> (exn_class x = ResourceNotFoundError \<longrightarrow> p)) w"
proof (rule wp_storage_call)
  fix fs x
  have J: "J (w\<lparr>st_faults := fs\<rparr>)" using assms(1,2) by (rule quiet_faults)
  show "wp req (\<lambda>a w'. (J w' \<and> q a) \<and>
      (\<forall>x. J w' \<and> transport_or_missing (outage_exn x) \<and> (exn_class (outage_exn x) = ResourceNotFoundError \<longrightarrow> p)))
    (\<lambda>x w'. J w' \<and> transport_or_missing x \<and> (exn_class x = ResourceNotFoundError \<longrightarrow> p)) (w\<lparr>st_faults := fs\<rparr>)"
    by (rule wp_mono [OF assms(3) [OF J]]) auto
  show "J (w\<lparr>st_faults := fs\<rparr>) \<and> transport_or_missing (outage_exn x) \<and>
      (exn_class (outage_exn x) = ResourceNotFoundError \<longrightarrow> p)" using J by simp
qed

lemma wp_or_absent:
  assumes "wp op (\<lambda>a w'. J w' \<and> q a) (\<lambda>x w'. J w' \<and> transport_or_missing x \<and> (exn_class x = ResourceNotFoundError \<longrightarrow> p)) w"
  shows "wp (or_absent op) (\<lambda>a w'. J w' \<and> (case a of Some d \<Rightarrow> q d | None \<Rightarrow> p)) (\<lambda>_. J) w"
  unfolding or_absent_def wp_tryM wp_bindM wp_ret
  by (rule wp_mono [OF assms]) (auto simp: wp_ret wp_raise)

text \<open>\<open>J\<close> survives waiting and failures, and the log of the table at \<open>loc\<close> is \<open>fs\<close> throughout.\<close>

definition reads_log :: "('z lake_scheme \<Rightarrow> bool) \<Rightarrow> string \<Rightarrow> (string \<times> log_file) list \<Rightarrow> bool" where
  "reads_log J loc fs \<longleftrightarrow> quiet J \<and> (\<exists>l. abfss_parse loc = Some l \<and> log_fixed J (table_key l) fs)"

lemma reads_log_quiet: "reads_log J loc fs \<Longrightarrow> quiet J"
  by (simp add: reads_log_def)

lemma wp_list_log:
  assumes "reads_log J loc fs" and "J w"
  shows "wp (list_log m loc) (\<lambda>r w'. J w' \<and> r = (commit_versions fs, checkpoint_files fs)) (\<lambda>_. J) w"
proof -
  obtain l where q: "quiet J" and l: "abfss_parse loc = Some l" and log: "log_fixed J (table_key l) fs"
    using assms(1) by (auto simp: reads_log_def)
  let ?k = "table_key l"
  have listing: "wp (log_listing ?k) (\<lambda>a w'. J w' \<and> a = fs)
      (\<lambda>x w'. J w' \<and> transport_or_missing x \<and> (exn_class x = ResourceNotFoundError \<longrightarrow> fs = [])) v" if "J v" for v
    unfolding log_listing_def
    by (rule wp_request [OF q that]) (use log_fixedD [OF log] in \<open>fastforce simp: wp_def split: option.splits\<close>)
  have "wp (bindM (or_absent (log_listing ?k)) (\<lambda>fs. case fs of None \<Rightarrow> ret ([], [])
      | Some fs \<Rightarrow> ret (commit_versions fs, checkpoint_files fs)))
      (\<lambda>r w'. J w' \<and> r = (commit_versions fs, checkpoint_files fs)) (\<lambda>_. J) v" if "J v" for v
    unfolding wp_bindM
    by (rule wp_mono [OF wp_or_absent [OF listing [OF that]]])
       (auto simp: wp_ret commit_versions_def checkpoint_files_def List.map_filter_def split: option.splits)
  then have "wp (mg_retry m (bindM (or_absent (log_listing ?k)) (\<lambda>fs. case fs of None \<Rightarrow> ret ([], [])
      | Some fs \<Rightarrow> ret (commit_versions fs, checkpoint_files fs))))
      (\<lambda>r w'. J w' \<and> r = (commit_versions fs, checkpoint_files fs)) (\<lambda>_. J) w"
    by (intro wp_retried_read [OF q assms(2)])
  then show ?thesis by (simp only: list_log_def l option.case)
qed

lemma wp_read_log_versions:
  assumes "reads_log J loc fs" and "J w"
  shows "wp (read_log_versions m loc) (\<lambda>r w'. J w' \<and> r = (commit_versions fs, log_latest fs)) (\<lambda>_. J) w"
  unfolding read_log_versions_def wp_bindM wp_ret
  by (rule wp_mono [OF wp_list_log [OF assms]]) (auto simp: log_latest_def)

lemma wp_read_commit:
  assumes "reads_log J loc fs" and "J w"
  shows "wp (read_commit m loc v) (\<lambda>r w'. J w' \<and> r = commit_at fs v) (\<lambda>_. J) w"
proof -
  obtain l where q: "quiet J" and l: "abfss_parse loc = Some l" and log: "log_fixed J (table_key l) fs"
    using assms(1) by (auto simp: reads_log_def)
  let ?k = "table_key l"
  have dl: "wp (download_commit ?k v) (\<lambda>a w'. J w' \<and> commit_at fs v = Some (commit_parse v (fst a) (snd a)))
      (\<lambda>x w'. J w' \<and> transport_or_missing x \<and> (exn_class x = ResourceNotFoundError \<longrightarrow> commit_at fs v = None)) u"
    if "J u" for u
    unfolding download_commit_def
    by (rule wp_request [OF q that])
       (use log_fixedD [OF log] in \<open>fastforce simp: wp_def commit_at_def split: option.splits log_file.splits\<close>)
  have "wp (bindM (or_absent (download_commit ?k v)) (\<lambda>d. case d of None \<Rightarrow> ret None
      | Some (ls, t) \<Rightarrow> ret (Some (commit_parse v ls t)))) (\<lambda>r w'. J w' \<and> r = commit_at fs v) (\<lambda>_. J) u"
    if "J u" for u
    unfolding wp_bindM
    by (rule wp_mono [OF wp_or_absent [OF dl [OF that]]]) (auto simp: wp_ret split: option.splits)
  then have "wp (mg_retry m (bindM (or_absent (download_commit ?k v)) (\<lambda>d. case d of None \<Rightarrow> ret None
      | Some (ls, t) \<Rightarrow> ret (Some (commit_parse v ls t))))) (\<lambda>r w'. J w' \<and> r = commit_at fs v) (\<lambda>_. J) w"
    by (intro wp_retried_read [OF q assms(2)])
  then show ?thesis by (simp only: read_commit_def l option.case)
qed

lemma wp_read_commits_from:
  assumes "reads_log J loc fs" and "J w"
  shows "wp (read_commits_from m loc vs) (\<lambda>r w'. J w' \<and> r = List.map_filter (commit_at fs) vs) (\<lambda>_. J) w"
  using assms(2)
proof (induction vs arbitrary: w)
  case Nil
  then show ?case by (simp add: wp_ret List.map_filter_simps)
next
  case (Cons v vs)
  show ?case
    unfolding read_commits_from.simps wp_bindM
    by (rule wp_mono [OF wp_read_commit [OF assms(1) Cons.prems]])
       (auto simp: wp_ret List.map_filter_simps split: option.splits intro!: wp_mono [OF Cons.IH])
qed

lemma wp_read_commits:
  "reads_log J loc fs \<Longrightarrow> J w \<Longrightarrow>
   wp (read_commits m loc vs) (\<lambda>r w'. J w' \<and> r = commits_at fs vs) (\<lambda>_. J) w"
  unfolding read_commits_def commits_at_def by (rule wp_read_commits_from)

subsection \<open>The newest metadata\<close>

fun newest_metadata_of :: "(string \<times> log_file) list \<Rightarrow> int \<Rightarrow> int list \<Rightarrow> delta_commit option" where
  "newest_metadata_of fs stop [] = None"
| "newest_metadata_of fs stop (v # vs) =
     (if v \<le> stop then None
      else case commit_at fs v of
        Some c \<Rightarrow> if commit_metadata c \<noteq> None then Some c else newest_metadata_of fs stop vs
      | None \<Rightarrow> newest_metadata_of fs stop vs)"

definition metadata_commit_of :: "(string \<times> log_file) list \<Rightarrow> nat \<Rightarrow> delta_commit option" where
  "metadata_commit_of fs max_commits =
     (let stop = last_checkpoint (checkpoint_files fs) in
      case newest_metadata_of fs stop (rev (last_n max_commits (commit_versions fs))) of
        Some c \<Rightarrow> Some c
      | None \<Rightarrow>
          if stop < 0 then None
          else (case List.map_filter (\<lambda>n. case map_of fs n of Some (CheckpointFile r) \<Rightarrow> r | _ \<Rightarrow> None)
                       (map snd (filter (\<lambda>f. fst f = stop) (checkpoint_files fs))) of
                  [] \<Rightarrow> None
                | r # _ \<Rightarrow> Some \<lparr>dc_version = stop, dc_actions = [checkpoint_metadata_action r],
                                 dc_last_modified = None\<rparr>))"

lemma wp_newest_metadata:
  assumes "reads_log J loc fs" and "J w"
  shows "wp (newest_metadata m loc stop vs) (\<lambda>r w'. J w' \<and> r = newest_metadata_of fs stop vs) (\<lambda>_. J) w"
  using assms(2)
proof (induction vs arbitrary: w)
  case Nil
  then show ?case by (simp add: wp_ret)
next
  case (Cons v vs)
  show ?case
  proof (cases "v \<le> stop")
    case True
    then show ?thesis using Cons.prems by (simp add: wp_ret)
  next
    case False
    then show ?thesis
      unfolding newest_metadata.simps newest_metadata_of.simps
      by (simp add: wp_bindM)
         (rule wp_mono [OF wp_read_commit [OF assms(1) Cons.prems]];
          auto simp: wp_ret Cons.IH split: option.splits)
  qed
qed

lemma wp_latest_metadata_commit:
  assumes "reads_log J loc fs" and "J w"
  shows "wp (latest_metadata_commit m loc n) (\<lambda>r w'. J w' \<and> r = metadata_commit_of fs n) (\<lambda>_. J) w"
proof -
  obtain l where q: "quiet J" and l: "abfss_parse loc = Some l" and log: "log_fixed J (table_key l) fs"
    using assms(1) by (auto simp: reads_log_def)
  let ?k = "table_key l"
  let ?stop = "last_checkpoint (checkpoint_files fs)"
  let ?names = "map snd (filter (\<lambda>f. fst f = ?stop) (checkpoint_files fs))"
  let ?rows = "List.map_filter (\<lambda>n. case map_of fs n of Some (CheckpointFile r) \<Rightarrow> r | _ \<Rightarrow> None) ?names"
  have "checkpoint_files fs \<noteq> []" if "\<not> ?stop < 0"
    using that by (auto simp: last_checkpoint_def)
  then have nonempty: "fs \<noteq> []" if "\<not> ?stop < 0" using that by (auto simp: checkpoint_files_def List.map_filter_def)
  have query: "wp (query_checkpoint ?k ?names)
      (\<lambda>r w'. J w' \<and> r = (case ?rows of [] \<Rightarrow> None | r # _ \<Rightarrow> Some r)) (\<lambda>_. J) u"
    if "J u" and "\<not> ?stop < 0" for u
    unfolding query_checkpoint_def
    by (rule wp_mono [OF wp_request [OF q that(1), where
          q = "\<lambda>r. r = (case ?rows of [] \<Rightarrow> None | r # _ \<Rightarrow> Some r)" and p = True]])
       (use log_fixedD [OF log] nonempty [OF that(2)] in \<open>fastforce simp: wp_def split: option.splits\<close>, simp_all)
  have rest: "wp (case found of Some c \<Rightarrow> ret (Some c)
      | None \<Rightarrow> if ?stop < 0 then ret None
          else bindM (query_checkpoint ?k ?names) (\<lambda>row. ret (map_option (\<lambda>r.
            \<lparr>dc_version = ?stop, dc_actions = [checkpoint_metadata_action r], dc_last_modified = None\<rparr>) row)))
      (\<lambda>r w'. J w' \<and> r = metadata_commit_of fs n) (\<lambda>_. J) u"
    if "J u" and "found = newest_metadata_of fs ?stop (rev (last_n n (commit_versions fs)))" for found u
  proof (cases found)
    case (Some c)
    then show ?thesis using that by (simp add: wp_ret metadata_commit_of_def Let_def)
  next
    case None
    show ?thesis
    proof (cases "?stop < 0")
      case True
      then show ?thesis using that None by (simp add: wp_ret metadata_commit_of_def Let_def)
    next
      case False
      have "wp (bindM (query_checkpoint ?k ?names) (\<lambda>row. ret (map_option (\<lambda>r.
            \<lparr>dc_version = ?stop, dc_actions = [checkpoint_metadata_action r], dc_last_modified = None\<rparr>) row)))
          (\<lambda>r w'. J w' \<and> r = metadata_commit_of fs n) (\<lambda>_. J) u"
        unfolding wp_bindM
        by (rule wp_mono [OF query [OF that(1) False]])
           (use that(2) None False in \<open>auto simp: wp_ret metadata_commit_of_def Let_def split: list.splits\<close>)
      then show ?thesis using None False by simp
    qed
  qed
  have main: "wp (newest_metadata m loc ?stop (rev (last_n n (commit_versions fs)))) (\<lambda>found. wp (case found of
        Some c \<Rightarrow> ret (Some c)
      | None \<Rightarrow> if ?stop < 0 then ret None
          else bindM (query_checkpoint ?k ?names) (\<lambda>row. ret (map_option (\<lambda>r.
            \<lparr>dc_version = ?stop, dc_actions = [checkpoint_metadata_action r], dc_last_modified = None\<rparr>) row)))
      (\<lambda>r w'. J w' \<and> r = metadata_commit_of fs n) (\<lambda>_. J)) (\<lambda>_. J) u" if "J u" for u
    by (rule wp_mono [OF wp_newest_metadata [OF assms(1) that]]) (use rest in auto)
  show ?thesis
    unfolding latest_metadata_commit_def l option.case wp_bindM [of "list_log m loc"] Let_def
      wp_bindM [of "newest_metadata _ _ _ _"]
  proof (rule wp_mono [OF wp_list_log [OF assms]])
    fix r u
    assume "J u \<and> r = (commit_versions fs, checkpoint_files fs)"
    then have u: "J u" and r: "r = (commit_versions fs, checkpoint_files fs)" by simp_all
    show "wp (newest_metadata m loc (last_checkpoint (snd r)) (rev (last_n n (fst r)))) (\<lambda>found. wp (case found of
          Some c \<Rightarrow> ret (Some c)
        | None \<Rightarrow> if last_checkpoint (snd r) < 0 then ret None
            else bindM (query_checkpoint ?k (map snd (filter (\<lambda>f. fst f = last_checkpoint (snd r)) (snd r)))) (\<lambda>row.
              ret (map_option (\<lambda>r'. \<lparr>dc_version = last_checkpoint (snd r),
                dc_actions = [checkpoint_metadata_action r'], dc_last_modified = None\<rparr>) row)))
        (\<lambda>r w'. J w' \<and> r = metadata_commit_of fs n) (\<lambda>_. J)) (\<lambda>_. J) u"
      unfolding r fst_conv snd_conv by (rule main [OF u])
  qed
qed

section \<open>The batch's commit\<close>

definition token_version_of :: "(string \<times> log_file) list \<Rightarrow> pending_batch \<Rightarrow> int option" where
  "token_version_of fs p =
     (let after = pb_delta_version_before p;
          candidates = filter (\<lambda>v. v > after) (commit_versions fs) in
      case find (\<lambda>c. carries_property c batch_token_property (pb_token p)) (commits_at fs candidates) of
        Some c \<Rightarrow> Some (dc_version c)
      | None \<Rightarrow>
          if log_latest fs > after \<and> (candidates = [] \<or> hd candidates > after + 1) then
            (case metadata_commit_of fs 100 of
               Some c \<Rightarrow>
                 if map_of (configuration c) batch_token_property = Some (JStr (pb_token p))
                 then Some (log_latest fs) else None
             | None \<Rightarrow> None)
          else None)"

lemma wp_find_token_version:
  assumes "reads_log J loc fs" and "J w"
  shows "wp (find_token_version m loc p (commit_versions fs) (log_latest fs))
    (\<lambda>r w'. J w' \<and> r = token_version_of fs p) (\<lambda>_. J) w"
proof -
  let ?c = "filter (\<lambda>v. v > pb_delta_version_before p) (commit_versions fs)"
  show ?thesis
    unfolding find_token_version_def Let_def wp_bindM [of "read_commits m loc _"]
  proof (rule wp_mono [OF wp_read_commits [OF assms]])
    fix cs u
    assume "J u \<and> cs = commits_at fs ?c"
    then have u: "J u" and cs: "cs = commits_at fs ?c" by simp_all
    show "wp (case find (\<lambda>c. carries_property c batch_token_property (pb_token p)) cs of
          Some c \<Rightarrow> ret (Some (dc_version c))
        | None \<Rightarrow>
            if log_latest fs > pb_delta_version_before p \<and> (?c = [] \<or> hd ?c > pb_delta_version_before p + 1) then
              bindM (latest_metadata_commit m loc 100) (\<lambda>mc. case mc of
                  Some c \<Rightarrow> if map_of (configuration c) batch_token_property = Some (JStr (pb_token p))
                    then ret (Some (log_latest fs)) else ret None
                | None \<Rightarrow> ret None)
            else ret None) (\<lambda>r w'. J w' \<and> r = token_version_of fs p) (\<lambda>_. J) u"
      using u wp_latest_metadata_commit [OF assms(1) u, of m 100]
      by (auto simp: token_version_of_def Let_def cs wp_ret wp_bindM split: option.splits elim!: wp_mono)
  qed
qed

lemma find_map_filter_None:
  "find P (List.map_filter f xs) = None \<longleftrightarrow> (\<forall>x \<in> set xs. \<forall>c. f x = Some c \<longrightarrow> \<not> P c)"
  by (auto simp: find_None_iff set_map_filter)

lemma find_map_filter_least:
  fixes xs :: "'a::linorder list"
  assumes "sorted xs" and "find P (List.map_filter f xs) = Some c"
  shows "\<exists>x \<in> set xs. f x = Some c \<and> P c \<and> (\<forall>y \<in> set xs. (\<exists>d. f y = Some d \<and> P d) \<longrightarrow> x \<le> y)"
  using assms
  by (induction xs) (auto simp: List.map_filter_simps split: option.splits if_splits)

lemma dc_version_commit_at: "commit_at fs v = Some c \<Longrightarrow> dc_version c = v"
  by (auto simp: commit_at_def commit_parse_def split: option.splits log_file.splits)

definition token_commit :: "(string \<times> log_file) list \<Rightarrow> pending_batch \<Rightarrow> int \<Rightarrow> bool" where
  "token_commit fs p v \<longleftrightarrow> v \<in> set (commit_versions fs) \<and> v > pb_delta_version_before p \<and>
     (\<exists>c. commit_at fs v = Some c \<and> carries_property c batch_token_property (pb_token p))"

definition token_is_latest :: "(string \<times> log_file) list \<Rightarrow> pending_batch \<Rightarrow> bool" where
  "token_is_latest fs p \<longleftrightarrow> log_latest fs > pb_delta_version_before p \<and>
     (\<exists>c. metadata_commit_of fs 100 = Some c \<and>
       map_of (configuration c) batch_token_property = Some (JStr (pb_token p)))"

lemma token_version_found:
  assumes "token_commit fs p v"
  shows "\<exists>v'. token_version_of fs p = Some v' \<and> v' \<le> v \<and> token_commit fs p v'"
proof -
  let ?c = "filter (\<lambda>v. v > pb_delta_version_before p) (commit_versions fs)"
  let ?P = "\<lambda>c. carries_property c batch_token_property (pb_token p)"
  have "\<not> (\<forall>x \<in> set (sort ?c). \<forall>c. commit_at fs x = Some c \<longrightarrow> \<not> ?P c)"
    using assms by (auto simp: token_commit_def)
  then obtain c where c: "find ?P (commits_at fs ?c) = Some c"
    unfolding commits_at_def by (metis find_map_filter_None not_None_eq)
  then obtain x where x: "x \<in> set ?c" "commit_at fs x = Some c" "?P c"
    and least: "\<forall>y \<in> set ?c. (\<exists>d. commit_at fs y = Some d \<and> ?P d) \<longrightarrow> x \<le> y"
    using find_map_filter_least [of "sort ?c" ?P "commit_at fs" c] by (auto simp: commits_at_def)
  have "token_version_of fs p = Some x"
    using c dc_version_commit_at [OF x(2)] by (simp add: token_version_of_def Let_def)
  moreover have "x \<le> v" using least assms by (auto simp: token_commit_def)
  ultimately show ?thesis using x by (auto simp: token_commit_def)
qed

lemma token_version_sound:
  assumes "token_version_of fs p = Some v"
  shows "token_commit fs p v \<or> (v = log_latest fs \<and> token_is_latest fs p)"
proof -
  let ?c = "filter (\<lambda>v. v > pb_delta_version_before p) (commit_versions fs)"
  let ?P = "\<lambda>c. carries_property c batch_token_property (pb_token p)"
  show ?thesis
  proof (cases "find ?P (commits_at fs ?c)")
    case None
    then show ?thesis
      using assms by (auto simp: token_version_of_def Let_def token_is_latest_def split: if_splits option.splits)
  next
    case (Some c)
    then obtain x where x: "x \<in> set ?c" "commit_at fs x = Some c" "?P c"
      using find_map_filter_least [of "sort ?c" ?P "commit_at fs" c] by (auto simp: commits_at_def)
    have "v = x" using assms Some dc_version_commit_at [OF x(2)] by (simp add: token_version_of_def Let_def)
    then show ?thesis using x by (auto simp: token_commit_def)
  qed
qed

text \<open>The commit after the base version is no longer in the log: the log was cleaned up since.\<close>

definition commit_missing :: "(string \<times> log_file) list \<Rightarrow> pending_batch \<Rightarrow> bool" where
  "commit_missing fs p \<longleftrightarrow> pb_delta_version_before p + 1 \<notin> set (commit_versions fs)"

lemma commit_missing_candidates:
  fixes p fs
  defines "c \<equiv> filter (\<lambda>v. v > pb_delta_version_before p) (commit_versions fs)"
  shows "(c = [] \<or> hd c > pb_delta_version_before p + 1) \<longleftrightarrow> commit_missing fs p"
proof -
  have s: "sorted c" unfolding c_def by (simp add: commit_versions_def sorted_filter [of "\<lambda>x. x", simplified])
  have m: "x \<in> set c \<longleftrightarrow> x \<in> set (commit_versions fs) \<and> x > pb_delta_version_before p" for x
    by (auto simp: c_def)
  show ?thesis
  proof (cases c)
    case Nil
    then show ?thesis using m [of "pb_delta_version_before p + 1"] by (simp add: commit_missing_def)
  next
    case (Cons a as)
    then have "a \<in> set c" "\<forall>x\<in>set c. a \<le> x" using s by auto
    then show ?thesis using Cons m [of a] m [of "pb_delta_version_before p + 1"] by (fastforce simp: commit_missing_def)
  qed
qed

lemma token_version_otherwise:
  assumes "\<not> (\<exists>v. token_commit fs p v)"
  shows "token_version_of fs p = (if commit_missing fs p \<and> token_is_latest fs p then Some (log_latest fs) else None)"
proof -
  let ?c = "filter (\<lambda>v. v > pb_delta_version_before p) (commit_versions fs)"
  have "find (\<lambda>c. carries_property c batch_token_property (pb_token p)) (commits_at fs ?c) = None"
    unfolding commits_at_def find_map_filter_None using assms by (auto simp: token_commit_def)
  then show ?thesis
    unfolding token_version_of_def Let_def commit_missing_candidates
    by (auto simp: token_is_latest_def split: option.split)
qed

section \<open>Properties\<close>

text \<open>
  C12: the search for a batch's commit is exact, under every pattern of failures. When it returns, it
  found the oldest JSON commit after the batch's base version that carries the batch token, if there is
  one. Otherwise it found the latest version exactly when the commit after the base version is no longer
  in the log, the table has grown since, and its current configuration (of the newest metadata among
  the last 100 commits after the last checkpoint, or of the checkpoint) holds the token; and nothing in
  every other case. It reads only.
\<close>

theorem batch_commit_search_exact:
  assumes "abfss_parse loc = Some l" and "fs = log_files w (table_key l)"
  shows "case find_token_version m loc p (commit_versions fs) (log_latest fs) w of
      (Inr r, w') \<Rightarrow>
        (\<forall>v. token_commit fs p v \<longrightarrow> (\<exists>v'. r = Some v' \<and> v' \<le> v \<and> token_commit fs p v')) \<and>
        (\<not> (\<exists>v. token_commit fs p v) \<longrightarrow>
           r = (if commit_missing fs p \<and> token_is_latest fs p then Some (log_latest fs) else None)) \<and>
        st_tables w' = st_tables w \<and> lk_log w' = lk_log w
    | (Inl _, w') \<Rightarrow> st_tables w' = st_tables w \<and> lk_log w' = lk_log w"
proof -
  let ?J = "\<lambda>u. st_tables u = st_tables w \<and> lk_log u = lk_log w"
  have "quiet ?J" by (simp add: quiet_def clock_free_def fault_free_def)
  moreover have "log_fixed ?J (table_key l) fs" using assms(2) by (simp add: log_fixed_def log_files_def)
  ultimately have "reads_log ?J loc fs" using assms(1) by (simp add: reads_log_def)
  from wp_find_token_version [OF this, of w m p]
  show ?thesis
    using token_version_found [of fs p] token_version_otherwise [of fs p]
    by (auto simp: wp_def split: prod.splits sum.splits)
qed

text \<open>A batch for the examples: three files of a first batch, after version 0.\<close>

definition sample_pending :: pending_batch where
  "sample_pending = \<lparr>pb_token = ''tok'', pb_batch_id = 0, pb_run_id = ''r'', pb_job_name = ''j'',
     pb_files = [(''/a'', 1)], pb_watermark_before = None, pb_delta_version_before = 0,
     pb_created_at = [], pb_schema_version = 1\<rparr>"

definition sample_commit :: "doc list" where
  "sample_commit = [Doc (JDict [(''commitInfo'', JDict [(''operationParameters'',
     JStr ''dbt_scope.batch_token=tok'')])])]"

definition sample_lake :: "(string \<times> log_file) list \<Rightarrow> lake" where
  "sample_lake fs = \<lparr>st_faults = [], st_clock = 0, st_etag = 0, st_tables = (\<lambda>_. empty_dir),
     lk_log = (\<lambda>_. Some fs)\<rparr>"

theorem batch_commit_search_exact_witness:
  "let fs = [(commit_name 1, CommitFile sample_commit None)] in
   case find_token_version sample_manager sample_loc sample_pending (commit_versions fs) (log_latest fs)
     (sample_lake fs\<lparr>st_faults := [FailBefore (ServiceError ''503'')]\<rparr>) of
     (Inr r, _) \<Rightarrow> (\<exists>v'. r = Some v' \<and> v' \<le> 1) | (Inl _, w') \<Rightarrow> lk_log w' = (\<lambda>_. Some fs)"
proof -
  let ?fs = "[(commit_name 1, CommitFile sample_commit None)]"
  have "carries_property (commit_parse 1 sample_commit None) batch_token_property (pb_token sample_pending)"
    by (simp add: carries_property_def commit_parse_def sample_commit_def commit_info_def or_empty_def dget_def
        batch_token_property_def sample_pending_def)
  then have "token_commit ?fs sample_pending 1"
    by (simp add: token_commit_def set_commit_versions commit_at_def) (simp add: sample_pending_def)
  then show ?thesis
    using batch_commit_search_exact [OF parse_sample_loc, where m = sample_manager and p = sample_pending and
        w = "sample_lake ?fs\<lparr>st_faults := [FailBefore (ServiceError ''503'')]\<rparr>" and fs = ?fs]
    by (auto simp: Let_def sample_lake_def log_files_def split: prod.splits sum.splits)
qed

end
