(* ===== verification/Gen1_Listing.thy ===== *)
theory Gen1_Listing
  imports Delta_Log File_Batching
begin

text \<open>
  \<open>AdlsGen1Client\<close> (\<open>adls_gen1_client.py\<close>): the recursive listing of a source root with its cache, and
  the byte estimates of structured streams. The source file system is a tree; every \<open>ls\<close> or \<open>info\<close>
  is one request that the outage schedule may fail. The thread pool of \<open>_walk\<close> lists directories in some
  order; the model lists them depth first, and the result is sorted by modification time in either case.
\<close>

section \<open>The source file system\<close>

text \<open>\<open>name\<close> is the full path, as the Gen1 SDK returns it, without the leading slash.\<close>

datatype gen1_entry =
    G1File (g1_name: string) (g1_length: "int option") (g1_modified: "int option")
  | G1Dir (g1_name: string) "gen1_entry list"

fun is_g1_file :: "gen1_entry \<Rightarrow> bool" where
  "is_g1_file (G1File _ _ _) = True"
| "is_g1_file (G1Dir _ _) = False"

record gen1 = lake +
  g1_lookup :: "string \<Rightarrow> gen1_entry option"
  g1_listings :: "((string \<times> string) \<times> file_info list) list"
  g1_estimates :: "(string \<times> int \<times> string list) list"

definition ensure_rooted :: "string \<Rightarrow> string" where
  "ensure_rooted raw = (if py_startswith raw ''/'' then raw else CHR ''/'' # raw)"

text \<open>\<open>FileInfo.from_adls_entry\<close>.\<close>

fun from_adls_entry :: "gen1_entry \<Rightarrow> file_info option" where
  "from_adls_entry (G1Dir _ _) = None"
| "from_adls_entry (G1File name len None) = None"
| "from_adls_entry (G1File name len (Some ms)) = Some
     \<lparr>fi_path = ensure_rooted name, fi_name = after_last CHR ''/'' name,
      fi_length = (case len of None \<Rightarrow> 0 | Some n \<Rightarrow> n),
      fi_modification_time = of_epoch_ms ms, fi_estimated_bytes = None, fi_contributing_files = []\<rparr>"

section \<open>Listing\<close>

definition ls_request :: "manager \<Rightarrow> bool \<Rightarrow> string \<Rightarrow> ('z gen1_scheme, unit) eff" where
  "ls_request m present path = mg_retry m (storage_call (\<lambda>w.
     if present then (Inr (), w) else (Inl (PyExn FileNotFoundErr path), w)))"

text \<open>\<open>_list_one_dir\<close>: whether the directory could be listed; only a credential failure is raised.\<close>

definition list_one_dir :: "manager \<Rightarrow> bool \<Rightarrow> string \<Rightarrow> ('z gen1_scheme, bool) eff" where
  "list_one_dir m present path =
     tryM (bindM (ls_request m present path) (\<lambda>_. ret True))
       (\<lambda>e. if exn_class e = CredentialUnavailableError then raise e else ret False)"

fun walk_dir :: "manager \<Rightarrow> gen1_entry \<Rightarrow> ('z gen1_scheme, gen1_entry list) eff"
  and walk_dirs :: "manager \<Rightarrow> gen1_entry list \<Rightarrow> ('z gen1_scheme, gen1_entry list) eff" where
  "walk_dir m (G1File _ _ _) = ret []"
| "walk_dir m (G1Dir name entries) =
     bindM (list_one_dir m True name) (\<lambda>listed.
       if listed then bindM (walk_dirs m entries) (\<lambda>rest. ret (filter is_g1_file entries @ rest))
       else ret [])"
| "walk_dirs m [] = ret []"
| "walk_dirs m (e # es) = bindM (walk_dir m e) (\<lambda>a. bindM (walk_dirs m es) (\<lambda>b. ret (a @ b)))"

text \<open>\<open>_walk\<close> from a root that may be absent or a file.\<close>

definition walk_root :: "manager \<Rightarrow> string \<Rightarrow> ('z gen1_scheme, gen1_entry list) eff" where
  "walk_root m src_root =
     bindM (asks (\<lambda>w. g1_lookup w src_root)) (\<lambda>found.
       case found of
         Some (G1Dir name entries) \<Rightarrow> walk_dir m (G1Dir src_root entries)
       | _ \<Rightarrow> bindM (list_one_dir m False src_root) (\<lambda>_. ret []))"

definition keep_entry :: "(string \<Rightarrow> bool) \<Rightarrow> gen1_entry \<Rightarrow> file_info option" where
  "keep_entry matches e =
     (case from_adls_entry e of
        None \<Rightarrow> None
      | Some info \<Rightarrow> if fi_length info = 0 then None else if matches (fi_name info) then Some info else None)"

definition name_matches :: "regex_engine \<Rightarrow> string \<Rightarrow> string \<Rightarrow> bool" where
  "name_matches eng pattern name \<longleftrightarrow> pattern = [] \<or> re_search eng pattern name"

definition listed_files :: "regex_engine \<Rightarrow> string \<Rightarrow> gen1_entry list \<Rightarrow> file_info list" where
  "listed_files eng pattern entries =
     sort_key fi_modification_time (List.map_filter (keep_entry (name_matches eng pattern)) entries)"

definition list_files :: "manager \<Rightarrow> string \<Rightarrow> string \<Rightarrow> ('z gen1_scheme, file_info list) eff" where
  "list_files m src_root pattern =
     bindM (asks (\<lambda>w. map_of (g1_listings w) (src_root, pattern))) (\<lambda>cached.
       case cached of
         Some fs \<Rightarrow> ret fs
       | None \<Rightarrow>
           if pattern \<noteq> [] \<and> \<not> re_compiles (mg_engine m) pattern then raise (PyExn OtherError ''re.error'')
           else
             bindM (walk_root m src_root) (\<lambda>entries.
             let fs = listed_files (mg_engine m) pattern entries in
             thenM (modifyM (\<lambda>w. w\<lparr>g1_listings := assoc_put (src_root, pattern) fs (g1_listings w)\<rparr>)) (ret fs)))"

definition clear_file_cache :: "('z gen1_scheme, unit) eff" where
  "clear_file_cache = modifyM (\<lambda>w. w\<lparr>g1_listings := [], g1_estimates := []\<rparr>)"

section \<open>Byte estimates\<close>

definition is_g1_dir :: "gen1_entry option \<Rightarrow> bool" where
  "is_g1_dir e = (case e of Some (G1Dir _ _) \<Rightarrow> True | _ \<Rightarrow> False)"

definition directory_exists :: "manager \<Rightarrow> string \<Rightarrow> ('z gen1_scheme, bool) eff" where
  "directory_exists m path =
     tryM (mg_retry m (storage_call (\<lambda>w.
             case g1_lookup w path of
               None \<Rightarrow> (Inl (PyExn FileNotFoundErr path), w)
             | Some e \<Rightarrow> (Inr (is_g1_dir (Some e)), w))))
       (\<lambda>e. if exn_class e = CredentialUnavailableError then raise e else ret False)"

definition list_directory_files :: "manager \<Rightarrow> string \<Rightarrow> ('z gen1_scheme, gen1_entry list) eff" where
  "list_directory_files m path = walk_root m path"

text \<open>\<open>sum(f["length"] for f in files)\<close>.\<close>

definition entry_length :: "gen1_entry \<Rightarrow> pyexn + int" where
  "entry_length e = (case e of G1File _ (Some n) _ \<Rightarrow> Inr n | _ \<Rightarrow> Inl (PyExn KeyErr ''length''))"

definition estimate_bytes :: "manager \<Rightarrow> string \<Rightarrow> int \<Rightarrow> ('z gen1_scheme, int \<times> string list) eff" where
  "estimate_bytes m ss_path ss_length =
     (if \<not> py_endswith ss_path ''.ss'' then raise (PyExn ValueErr (''Path must end with .ss, got: '' @ ss_path))
      else
        let sibling = take (length ss_path - 3) ss_path in
        bindM (directory_exists m sibling) (\<lambda>exists.
          if \<not> exists then ret (ss_length, [])
          else
            bindM (list_directory_files m sibling) (\<lambda>fs.
            bindM (liftE (mapE entry_length fs)) (\<lambda>lengths.
              ret (ss_length + sum_list lengths, map g1_name fs)))))"

definition with_estimate :: "file_info \<Rightarrow> int \<Rightarrow> string list \<Rightarrow> file_info" where
  "with_estimate f est contrib = f\<lparr>fi_estimated_bytes := Some est, fi_contributing_files := contrib\<rparr>"

definition remember_estimate :: "string \<Rightarrow> int \<times> string list \<Rightarrow> ('z gen1_scheme, unit) eff" where
  "remember_estimate path v = modifyM (\<lambda>w. w\<lparr>g1_estimates := assoc_put path v (g1_estimates w)\<rparr>)"

definition enrich_one :: "manager \<Rightarrow> file_info \<Rightarrow> ('z gen1_scheme, file_info) eff" where
  "enrich_one m f =
     bindM (asks (\<lambda>w. map_of (g1_estimates w) (fi_path f))) (\<lambda>cached.
       case cached of
         Some (est, contrib) \<Rightarrow> ret (with_estimate f est contrib)
       | None \<Rightarrow>
           tryM
             (bindM (estimate_bytes m (fi_path f) (fi_length f)) (\<lambda>(est, contrib).
                thenM (remember_estimate (fi_path f) (est, contrib)) (ret (with_estimate f est contrib))))
             (\<lambda>e. if exn_class e = CredentialUnavailableError then raise e
                  else thenM (remember_estimate (fi_path f) (fi_length f, []))
                         (ret (f\<lparr>fi_estimated_bytes := Some (fi_length f)\<rparr>))))"

definition enrich_with_estimates :: "manager \<Rightarrow> file_info list \<Rightarrow> ('z gen1_scheme, file_info list) eff" where
  "enrich_with_estimates m fs = mapM (enrich_one m) fs"

section \<open>What the client does to the world\<close>

text \<open>\<open>J\<close> does not look at the clock, the outage schedule or the two caches of the client.\<close>

definition cacheless :: "('z gen1_scheme \<Rightarrow> bool) \<Rightarrow> bool" where
  "cacheless J \<longleftrightarrow> quiet J \<and> (\<forall>w c. J w \<longrightarrow> J (w\<lparr>g1_listings := c\<rparr>)) \<and> (\<forall>w c. J w \<longrightarrow> J (w\<lparr>g1_estimates := c\<rparr>))"

lemma cacheless_quiet [simp]: "cacheless J \<Longrightarrow> quiet J"
  by (simp add: cacheless_def)

lemma wp_keeps_request:
  assumes "quiet J" and "J w" and "\<And>w. J w \<Longrightarrow> wp req (\<lambda>_. J) (\<lambda>_. J) w"
  shows "wp (storage_call req) (\<lambda>_. J) (\<lambda>_. J) w"
proof (rule wp_storage_call)
  fix fs x
  have J: "J (w\<lparr>st_faults := fs\<rparr>)" using assms(1,2) by (rule quiet_faults)
  show "wp req (\<lambda>_ w'. J w' \<and> (\<forall>x. J w')) (\<lambda>_. J) (w\<lparr>st_faults := fs\<rparr>)"
    using assms(3) [OF J] by simp
  show "J (w\<lparr>st_faults := fs\<rparr>)" by (rule J)
qed

lemma wp_list_one_dir:
  assumes "quiet J" and "J w"
  shows "wp (list_one_dir m present path) (\<lambda>_. J) (\<lambda>_. J) w"
proof -
  have "wp (mg_retry m (storage_call (\<lambda>w. if present then (Inr (), w) else (Inl (PyExn FileNotFoundErr path), w))))
      (\<lambda>_. J) (\<lambda>_. J) w"
    by (rule wp_retried_read [OF assms]) (rule wp_keeps_request [OF assms(1)], assumption, simp add: wp_def)
  then show ?thesis
    unfolding list_one_dir_def ls_request_def wp_tryM wp_bindM
    by (rule wp_mono) (auto simp: wp_ret wp_raise)
qed

lemma wp_walk:
  assumes "quiet J"
  shows "J w \<Longrightarrow> wp (walk_dir m e) (\<lambda>_. J) (\<lambda>_. J) w"
    and "J w \<Longrightarrow> wp (walk_dirs m es) (\<lambda>_. J) (\<lambda>_. J) w"
proof (induction m e and m es arbitrary: w and w rule: walk_dir_walk_dirs.induct)
  case (2 m name entries)
  have "wp (bindM (walk_dirs m entries) (\<lambda>rest. ret (filter is_g1_file entries @ rest))) (\<lambda>_. J) (\<lambda>_. J) v"
    if "J v" for v
    unfolding wp_bindM by (rule wp_mono [OF "2.IH" [OF TrueI that]]) (simp_all add: wp_ret)
  then show ?case
    unfolding walk_dir.simps wp_bindM [of "list_one_dir _ _ _"]
    by (intro wp_mono [OF wp_list_one_dir [OF assms "2.prems"]]) (simp_all add: wp_ret)
next
  case (4 m e es)
  then show ?case
    by (auto simp: wp_bindM wp_ret intro!: wp_mono [OF "4.IH"(1)] wp_mono [OF "4.IH"(2)])
qed (simp_all add: wp_ret)

lemma wp_walk_root:
  assumes "quiet J" and "J w"
  shows "wp (walk_root m src_root) (\<lambda>_. J) (\<lambda>_. J) w"
proof -
  have "wp (case found of Some (G1Dir name entries) \<Rightarrow> walk_dir m (G1Dir src_root entries)
       | _ \<Rightarrow> bindM (list_one_dir m False src_root) (\<lambda>_. ret [])) (\<lambda>_. J) (\<lambda>_. J) w" for found
    using assms wp_mono [OF wp_list_one_dir [OF assms]]
    by (auto simp: wp_bindM wp_ret simp del: walk_dir.simps split: option.splits gen1_entry.splits
        intro: wp_walk)
  then show ?thesis by (simp add: walk_root_def wp_bindM wp_asks)
qed

lemma wp_list_files:
  assumes "cacheless J" and "J w"
  shows "wp (list_files m src_root pattern) (\<lambda>_. J) (\<lambda>_. J) w"
proof -
  have "wp (bindM (walk_root m src_root) (\<lambda>entries.
      let fs = listed_files (mg_engine m) pattern entries in
      thenM (modifyM (\<lambda>w. w\<lparr>g1_listings := assoc_put (src_root, pattern) fs (g1_listings w)\<rparr>)) (ret fs)))
      (\<lambda>_. J) (\<lambda>_. J) w"
    unfolding wp_bindM
    by (rule wp_mono [OF wp_walk_root [OF cacheless_quiet [OF assms(1)] assms(2)]])
       (use assms(1) in \<open>auto simp: Let_def eff_rules cacheless_def\<close>)
  then show ?thesis
    using assms(2) by (auto simp: list_files_def wp_bindM wp_asks wp_ret wp_raise split: option.splits)
qed

text \<open>Enriching a file changes its estimate only.\<close>

definition same_file :: "file_info \<Rightarrow> file_info \<Rightarrow> bool" where
  "same_file f g \<longleftrightarrow> fi_path f = fi_path g \<and> fi_name f = fi_name g \<and> fi_length f = fi_length g \<and>
     fi_modification_time f = fi_modification_time g"

lemma same_file_refl [simp]: "same_file f f"
  by (simp add: same_file_def)

lemma same_file_estimate [simp]:
  "same_file f (with_estimate f est contrib)" "same_file f (f\<lparr>fi_estimated_bytes := e\<rparr>)"
  by (simp_all add: same_file_def with_estimate_def)

lemma wp_directory_exists:
  assumes "quiet J" and "J w"
  shows "wp (directory_exists m path) (\<lambda>_. J) (\<lambda>_. J) w"
proof -
  have "wp (mg_retry m (storage_call (\<lambda>w. case g1_lookup w path of
      None \<Rightarrow> (Inl (PyExn FileNotFoundErr path), w) | Some e \<Rightarrow> (Inr (is_g1_dir (Some e)), w))))
      (\<lambda>_. J) (\<lambda>_. J) w"
    by (rule wp_retried_read [OF assms])
       (rule wp_keeps_request [OF assms(1)], assumption, simp add: wp_def split: option.splits)
  then show ?thesis
    unfolding directory_exists_def wp_tryM by (rule wp_mono) (auto simp: wp_ret wp_raise)
qed

lemma wp_estimate_bytes:
  assumes "quiet J" and "J w"
  shows "wp (estimate_bytes m path len) (\<lambda>_. J) (\<lambda>_. J) w"
proof -
  have "wp (bindM (list_directory_files m p) (\<lambda>fs. bindM (liftE (mapE entry_length fs)) (\<lambda>lengths.
      ret (len + sum_list lengths, map g1_name fs)))) (\<lambda>_. J) (\<lambda>_. J) v" if "J v" for p v
    unfolding wp_bindM list_directory_files_def
    by (rule wp_mono [OF wp_walk_root [OF assms(1) that]]) (auto simp: eff_rules split: sum.splits)
  then have "wp (bindM (directory_exists m p) (\<lambda>exists. if \<not> exists then ret (len, []) else
      bindM (list_directory_files m p) (\<lambda>fs. bindM (liftE (mapE entry_length fs)) (\<lambda>lengths.
      ret (len + sum_list lengths, map g1_name fs))))) (\<lambda>_. J) (\<lambda>_. J) w" for p
    unfolding wp_bindM [of "directory_exists _ _"]
    by (intro wp_mono [OF wp_directory_exists [OF assms]]) (auto simp: wp_ret)
  then show ?thesis using assms(2) by (simp add: estimate_bytes_def Let_def wp_raise)
qed

definition estimates_free :: "('z gen1_scheme \<Rightarrow> bool) \<Rightarrow> bool" where
  "estimates_free J \<longleftrightarrow> quiet J \<and> (\<forall>w c. J w \<longrightarrow> J (w\<lparr>g1_estimates := c\<rparr>))"

lemma cacheless_estimates: "cacheless J \<Longrightarrow> estimates_free J"
  by (simp add: cacheless_def estimates_free_def)

lemma wp_enrich_one:
  assumes "estimates_free J" and "J w"
  shows "wp (enrich_one m f) (\<lambda>g w'. J w' \<and> same_file f g) (\<lambda>_. J) w"
proof -
  have J: "J (v\<lparr>g1_estimates := c\<rparr>)" if "J v" for v c using that assms(1) by (simp add: estimates_free_def)
  have quiet: "quiet J" using assms(1) by (simp add: estimates_free_def)
  have "wp (bindM (estimate_bytes m (fi_path f) (fi_length f)) (\<lambda>(est, contrib).
      thenM (remember_estimate (fi_path f) (est, contrib)) (ret (with_estimate f est contrib))))
      (\<lambda>g w'. J w' \<and> same_file f g) (\<lambda>_. J) w"
    unfolding wp_bindM
    by (rule wp_mono [OF wp_estimate_bytes [OF quiet assms(2)]])
       (auto simp: eff_rules remember_estimate_def J split: prod.splits)
  then have "wp (tryM (bindM (estimate_bytes m (fi_path f) (fi_length f)) (\<lambda>(est, contrib).
      thenM (remember_estimate (fi_path f) (est, contrib)) (ret (with_estimate f est contrib))))
      (\<lambda>e. if exn_class e = CredentialUnavailableError then raise e
           else thenM (remember_estimate (fi_path f) (fi_length f, []))
                  (ret (f\<lparr>fi_estimated_bytes := Some (fi_length f)\<rparr>))))
      (\<lambda>g w'. J w' \<and> same_file f g) (\<lambda>_. J) w"
    unfolding wp_tryM by (rule wp_mono) (auto simp: eff_rules remember_estimate_def J)
  then show ?thesis
    using assms(2) by (auto simp: enrich_one_def wp_bindM wp_asks wp_ret split: option.splits)
qed

lemma wp_enrich_estimates:
  assumes "estimates_free J" and "J w"
  shows "wp (enrich_with_estimates m fs) (\<lambda>gs w'. J w' \<and> list_all2 same_file fs gs) (\<lambda>_. J) w"
  unfolding enrich_with_estimates_def using assms(2)
proof (induction fs arbitrary: w)
  case Nil
  then show ?case by (simp add: wp_ret)
next
  case (Cons f fs)
  show ?case
    unfolding mapM.simps wp_bindM
    by (rule wp_mono [OF wp_enrich_one [OF assms(1) Cons.prems]])
       (auto simp: wp_ret intro!: wp_mono [OF Cons.IH])
qed

lemma wp_enrich:
  assumes "cacheless J" and "J w"
  shows "wp (enrich_with_estimates m fs) (\<lambda>gs w'. J w' \<and> list_all2 same_file fs gs) (\<lambda>_. J) w"
  using cacheless_estimates [OF assms(1)] assms(2) by (rule wp_enrich_estimates)

section \<open>What a listing returns\<close>

fun tree_files :: "gen1_entry \<Rightarrow> gen1_entry list" and forest_files :: "gen1_entry list \<Rightarrow> gen1_entry list" where
  "tree_files (G1File _ _ _) = []"
| "tree_files (G1Dir name entries) = filter is_g1_file entries @ forest_files entries"
| "forest_files [] = []"
| "forest_files (e # es) = tree_files e @ forest_files es"

lemma run_list_one_dir:
  "st_faults w = [] \<Longrightarrow> list_one_dir m True path w = (Inr True, w)"
  by (simp add: list_one_dir_def ls_request_def run_tryM run_bindM run_ret mg_retry_success storage_call_no_fault)

lemma run_walk:
  "st_faults w = [] \<Longrightarrow> walk_dir m e w = (Inr (tree_files e), w)"
  "st_faults w = [] \<Longrightarrow> walk_dirs m es w = (Inr (forest_files es), w)"
  by (induction m e and m es rule: walk_dir_walk_dirs.induct)
     (simp_all add: run_ret run_bindM run_list_one_dir)

section \<open>Properties\<close>

text \<open>
  C25: when no request fails, a listing is complete: \<open>list_files\<close> returns exactly the files of the whole
  tree under the root that have a modification time, are not empty and match the pattern, in order of
  modification time, and a second call returns the same list without a request.
\<close>

theorem listing_complete:
  assumes "st_faults w = []" and "g1_lookup w src_root = Some (G1Dir name entries)"
    and "map_of (g1_listings w) (src_root, pattern) = None"
    and "pattern = [] \<or> re_compiles (mg_engine m) pattern"
  shows "let fs = listed_files (mg_engine m) pattern (tree_files (G1Dir name entries)) in
    \<exists>w'. list_files m src_root pattern w = (Inr fs, w') \<and>
      (\<forall>w''. g1_listings w'' = g1_listings w' \<longrightarrow> list_files m src_root pattern w'' = (Inr fs, w'')) \<and>
      sorted (map fi_modification_time fs) \<and>
      set fs = {f. \<exists>e \<in> set (tree_files (G1Dir name entries)). from_adls_entry e = Some f \<and> fi_length f \<noteq> 0 \<and>
                  name_matches (mg_engine m) pattern (fi_name f)}"
proof -
  let ?fs = "listed_files (mg_engine m) pattern (tree_files (G1Dir name entries))"
  let ?w = "w\<lparr>g1_listings := assoc_put (src_root, pattern) ?fs (g1_listings w)\<rparr>"
  have "walk_root m src_root w = (Inr (tree_files (G1Dir name entries)), w)"
    using assms(1,2) run_walk(1) [of w m "G1Dir src_root entries"] by (simp add: walk_root_def run_bindM run_asks)
  then have "list_files m src_root pattern w = (Inr ?fs, ?w)"
    using assms(3,4) by (auto simp: list_files_def run_bindM run_asks run_thenM run_modifyM run_ret Let_def)
  moreover have "list_files m src_root pattern w'' = (Inr ?fs, w'')" if "g1_listings w'' = g1_listings ?w" for w''
    using that by (simp add: list_files_def run_bindM run_asks run_ret)
  moreover have "sorted (map fi_modification_time ?fs)" by (simp add: listed_files_def)
  moreover have "set ?fs = {f. \<exists>e \<in> set (tree_files (G1Dir name entries)). from_adls_entry e = Some f \<and>
      fi_length f \<noteq> 0 \<and> name_matches (mg_engine m) pattern (fi_name f)}"
    by (auto simp: listed_files_def set_map_filter keep_entry_def split: option.splits if_splits)
  ultimately show ?thesis unfolding Let_def by blast
qed

definition sample_gen1 :: "gen1_entry list \<Rightarrow> gen1" where
  "sample_gen1 entries = \<lparr>st_faults = [], st_clock = 0, st_etag = 0, st_tables = (\<lambda>_. empty_dir),
     lk_log = (\<lambda>_. None), g1_lookup = (\<lambda>p. if p = ''/r'' then Some (G1Dir ''r'' entries) else None),
     g1_listings = [], g1_estimates = []\<rparr>"

theorem listing_complete_witness:
  "\<exists>w'. list_files sample_manager ''/r'' []
      (sample_gen1 [G1Dir ''r/d'' [G1File ''r/d/b'' (Some 5) (Some 2)], G1File ''r/a'' (Some 0) (Some 1)]) =
    (Inr [\<lparr>fi_path = ''/r/d/b'', fi_name = ''b'', fi_length = 5, fi_modification_time = 2000,
           fi_estimated_bytes = None, fi_contributing_files = []\<rparr>], w')"
proof -
  let ?es = "[G1Dir ''r/d'' [G1File ''r/d/b'' (Some 5) (Some 2)], G1File ''r/a'' (Some 0) (Some 1)]"
  have "\<exists>w'. list_files sample_manager ''/r'' [] (sample_gen1 ?es) =
      (Inr (listed_files (mg_engine sample_manager) [] (tree_files (G1Dir ''r'' ?es))), w')"
    using listing_complete [of "sample_gen1 ?es" "''/r''" "''r''" ?es "[]" sample_manager]
    by (auto simp: sample_gen1_def Let_def)
  then show ?thesis
    by (simp add: listed_files_def keep_entry_def name_matches_def List.map_filter_simps ensure_rooted_def
        py_startswith_def after_last_def of_epoch_ms_def)
qed

text \<open>
  C26: one failed \<open>ls\<close> can lose files for good. When listing a subdirectory fails with a service error,
  \<open>list_files\<close> returns normally, and caches, a list without the files below it; and once a batch from that
  list is checkpointed, no later discovery returns a file of the subdirectory that is not newer than
  some file of the batch.
\<close>

theorem failed_listing_loses_files:
  assumes "\<not> retry_enabled (mg_policy m)" and "st_faults w = [NoFault, FailBefore (ServiceError msg)]"
    and "g1_lookup w src_root = Some (G1Dir name (G1Dir d sub # entries))"
    and "map_of (g1_listings w) (src_root, pattern) = None"
    and "pattern = [] \<or> re_compiles (mg_engine m) pattern"
  shows "let fs = listed_files (mg_engine m) pattern (tree_files (G1Dir name entries)) in
    (\<exists>w'. list_files m src_root pattern w = (Inr fs, w') \<and> map_of (g1_listings w') (src_root, pattern) = Some fs) \<and>
    (\<forall>b f x listing now cur buf found. b \<noteq> [] \<and> set b \<subseteq> set fs \<and> times_ok b \<and> x \<in> set b \<and>
       fi_modification_time f \<le> fi_modification_time x \<and>
       discover_unprocessed_files listing now (Some (compute_new_watermark b cur)) buf = Inr found \<longrightarrow>
       f \<notin> set found)"
proof -
  let ?fs = "listed_files (mg_engine m) pattern (tree_files (G1Dir name entries))"
  let ?w0 = "w\<lparr>st_faults := [FailBefore (ServiceError msg)]\<rparr>" and ?w1 = "w\<lparr>st_faults := []\<rparr>"
  have one: "list_one_dir m True src_root w = (Inr True, ?w0)"
    using assms(1,2) by (simp add: list_one_dir_def ls_request_def run_tryM run_bindM run_ret mg_retry_def
        retry_on_message_def storage_call_def Let_def)
  have two: "list_one_dir m True d ?w0 = (Inr False, ?w1)"
    using assms(1) by (simp add: list_one_dir_def ls_request_def run_tryM run_bindM run_ret mg_retry_def
        retry_on_message_def storage_call_def Let_def)
  have "walk_dir m (G1Dir src_root (G1Dir d sub # entries)) w =
      (Inr (filter is_g1_file entries @ forest_files entries), ?w1)"
    using run_walk(2) [of ?w1 m entries] by (simp add: run_bindM run_ret one two)
  then have "walk_root m src_root w = (Inr (tree_files (G1Dir name entries)), ?w1)"
    using assms(3) by (simp add: walk_root_def run_bindM run_asks)
  then have "\<exists>w'. list_files m src_root pattern w = (Inr ?fs, w') \<and>
      map_of (g1_listings w') (src_root, pattern) = Some ?fs"
    using assms(4,5) by (auto simp: list_files_def run_bindM run_asks run_thenM run_modifyM run_ret Let_def)
  then show ?thesis unfolding Let_def using skipped_after_checkpoint by blast
qed

theorem failed_listing_loses_files_witness:
  "\<exists>w'. list_files sample_manager ''/r'' []
      (sample_gen1 [G1Dir ''r/d'' [G1File ''r/d/old'' (Some 5) (Some 2)], G1File ''r/new'' (Some 7) (Some 3)]
        \<lparr>st_faults := [NoFault, FailBefore (ServiceError ''503'')]\<rparr>) =
    (Inr [\<lparr>fi_path = ''/r/new'', fi_name = ''new'', fi_length = 7, fi_modification_time = 3000,
           fi_estimated_bytes = None, fi_contributing_files = []\<rparr>], w')"
proof -
  let ?sub = "[G1File ''r/d/old'' (Some 5) (Some 2)]" and ?es = "[G1File ''r/new'' (Some 7) (Some 3)]"
  let ?w = "sample_gen1 (G1Dir ''r/d'' ?sub # ?es)\<lparr>st_faults := [NoFault, FailBefore (ServiceError ''503'')]\<rparr>"
  have "\<exists>w'. list_files sample_manager ''/r'' [] ?w =
      (Inr (listed_files (mg_engine sample_manager) [] (tree_files (G1Dir ''r'' ?es))), w')"
    using failed_listing_loses_files [of sample_manager ?w "''503''" "''/r''" "''r''" "''r/d''" ?sub ?es "[]"]
    by (auto simp: sample_gen1_def sample_manager_def retry_enabled_def disabled_policy_def Let_def)
  then show ?thesis
    by (simp add: listed_files_def keep_entry_def name_matches_def List.map_filter_simps ensure_rooted_def
        py_startswith_def after_last_def of_epoch_ms_def)
qed

end
