(* ===== verification/Adla_Jobs.thy ===== *)
theory Adla_Jobs
  imports Gen1_Listing
begin

text \<open>
  The ADLA job service and the part of \<open>ScopeConnectionHandle\<close> (\<open>connections.py\<close>) that guards a table
  against jobs of other runs: listing and settling orphaned jobs, \<open>claim_table\<close> and
  \<open>ensure_table_owner\<close>. A job of the server carries the responses its polls will see, in order, the last
  one for good; they are arbitrary, so a theorem holds for every way the jobs evolve. The loop of
  \<open>settle_orphaned_jobs\<close> has fuel; \<open>settle_fuel\<close> is enough because every round waits.
\<close>

type_synonym job_dict = "(string \<times> json) list"

record server_job =
  sj_id :: string
  sj_dict :: job_dict
  sj_polls :: "job_dict list"

text \<open>What the service answers to the next \<open>PUT\<close>: the response and the polls of the new job, or a refusal.\<close>

datatype put_plan = Accepts job_dict "job_dict list" | Refuses string

text \<open>
  The service (\<open>aw_jobs\<close>, \<open>aw_plans\<close>, the bodies of the \<open>PUT\<close>s it accepted in their order, the \<open>CancelJob\<close>
  requests it got), the \<open>CancelJob\<close> requests this process has sent, and the process-wide registries
  of \<open>connections.py\<close>: \<open>_active_jobs\<close>, \<open>_cancelled_job_ids\<close>, \<open>_confirmed_cancelled_job_ids\<close>, the
  run, \<open>_cancelled_models\<close> and \<open>_claimed_tables\<close>. Another thread may set \<open>_shutdown_event\<close> at any
  moment: \<open>aw_shutdown_in\<close> is the number of checks that still find it unset, if it is set at all.
  The last fields are the \<open>_next_job_\<close> attributes of the connection handle.
\<close>

record adla = gen1 +
  aw_jobs :: "server_job list"
  aw_plans :: "put_plan list"
  aw_puts :: "job_dict list"
  aw_cancel_posts :: "string list"
  aw_cancel_sent :: "string list"
  aw_uuid :: "nat \<Rightarrow> string"
  aw_uuids_used :: nat
  aw_active :: "string list"
  aw_cancelled_ids :: "string list"
  aw_confirmed_ids :: "string list"
  aw_run :: table_owner
  aw_cancelled_models :: "string list"
  aw_claimed :: "(string \<times> string) list"
  aw_shutdown_in :: "nat option"
  hd_next_name :: "string option"
  hd_next_au :: "int option"
  hd_next_priority :: "int option"
  hd_next_timeout :: "int option"
  hd_next_model :: "string option"

text \<open>\<open>data.get("state", "")\<close>.\<close>

definition job_state :: "job_dict \<Rightarrow> json" where
  "job_state d = dget d ''state'' (JStr [])"

definition is_ended :: "json \<Rightarrow> bool" where
  "is_ended s \<longleftrightarrow> s = JStr ''Ended''"

section \<open>Requests\<close>

text \<open>\<open>_request\<close>: inside the message retry. A poll returns the job's next response.\<close>

definition next_poll :: "server_job \<Rightarrow> job_dict" where
  "next_poll j = (case sj_polls j of [] \<Rightarrow> sj_dict j | d # _ \<Rightarrow> d)"

definition after_poll :: "server_job \<Rightarrow> server_job" where
  "after_poll j = (case sj_polls j of d # e # ds \<Rightarrow> j\<lparr>sj_polls := e # ds\<rparr> | _ \<Rightarrow> j)"

definition poll_of :: "string \<Rightarrow> server_job \<Rightarrow> server_job" where
  "poll_of jid j = (if sj_id j = jid then after_poll j else j)"

definition http_error :: "string \<Rightarrow> pyexn" where
  "http_error m = PyExn DbtDatabaseError m"

definition get_job :: "manager \<Rightarrow> string \<Rightarrow> ('z adla_scheme, job_dict) eff" where
  "get_job m job_id = mg_retry m (storage_call (\<lambda>w.
     case find (\<lambda>j. sj_id j = job_id) (aw_jobs w) of
       None \<Rightarrow> (Inl (http_error ''ADLA API GET returned 404''), w)
     | Some j \<Rightarrow>
         (Inr (next_poll j), w\<lparr>aw_jobs := map (poll_of job_id) (aw_jobs w)\<rparr>)))"

text \<open>
  A request that is noted when it is sent, whether or not it arrives. \<open>cancel_job_async\<close> is the request
  only; what becomes of the job shows in its later polls.
\<close>

definition logged_call :: "('z store_scheme \<Rightarrow> 'z store_scheme) \<Rightarrow> ('z store_scheme, 'a) eff \<Rightarrow> ('z store_scheme, 'a) eff" where
  "logged_call note req = (\<lambda>w. storage_call req (note w))"

definition cancel_job_async :: "manager \<Rightarrow> string \<Rightarrow> ('z adla_scheme, unit) eff" where
  "cancel_job_async m job_id = mg_retry m (logged_call
     (\<lambda>w. w\<lparr>aw_cancel_sent := job_id # aw_cancel_sent w\<rparr>)
     (\<lambda>w. (Inr (), w\<lparr>aw_cancel_posts := job_id # aw_cancel_posts w\<rparr>)))"

text \<open>The two OData filters the adapter sends.\<close>

datatype job_filter = NotEnded | NamedNotEnded string

fun filter_accepts :: "job_filter \<Rightarrow> server_job \<Rightarrow> bool" where
  "filter_accepts NotEnded j = (\<not> is_ended (job_state (next_poll j)))"
| "filter_accepts (NamedNotEnded pre) j =
     (py_startswith (jstr (dget (sj_dict j) ''name'' (JStr []))) pre \<and> \<not> is_ended (job_state (next_poll j)))"

definition list_jobs :: "manager \<Rightarrow> job_filter \<Rightarrow> nat \<Rightarrow> ('z adla_scheme, job_dict list) eff" where
  "list_jobs m f limit = mg_retry m (storage_call (\<lambda>w.
     (Inr (take limit (map sj_dict (filter (filter_accepts f) (aw_jobs w)))), w)))"

section \<open>Which jobs belong to whom\<close>

definition or_blank :: "json \<Rightarrow> string" where
  "or_blank v = (if jtruthy v then jstr v else [])"

definition job_id_of :: "job_dict \<Rightarrow> string" where
  "job_id_of job = or_blank (dget job ''jobId'' JNull)"

text \<open>\<open>is_self_job\<close>; \<open>related\<close> is an object when it is set.\<close>

definition is_self_job :: "'z adla_scheme \<Rightarrow> job_dict \<Rightarrow> bool" where
  "is_self_job w job \<longleftrightarrow>
     (job_id_of job \<noteq> [] \<and> job_id_of job \<in> set (aw_active w)) \<or>
     (case dget job ''related'' JNull of
        JDict related \<Rightarrow> dget related ''runId'' JNull = JStr (own_run_id (aw_run w))
      | _ \<Rightarrow> False)"

definition drop_prefix :: "string \<Rightarrow> string \<Rightarrow> string option" where
  "drop_prefix p s = (if prefix p s then Some (drop (length p) s) else None)"

text \<open>\<open>_model_job_name_pattern(model).match(name)\<close>.\<close>

definition batch_suffix :: "string \<Rightarrow> bool" where
  "batch_suffix s \<longleftrightarrow>
     (case drop_prefix ''batch_'' s of
        None \<Rightarrow> False
      | Some t \<Rightarrow>
          let rest = dropWhile is_digit t
          in takeWhile is_digit t \<noteq> [] \<and> (rest = [] \<or> rest = [CHR 0x0A] \<or> hd rest = CHR ''_''))"

definition model_job_name :: "string \<Rightarrow> string \<Rightarrow> bool" where
  "model_job_name model name \<longleftrightarrow>
     (case drop_prefix (model @ ''_'') name of
        None \<Rightarrow> False
      | Some s \<Rightarrow>
          batch_suffix s \<or>
          (case drop_prefix ''full-refresh_'' s of Some t \<Rightarrow> batch_suffix t | None \<Rightarrow> False) \<or>
          (case drop_prefix ''incremental_'' s of Some t \<Rightarrow> batch_suffix t | None \<Rightarrow> False))"

definition list_orphaned_jobs :: "manager \<Rightarrow> string \<Rightarrow> ('z adla_scheme, job_dict list) eff" where
  "list_orphaned_jobs m model =
     bindM (list_jobs m (NamedNotEnded (model @ ''_'')) 100) (\<lambda>jobs.
     bindM (asks (\<lambda>w. w)) (\<lambda>w.
       ret (filter (\<lambda>j. model_job_name model (jstr (dget j ''name'' (JStr []))) \<and> \<not> is_self_job w j) jobs)))"

section \<open>settle\_orphaned\_jobs\<close>

definition note_cancelled :: "string \<Rightarrow> ('z adla_scheme, unit) eff" where
  "note_cancelled i = modifyM (\<lambda>w. w\<lparr>aw_cancelled_ids := i # aw_cancelled_ids w\<rparr>)"

definition note_confirmed :: "string \<Rightarrow> ('z adla_scheme, unit) eff" where
  "note_confirmed i = modifyM (\<lambda>w. w\<lparr>aw_confirmed_ids := i # aw_confirmed_ids w\<rparr>)"

text \<open>\<open>pending\<close>: the names of the jobs by id, in the order the ids first occur; jobs without id are left out.\<close>

definition pending_jobs :: "job_dict list \<Rightarrow> (string \<times> string) list" where
  "pending_jobs jobs = filter (\<lambda>(i, _). i \<noteq> [])
     (fold (\<lambda>j. assoc_put (jstr (dget j ''jobId'' (JStr []))) (jstr (dget j ''name'' (JStr [])))) jobs [])"

definition cancel_each :: "manager \<Rightarrow> (string \<times> string) list \<Rightarrow> ('z adla_scheme, unit) eff" where
  "cancel_each m pending = forM pending (\<lambda>(i, _).
     thenM (note_cancelled i) (tryM (cancel_job_async m i) (\<lambda>_. ret ())))"

definition poll_ended :: "manager \<Rightarrow> string \<Rightarrow> ('z adla_scheme, bool) eff" where
  "poll_ended m i = tryM (bindM (get_job m i) (\<lambda>d. ret (is_ended (job_state d)))) (\<lambda>_. ret False)"

text \<open>One pass over the pending jobs; those not seen ended remain.\<close>

fun poll_pass :: "manager \<Rightarrow> (string \<times> string) list \<Rightarrow> ('z adla_scheme, (string \<times> string) list) eff" where
  "poll_pass m [] = ret []"
| "poll_pass m ((i, name) # pending) =
     bindM (poll_ended m i) (\<lambda>ended.
       if ended then thenM (note_confirmed i) (poll_pass m pending)
       else bindM (poll_pass m pending) (\<lambda>rest. ret ((i, name) # rest)))"

definition job_labels :: "(string \<times> string) list \<Rightarrow> string" where
  "job_labels pending = py_join '', ''
     (map (\<lambda>(i, name). CHR 0x27 # name @ CHR 0x27 # '' ('' @ i @ '')'') pending)"

definition not_settled :: "string \<Rightarrow> int \<Rightarrow> (string \<times> string) list \<Rightarrow> pyexn" where
  "not_settled model max_wait pending = PyExn DbtRuntimeError
     (''Orphaned ADLA job(s) of model '' @ CHR 0x27 # model @ CHR 0x27 # '' did not end within '' @
      show_int max_wait @ ''s: '' @ job_labels pending @ ''. They may still commit to the Delta table, '' @
      ''so the checkpoint is left untouched; the next run retries.'')"

definition out_of_fuel :: pyexn where
  "out_of_fuel = PyExn OtherError ''out of fuel''"

text \<open>The \<open>while pending\<close> loop.\<close>

fun settle_loop ::
    "nat \<Rightarrow> manager \<Rightarrow> string \<Rightarrow> int \<Rightarrow> int \<Rightarrow> int \<Rightarrow> (string \<times> string) list \<Rightarrow> ('z adla_scheme, unit) eff" where
  "settle_loop 0 m model max_wait poll_interval deadline pending = raise out_of_fuel"
| "settle_loop (Suc n) m model max_wait poll_interval deadline pending =
     (if pending = [] then ret ()
      else
        bindM (poll_pass m pending) (\<lambda>rest.
          if rest = [] then ret ()
          else
            bindM now_us (\<lambda>now.
              if deadline \<le> now then raise (not_settled model max_wait rest)
              else
                thenM (sleepM (real_of_int poll_interval))
                  (settle_loop n m model max_wait poll_interval deadline rest))))"

definition settle_fuel :: "int \<Rightarrow> int \<Rightarrow> nat" where
  "settle_fuel max_wait poll_interval = nat (max_wait div poll_interval) + 2"

definition orphan_settle_timeout_seconds :: int where
  "orphan_settle_timeout_seconds = 600"

definition cannot_list :: "string \<Rightarrow> pyexn \<Rightarrow> pyexn" where
  "cannot_list model e = PyExn DbtRuntimeError
     (''Cannot list ADLA jobs to settle orphans of model '' @ CHR 0x27 # model @ CHR 0x27 # '': '' @ exn_text e)"

definition note_settled :: "string \<Rightarrow> ('z adla_scheme, unit) eff" where
  "note_settled model = modifyM (\<lambda>w. w\<lparr>aw_cancelled_models := model # aw_cancelled_models w\<rparr>)"

definition settle_orphaned_jobs :: "manager \<Rightarrow> string \<Rightarrow> int \<Rightarrow> int \<Rightarrow> ('z adla_scheme, string list) eff" where
  "settle_orphaned_jobs m model max_wait poll_interval =
     bindM (tryM (list_orphaned_jobs m model) (\<lambda>e. raise (cannot_list model e))) (\<lambda>orphaned.
     let pending = pending_jobs orphaned in
     thenM (cancel_each m pending)
       (bindM now_us (\<lambda>start.
        thenM (settle_loop (settle_fuel max_wait poll_interval) m model max_wait poll_interval
                (start + max_wait * 1000000) pending)
          (thenM (note_settled model) (ret (map fst pending))))))"

section \<open>claim\_table, ensure\_table\_owner\<close>

text \<open>The texts of the three \<open>ModelSupersededError\<close>s.\<close>

definition owned_by_newer :: "string \<Rightarrow> string \<Rightarrow> table_owner \<Rightarrow> table_owner \<Rightarrow> pyexn" where
  "owned_by_newer model location owner me = PyExn ModelSupersededError
     (''Model '' @ CHR 0x27 # model @ CHR 0x27 # '' is owned by a newer dbt run '' @ own_run_id owner @
      '' (started '' @ isoformat (own_run_started_at owner) @ ''); this run '' @ own_run_id me @
      '' leaves '' @ location @ '' alone'')"

definition owner_unreadable :: "string \<Rightarrow> string \<Rightarrow> pyexn \<Rightarrow> table_owner \<Rightarrow> pyexn" where
  "owner_unreadable model location e me = PyExn ModelSupersededError
     (''Model '' @ CHR 0x27 # model @ CHR 0x27 # '': the owner of '' @ location @
      '' is unreadable, so another dbt run may be taking it over; this run '' @ own_run_id me @
      '' stops writing to it ('' @ exn_text e @ '')'')"

definition taken_over :: "string \<Rightarrow> string \<Rightarrow> table_owner \<Rightarrow> table_owner \<Rightarrow> pyexn" where
  "taken_over model location owner me = PyExn ModelSupersededError
     (''Model '' @ CHR 0x27 # model @ CHR 0x27 # '' was taken over by dbt run '' @ own_run_id owner @
      '' (started '' @ isoformat (own_run_started_at owner) @ ''); this run '' @ own_run_id me @
      '' stops writing to '' @ location)"

definition claim_table ::
    "manager \<Rightarrow> manager \<Rightarrow> string \<Rightarrow> string \<Rightarrow> ('z adla_scheme, string list) eff" where
  "claim_table cm m model delta_location =
     bindM (asks aw_run) (\<lambda>me.
     bindM (claim_owner cm delta_location me) (\<lambda>owner.
       if own_run_id owner \<noteq> own_run_id me then raise (owned_by_newer model delta_location owner me)
       else
         thenM (modifyM (\<lambda>w. w\<lparr>aw_claimed := assoc_put model delta_location (aw_claimed w)\<rparr>))
           (settle_orphaned_jobs m model orphan_settle_timeout_seconds 5)))"

definition ensure_table_owner :: "manager \<Rightarrow> string option \<Rightarrow> ('z adla_scheme, unit) eff" where
  "ensure_table_owner cm model_name =
     (let model = (case model_name of None \<Rightarrow> [] | Some s \<Rightarrow> s) in
      bindM (asks (\<lambda>w. map_of (aw_claimed w) model)) (\<lambda>location.
        case location of
          None \<Rightarrow> ret ()
        | Some delta_location \<Rightarrow>
            bindM (asks aw_run) (\<lambda>me.
            bindM
              (tryM (read_owner cm delta_location)
                (\<lambda>e. if exn_class e = ValueErr then raise (owner_unreadable model delta_location e me)
                     else raise e))
              (\<lambda>owner.
                case owner of
                  None \<Rightarrow> ret ()
                | Some o1 \<Rightarrow>
                    if own_run_id o1 \<noteq> own_run_id me then raise (taken_over model delta_location o1 me)
                    else ret ()))))"

section \<open>Jobs end once\<close>

fun stays_ended :: "job_dict list \<Rightarrow> bool" where
  "stays_ended [] = True"
| "stays_ended (d # ds) = ((is_ended (job_state d) \<longrightarrow> (\<forall>e \<in> set ds. is_ended (job_state e))) \<and> stays_ended ds)"

definition job_ok :: "server_job \<Rightarrow> bool" where
  "job_ok j \<longleftrightarrow> dget (sj_dict j) ''jobId'' (JStr []) = JStr (sj_id j) \<and>
     dget (sj_dict j) ''jobId'' JNull = JStr (sj_id j) \<and> sj_id j \<noteq> [] \<and> stays_ended (sj_polls j)"

text \<open>The service: distinct job ids, and a job that ended does not run again.\<close>

definition jobs_ok :: "'z adla_scheme \<Rightarrow> bool" where
  "jobs_ok w \<longleftrightarrow> distinct (map sj_id (aw_jobs w)) \<and> (\<forall>j \<in> set (aw_jobs w). job_ok j)"

definition job_ended :: "'z adla_scheme \<Rightarrow> string \<Rightarrow> bool" where
  "job_ended w i \<longleftrightarrow> (\<exists>j \<in> set (aw_jobs w). sj_id j = i \<and> is_ended (job_state (next_poll j)))"

lemma sj_id_after_poll [simp]: "sj_id (after_poll j) = sj_id j"
  by (simp add: after_poll_def split: list.split)

lemma sj_id_poll_of [simp]: "sj_id (poll_of jid j) = sj_id j"
  by (simp add: poll_of_def)

lemma map_sj_id_poll_of [simp]: "map (sj_id \<circ> poll_of jid) js = map sj_id js"
  by simp

lemma job_ok_poll_of: "job_ok j \<Longrightarrow> job_ok (poll_of jid j)"
  by (auto simp: job_ok_def poll_of_def after_poll_def split: list.split)

lemma ended_poll_of: "job_ok j \<Longrightarrow> is_ended (job_state (next_poll j)) \<Longrightarrow>
    is_ended (job_state (next_poll (poll_of jid j)))"
  by (auto simp: job_ok_def poll_of_def after_poll_def next_poll_def split: list.splits)

text \<open>
  What the loops keep: the tables, and a good service on which the jobs of \<open>E\<close> have ended.
\<close>

definition ended_jobs :: "(table_key \<Rightarrow> table_dir) \<Rightarrow> string set \<Rightarrow> 'z adla_scheme \<Rightarrow> bool" where
  "ended_jobs T E w \<longleftrightarrow> st_tables w = T \<and> jobs_ok w \<and> (\<forall>i \<in> E. job_ended w i)"

lemma ended_jobs_quiet [simp]: "quiet (ended_jobs T E)"
  by (simp add: quiet_def clock_free_def fault_free_def ended_jobs_def jobs_ok_def job_ended_def)

lemma ended_jobs_notes [simp]:
  "ended_jobs T E (w\<lparr>aw_cancelled_ids := x\<rparr>) = ended_jobs T E w"
  "ended_jobs T E (w\<lparr>aw_confirmed_ids := x\<rparr>) = ended_jobs T E w"
  "ended_jobs T E (w\<lparr>aw_cancel_posts := x\<rparr>) = ended_jobs T E w"
  "ended_jobs T E (w\<lparr>aw_cancel_sent := x\<rparr>) = ended_jobs T E w"
  "ended_jobs T E (w\<lparr>aw_cancelled_models := x\<rparr>) = ended_jobs T E w"
  "ended_jobs T E (w\<lparr>aw_claimed := a\<rparr>) = ended_jobs T E w"
  by (simp_all add: ended_jobs_def jobs_ok_def job_ended_def)

lemma ended_jobs_mono: "ended_jobs T E w \<Longrightarrow> D \<subseteq> E \<Longrightarrow> ended_jobs T D w"
  by (auto simp: ended_jobs_def)

text \<open>A request that keeps a quiet invariant, with all its retries.\<close>

lemma wp_quiet_request:
  assumes "quiet J" and "J w" and "\<And>w. J w \<Longrightarrow> wp req (\<lambda>a w'. q a w' \<and> J w') (\<lambda>_. J) w"
  shows "wp (mg_retry m (storage_call req)) q (\<lambda>_. J) w"
proof (rule wp_retried_read [OF assms(1,2)])
  fix v
  assume J: "J v"
  show "wp (storage_call req) q (\<lambda>_. J) v"
    by (rule wp_storage_call)
       (use quiet_faults [OF assms(1) J] assms(3) in \<open>auto intro: wp_mono\<close>)
qed

lemma wp_logged_call: "wp (storage_call req) q e (note w) \<Longrightarrow> wp (logged_call note req) q e w"
  by (simp add: logged_call_def wp_def)

lemma wp_quiet_logged:
  assumes "quiet J" and "J w" and "\<And>w. J w \<Longrightarrow> J (note w)" and "\<And>w. J w \<Longrightarrow> wp req (\<lambda>a w'. q a w' \<and> J w') (\<lambda>_. J) w"
  shows "wp (mg_retry m (logged_call note req)) q (\<lambda>_. J) w"
proof (rule wp_retried_read [OF assms(1,2)])
  fix v
  assume J: "J v"
  show "wp (logged_call note req) q (\<lambda>_. J) v"
    by (rule wp_logged_call, rule wp_storage_call)
       (use quiet_faults [OF assms(1) assms(3) [OF J]] assms(4) in \<open>auto intro: wp_mono\<close>)
qed

lemma polled_ended:
  assumes "j \<in> set (aw_jobs w)" and "job_ok j" and "is_ended (job_state (next_poll j))"
  shows "job_ended (w\<lparr>aw_jobs := map (poll_of jid) (aw_jobs w)\<rparr>) (sj_id j)"
  using assms by (auto simp: job_ended_def ended_poll_of intro!: bexI [of _ j])

lemma poll_keeps:
  assumes "ended_jobs T E w"
  shows "ended_jobs T E (w\<lparr>aw_jobs := map (poll_of jid) (aw_jobs w)\<rparr>)"
proof -
  have "jobs_ok (w\<lparr>aw_jobs := map (poll_of jid) (aw_jobs w)\<rparr>)"
    using assms by (simp add: ended_jobs_def jobs_ok_def job_ok_poll_of)
  moreover have "job_ended (w\<lparr>aw_jobs := map (poll_of jid) (aw_jobs w)\<rparr>) i" if "job_ended w i" for i
    using that assms polled_ended [of _ w jid] unfolding ended_jobs_def jobs_ok_def job_ended_def [of w]
    by blast
  ultimately show ?thesis using assms by (simp add: ended_jobs_def)
qed

lemma wp_get_job:
  assumes "ended_jobs T E w"
  shows "wp (get_job m i) (\<lambda>d. ended_jobs T (if is_ended (job_state d) then insert i E else E)) (\<lambda>_. ended_jobs T E) w"
proof -
  let ?req = "\<lambda>w. case find (\<lambda>j. sj_id j = i) (aw_jobs w) of
       None \<Rightarrow> (Inl (http_error ''ADLA API GET returned 404''), w)
     | Some j \<Rightarrow>
         (Inr (next_poll j), w\<lparr>aw_jobs := map (poll_of i) (aw_jobs w)\<rparr>)"
  have "wp ?req (\<lambda>d w'. ended_jobs T (if is_ended (job_state d) then insert i E else E) w' \<and> ended_jobs T E w')
      (\<lambda>_. ended_jobs T E) v" if J: "ended_jobs T E v" for v
  proof (cases "find (\<lambda>j. sj_id j = i) (aw_jobs v)")
    case None
    then show ?thesis using J by (simp add: wp_def)
  next
    case (Some j)
    then have j: "j \<in> set (aw_jobs v)" "sj_id j = i" by (auto simp: find_Some_iff)
    let ?v = "v\<lparr>aw_jobs := map (poll_of i) (aw_jobs v)\<rparr>"
    have kept: "ended_jobs T E ?v" using J by (rule poll_keeps)
    have "job_ended ?v i" if "is_ended (job_state (next_poll j))"
      using that j J polled_ended [of j v i] by (simp add: ended_jobs_def jobs_ok_def)
    then show ?thesis using Some kept by (simp add: wp_def ended_jobs_def)
  qed
  then show ?thesis unfolding get_job_def by (rule wp_quiet_request [OF ended_jobs_quiet assms])
qed

lemma wp_poll_ended:
  assumes "ended_jobs T E w"
  shows "wp (poll_ended m i) (\<lambda>b. ended_jobs T (if b then insert i E else E))
    (\<lambda>x w. ended_jobs T E w \<and> exn_class x = ProcessKilled) w"
  unfolding poll_ended_def wp_tryM wp_bindM wp_ret
  by (rule wp_mono [OF wp_get_job [OF assms]]) auto

lemma wp_poll_pass:
  fixes w :: "'z adla_scheme"
  assumes "ended_jobs T E w"
  shows "wp (poll_pass m pending)
    (\<lambda>rest w. set rest \<subseteq> set pending \<and> ended_jobs T (E \<union> (fst ` set pending - fst ` set rest)) w)
    (\<lambda>x w. ended_jobs T E w \<and> exn_class x = ProcessKilled) w"
  using assms
proof (induction pending arbitrary: E w)
  case Nil
  then show ?case by (simp add: wp_ret)
next
  case (Cons x pending)
  obtain i name where x: "x = (i, name)" by (cases x)
  let ?q = "\<lambda>rest w. set rest \<subseteq> set (x # pending) \<and> ended_jobs T (E \<union> (fst ` set (x # pending) - fst ` set rest)) w"
  let ?e = "\<lambda>x w. ended_jobs T E w \<and> exn_class x = ProcessKilled"
  have more: "wp (thenM (note_confirmed i) (poll_pass m pending)) ?q ?e v" if "ended_jobs T (insert i E) v"
    for v :: "'z adla_scheme"
    unfolding wp_thenM note_confirmed_def wp_modifyM
    by (rule wp_mono [OF Cons.IH [of "insert i E"]])
       (use that in \<open>auto simp: x elim: ended_jobs_mono\<close>)
  have less: "wp (bindM (poll_pass m pending) (\<lambda>rest. ret ((i, name) # rest))) ?q ?e v" if "ended_jobs T E v"
    for v :: "'z adla_scheme"
    unfolding wp_bindM wp_ret
    by (rule wp_mono [OF Cons.IH [OF that]]) (auto simp: x elim!: ended_jobs_mono)
  have "wp (bindM (poll_ended m i) (\<lambda>ended.
       if ended then thenM (note_confirmed i) (poll_pass m pending)
       else bindM (poll_pass m pending) (\<lambda>rest. ret ((i, name) # rest)))) ?q ?e w"
    unfolding wp_bindM [of "poll_ended m i"]
    by (rule wp_mono [OF wp_poll_ended [OF Cons.prems]]) (use more less in auto)
  then show ?case by (simp add: x)
qed

definition settle_failure :: "pyexn \<Rightarrow> bool" where
  "settle_failure x \<longleftrightarrow> exn_class x \<in> {ProcessKilled, DbtRuntimeError}"

lemma wp_settle_loop:
  fixes w :: "'z adla_scheme"
  assumes "ended_jobs T E w"
  shows "wp (settle_loop n m model mw iv dl pending) (\<lambda>_. ended_jobs T (E \<union> fst ` set pending)) (\<lambda>_. ended_jobs T E) w"
  using assms
proof (induction n arbitrary: E w pending)
  case 0
  then show ?case by (simp add: wp_raise)
next
  case (Suc n)
  let ?k = "\<lambda>rest. if rest = [] then ret ()
          else
            bindM now_us (\<lambda>now.
              if dl \<le> now then raise (not_settled model mw rest)
              else thenM (sleepM (real_of_int iv)) (settle_loop n m model mw iv dl rest))"
  have rec: "wp (?k rest) (\<lambda>_. ended_jobs T (E \<union> fst ` set pending)) (\<lambda>_. ended_jobs T E) v"
    if sub: "set rest \<subseteq> set pending" and J: "ended_jobs T (E \<union> (fst ` set pending - fst ` set rest)) v" for rest and v :: "'z adla_scheme"
  proof -
    let ?D = "E \<union> (fst ` set pending - fst ` set rest)"
    have fin: "?D \<union> fst ` set rest = E \<union> fst ` set pending" using sub by auto
    have low: "ended_jobs T E u" if "ended_jobs T ?D u" for u :: "'z adla_scheme" using that by (rule ended_jobs_mono) simp
    have "wp (settle_loop n m model mw iv dl rest) (\<lambda>_. ended_jobs T (E \<union> fst ` set pending)) (\<lambda>_. ended_jobs T E) u"
      if "ended_jobs T ?D u" for u :: "'z adla_scheme"
      by (rule wp_mono [OF Suc.IH [OF that]]) (use low in \<open>simp_all add: fin\<close>)
    then have "wp (thenM (sleepM (real_of_int iv)) (settle_loop n m model mw iv dl rest))
        (\<lambda>_. ended_jobs T (E \<union> fst ` set pending)) (\<lambda>_. ended_jobs T E) v"
      unfolding wp_thenM by (intro wp_mono [OF wp_sleepM [OF quiet_clock_free [OF ended_jobs_quiet] J]])
    moreover have "rest = [] \<Longrightarrow> ended_jobs T (E \<union> fst ` set pending) v" using J by simp
    moreover have "ended_jobs T E v" using J by (rule low)
    ultimately show ?thesis by (auto simp: wp_ret wp_raise wp_bindM now_us_def wp_asks)
  qed
  have "wp (bindM (poll_pass m pending) ?k) (\<lambda>_. ended_jobs T (E \<union> fst ` set pending)) (\<lambda>_. ended_jobs T E) w"
    unfolding wp_bindM [of "poll_pass m pending"]
    by (rule wp_mono [OF wp_poll_pass [OF Suc.prems]]) (use rec in auto)
  then show ?case using Suc.prems by (auto simp: wp_ret)
qed

section \<open>The orphans of a model\<close>

definition orphans :: "string \<Rightarrow> 'z adla_scheme \<Rightarrow> job_dict list" where
  "orphans model w =
     filter (\<lambda>j. model_job_name model (jstr (dget j ''name'' (JStr []))) \<and> \<not> is_self_job w j)
       (map sj_dict (take 100 (filter (filter_accepts (NamedNotEnded (model @ ''_''))) (aw_jobs w))))"

lemma orphans_storage [simp]:
  "orphans model (w\<lparr>st_clock := c\<rparr>) = orphans model w"
  "orphans model (w\<lparr>st_faults := fs\<rparr>) = orphans model w"
  by (simp_all add: orphans_def is_self_job_def cong: json.case_cong)

lemma wp_list_jobs:
  assumes "quiet J" and "J w"
  shows "wp (list_jobs m f n) (\<lambda>js w'. J w' \<and> js = take n (map sj_dict (filter (filter_accepts f) (aw_jobs w'))))
    (\<lambda>_. J) w"
  unfolding list_jobs_def by (rule wp_quiet_request [OF assms]) (simp add: wp_def)

lemma wp_list_orphaned_jobs:
  assumes "quiet J" and "J w"
  shows "wp (list_orphaned_jobs m model) (\<lambda>js w'. J w' \<and> js = orphans model w') (\<lambda>_. J) w"
  unfolding list_orphaned_jobs_def wp_bindM wp_asks wp_ret
  by (rule wp_mono [OF wp_list_jobs [OF assms]]) (auto simp: orphans_def take_map)

lemma pending_jobs_keys:
  "fst ` set (pending_jobs jobs) = (\<lambda>j. jstr (dget j ''jobId'' (JStr []))) ` set jobs - {[]}"
proof -
  have "fst ` set (fold (\<lambda>j. assoc_put (f j) (g j)) jobs acc) = fst ` set acc \<union> f ` set jobs"
    for f g :: "job_dict \<Rightarrow> string" and acc
    by (induction jobs arbitrary: acc) auto
  moreover have "fst ` set (filter (\<lambda>(i, _). i \<noteq> []) xs) = fst ` set xs - {[]}" for xs :: "(string \<times> string) list"
    by force
  ultimately show ?thesis by (simp add: pending_jobs_def)
qed

lemma wp_cancel_each:
  assumes "quiet J" and "J w"
    and "\<And>w x. J w \<Longrightarrow> J (w\<lparr>aw_cancel_posts := x\<rparr>)" and "\<And>w x. J w \<Longrightarrow> J (w\<lparr>aw_cancelled_ids := x\<rparr>)"
    and "\<And>w x. J w \<Longrightarrow> J (w\<lparr>aw_cancel_sent := x\<rparr>)"
  shows "wp (cancel_each m pending) (\<lambda>_. J) (\<lambda>x w. J w \<and> exn_class x = ProcessKilled) w"
proof -
  have "wp (cancel_job_async m i) (\<lambda>_. J) (\<lambda>_. J) v" if "J v" for i and v
    unfolding cancel_job_async_def by (rule wp_quiet_logged [OF assms(1) that]) (simp_all add: wp_def assms(3,5))
  then have "wp (tryM (cancel_job_async m i) (\<lambda>_. ret ())) (\<lambda>_. J)
      (\<lambda>x w. J w \<and> exn_class x = ProcessKilled) v" if "J v" for i v
    unfolding wp_tryM using that by (auto intro: wp_mono simp: wp_ret)
  then show ?thesis
    unfolding cancel_each_def
    by (intro wp_forM) (use assms(2,4) in \<open>auto simp: wp_thenM note_cancelled_def wp_modifyM\<close>)
qed

lemma wp_settle:
  fixes w :: "'z adla_scheme"
  assumes "ended_jobs T E w"
  shows "wp (settle_orphaned_jobs m model mw iv)
    (\<lambda>ids w'. ended_jobs T (E \<union> set ids) w' \<and> set ids = fst ` set (pending_jobs (orphans model w)))
    (\<lambda>_. ended_jobs T E) w"
proof -
  let ?J = "\<lambda>v :: 'z adla_scheme. ended_jobs T E v \<and> orphans model v = orphans model w"
  have quiet: "quiet ?J"
    using ended_jobs_quiet [of T E]
    by (auto simp: quiet_def clock_free_def fault_free_def)
  have list: "wp (tryM (list_orphaned_jobs m model) (\<lambda>e. raise (cannot_list model e)))
      (\<lambda>js v. ?J v \<and> js = orphans model w) (\<lambda>_. ended_jobs T E) w"
    unfolding wp_tryM wp_raise
    by (rule wp_mono [OF wp_list_orphaned_jobs [OF quiet]]) (use assms in auto)
  let ?loop = "\<lambda>start pending. settle_loop (settle_fuel mw iv) m model mw iv (start + mw * 1000000) pending"
  have loop: "wp (bindM now_us (\<lambda>start. thenM (?loop start pending) (thenM (note_settled model) (ret (map fst pending)))))
      (\<lambda>ids w'. ended_jobs T (E \<union> set ids) w' \<and> set ids = fst ` set pending) (\<lambda>_. ended_jobs T E) v"
    if "ended_jobs T E v" for pending and v :: "'z adla_scheme"
    unfolding wp_bindM now_us_def wp_asks wp_thenM note_settled_def wp_modifyM wp_ret
    by (rule wp_mono [OF wp_settle_loop [OF that]]) auto
  have "wp (thenM (cancel_each m pending)
      (bindM now_us (\<lambda>start. thenM (?loop start pending) (thenM (note_settled model) (ret (map fst pending))))))
      (\<lambda>ids w'. ended_jobs T (E \<union> set ids) w' \<and> set ids = fst ` set pending) (\<lambda>_. ended_jobs T E) v"
    if "ended_jobs T E v" for pending and v :: "'z adla_scheme"
    unfolding wp_thenM [of "cancel_each _ _"]
    by (rule wp_mono [OF wp_cancel_each [OF ended_jobs_quiet that]]) (use loop in auto)
  then show ?thesis
    unfolding settle_orphaned_jobs_def wp_bindM [of "tryM _ _"] Let_def
    by (intro wp_mono [OF list]) auto
qed

section \<open>The settling loop ends\<close>

definition not_before :: "int \<Rightarrow> 'z store_scheme \<Rightarrow> bool" where
  "not_before c w \<longleftrightarrow> c \<le> st_clock w"

lemma clock_free_not_before [simp]: "clock_free (not_before c)"
  by (simp add: clock_free_def not_before_def)

lemma wp_request_time:
  fixes w :: "'z store_scheme"
  assumes "patient m" and "not_before c w" and "\<And>w. wp req (\<lambda>_ w'. st_clock w' = st_clock w) (\<lambda>_ w'. st_clock w' = st_clock w) w"
  shows "wp (mg_retry m (storage_call req)) (\<lambda>_. not_before c) (\<lambda>_. not_before c) w"
proof (rule wp_mg_retry_up [OF assms(1) clock_free_not_before assms(2)])
  fix v :: "'z store_scheme"
  assume v: "not_before c v"
  show "wp (storage_call req) (\<lambda>_. not_before c) (\<lambda>_. not_before c) v"
    by (rule wp_storage_call)
       (use v in \<open>auto simp: not_before_def intro: wp_mono [OF assms(3)]\<close>)
qed

lemma wp_logged_time:
  fixes w :: "'z store_scheme"
  assumes "patient m" and "not_before c w" and "\<And>w. wp req (\<lambda>_ w'. st_clock w' = st_clock w) (\<lambda>_ w'. st_clock w' = st_clock w) w"
    and "\<And>w. st_clock (note w) = st_clock w"
  shows "wp (mg_retry m (logged_call note req)) (\<lambda>_. not_before c) (\<lambda>_. not_before c) w"
proof (rule wp_mg_retry_up [OF assms(1) clock_free_not_before assms(2)])
  fix v :: "'z store_scheme"
  assume v: "not_before c v"
  show "wp (logged_call note req) (\<lambda>_. not_before c) (\<lambda>_. not_before c) v"
    by (rule wp_logged_call, rule wp_storage_call)
       (use v assms(4) in \<open>auto simp: not_before_def intro: wp_mono [OF assms(3)]\<close>)
qed

lemma wp_poll_pass_time:
  fixes w :: "'z adla_scheme"
  assumes "patient m" and "not_before c w"
  shows "wp (poll_pass m pending) (\<lambda>_. not_before c) (\<lambda>x _. exn_class x = ProcessKilled) w"
  using assms(2)
proof (induction pending arbitrary: w)
  case Nil
  then show ?case by (simp add: wp_ret)
next
  case (Cons x pending)
  obtain i name where x: "x = (i, name)" by (cases x)
  have "wp (get_job m i) (\<lambda>_. not_before c) (\<lambda>_. not_before c) w"
    unfolding get_job_def
    by (rule wp_request_time [OF assms(1) Cons.prems]) (auto simp: wp_def split: option.split)
  then have "wp (poll_ended m i) (\<lambda>_. not_before c) (\<lambda>x _. exn_class x = ProcessKilled) w"
    unfolding poll_ended_def wp_tryM wp_bindM wp_ret by (rule wp_mono) auto
  moreover have "not_before c (v\<lparr>aw_confirmed_ids := x\<rparr>) = not_before c v" for v :: "'z adla_scheme" and x
    by (simp add: not_before_def)
  moreover have "wp (bindM (poll_pass m pending) (\<lambda>rest. ret ((i, name) # rest))) (\<lambda>_. not_before c)
      (\<lambda>x _. exn_class x = ProcessKilled) v" if "not_before c v" for v :: "'z adla_scheme"
    unfolding wp_bindM by (rule wp_mono [OF Cons.IH [OF that]]) (simp_all add: wp_ret)
  ultimately show ?case
    unfolding x poll_pass.simps wp_bindM [of "poll_ended m i"]
    by (elim wp_mono) (use Cons.IH in \<open>auto simp: wp_thenM note_confirmed_def wp_modifyM\<close>)
qed

lemma wp_settle_loop_time:
  fixes w :: "'z adla_scheme"
  assumes "patient m" and "0 < iv" and "not_before (dl - int n * (iv * 1000000)) w"
  shows "wp (settle_loop (Suc n) m model mw iv dl pending) (\<lambda>_ _. True) (\<lambda>x _. settle_failure x) w"
  using assms(3)
proof (induction n arbitrary: w pending)
  case 0
  let ?k = "\<lambda>rest. if rest = [] then ret ()
          else
            bindM now_us (\<lambda>now.
              if dl \<le> now then raise (not_settled model mw rest)
              else thenM (sleepM (real_of_int iv)) (settle_loop 0 m model mw iv dl rest))"
  have "wp (bindM (poll_pass m pending) ?k) (\<lambda>_ _. True) (\<lambda>x _. settle_failure x) w"
    unfolding wp_bindM [of "poll_pass _ _"]
    by (rule wp_mono [OF wp_poll_pass_time [OF assms(1) 0]])
       (auto simp: wp_ret wp_bindM now_us_def wp_asks wp_raise not_before_def not_settled_def settle_failure_def)
  then show ?case
    unfolding settle_loop.simps(2) [of 0] by (cases "pending = []") (simp_all only: if_True if_False, simp add: wp_ret)
next
  case (Suc n)
  let ?k = "\<lambda>rest. if rest = [] then ret ()
          else
            bindM now_us (\<lambda>now.
              if dl \<le> now then raise (not_settled model mw rest)
              else thenM (sleepM (real_of_int iv)) (settle_loop (Suc n) m model mw iv dl rest))"
  have "wp (?k rest) (\<lambda>_ _. True) (\<lambda>x _. settle_failure x) v"
    if "not_before (dl - int (Suc n) * (iv * 1000000)) v" for rest and v :: "'z adla_scheme"
  proof -
    have "\<lceil>real_of_int iv * 1000000\<rceil> = iv * 1000000" by (metis ceiling_of_int of_int_mult of_int_numeral)
    then have "not_before (dl - int n * (iv * 1000000)) (v\<lparr>st_clock := st_clock v + max 0 \<lceil>real_of_int iv * 1000000\<rceil>\<rparr>)"
      using that by (simp add: not_before_def algebra_simps)
    from Suc.IH [OF this] show ?thesis
      by (simp add: wp_ret wp_bindM now_us_def wp_asks wp_raise wp_thenM sleepM_def wp_modifyM not_settled_def
          settle_failure_def del: settle_loop.simps)
  qed
  then have "wp (bindM (poll_pass m pending) ?k) (\<lambda>_ _. True) (\<lambda>x _. settle_failure x) w"
    unfolding wp_bindM [of "poll_pass _ _"]
    by (intro wp_mono [OF wp_poll_pass_time [OF assms(1) Suc.prems]]) (auto simp: settle_failure_def)
  then show ?case
    unfolding settle_loop.simps(2) [of "Suc n"] by (cases "pending = []") (simp_all only: if_True if_False, simp add: wp_ret)
qed

lemma wp_settle_time:
  fixes w :: "'z adla_scheme"
  assumes "patient m" and "0 < iv"
  shows "wp (settle_orphaned_jobs m model mw iv) (\<lambda>_ _. True) (\<lambda>x _. settle_failure x) w"
proof -
  let ?loop = "\<lambda>start pending. settle_loop (settle_fuel mw iv) m model mw iv (start + mw * 1000000) pending"
  have fuel: "settle_fuel mw iv = Suc (nat (mw div iv) + 1)" by (simp add: settle_fuel_def)
  have "mw < (mw div iv) * iv + iv"
    using assms(2) by (metis add.commute add_less_cancel_left div_mult_mod_eq pos_mod_bound)
  moreover have "(mw div iv) * iv \<le> int (nat (mw div iv)) * iv" using assms(2) by (intro mult_right_mono) auto
  ultimately have "mw \<le> int (nat (mw div iv) + 1) * iv" by (simp add: algebra_simps)
  then have room: "start + mw * 1000000 - int (nat (mw div iv) + 1) * (iv * 1000000) \<le> start" for start :: int by simp
  have "wp (?loop (st_clock v) pending) (\<lambda>_ _. True) (\<lambda>x _. settle_failure x) v"
    for pending and v :: "'z adla_scheme"
    unfolding fuel by (rule wp_settle_loop_time [OF assms]) (use room in \<open>simp add: not_before_def\<close>)
  then have loop: "wp (bindM now_us (\<lambda>start. thenM (?loop start pending) (thenM (note_settled model) (ret (map fst pending)))))
      (\<lambda>_ _. True) (\<lambda>x _. settle_failure x) v" for pending and v :: "'z adla_scheme"
    unfolding wp_bindM now_us_def wp_asks wp_thenM [of "settle_loop _ _ _ _ _ _ _"]
    by (rule wp_mono) (simp_all add: wp_thenM note_settled_def wp_modifyM wp_ret)
  have "wp (thenM (cancel_each m pending)
      (bindM now_us (\<lambda>start. thenM (?loop start pending) (thenM (note_settled model) (ret (map fst pending))))))
      (\<lambda>_ _. True) (\<lambda>x _. settle_failure x) v" for pending and v :: "'z adla_scheme"
    unfolding wp_thenM [of "cancel_each _ _"]
    by (rule wp_mono [OF wp_cancel_each [of "\<lambda>_. True"]])
       (use loop in \<open>auto simp: quiet_def clock_free_def fault_free_def settle_failure_def\<close>)
  moreover have "wp (tryM (list_orphaned_jobs m model) (\<lambda>e. raise (cannot_list model e)))
      (\<lambda>_ _. True) (\<lambda>x _. settle_failure x) w"
    unfolding wp_tryM wp_raise
    by (rule wp_mono [of _ "\<lambda>_ _. True" "\<lambda>_ _. True"])
       (auto simp: wp_def cannot_list_def settle_failure_def split: sum.split prod.split)
  ultimately show ?thesis
    unfolding settle_orphaned_jobs_def wp_bindM [of "tryM _ _"] Let_def by (auto elim: wp_mono)
qed

lemma orphan_listed:
  assumes "jobs_ok w" and "j \<in> set (aw_jobs w)" and "\<not> is_ended (job_state (next_poll j))"
    and "model_job_name model (jstr (dget (sj_dict j) ''name'' (JStr [])))" and "\<not> is_self_job w (sj_dict j)"
    and "length (filter (filter_accepts (NamedNotEnded (model @ ''_''))) (aw_jobs w)) \<le> 100"
  shows "sj_id j \<in> fst ` set (pending_jobs (orphans model w))"
proof -
  have "drop_prefix (model @ ''_'') (jstr (dget (sj_dict j) ''name'' (JStr []))) \<noteq> None"
    using assms(4) unfolding model_job_name_def by (cases "drop_prefix (model @ ''_'') (jstr (dget (sj_dict j) ''name'' (JStr [])))") auto
  then have "filter_accepts (NamedNotEnded (model @ ''_'')) j"
    using assms(3) by (auto simp: drop_prefix_def py_startswith_def split: if_splits)
  then have "sj_dict j \<in> set (orphans model w)" using assms by (simp add: orphans_def)
  moreover have "job_ok j" using assms(1,2) by (simp add: jobs_ok_def)
  ultimately show ?thesis unfolding pending_jobs_keys by (auto simp: job_ok_def intro!: image_eqI [of _ _ "sj_dict j"])
qed

section \<open>Claims and ownership checks\<close>

text \<open>All jobs of the model that the service had and that are not of this run have ended.\<close>

definition orphans_ended :: "string \<Rightarrow> 'z adla_scheme \<Rightarrow> 'z adla_scheme \<Rightarrow> bool" where
  "orphans_ended model w w' \<longleftrightarrow>
     (\<forall>j \<in> set (aw_jobs w). model_job_name model (jstr (dget (sj_dict j) ''name'' (JStr []))) \<longrightarrow>
        \<not> is_self_job w (sj_dict j) \<longrightarrow> job_ended w' (sj_id j))"

definition few_listed :: "string \<Rightarrow> 'z adla_scheme \<Rightarrow> bool" where
  "few_listed model w \<longleftrightarrow> length (filter (filter_accepts (NamedNotEnded (model @ ''_''))) (aw_jobs w)) \<le> 100"

lemma wp_settle_orphans:
  assumes "jobs_ok w" and "few_listed model w"
  shows "wp (settle_orphaned_jobs m model mw iv) (\<lambda>_ w'. st_tables w' = st_tables w \<and> orphans_ended model w w')
    (\<lambda>_ w'. st_tables w' = st_tables w) w"
proof -
  let ?E = "{i. job_ended w i}"
  have E: "ended_jobs (st_tables w) ?E w" using assms(1) by (simp add: ended_jobs_def)
  have "orphans_ended model w w'"
    if "ended_jobs (st_tables w) (?E \<union> fst ` set (pending_jobs (orphans model w))) w'" for w'
    using that orphan_listed [OF assms(1)] assms(2)
    by (fastforce simp: ended_jobs_def job_ended_def orphans_ended_def few_listed_def)
  then show ?thesis
    by (intro wp_mono [OF wp_settle [OF E]]) (auto simp: ended_jobs_def)
qed

definition same_jobs :: "'z adla_scheme \<Rightarrow> 'z adla_scheme \<Rightarrow> bool" where
  "same_jobs w v \<longleftrightarrow> aw_jobs v = aw_jobs w \<and> aw_cancel_posts v = aw_cancel_posts w \<and> aw_active v = aw_active w \<and>
     aw_run v = aw_run w"

lemma same_jobs_frame [simp]:
  "quiet (same_jobs w)" "same_jobs w (set_owner_file k f v) = same_jobs w v" "same_jobs w w"
  "same_jobs w (v\<lparr>aw_claimed := c\<rparr>) = same_jobs w v"
  by (simp_all add: quiet_def clock_free_def fault_free_def same_jobs_def set_owner_file_def upd_table_def)

lemma same_jobs_orphans:
  assumes "same_jobs w v"
  shows "jobs_ok v = jobs_ok w" "few_listed model v = few_listed model w" "orphans_ended model v u = orphans_ended model w u"
  using assms
  by (simp_all add: same_jobs_def jobs_ok_def few_listed_def orphans_ended_def is_self_job_def cong: json.case_cong)

definition owned_by_other :: "table_owner \<Rightarrow> table_dir \<Rightarrow> bool" where
  "owned_by_other me d \<longleftrightarrow> (case incumbent me d of None \<Rightarrow> False | Some o1 \<Rightarrow> own_run_id o1 \<noteq> own_run_id me)"

lemma with_owner_not_other: "run_ok me \<Longrightarrow> with_owner k me T T' \<Longrightarrow> \<not> owned_by_other me (T' k)"
  using incumbent_owned [of me "T' k"] by (auto simp: owned_by_other_def with_owner_def owned_by_def)

definition stored_owner :: "table_dir \<Rightarrow> pyexn + table_owner option" where
  "stored_owner d = (case own_file d of None \<Rightarrow> Inr None
     | Some (v, _) \<Rightarrow> bindE (owner_from_json v) (\<lambda>o1. Inr (Some o1)))"

text \<open>\<open>owner.json\<close> is readable and names this run.\<close>

definition on_record :: "table_owner \<Rightarrow> table_dir \<Rightarrow> bool" where
  "on_record me d \<longleftrightarrow> (\<exists>o1. stored_owner d = Inr (Some o1) \<and> own_run_id o1 = own_run_id me)"

lemma with_owner_on_record: "run_ok me \<Longrightarrow> with_owner k me T T' \<Longrightarrow> on_record me (T' k)"
  by (auto simp: on_record_def with_owner_def stored_owner_def run_ok_def owner_json_roundtrip_lemma)

lemma incumbent_on_record: "incumbent me d = Some o1 \<Longrightarrow> own_run_id o1 = own_run_id me \<Longrightarrow> on_record me d"
  by (auto simp: on_record_def incumbent_def stored_owner_def split: option.splits sum.splits if_splits)

lemma wp_claim_table:
  fixes w :: "'z adla_scheme"
  assumes "abfss_parse loc = Some l" and "run_ok (aw_run w)" and "jobs_ok w" and "few_listed model w"
  defines "T \<equiv> st_tables w" and "k \<equiv> table_key l"
  shows "wp (claim_table cm m model loc)
    (\<lambda>_ w'. \<not> owned_by_other (aw_run w) (T k) \<and> \<not> owned_by_other (aw_run w) (st_tables w' k) \<and>
       on_record (aw_run w) (st_tables w' k) \<and> (st_tables w' = T \<or> with_owner k (aw_run w) T (st_tables w')) \<and> orphans_ended model w w')
    (\<lambda>_ w'. if owned_by_other (aw_run w) (T k) then st_tables w' = T \<and> same_jobs w w'
       else st_tables w' = T \<or> with_owner k (aw_run w) T (st_tables w')) w"
proof -
  let ?me = "aw_run w"
  let ?q = "\<lambda>_ w'. \<not> owned_by_other ?me (T k) \<and> \<not> owned_by_other ?me (st_tables w' k) \<and>
       on_record ?me (st_tables w' k) \<and> (st_tables w' = T \<or> with_owner k ?me T (st_tables w')) \<and> orphans_ended model w w'"
  let ?e = "\<lambda>_ w'. if owned_by_other ?me (T k) then st_tables w' = T \<and> same_jobs w w'
       else st_tables w' = T \<or> with_owner k ?me T (st_tables w')"
  let ?k = "\<lambda>owner. if own_run_id owner \<noteq> own_run_id ?me then raise (owned_by_newer model loc owner ?me)
       else thenM (modifyM (\<lambda>w. w\<lparr>aw_claimed := assoc_put model loc (aw_claimed w)\<rparr>))
           (settle_orphaned_jobs m model orphan_settle_timeout_seconds 5)"
  have settle: "wp (settle_orphaned_jobs m model orphan_settle_timeout_seconds 5) ?q ?e v"
    if "same_jobs w v" "st_tables v = T \<or> with_owner k ?me T (st_tables v)" "\<not> owned_by_other ?me (T k)"
      "on_record ?me (st_tables v k)"
    for v :: "'z adla_scheme"
    by (rule wp_mono [OF wp_settle_orphans])
       (use that assms(2-4) with_owner_not_other [OF assms(2), where k = k] same_jobs_orphans [OF that(1)] in auto)
  have "wp (?k r) ?q ?e v" if v: "same_jobs w v"
    and r: "case incumbent ?me (T k) of Some o1 \<Rightarrow> r = o1 \<and> st_tables v = T
            | None \<Rightarrow> r = ?me \<and> with_owner k ?me T (st_tables v)" for r and v :: "'z adla_scheme"
  proof (cases "owned_by_other ?me (T k)")
    case True
    then show ?thesis using r v by (auto simp: wp_raise owned_by_other_def split: option.splits)
  next
    case False
    then have "own_run_id r = own_run_id ?me" using r by (auto simp: owned_by_other_def split: option.splits)
    moreover have "st_tables v = T \<or> with_owner k ?me T (st_tables v)" using r by (auto split: option.splits)
    moreover have "on_record ?me (st_tables v k)"
      using r \<open>own_run_id r = own_run_id ?me\<close> with_owner_on_record [OF assms(2), where k = k] incumbent_on_record
      by (auto split: option.splits)
    ultimately show ?thesis using settle v False by (simp add: wp_thenM wp_modifyM)
  qed
  moreover have "wp (claim_owner cm loc ?me)
      (\<lambda>r w'. same_jobs w w' \<and> (case incumbent ?me (T k) of Some o1 \<Rightarrow> r = o1 \<and> st_tables w' = T
            | None \<Rightarrow> r = ?me \<and> with_owner k ?me T (st_tables w')))
      (\<lambda>_ w'. same_jobs w w' \<and> (st_tables w' = T \<or> (incumbent ?me (T k) = None \<and> with_owner k ?me T (st_tables w')))) w"
    by (rule wp_claim_owner [OF assms(1,2)]) (simp_all add: T_def k_def)
  ultimately have "wp (bindM (claim_owner cm loc ?me) ?k) ?q ?e w"
    unfolding wp_bindM by (elim wp_mono) (auto simp: owned_by_other_def)
  then show ?thesis by (simp add: claim_table_def wp_bindM [of "asks _"] wp_asks)
qed

lemma wp_read_owner:
  fixes w :: "'z store_scheme"
  assumes "quiet J" and "J w" and "abfss_parse loc = Some l"
  shows "wp (read_owner m loc) (\<lambda>r w'. J w' \<and> stored_owner (st_tables w' (table_key l)) = Inr r)
    (\<lambda>x w'. J w' \<and> exn_class x \<noteq> ModelSupersededError \<and>
       (exn_class x = ValueErr \<longrightarrow> stored_owner (st_tables w' (table_key l)) = Inl x)) w"
proof -
  let ?op = "or_absent (download_text own_file ''owner.json'' (table_key l))"
  let ?ex = "\<lambda>x. exn_class x \<notin> {ModelSupersededError, ValueErr}"
  have "wp ?op (\<lambda>a w'. J w' \<and> own_file (st_tables w' (table_key l)) = a) (\<lambda>x w'. J w' \<and> ?ex x) v"
    if "J v" for v :: "'z store_scheme"
    unfolding or_absent_def wp_tryM wp_bindM wp_ret
    by (rule wp_mono [OF wp_download_text [OF assms(1) that]]) (auto simp: wp_ret wp_raise transport_or_missing_def)
  then have "wp (mg_retry m ?op) (\<lambda>a w'. J w' \<and> own_file (st_tables w' (table_key l)) = a) (\<lambda>x w'. J w' \<and> ?ex x) w"
    by (intro wp_mg_retry) (use assms(1,2) in auto)
  then show ?thesis
    unfolding read_owner_def assms(3) option.case wp_bindM [of "mg_retry _ _"]
    by (rule wp_mono)
       (auto simp: eff_rules stored_owner_def dest: owner_from_json_raises split: option.splits sum.splits)
qed

section \<open>Properties\<close>

text \<open>
  When \<open>settle_orphaned_jobs\<close> returns, every job of the model that is not of this run has ended,
  for every pattern of outages and every way the jobs evolve, so none can still commit to the table;
  provided that the service listed them, which it does for at most a hundred jobs.
\<close>

theorem settle_leaves_no_orphan:
  assumes "settle_orphaned_jobs m model mw iv w = (Inr ids, w')" and "jobs_ok w" and "few_listed model w"
    and "j \<in> set (aw_jobs w)" and "model_job_name model (jstr (dget (sj_dict j) ''name'' (JStr [])))"
    and "\<not> is_self_job w (sj_dict j)"
  shows "job_ended w' (sj_id j)"
  using wp_Inr [OF wp_settle_orphans [OF assms(2,3)] assms(1)] assms(4-6) by (auto simp: orphans_ended_def)

definition running_job :: "string \<Rightarrow> string \<Rightarrow> server_job" where
  "running_job i name =
     (let d = (\<lambda>s. [(''jobId'', JStr i), (''name'', JStr name), (''state'', JStr s)])
      in \<lparr>sj_id = i, sj_dict = d ''Running'', sj_polls = [d ''Running'', d ''Ended'']\<rparr>)"

definition sample_adla :: "table_dir \<Rightarrow> server_job list \<Rightarrow> adla" where
  "sample_adla d jobs = \<lparr>st_faults = [], st_clock = 0, st_etag = 0, st_tables = (\<lambda>_. d),
     lk_log = (\<lambda>_. None), g1_lookup = (\<lambda>_. None), g1_listings = [], g1_estimates = [],
     aw_jobs = jobs, aw_plans = [], aw_puts = [], aw_cancel_posts = [], aw_cancel_sent = [], aw_uuid = show_nat, aw_uuids_used = 0, aw_active = [],
     aw_cancelled_ids = [], aw_confirmed_ids = [],
     aw_run = \<lparr>own_run_id = ''r'', own_run_started_at = utc_dt 1000000\<rparr>, aw_cancelled_models = [], aw_claimed = [],
     aw_shutdown_in = None, hd_next_name = None, hd_next_au = None, hd_next_priority = None,
     hd_next_timeout = None, hd_next_model = None\<rparr>"

lemma running_job_ok: "i \<noteq> [] \<Longrightarrow> jobs_ok (sample_adla d [running_job i name])"
  by (simp add: jobs_ok_def sample_adla_def job_ok_def running_job_def dget_def job_state_def is_ended_def Let_def)

lemma running_job_named:
  "model_job_name ''m'' (jstr (dget (sj_dict (running_job i ''m_batch_7'')) ''name'' (JStr [])))"
  "\<not> is_self_job (sample_adla d js) (sj_dict (running_job i ''m_batch_7''))"
  by (simp_all add: running_job_def Let_def dget_def model_job_name_def drop_prefix_def batch_suffix_def is_digit_def
      is_self_job_def sample_adla_def)

lemma few_listed_one: "few_listed model (sample_adla d [j])"
  by (simp add: few_listed_def sample_adla_def)

theorem settle_leaves_no_orphan_witness:
  "\<exists>ids w'. settle_orphaned_jobs sample_manager ''m'' 600 5 (sample_adla empty_dir [running_job ''j'' ''m_batch_7'']) =
      (Inr ids, w') \<and> job_ended w' ''j''"
proof -
  let ?j = "running_job ''j'' ''m_batch_7''"
  have "\<exists>ids w'. settle_orphaned_jobs sample_manager ''m'' 600 5 (sample_adla empty_dir [?j]) = (Inr ids, w')"
    using running_job_named
    by (simp add: settle_orphaned_jobs_def list_orphaned_jobs_def list_jobs_def cancel_each_def cancel_job_async_def logged_call_def
        note_cancelled_def note_confirmed_def note_settled_def now_us_def sleepM_def poll_ended_def get_job_def
        mg_retry_def retry_on_message_def sample_manager_def retry_enabled_def disabled_policy_def
        sample_adla_def storage_call_def settle_fuel_def running_job_def Let_def next_poll_def job_state_def is_ended_def dget_def
        pending_jobs_def poll_of_def after_poll_def py_startswith_def eff_run run_bindM run_thenM run_tryM eval_nat_numeral)
  then obtain ids w' where run: "settle_orphaned_jobs sample_manager ''m'' 600 5 (sample_adla empty_dir [?j]) = (Inr ids, w')"
    by blast
  have "job_ended w' (sj_id ?j)"
    by (rule settle_leaves_no_orphan [OF run running_job_ok few_listed_one])
       (use running_job_named in \<open>simp_all add: sample_adla_def\<close>)
  then show ?thesis using run by (auto simp: running_job_def Let_def)
qed

text \<open>
  C12: \<open>settle_orphaned_jobs\<close> always ends: with waits that are not negative and a positive poll
  interval it returns, or raises \<open>DbtRuntimeError\<close> because the jobs could not be listed or did not end
  in time, unless the process dies; the fuel of the model's loop is never used up.
\<close>

theorem settle_always_ends:
  assumes "patient m" and "0 < iv"
  shows "case settle_orphaned_jobs m model mw iv w of
      (Inr _, _) \<Rightarrow> True
    | (Inl x, _) \<Rightarrow> exn_class x \<in> {ProcessKilled, DbtRuntimeError}"
  using wp_settle_time [OF assms, of model mw w] by (simp add: wp_def settle_failure_def split: prod.splits sum.splits)

theorem settle_always_ends_witness:
  "case settle_orphaned_jobs sample_manager ''m'' 10 3
      (sample_adla empty_dir [\<lparr>sj_id = ''j'', sj_dict = [(''jobId'', JStr ''j''), (''name'', JStr ''m_batch_7'')], sj_polls = []\<rparr>]) of
      (Inr _, _) \<Rightarrow> True | (Inl x, _) \<Rightarrow> exn_class x \<in> {ProcessKilled, DbtRuntimeError}"
  by (rule settle_always_ends) (simp_all add: patient_def sample_manager_def disabled_policy_def)



text \<open>
  C14: \<open>ensure_table_owner\<close> for a table this run claimed. It returns only when \<open>owner.json\<close> is absent or
  holds this run, and raises \<open>ModelSupersededError\<close> only when the file holds another run or cannot be
  decoded; failures of the storage are passed on as they are. It changes no table.
\<close>

theorem ensure_table_owner_exact:
  assumes "abfss_parse loc = Some l" and "map_of (aw_claimed w) model = Some loc"
  shows "let d = st_tables w (table_key l); mine = (\<lambda>o1. own_run_id o1 = own_run_id (aw_run w)) in
    case ensure_table_owner cm (Some model) w of
      (Inr _, w') \<Rightarrow> st_tables w' = st_tables w \<and> (case stored_owner d of Inr r \<Rightarrow> pred_option mine r | Inl _ \<Rightarrow> False)
    | (Inl x, w') \<Rightarrow> st_tables w' = st_tables w \<and>
        (exn_class x = ModelSupersededError \<longrightarrow>
          (case stored_owner d of Inr r \<Rightarrow> \<not> pred_option mine r | Inl _ \<Rightarrow> True))"
proof -
  have "quiet (\<lambda>w'. st_tables w' = st_tables w)" by (simp add: quiet_def clock_free_def fault_free_def)
  from wp_read_owner [OF this refl assms(1), of cm]
  have "case read_owner cm loc w of
      (Inr r, w') \<Rightarrow> st_tables w' = st_tables w \<and> stored_owner (st_tables w (table_key l)) = Inr r
    | (Inl x, w') \<Rightarrow> st_tables w' = st_tables w \<and> exn_class x \<noteq> ModelSupersededError \<and>
        (exn_class x = ValueErr \<longrightarrow> stored_owner (st_tables w (table_key l)) = Inl x)"
    by (auto simp: wp_def split: prod.splits sum.splits)
  then show ?thesis
    using assms(2)
    by (auto simp: ensure_table_owner_def Let_def run_bindM run_asks run_tryM run_ret run_raise
        owner_unreadable_def taken_over_def split: prod.splits sum.splits option.splits)
qed

theorem ensure_table_owner_exact_witness:
  "case ensure_table_owner sample_manager (Some ''m'')
      ((sample_adla (empty_dir\<lparr>own_file := Some (owner_to_json (sample_run ''s'' 1000000), 0)\<rparr>) [])
        \<lparr>aw_claimed := [(''m'', sample_loc)]\<rparr>) of
     (Inr _, _) \<Rightarrow> False | (Inl x, w') \<Rightarrow> own_file (st_tables w' (table_key sample_location)) \<noteq> None"
proof -
  let ?w = "(sample_adla (empty_dir\<lparr>own_file := Some (owner_to_json (sample_run ''s'' 1000000), 0)\<rparr>) [])
        \<lparr>aw_claimed := [(''m'', sample_loc)]\<rparr>"
  have "dt_ok (own_run_started_at (sample_run ''s'' 1000000))" "is_aware (own_run_started_at (sample_run ''s'' 1000000))"
    using run_ok_sample_run by (simp_all add: run_ok_def sample_run_def)
  then have "stored_owner (st_tables ?w (table_key sample_location)) = Inr (Some (sample_run ''s'' 1000000))"
    by (simp add: sample_adla_def stored_owner_def owner_json_roundtrip_lemma)
  moreover have "own_run_id (aw_run ?w) = ''r''" by (simp add: sample_adla_def)
  ultimately show ?thesis
    using ensure_table_owner_exact [OF parse_sample_loc, where w = ?w and model = "''m''" and cm = sample_manager]
    by (auto simp: Let_def sample_run_def sample_adla_def split: prod.splits sum.splits)
qed

end
