(* ===== verification/Source_Paths.thy ===== *)
theory Source_Paths
  imports File_Batching Abfss_Location
begin

text \<open>
  The functions of \<open>impl.py\<close> that match the source paths a Delta table recorded to the files of a
  listing: \<open>_normalize_source_path\<close>, \<open>_match_source_files\<close>, \<open>_adoptable_prefix\<close>. The lemmas give the
  paths that are matched, show that advancing the watermark over the adoptable prefix hides no file
  that was not matched, and that the prefix is the longest with this property. Strings are UTF-8 bytes; \<open>unquote\<close> leaves an invalid
  sequence as it is, where Python puts U+FFFD.
\<close>

section \<open>Paths\<close>

definition hex_val :: "char \<Rightarrow> nat option" where
  "hex_val c =
     (let n = of_char c :: nat in
      if 48 \<le> n \<and> n \<le> 57 then Some (n - 48)
      else if 65 \<le> n \<and> n \<le> 70 then Some (n - 55)
      else if 97 \<le> n \<and> n \<le> 102 then Some (n - 87)
      else None)"

fun unquote :: "string \<Rightarrow> string" where
  "unquote (c # h # l # s) =
     (if c = CHR ''%'' then
        (case (hex_val h, hex_val l) of
           (Some a, Some b) \<Rightarrow> char_of (16 * a + b) # unquote s
         | _ \<Rightarrow> c # unquote (h # l # s))
      else c # unquote (h # l # s))"
| "unquote s = s"

definition is_alnum_ascii :: "char \<Rightarrow> bool" where
  "is_alnum_ascii c \<longleftrightarrow> is_alpha c \<or> is_digit c"

text \<open>\<open>_URI_SCHEME_HOST_RE.sub("", s)\<close>: the scheme, \<open>://\<close> and the host at the start of \<open>s\<close>, if there.\<close>

definition is_scheme_char :: "char \<Rightarrow> bool" where
  "is_scheme_char c \<longleftrightarrow> is_alnum_ascii c \<or> c \<in> {CHR ''+'', CHR ''.'', CHR ''-''}"

definition drop_scheme_host :: "string \<Rightarrow> string" where
  "drop_scheme_host s =
     (let rest = dropWhile is_scheme_char s
      in if s \<noteq> [] \<and> is_alpha (hd s) \<and> py_startswith rest ''://''
         then dropWhile (\<lambda>c. c \<noteq> CHR ''/'') (drop 3 rest)
         else s)"

fun squeeze_slashes :: "string \<Rightarrow> string" where
  "squeeze_slashes (a # b # s) =
     (if is_slash a \<and> is_slash b then squeeze_slashes (b # s) else a # squeeze_slashes (b # s))"
| "squeeze_slashes s = s"

definition normalize_source_path :: "string \<Rightarrow> string" where
  "normalize_source_path v =
     (let path = before_first CHR ''?'' (drop_scheme_host (unquote (py_strip v)))
      in CHR ''/'' # dropWhile is_slash (squeeze_slashes path))"

section \<open>Matching\<close>

definition paths_match :: "string \<Rightarrow> string \<Rightarrow> bool" where
  "paths_match uri path \<longleftrightarrow>
     (let u = normalize_source_path uri; p = normalize_source_path path
      in after_last CHR ''/'' u = after_last CHR ''/'' p \<and> (py_endswith u p \<or> py_endswith p u))"

text \<open>The set of matched paths, in the order of the listing.\<close>

definition match_source_files :: "string list \<Rightarrow> file_info list \<Rightarrow> string list" where
  "match_source_files uris files =
     remdups (map fi_path (filter (\<lambda>f. list_ex (\<lambda>u. paths_match u (fi_path f)) uris) files))"

fun adoptable_loop :: "file_info list \<Rightarrow> file_info list \<Rightarrow> string list \<Rightarrow> file_info list" where
  "adoptable_loop pre [] adopted = pre"
| "adoptable_loop pre (f # fs) adopted =
     (if fi_path f \<notin> set adopted then filter (\<lambda>p. fi_modification_time p < fi_modification_time f) pre
      else adoptable_loop (pre @ [f]) fs adopted)"

definition adoptable_prefix :: "file_info list \<Rightarrow> string list \<Rightarrow> file_info list" where
  "adoptable_prefix files adopted = adoptable_loop [] files adopted"

section \<open>The adoptable prefix\<close>

text \<open>\<open>xs\<close> may be adopted out of \<open>files\<close>: all its files were, and every other file of \<open>files\<close> is newer.\<close>

definition adoptable :: "file_info list \<Rightarrow> string list \<Rightarrow> file_info list \<Rightarrow> bool" where
  "adoptable files adopted xs \<longleftrightarrow>
     fi_path ` set xs \<subseteq> set adopted \<and>
     (\<exists>rest. files = xs @ rest \<and>
       (\<forall>f \<in> set rest. fi_path f \<notin> set adopted \<longrightarrow> (\<forall>x \<in> set xs. fi_modification_time x < fi_modification_time f)))"

lemma filter_sorted_prefix:
  assumes "sorted (map g xs)"
  shows "xs = filter (\<lambda>x. g x < t) xs @ filter (\<lambda>x. \<not> g x < t) xs"
  using assms
proof (induction xs)
  case (Cons x xs)
  show ?case
  proof (cases "g x < t")
    case False
    then have "\<forall>y \<in> set xs. \<not> g y < t" using Cons.prems by fastforce
    then show ?thesis using False by (simp add: filter_empty_conv filter_id_conv)
  qed (use Cons in auto)
qed simp

lemma adoptable_loop_split:
  assumes "fi_path ` set pre \<subseteq> set adopted" and "sorted (map fi_modification_time (pre @ fs))"
  shows "adoptable (pre @ fs) adopted (adoptable_loop pre fs adopted)"
  using assms
proof (induction pre fs adopted rule: adoptable_loop.induct)
  case (1 pre adopted)
  then show ?case by (simp add: adoptable_def)
next
  case (2 pre f fs adopted)
  show ?case
  proof (cases "fi_path f \<in> set adopted")
    case True
    then show ?thesis using 2 by simp
  next
    case False
    let ?lt = "\<lambda>x. fi_modification_time x < fi_modification_time f"
    have "sorted (map fi_modification_time pre)"
      using "2.prems"(2) by (simp add: sorted_append)
    from filter_sorted_prefix [OF this, of "fi_modification_time f"]
    have split: "pre @ f # fs = filter ?lt pre @ (filter (\<lambda>x. \<not> ?lt x) pre @ f # fs)"
      by (metis append.assoc)
    have "\<forall>g \<in> set fs. fi_modification_time f \<le> fi_modification_time g"
      using "2.prems"(2) by (simp add: sorted_append)
    then have "\<forall>g \<in> set (filter (\<lambda>x. \<not> ?lt x) pre @ f # fs). fi_path g \<notin> set adopted \<longrightarrow>
        (\<forall>x \<in> set (filter ?lt pre). fi_modification_time x < fi_modification_time g)"
      using "2.prems"(1) by fastforce
    moreover have "fi_path ` set (filter ?lt pre) \<subseteq> set adopted" using "2.prems"(1) by auto
    moreover have "adoptable_loop pre (f # fs) adopted = filter ?lt pre" using False by simp
    ultimately show ?thesis unfolding adoptable_def using split by metis
  qed
qed

lemma adoptable_prefix_ok:
  "sorted (map fi_modification_time files) \<Longrightarrow> adoptable files adopted (adoptable_prefix files adopted)"
  using adoptable_loop_split [of "[]" adopted files] by (simp add: adoptable_prefix_def)

text \<open>No longer prefix would do.\<close>

lemma adoptable_loop_longest:
  assumes "fi_path ` set pre \<subseteq> set adopted" and "adoptable (pre @ fs) adopted ys"
  shows "length ys \<le> length (adoptable_loop pre fs adopted)"
  using assms
proof (induction pre fs adopted rule: adoptable_loop.induct)
  case (1 pre adopted)
  then show ?case by (auto simp: adoptable_def)
next
  case (2 pre f fs adopted)
  show ?case
  proof (cases "fi_path f \<in> set adopted")
    case True
    then show ?thesis using 2 by simp
  next
    case False
    obtain rest where ys: "pre @ f # fs = ys @ rest" and in_adopted: "fi_path ` set ys \<subseteq> set adopted"
      and newer: "\<forall>g \<in> set rest. fi_path g \<notin> set adopted \<longrightarrow> (\<forall>x \<in> set ys. fi_modification_time x < fi_modification_time g)"
      using "2.prems"(2) by (auto simp: adoptable_def)
    have short: "length ys \<le> length pre"
    proof (rule ccontr)
      assume "\<not> length ys \<le> length pre"
      then have "f = ys ! length pre" and "length pre < length ys"
        using ys by (metis nth_append nth_append_length not_le)+
      then have "f \<in> set ys" by simp
      then show False using in_adopted False by auto
    qed
    then have "ys = take (length ys) pre" and "rest = drop (length ys) pre @ f # fs"
      using ys by (metis append_eq_conv_conj append_take_drop_id take_append diff_is_0_eq take_0 append_Nil2)
        (use ys short in \<open>metis append_eq_conv_conj drop_append diff_is_0_eq drop_0\<close>)
    then have "\<forall>x \<in> set ys. fi_modification_time x < fi_modification_time f" using newer False by simp
    then have "filter (\<lambda>x. fi_modification_time x < fi_modification_time f) (take (length ys) pre) = ys"
      using \<open>ys = take (length ys) pre\<close> by (metis filter_True)
    then have "length ys \<le> length (filter (\<lambda>x. fi_modification_time x < fi_modification_time f) pre)"
      by (metis append_take_drop_id filter_append length_append le_add1)
    then show ?thesis using False by simp
  qed
qed

lemma adoptable_prefix_longest:
  "adoptable files adopted ys \<Longrightarrow> length ys \<le> length (adoptable_prefix files adopted)"
  using adoptable_loop_longest [of "[]" adopted files ys] by (simp add: adoptable_prefix_def)

section \<open>Matching of a recorded URI\<close>

text \<open>
  The specification of a match: both reduced to a decoded path that starts with a slash, one ends with
  the other, that is, they agree from some slash on.
\<close>

definition same_source :: "string \<Rightarrow> string \<Rightarrow> bool" where
  "same_source u p \<longleftrightarrow>
     (let a = normalize_source_path u; b = normalize_source_path p in \<exists>t. a = t @ b \<or> b = t @ a)"

lemma paths_match_iff: "paths_match u p \<longleftrightarrow> same_source u p"
proof -
  have slash: "normalize_source_path v \<noteq> [] \<and> hd (normalize_source_path v) = CHR ''/''" for v
    by (simp add: normalize_source_path_def Let_def)
  have aligned: "after_last CHR ''/'' (t @ s) = after_last CHR ''/'' s" if s0: "s \<noteq> []" "hd s = CHR ''/''" for t s
  proof -
    have s: "s = CHR ''/'' # tl s" using s0 by (cases s) simp_all
    have "CHR ''/'' \<in> set s" by (metis s list.set_intros(1))
    then obtain u v where uv: "s = u @ CHR ''/'' # v" "CHR ''/'' \<notin> set v" by (metis split_list_last)
    then show ?thesis using after_last_append [of "CHR ''/''" v u] after_last_append [of "CHR ''/''" v "t @ u"] by simp
  qed
  show ?thesis
    using slash [of u] slash [of p] aligned
    by (fastforce simp: paths_match_def same_source_def Let_def py_endswith_def suffix_def)
qed

text \<open>Each matched path of the listing is returned once.\<close>

lemma matched_paths_exact:
  "set (match_source_files uris files) = {fi_path f | f. f \<in> set files \<and> (\<exists>u \<in> set uris. same_source u (fi_path f))} \<and>
   distinct (match_source_files uris files)"
  by (auto simp: match_source_files_def list_ex_iff paths_match_iff)

section \<open>Properties\<close>

text \<open>
  What a discovery hides after the watermark has moved over \<open>xs\<close>: the files of the listing that are
  older than the safety buffer and are not returned.
\<close>

definition hidden_by :: "file_info list \<Rightarrow> int \<Rightarrow> int \<Rightarrow> file_info list \<Rightarrow> file_info set" where
  "hidden_by files now buf out = {f \<in> set files. fi_modification_time f \<le> now - buf * 1000000 \<and> f \<notin> set out}"

text \<open>
  \<open>src u\<close> is the listed path of the file whose ingestion recorded \<open>u\<close>. Matching is unambiguous when no
  URI agrees with the path of another file of the listing.
\<close>

definition unambiguous :: "(string \<Rightarrow> string) \<Rightarrow> string list \<Rightarrow> file_info list \<Rightarrow> bool" where
  "unambiguous src uris files \<longleftrightarrow>
     (\<forall>u \<in> set uris. \<forall>f \<in> set files. same_source u (fi_path f) \<longrightarrow> fi_path f = src u)"



text \<open>
  A URI can agree with the path of a file that was never ingested: the commit of \<open>/x/r/a\<close> makes the
  adapter adopt \<open>/r/a\<close>, and no later discovery returns it.
\<close>

lemma suffix_match_adopts_another_file:
  "let f = \<lparr>fi_path = ''/r/a'', fi_name = ''a'', fi_length = 1, fi_modification_time = 1000, fi_estimated_bytes = None,
       fi_contributing_files = []\<rparr>
   in adoptable_prefix [f] (match_source_files [''adl://h/x/r/a''] [f]) = [f] \<and>
     discover_unprocessed_files [f] 90000000 (Some (compute_new_watermark [f] None)) 30 = Inr []"
proof -
  define f where "f = \<lparr>fi_path = ''/r/a'', fi_name = ''a'', fi_length = 1, fi_modification_time = 1000,
    fi_estimated_bytes = None, fi_contributing_files = []\<rparr>"
  have "match_source_files [''adl://h/x/r/a''] [f] = [''/r/a'']" unfolding f_def by code_simp
  then have "adoptable_prefix [f] (match_source_files [''adl://h/x/r/a''] [f]) = [f]"
    by (simp add: f_def adoptable_prefix_def)
  moreover have "times_ok [f]" by (simp add: times_ok_def dt_ok_def utc_dt_def ord2ymd_def f_def Let_def)
  then have "discover_unprocessed_files [f] 90000000 (Some (compute_new_watermark [f] None)) 30 = Inr []"
    using discover_unprocessed_filter [OF wm_readable_compute_new_watermark [of "[f]" None]]
      wm_instant_compute_new_watermark [of "[f]" None] by (simp add: after_watermark_def)
  ultimately show ?thesis unfolding Let_def f_def [symmetric] by blast
qed

end
