(* ===== verification/Adapter_Discovery.thy ===== *)
theory Adapter_Discovery
  imports Adla_Jobs Source_Paths
begin

text \<open>
  The discovery methods of \<open>ScopeAdapter\<close> (\<open>impl.py\<close>): \<open>discover_files\<close> and its helpers,
  \<open>has_unprocessed_files\<close>, the caches and the cycle counter. \<open>adapter\<close> adds to the world what the
  adapter object holds between calls; \<open>env\<close> is its configuration and the code it relies on: the
  message retry policy, DuckDB's casts, the values a query of Parquet files returns, \<open>json.loads\<close>.
\<close>

record env =
  en_manager :: manager
  en_duck :: duckdb
  en_values :: "string list \<Rightarrow> string \<Rightarrow> string list"
  en_loads :: "string \<Rightarrow> doc"

record adapter = adla +
  ad_cache :: "(string \<times> file_info) list"
  ad_pending :: "(string \<times> pending_batch) list"
  ad_total :: nat
  ad_cycles :: "(nat \<times> nat) list"

section \<open>Listing unprocessed files\<close>

text \<open>\<open>FileTracker.discover_unprocessed_files\<close> with its listing and its clock.\<close>

definition tracker_discover ::
    "env \<Rightarrow> string \<Rightarrow> string \<Rightarrow> watermark option \<Rightarrow> int \<Rightarrow> ('z adapter_scheme, file_info list) eff" where
  "tracker_discover c src_root pattern wm buf =
     bindM (list_files (en_manager c) src_root pattern) (\<lambda>all_files.
     bindM now_us (\<lambda>now. liftE (discover_unprocessed_files all_files now wm buf)))"

text \<open>\<open>for root in source_roots: for pattern in source_patterns\<close>.\<close>

definition root_patterns :: "string list \<Rightarrow> string list \<Rightarrow> (string \<times> string) list" where
  "root_patterns roots patterns = concat (map (\<lambda>r. map (Pair r) patterns) roots)"

fun add_unseen :: "file_info list \<Rightarrow> file_info list \<Rightarrow> file_info list" where
  "add_unseen files [] = files"
| "add_unseen files (f # fs) =
     (if fi_path f \<in> fi_path ` set files then add_unseen files fs else add_unseen (files @ [f]) fs)"

fun list_pairs ::
    "env \<Rightarrow> watermark option \<Rightarrow> int \<Rightarrow> (string \<times> string) list \<Rightarrow> file_info list \<Rightarrow> ('z adapter_scheme, file_info list) eff" where
  "list_pairs c wm buf [] files = ret files"
| "list_pairs c wm buf ((r, p) # rps) files =
     bindM (tracker_discover c r p wm buf) (\<lambda>fs. list_pairs c wm buf rps (add_unseen files fs))"

definition list_unprocessed ::
    "env \<Rightarrow> string list \<Rightarrow> string list \<Rightarrow> watermark option \<Rightarrow> int \<Rightarrow> ('z adapter_scheme, file_info list) eff" where
  "list_unprocessed c roots patterns wm buf = list_pairs c wm buf (root_patterns roots patterns) []"

section \<open>starting\_timestamp\<close>

definition bad_timestamp :: "string \<Rightarrow> pyexn" where
  "bad_timestamp v = PyExn DbtRuntimeError (''Invalid starting_timestamp '' @ CHR 0x27 # v @ CHR 0x27 #
     ''. Expected an ISO-8601 UTC string such as '' @ CHR 0x27 # ''2026-04-07T10:00:00+00:00'' @ CHR 0x27 # ''.'')"

definition naive_timestamp :: "string \<Rightarrow> pyexn" where
  "naive_timestamp v = PyExn DbtRuntimeError (''starting_timestamp '' @ CHR 0x27 # v @ CHR 0x27 #
     '' is missing timezone info. Use an explicit UTC offset, e.g. '' @ CHR 0x27 # ''2026-04-07T10:00:00+00:00'' @
     CHR 0x27 # ''.'')"

text \<open>\<open>astimezone(utc)\<close> raises when the instant is outside the years 1 to 9999.\<close>

definition parse_starting_timestamp :: "string \<Rightarrow> pyexn + pydt" where
  "parse_starting_timestamp v =
     (case fromisoformat v of
        Inl e \<Rightarrow> Inl (bad_timestamp v)
      | Inr d \<Rightarrow>
          if \<not> is_aware d then Inl (naive_timestamp v)
          else if dt_ok (utc_dt (instant d)) then Inr (utc_dt (instant d))
          else Inl (PyExn OverflowErr ''date value out of range''))"

definition timestamp_after_all :: "string \<Rightarrow> file_info \<Rightarrow> pyexn" where
  "timestamp_after_all v f = PyExn DbtRuntimeError (''starting_timestamp '' @ CHR 0x27 # v @ CHR 0x27 #
     '' is after all available source files. The latest file has modificationTime '' @ CHR 0x27 #
     isoformat (utc_dt (fi_modification_time f)) @ CHR 0x27 #
     ''. Use an earlier timestamp or remove starting_timestamp.'')"

fun validate_starting_timestamp ::
    "env \<Rightarrow> string \<Rightarrow> (string \<times> string) list \<Rightarrow> ('z adapter_scheme, unit) eff" where
  "validate_starting_timestamp c v [] = ret ()"
| "validate_starting_timestamp c v ((r, p) # rps) =
     bindM (tracker_discover c r p None 0) (\<lambda>fs.
       if fs \<noteq> [] then raise (timestamp_after_all v (last fs)) else validate_starting_timestamp c v rps)"

fun later_file :: "file_info option \<Rightarrow> file_info list \<Rightarrow> file_info option" where
  "later_file latest [] = latest"
| "later_file latest (f # fs) =
     later_file (case latest of None \<Rightarrow> Some f
       | Some l \<Rightarrow> if fi_modification_time l < fi_modification_time f then Some f else Some l) fs"

fun find_latest_available_file ::
    "env \<Rightarrow> int \<Rightarrow> (string \<times> string) list \<Rightarrow> file_info option \<Rightarrow> ('z adapter_scheme, file_info option) eff" where
  "find_latest_available_file c buf [] latest = ret latest"
| "find_latest_available_file c buf ((r, p) # rps) latest =
     bindM (tracker_discover c r p None buf) (\<lambda>fs. find_latest_available_file c buf rps (later_file latest fs))"

section \<open>discover\_files\<close>

definition remember_files :: "file_info list \<Rightarrow> ('z adapter_scheme, unit) eff" where
  "remember_files fs = modifyM (\<lambda>w. w\<lparr>ad_cache := fold (\<lambda>f. assoc_put (fi_path f) f) fs (ad_cache w)\<rparr>)"

definition discover_files ::
    "env \<Rightarrow> string list \<Rightarrow> string list \<Rightarrow> int \<Rightarrow> string \<Rightarrow> int \<Rightarrow> string option \<Rightarrow> int \<Rightarrow> bool \<Rightarrow>
     ('z adapter_scheme, string list) eff" where
  "discover_files c roots patterns max_files loc buf starting_timestamp max_bytes fallback =
     (let m = en_manager c; given = (case starting_timestamp of None \<Rightarrow> [] | Some v \<Rightarrow> v) in
      bindM (if given \<noteq> [] then bindM (liftE (parse_starting_timestamp given)) (\<lambda>d. ret (Some d)) else ret None)
        (\<lambda>starting.
      bindM (read_watermark m loc True) (\<lambda>watermark.
      let used = (watermark = None \<and> starting \<noteq> None);
          effective = (case watermark of Some w \<Rightarrow> Some w
                       | None \<Rightarrow> map_option (\<lambda>d. watermark_at (isoformat d)) starting)
      in
      bindM (list_unprocessed c roots patterns effective buf) (\<lambda>listed.
      bindM
        (if used \<and> listed = [] then
           if fallback then
             bindM (find_latest_available_file c buf (root_patterns roots patterns) None) (\<lambda>latest.
               ret (case latest of None \<Rightarrow> [] | Some f \<Rightarrow> [f]))
           else thenM (validate_starting_timestamp c given (root_patterns roots patterns)) (ret listed)
         else ret listed)
        (\<lambda>unprocessed.
      bindM (enrich_with_estimates m (sort_key fi_modification_time unprocessed)) (\<lambda>backlog.
      thenM (remember_files backlog)
        (thenM (modifyM (\<lambda>w. w\<lparr>ad_total := count_batches backlog max_files max_bytes\<rparr>))
          (ret (map fi_path (get_next_batch backlog max_files max_bytes))))))))))"

definition default_max_bytes_per_trigger :: int where
  "default_max_bytes_per_trigger = 10737418240000"

definition has_unprocessed_files ::
    "env \<Rightarrow> string list \<Rightarrow> string list \<Rightarrow> string \<Rightarrow> int \<Rightarrow> string option \<Rightarrow> bool \<Rightarrow> ('z adapter_scheme, bool) eff" where
  "has_unprocessed_files c roots patterns loc buf starting_timestamp fallback =
     bindM (discover_files c roots patterns 1 loc buf starting_timestamp default_max_bytes_per_trigger fallback)
       (\<lambda>paths. ret (0 < length paths))"

definition get_total_batches :: "('z adapter_scheme, nat) eff" where
  "get_total_batches = asks ad_total"

definition clear_file_discovery_cache :: "('z adapter_scheme, unit) eff" where
  "clear_file_discovery_cache = thenM clear_file_cache (modifyM (\<lambda>w. w\<lparr>ad_cache := []\<rparr>))"

section \<open>Cycles of a processing-time model\<close>

text \<open>\<open>_shutdown_event.is_set()\<close>; other threads may have set the event since the last check.\<close>

definition shutdown_is_set :: "('z adla_scheme, bool) eff" where
  "shutdown_is_set = (\<lambda>w. case aw_shutdown_in w of
       None \<Rightarrow> (Inr False, w)
     | Some 0 \<Rightarrow> (Inr True, w)
     | Some (Suc n) \<Rightarrow> (Inr False, w\<lparr>aw_shutdown_in := Some n\<rparr>))"

definition forget_cycle :: "nat \<Rightarrow> ('z adapter_scheme, unit) eff" where
  "forget_cycle thread = modifyM (\<lambda>w. w\<lparr>ad_cycles := filter (\<lambda>e. fst e \<noteq> thread) (ad_cycles w)\<rparr>)"

text \<open>The wait ends early when the event is set meanwhile; the model sleeps the whole interval or not at all.\<close>

definition wait_for_next_cycle :: "nat \<Rightarrow> real \<Rightarrow> nat option \<Rightarrow> ('z adapter_scheme, bool) eff" where
  "wait_for_next_cycle thread interval max_cycles =
     bindM (asks (\<lambda>w. Suc (case map_of (ad_cycles w) thread of None \<Rightarrow> 0 | Some n \<Rightarrow> n))) (\<lambda>cycle.
     thenM (modifyM (\<lambda>w. w\<lparr>ad_cycles := assoc_put thread cycle (ad_cycles w)\<rparr>))
       (bindM shutdown_is_set (\<lambda>stop.
          if stop then thenM (forget_cycle thread) (ret False)
          else if (case max_cycles of None \<Rightarrow> False | Some n \<Rightarrow> n \<le> cycle)
          then thenM (forget_cycle thread) (ret False)
          else
            bindM shutdown_is_set (\<lambda>interrupted.
              if interrupted then thenM (forget_cycle thread) (ret False)
              else thenM (sleepM interval) (ret True)))))"

definition reset_cycle_count :: "nat \<Rightarrow> ('z adapter_scheme, unit) eff" where
  "reset_cycle_count = forget_cycle"

end
