(* ===== verification/Adapter_Checkpoint.thy ===== *)
theory Adapter_Checkpoint
  imports Adapter_Discovery Owner_Protocol
begin

text \<open>
  The checkpointing methods of \<open>ScopeAdapter\<close> (\<open>impl.py\<close>): \<open>begin_batch\<close> before a job,
  \<open>update_checkpoint\<close> after it, and \<open>reconcile_checkpoint\<close> with its parts when a run starts, which
  resolves the batch a dead process left behind and adopts commits that no checkpoint covers.
\<close>

section \<open>Recording a batch\<close>

definition record_batch ::
    "env \<Rightarrow> string \<Rightarrow> file_info list \<Rightarrow> watermark option \<Rightarrow> int option \<Rightarrow> int \<Rightarrow> int \<Rightarrow> ('z adapter_scheme, watermark) eff" where
  "record_batch c loc fs current delta_version interval retention =
     (let m = en_manager c; new = (compute_new_watermark fs current)\<lparr>wm_delta_version := delta_version\<rparr> in
      thenM (write_watermark m loc new)
        (thenM (write_batch_sources (en_duck c) m loc (wm_batch_id new) (map fi_path fs)
                  (map fi_modification_time fs) interval)
          (thenM (cleanup_sources m loc retention) (ret new))))"

section \<open>begin\_batch\<close>

definition not_discovered :: "string list \<Rightarrow> pyexn" where
  "not_discovered missing = PyExn DbtRuntimeError
     (''begin_batch: '' @ show_nat (length missing) @ '' file(s) were not returned by discover_files: '' @
      jrepr (JList (map JStr (take 5 missing))))"

definition fresh_uuid :: "('z adla_scheme, string) eff" where
  "fresh_uuid = (\<lambda>w. (Inr (aw_uuid w (aw_uuids_used w)), w\<lparr>aw_uuids_used := Suc (aw_uuids_used w)\<rparr>))"

definition ensure_own_table :: "env \<Rightarrow> ('z adapter_scheme, unit) eff" where
  "ensure_own_table c = bindM (asks hd_next_model) (\<lambda>model. ensure_table_owner (en_manager c) model)"

definition cached_ms :: "(string \<times> file_info) list \<Rightarrow> string \<Rightarrow> int" where
  "cached_ms cache path =
     (case map_of cache path of Some f \<Rightarrow> epoch_ms_round (fi_modification_time f) | None \<Rightarrow> 0)"

definition begin_batch :: "env \<Rightarrow> string \<Rightarrow> string list \<Rightarrow> string \<Rightarrow> ('z adapter_scheme, (string \<times> string) list) eff" where
  "begin_batch c loc file_paths job_name =
     (let m = en_manager c in
      bindM (asks ad_cache) (\<lambda>cache.
      let missing = filter (\<lambda>p. map_of cache p = None) file_paths in
      if missing \<noteq> [] then raise (not_discovered missing)
      else
        thenM (ensure_own_table c)
          (bindM (read_watermark m loc True) (\<lambda>watermark.
           bindM fresh_uuid (\<lambda>token.
           bindM (asks aw_run) (\<lambda>run.
           bindM (latest_version m loc) (\<lambda>latest.
           bindM now_us (\<lambda>now.
           let pending = \<lparr>pb_token = token,
                 pb_batch_id = (case watermark of Some w \<Rightarrow> wm_batch_id w + 1 | None \<Rightarrow> 0),
                 pb_run_id = own_run_id run, pb_job_name = job_name,
                 pb_files = map (\<lambda>p. (p, cached_ms cache p)) file_paths,
                 pb_watermark_before = watermark, pb_delta_version_before = latest,
                 pb_created_at = isoformat (utc_dt now), pb_schema_version = pending_schema_version\<rparr>
           in
           thenM (write_pending m loc pending)
             (thenM (modifyM (\<lambda>w. w\<lparr>ad_pending := assoc_put loc pending (ad_pending w)\<rparr>))
               (ret [(batch_token_property, token)]))))))))))"

section \<open>update\_checkpoint\<close>

definition committed_delta_version ::
    "env \<Rightarrow> string \<Rightarrow> pending_batch option \<Rightarrow> ('z adapter_scheme, int option) eff" where
  "committed_delta_version c loc pending =
     (let m = en_manager c in
      tryM
        (bindM (read_log_versions m loc) (\<lambda>(versions, latest).
         bindM (case pending of
                  None \<Rightarrow> ret None
                | Some p \<Rightarrow> find_token_version m loc p versions latest) (\<lambda>version.
           ret (case version of Some v \<Rightarrow> Some v | None \<Rightarrow> if 0 \<le> latest then Some latest else None))))
        (\<lambda>e. if exn_class e = CredentialUnavailableError then raise e else ret None))"

text \<open>The fallback listing: the files of \<open>uncached\<close> in the order they are listed, each once.\<close>

fun list_uncached ::
    "env \<Rightarrow> string list \<Rightarrow> (string \<times> string) list \<Rightarrow> file_info list \<Rightarrow> ('z adapter_scheme, file_info list) eff" where
  "list_uncached c uncached [] found = ret found"
| "list_uncached c uncached ((r, p) # rps) found =
     bindM (list_files (en_manager c) r p) (\<lambda>fs.
       list_uncached c uncached rps (add_unseen found (filter (\<lambda>f. fi_path f \<in> set uncached) fs)))"

definition update_checkpoint ::
    "env \<Rightarrow> string \<Rightarrow> string list \<Rightarrow> string list \<Rightarrow> string list \<Rightarrow> int \<Rightarrow> int \<Rightarrow> ('z adapter_scheme, unit) eff" where
  "update_checkpoint c loc roots patterns file_paths interval retention =
     (let m = en_manager c in
      thenM (ensure_own_table c)
        (bindM (read_watermark m loc True) (\<lambda>current.
         bindM (asks ad_cache) (\<lambda>cache.
         let uncached = filter (\<lambda>p. map_of cache p = None) file_paths in
         bindM (if uncached = [] then ret [] else list_uncached c uncached (root_patterns roots patterns) [])
           (\<lambda>found.
         let processed = List.map_filter (map_of cache) file_paths @ found in
         if processed = [] then ret ()
         else
           bindM (asks (\<lambda>w. map_of (ad_pending w) loc)) (\<lambda>pending.
           thenM (modifyM (\<lambda>w. w\<lparr>ad_pending := filter (\<lambda>e. fst e \<noteq> loc) (ad_pending w)\<rparr>))
             (bindM (committed_delta_version c loc pending) (\<lambda>version.
              thenM (record_batch c loc processed current version interval retention)
                (if pending \<noteq> None then delete_pending m loc False else ret ())))))))))"

section \<open>reconcile\_checkpoint\<close>

definition pending_file_info :: "string \<times> int \<Rightarrow> file_info" where
  "pending_file_info f = \<lparr>fi_path = fst f, fi_name = after_last CHR ''/'' (fst f), fi_length = 0,
     fi_modification_time = snd f, fi_estimated_bytes = None, fi_contributing_files = []\<rparr>"

definition pending_infos :: "pending_batch \<Rightarrow> file_info list" where
  "pending_infos p = map pending_file_info (zip (pending_file_paths p) (pending_modification_times p))"

definition resolve_pending ::
    "env \<Rightarrow> string \<Rightarrow> watermark option \<Rightarrow> int list \<Rightarrow> int \<Rightarrow> int \<Rightarrow> int \<Rightarrow> ('z adapter_scheme, watermark option) eff" where
  "resolve_pending c loc watermark versions latest interval retention =
     (let m = en_manager c in
      bindM (read_pending m loc) (\<lambda>pending.
        case pending of
          None \<Rightarrow> ret watermark
        | Some p \<Rightarrow>
            if \<not> applies_to p watermark then thenM (delete_pending m loc False) (ret watermark)
            else
              bindM (find_token_version m loc p versions latest) (\<lambda>version.
                case version of
                  None \<Rightarrow> thenM (delete_pending m loc False) (ret watermark)
                | Some v \<Rightarrow>
                    bindM (record_batch c loc (pending_infos p) watermark (Some v) interval retention) (\<lambda>new.
                      thenM (delete_pending m loc False) (ret (Some new))))))"

text \<open>\<open>written_at\<close> is in microseconds, a commit's timestamp in milliseconds.\<close>

fun legacy_loop :: "env \<Rightarrow> string \<Rightarrow> int \<Rightarrow> int list \<Rightarrow> int \<Rightarrow> ('z adapter_scheme, int) eff" where
  "legacy_loop c loc written_at [] baseline = ret baseline"
| "legacy_loop c loc written_at (v # vs) baseline =
     bindM (read_commit (en_manager c) loc v) (\<lambda>commit.
       case (case commit of Some k \<Rightarrow> timestamp_ms k | None \<Rightarrow> None) of
         None \<Rightarrow> ret baseline
       | Some ts \<Rightarrow> if ts * 1000 \<le> written_at then ret baseline else legacy_loop c loc written_at vs (v - 1))"

definition legacy_baseline_max_commits :: nat where
  "legacy_baseline_max_commits = 100"

definition legacy_baseline :: "env \<Rightarrow> string \<Rightarrow> int list \<Rightarrow> int \<Rightarrow> ('z adapter_scheme, int) eff" where
  "legacy_baseline c loc versions latest =
     bindM (watermark_last_modified (en_manager c) loc) (\<lambda>written.
       case written of
         None \<Rightarrow> ret latest
       | Some t \<Rightarrow> legacy_loop c loc t (rev (last_n legacy_baseline_max_commits versions)) latest)"

definition source_file_column :: string where
  "source_file_column = ''source_file_uri''"

definition data_url :: "abfss_location \<Rightarrow> string \<Rightarrow> string" where
  "data_url parsed path =
     (if py_contains ''://'' path then path else abfss_url parsed @ ''/'' @ unquote path)"

definition distinct_column_values ::
    "env \<Rightarrow> string \<Rightarrow> string list \<Rightarrow> string \<Rightarrow> ('z adapter_scheme, string list) eff" where
  "distinct_column_values c loc data_paths column =
     (if data_paths = [] then ret []
      else case abfss_parse loc of
        None \<Rightarrow> raise (invalid_location loc)
      | Some parsed \<Rightarrow>
          storage_call (\<lambda>w. (Inr (en_values c (map (data_url parsed) data_paths) column), w)))"

fun ingested_uris :: "env \<Rightarrow> string \<Rightarrow> string \<Rightarrow> delta_commit list \<Rightarrow> ('z adapter_scheme, string list) eff" where
  "ingested_uris c loc column [] = ret []"
| "ingested_uris c loc column (k # ks) =
     bindM (distinct_column_values c loc (added_data_paths k) column) (\<lambda>us.
     bindM (ingested_uris c loc column ks) (\<lambda>rest. ret (us @ rest)))"

definition has_schema :: "delta_commit \<Rightarrow> bool" where
  "has_schema k \<longleftrightarrow> (case schema_string k of None \<Rightarrow> False | Some s \<Rightarrow> s \<noteq> [])"

definition adopt_unrecorded_commits ::
    "env \<Rightarrow> string \<Rightarrow> string list \<Rightarrow> string list \<Rightarrow> watermark \<Rightarrow> int list \<Rightarrow> int \<Rightarrow> int \<Rightarrow> int \<Rightarrow> int \<Rightarrow>
     ('z adapter_scheme, watermark) eff" where
  "adopt_unrecorded_commits c loc roots patterns watermark versions latest buf interval retention =
     (let m = en_manager c in
      bindM (read_commits m loc versions) (\<lambda>all_commits.
      let commits = filter (\<lambda>k. is_scope_engine k \<and> added_data_paths k \<noteq> []) all_commits in
      if commits = [] then ret watermark
      else
        bindM (case find has_schema (rev commits) of
                 Some k \<Rightarrow> ret (Some k)
               | None \<Rightarrow> latest_metadata_commit m loc 100) (\<lambda>schema_commit.
        bindM (liftE (physical_column_name (en_loads c)
                 (case schema_commit of Some k \<Rightarrow> schema_string k | None \<Rightarrow> None) source_file_column)) (\<lambda>column.
          case column of
            None \<Rightarrow> ret watermark
          | Some col \<Rightarrow>
              bindM (ingested_uris c loc col commits) (\<lambda>uris.
              bindM (list_unprocessed c roots patterns (Some watermark) buf) (\<lambda>listed.
              let unprocessed = sort_key fi_modification_time listed;
                  pre = adoptable_prefix unprocessed (match_source_files uris unprocessed) in
              if pre = [] then ret watermark
              else record_batch c loc pre (Some watermark) (Some latest) interval retention))))))"

definition adopt_step ::
    "env \<Rightarrow> string \<Rightarrow> string list \<Rightarrow> string list \<Rightarrow> watermark \<Rightarrow> int list \<Rightarrow> int \<Rightarrow> int \<Rightarrow> int \<Rightarrow> int \<Rightarrow>
     ('z adapter_scheme, watermark) eff" where
  "adopt_step c loc roots patterns watermark versions latest buf interval retention =
     tryM
       (bindM (case wm_delta_version watermark of
                 Some v \<Rightarrow> ret v
               | None \<Rightarrow> legacy_baseline c loc versions latest) (\<lambda>baseline.
          if baseline < latest
          then adopt_unrecorded_commits c loc roots patterns watermark (filter (\<lambda>v. baseline < v) versions)
                 latest buf interval retention
          else ret watermark))
       (\<lambda>e. if exn_class e = CredentialUnavailableError then raise e else ret watermark)"

definition reconcile_checkpoint ::
    "env \<Rightarrow> string \<Rightarrow> string list \<Rightarrow> string list \<Rightarrow> string \<Rightarrow> int \<Rightarrow> int \<Rightarrow> int \<Rightarrow> ('z adapter_scheme, unit) eff" where
  "reconcile_checkpoint c loc roots patterns model buf interval retention =
     (let m = en_manager c in
      thenM (claim_table m m model loc)
        (bindM (read_watermark m loc True) (\<lambda>watermark.
         bindM (read_log_versions m loc) (\<lambda>(versions, latest).
         bindM (resolve_pending c loc watermark versions latest interval retention) (\<lambda>resolved.
           case resolved of
             None \<Rightarrow> ret ()
           | Some wm \<Rightarrow>
               if latest < 0 then ret ()
               else
                 bindM (adopt_step c loc roots patterns wm versions latest buf interval retention) (\<lambda>final.
                   if wm_delta_version final \<noteq> Some latest
                   then write_watermark m loc (final\<lparr>wm_delta_version := Some latest\<rparr>)
                   else ret ()))))))"

definition delete_checkpoint :: "env \<Rightarrow> string \<Rightarrow> ('z adapter_scheme, unit) eff" where
  "delete_checkpoint c loc = delete_watermark (en_manager c) loc"

end
