(* ===== verification/Adapter_Frame.thy ===== *)
theory Adapter_Frame
  imports Adapter_Checkpoint
begin

text \<open>
  What every operation leaves alone. \<open>keeps J op\<close>: \<open>op\<close> preserves the world predicate \<open>J\<close>, however it
  ends. The rules in \<open>keeps_intros\<close> follow the structure of a program; the side conditions say which
  parts of the world \<open>J\<close> may not look at: clock and outages (\<open>quiet\<close>), the recorded sources
  (\<open>source_free\<close>), the job service and its registries (\<open>job_free\<close>), the adapter's caches (\<open>frame\<close>).
\<close>

named_theorems keeps_intros \<open>what a program keeps, by its structure\<close>

definition keeps :: "('w \<Rightarrow> bool) \<Rightarrow> ('w, 'a) eff \<Rightarrow> bool" where
  "keeps J op \<longleftrightarrow> (\<forall>w. J w \<longrightarrow> wp op (\<lambda>_. J) (\<lambda>_. J) w)"

lemma keepsI: "(\<And>w. J w \<Longrightarrow> wp op (\<lambda>_. J) (\<lambda>_. J) w) \<Longrightarrow> keeps J op"
  by (simp add: keeps_def)

lemma keepsD: "keeps J op \<Longrightarrow> J w \<Longrightarrow> wp op (\<lambda>_. J) (\<lambda>_. J) w"
  by (simp add: keeps_def)

section \<open>Combinators\<close>

lemma keeps_ret [keeps_intros]: "keeps J (ret a)"
  by (simp add: keeps_def wp_ret)

lemma keeps_raise [keeps_intros]: "keeps J (raise x)"
  by (simp add: keeps_def wp_raise)

lemma keeps_liftE [keeps_intros]: "keeps J (liftE r)"
  by (simp add: keeps_def wp_liftE split: sum.split)

lemma keeps_asks [keeps_intros]: "keeps J (asks f)"
  by (simp add: keeps_def wp_asks)

lemma keeps_now_us [keeps_intros]: "keeps J now_us"
  by (simp add: now_us_def keeps_asks)

lemma keeps_modifyM: "(\<And>w. J w \<Longrightarrow> J (f w)) \<Longrightarrow> keeps J (modifyM f)"
  by (simp add: keeps_def wp_modifyM)

lemma keeps_bindM [keeps_intros]: "keeps J op \<Longrightarrow> (\<And>a. keeps J (f a)) \<Longrightarrow> keeps J (bindM op f)"
  unfolding keeps_def wp_bindM by (blast intro: wp_mono)

lemma keeps_thenM [keeps_intros]: "keeps J op \<Longrightarrow> keeps J k \<Longrightarrow> keeps J (thenM op k)"
  unfolding keeps_def wp_thenM by (blast intro: wp_mono)

lemma keeps_tryM [keeps_intros]: "keeps J op \<Longrightarrow> (\<And>x. keeps J (h x)) \<Longrightarrow> keeps J (tryM op h)"
  unfolding keeps_def wp_tryM by (auto intro: wp_mono)

lemma keeps_if [keeps_intros]: "(b \<Longrightarrow> keeps J op) \<Longrightarrow> (\<not> b \<Longrightarrow> keeps J k) \<Longrightarrow> keeps J (if b then op else k)"
  by simp

lemma keeps_option [keeps_intros]:
  "(x = None \<Longrightarrow> keeps J op) \<Longrightarrow> (\<And>a. x = Some a \<Longrightarrow> keeps J (f a)) \<Longrightarrow>
    keeps J (case x of None \<Rightarrow> op | Some a \<Rightarrow> f a)"
  by (simp split: option.split)

lemma keeps_prod [keeps_intros]: "(\<And>a b. x = (a, b) \<Longrightarrow> keeps J (f a b)) \<Longrightarrow> keeps J (case x of (a, b) \<Rightarrow> f a b)"
  by (simp split: prod.split)

lemma keeps_Let [keeps_intros]: "keeps J (f a) \<Longrightarrow> keeps J (let x = a in f x)"
  by simp

lemma keeps_forM [keeps_intros]: "(\<And>x. keeps J (f x)) \<Longrightarrow> keeps J (forM xs f)"
  by (induction xs) (auto intro: keeps_intros)

lemma keeps_mapM [keeps_intros]: "(\<And>x. keeps J (f x)) \<Longrightarrow> keeps J (mapM f xs)"
  by (induction xs) (auto intro: keeps_intros)

section \<open>Requests\<close>

lemma keeps_storage_call [keeps_intros]: "quiet J \<Longrightarrow> keeps J req \<Longrightarrow> keeps J (storage_call req)"
  by (intro keepsI wp_keeps_request) (auto dest: keepsD)

lemma keeps_mg_retry [keeps_intros]: "quiet J \<Longrightarrow> keeps J op \<Longrightarrow> keeps J (mg_retry m op)"
  by (intro keepsI wp_retried_read) (auto dest: keepsD)

lemma keeps_reading: "(\<And>w. snd (req w) = w) \<Longrightarrow> keeps J req"
  by (auto simp: keeps_def wp_def split: sum.split prod.split) (metis snd_conv)+

lemma keeps_or_absent [keeps_intros]: "keeps J op \<Longrightarrow> keeps J (or_absent op)"
  unfolding or_absent_def by (intro keeps_intros)

section \<open>The checkpoint manager\<close>

text \<open>\<open>J\<close> does not look at the recorded sources.\<close>

definition source_free :: "('z store_scheme \<Rightarrow> bool) \<Rightarrow> bool" where
  "source_free J \<longleftrightarrow> quiet J \<and> (\<forall>w k f. J w \<longrightarrow> J (upd_table k (\<lambda>d. d\<lparr>src_dir := f d\<rparr>) w))"

lemma source_free_quiet: "source_free J \<Longrightarrow> quiet J"
  by (simp add: source_free_def)

lemma source_freeD: "source_free J \<Longrightarrow> J w \<Longrightarrow> J (upd_table k (\<lambda>d. d\<lparr>src_dir := f d\<rparr>) w)"
  unfolding source_free_def by blast

lemma keeps_source_update:
  assumes "source_free J"
  shows "keeps J (upload_source k name b)" and "keeps J (create_sources_dir k)" and "keeps J (delete_source k name)"
proof -
  note q = source_free_quiet [OF assms]
  show "keeps J (upload_source k name b)"
    unfolding upload_source_def
    by (intro keeps_storage_call q keepsI) (simp add: wp_def source_freeD [OF assms])
  show "keeps J (create_sources_dir k)"
    unfolding create_sources_dir_def
    by (intro keeps_storage_call q keepsI) (simp add: wp_def source_freeD [OF assms])
  have "remove_source name = (\<lambda>d. d\<lparr>src_dir := map_option (filter (\<lambda>f. fst f \<noteq> name)) (src_dir d)\<rparr>)"
    by (simp add: remove_source_def fun_eq_iff)
  then show "keeps J (delete_source k name)"
    unfolding delete_source_def
    by (intro keeps_storage_call q keepsI) (auto simp: wp_def source_freeD [OF assms] split: option.split)
qed

lemma keeps_source_read:
  assumes "quiet J"
  shows "keeps J (list_sources k)" and "keeps J (download_source k name)"
  unfolding list_sources_def download_source_def
  by (intro keeps_storage_call assms keeps_reading; simp split: option.split)+

lemma keeps_write_snapshot:
  assumes "source_free J"
  shows "keeps J (write_snapshot_parquet duck k i rs)"
proof -
  note q = source_free_quiet [OF assms]
  have "keeps J (read_diff_file k name)" for name
    unfolding read_diff_file_def
    by (intro keeps_intros keeps_source_read q) (simp_all add: keeps_ret keeps_raise split: source_blob.split)
  then have diffs: "keeps J (read_diffs_after k snap names)" for snap names
    by (induction k snap names rule: read_diffs_after.induct) (auto intro!: keeps_intros split: option.split)
  have "keeps J (read_snapshot_file k name)" for name
    unfolding read_snapshot_file_def
    by (intro keeps_intros keeps_source_read q) (simp_all add: keeps_ret keeps_raise split: source_blob.split)
  then show ?thesis
    unfolding write_snapshot_parquet_def
    by (intro keeps_intros keeps_source_read keeps_source_update diffs q assms)
qed

lemma keeps_write_batch_sources [keeps_intros]:
  "source_free J \<Longrightarrow> keeps J (write_batch_sources duck m loc i ps ts iv)"
  unfolding write_batch_sources_def write_jsonl_def
  by (intro keeps_intros keeps_source_update keeps_write_snapshot source_free_quiet)

lemma keeps_cleanup_sources [keeps_intros]:
  assumes "source_free J"
  shows "keeps J (cleanup_sources m loc n)"
proof -
  have "keeps J (delete_each k names d)" for k names d
    by (induction k names d rule: delete_each.induct) (auto intro!: keeps_intros keeps_source_update(3) assms)
  then show ?thesis
    unfolding cleanup_sources_def
    by (intro keeps_intros keeps_source_read source_free_quiet assms)
qed

section \<open>Reads\<close>

lemma keeps_download_text [keeps_intros]: "quiet J \<Longrightarrow> keeps J (download_text field name k)"
  unfolding download_text_def by (intro keeps_storage_call keeps_reading) (simp_all split: option.split)

lemma keeps_checkpoint_reads [keeps_intros]:
  assumes "quiet J"
  shows "keeps J (read_watermark m loc strict)" and "keeps J (read_pending m loc)" and "keeps J (read_owner m loc)"
    and "keeps J (watermark_last_modified m loc)"
  unfolding read_watermark_def read_pending_def read_owner_def watermark_last_modified_def
  by (intro keeps_intros assms)+

lemma keeps_list_log [keeps_intros]: "quiet J \<Longrightarrow> keeps J (list_log m loc)"
  unfolding list_log_def log_listing_def
  by (intro keeps_intros; (assumption | rule keeps_reading, simp split: option.split))

lemma keeps_read_commit [keeps_intros]: "quiet J \<Longrightarrow> keeps J (read_commit m loc v)"
  unfolding read_commit_def download_commit_def
  by (intro keeps_intros; (assumption | rule keeps_reading, simp split: option.split log_file.split))

lemma keeps_log_reads [keeps_intros]:
  assumes "quiet J"
  shows "keeps J (read_log_versions m loc)" and "keeps J (latest_version m loc)" and "keeps J (read_commits m loc vs)"
    and "keeps J (latest_metadata_commit m loc n)" and "keeps J (find_token_version m loc p vs v)"
proof -
  have from_list: "keeps J (read_commits_from m loc ws)" for ws
    by (induction ws) (auto intro!: keeps_intros assms split: option.split)
  then show commits: "keeps J (read_commits m loc vs)" for vs by (simp add: read_commits_def)
  show versions: "keeps J (read_log_versions m loc)"
    unfolding read_log_versions_def by (intro keeps_intros assms)
  then show "keeps J (latest_version m loc)"
    unfolding latest_version_def by (intro keeps_intros)
  have newest: "keeps J (newest_metadata m loc stop ws)" for stop ws
    by (induction ws) (auto intro!: keeps_intros assms split: option.split)
  have query: "keeps J (query_checkpoint k names)" for k names
    unfolding query_checkpoint_def by (intro keeps_storage_call keeps_reading assms) (simp split: option.split)
  show meta: "keeps J (latest_metadata_commit m loc n)" for n
    unfolding latest_metadata_commit_def by (intro keeps_intros newest query assms)
  show "keeps J (find_token_version m loc p vs v)"
    unfolding find_token_version_def by (intro keeps_intros commits meta)
qed

lemma keeps_listing [keeps_intros]:
  assumes "cacheless J"
  shows "keeps J (list_files m r p)" and "keeps J (enrich_with_estimates m fs)"
proof -
  show "keeps J (list_files m r p)" by (intro keepsI wp_list_files assms)
  show "keeps J (enrich_with_estimates m fs)"
    by (intro keepsI, rule wp_mono [OF wp_enrich [OF assms]]) simp_all
qed

section \<open>Jobs and claims\<close>

text \<open>\<open>J\<close> does not look at the jobs, the cancel requests or the registries of the process.\<close>

definition job_free :: "('z adla_scheme \<Rightarrow> bool) \<Rightarrow> bool" where
  "job_free J \<longleftrightarrow> quiet J \<and>
     (\<forall>w x. J w \<longrightarrow> J (w\<lparr>aw_jobs := x\<rparr>)) \<and> (\<forall>w x. J w \<longrightarrow> J (w\<lparr>aw_cancel_posts := x\<rparr>)) \<and>
     (\<forall>w x. J w \<longrightarrow> J (w\<lparr>aw_cancel_sent := x\<rparr>)) \<and>
     (\<forall>w x. J w \<longrightarrow> J (w\<lparr>aw_cancelled_ids := x\<rparr>)) \<and> (\<forall>w x. J w \<longrightarrow> J (w\<lparr>aw_confirmed_ids := x\<rparr>)) \<and>
     (\<forall>w x. J w \<longrightarrow> J (w\<lparr>aw_cancelled_models := x\<rparr>)) \<and> (\<forall>w x. J w \<longrightarrow> J (w\<lparr>aw_claimed := x\<rparr>))"

lemma job_freeD:
  assumes "job_free J" and "J w"
  shows "J (w\<lparr>aw_jobs := js\<rparr>)" "J (w\<lparr>aw_cancel_posts := x\<rparr>)" "J (w\<lparr>aw_cancel_sent := x\<rparr>)"
    "J (w\<lparr>aw_cancelled_ids := x\<rparr>)"
    "J (w\<lparr>aw_confirmed_ids := x\<rparr>)" "J (w\<lparr>aw_cancelled_models := x\<rparr>)" "J (w\<lparr>aw_claimed := cl\<rparr>)"
  using assms by (simp_all add: job_free_def)

lemma keeps_sleepM [keeps_intros]: "quiet J \<Longrightarrow> keeps J (sleepM d)"
  by (intro keepsI wp_sleepM) simp_all

lemma job_free_quiet: "job_free J \<Longrightarrow> quiet J"
  by (simp add: job_free_def)

lemma keeps_get_job [keeps_intros]: "job_free J \<Longrightarrow> keeps J (get_job m i)"
  unfolding get_job_def
  by (intro keeps_mg_retry keeps_storage_call job_free_quiet keepsI) (auto simp: wp_def job_freeD split: option.split)

lemma keeps_logged_call: "quiet J \<Longrightarrow> keeps J req \<Longrightarrow> (\<And>w. J w \<Longrightarrow> J (note w)) \<Longrightarrow> keeps J (logged_call note req)"
  by (rule keepsI, rule wp_logged_call, rule keepsD [OF keeps_storage_call]) simp_all

lemma keeps_cancel_job_async [keeps_intros]: "job_free J \<Longrightarrow> keeps J (cancel_job_async m i)"
  unfolding cancel_job_async_def
  by (intro keeps_mg_retry keeps_logged_call job_free_quiet keepsI) (simp_all add: wp_def job_freeD)

lemma keeps_notes [keeps_intros]:
  assumes "job_free J"
  shows "keeps J (note_confirmed i)" and "keeps J (note_cancelled i)" and "keeps J (note_settled model)"
  unfolding note_confirmed_def note_cancelled_def note_settled_def by (intro keeps_modifyM job_freeD [OF assms]; assumption)+

lemma keeps_poll_ended [keeps_intros]: "job_free J \<Longrightarrow> keeps J (poll_ended m i)"
  unfolding poll_ended_def by (intro keeps_intros)

lemma keeps_list_orphaned_jobs [keeps_intros]: "job_free J \<Longrightarrow> keeps J (list_orphaned_jobs m model)"
  unfolding list_orphaned_jobs_def list_jobs_def
  by (intro keeps_intros job_free_quiet keeps_reading) simp_all

lemma keeps_settle [keeps_intros]:
  assumes "job_free J"
  shows "keeps J (settle_orphaned_jobs m model mw iv)"
proof -
  note q = job_free_quiet [OF assms]
  have pass: "keeps J (poll_pass m ps)" for ps
  proof (induction ps)
    case (Cons x ps)
    then show ?case
      unfolding poll_pass.simps by (cases x) (simp, intro keeps_intros assms)
  qed (simp add: keeps_ret)
  have loop: "keeps J (settle_loop n m model mw iv dl ps)" for n dl ps
  proof (induction n arbitrary: ps)
    case (Suc n)
    show ?case unfolding settle_loop.simps by (intro keeps_intros pass q Suc.IH)
  qed (simp add: keeps_raise)
  have cancel: "keeps J (cancel_each m ps)" for ps
    unfolding cancel_each_def by (intro keeps_intros assms)
  show ?thesis
    unfolding settle_orphaned_jobs_def by (intro keeps_intros loop cancel assms)
qed

text \<open>\<open>J\<close> does not look at the owner records.\<close>

definition owner_free :: "('z store_scheme \<Rightarrow> bool) \<Rightarrow> bool" where
  "owner_free J \<longleftrightarrow> quiet J \<and> (\<forall>w k f. J w \<longrightarrow> J (set_owner_file k f w))"

lemma owner_freeD: "owner_free J \<Longrightarrow> J w \<Longrightarrow> J (set_owner_file k f w)"
  unfolding owner_free_def by blast

lemma keeps_claim_loop:
  assumes "owner_free J"
  shows "keeps J (claim_loop n k me)"
proof -
  have q: "quiet J" using assms by (simp add: owner_free_def)
  have "keeps J (upload_owner k v etag)" for v etag
    unfolding upload_owner_def
    by (intro keeps_storage_call q keepsI) (simp add: wp_def owner_freeD [OF assms] split: option.split)
  moreover have "keeps J (create_checkpoint_dir k)"
    unfolding create_checkpoint_dir_def by (intro keeps_storage_call q keeps_reading) simp
  ultimately have upload: "keeps J (claim_write k me etag)" for etag
    unfolding claim_write_def by (intro keeps_intros) auto
  have decided: "keeps J (case d of Keep o1 \<Rightarrow> ret (Some o1) | Write etag \<Rightarrow> claim_write k me etag)" for d
    by (cases d) (simp_all add: keeps_ret upload)
  have attempt: "keeps J (claim_attempt k me)"
    unfolding claim_attempt_def by (intro keeps_intros q decided)
  show ?thesis
    by (induction n) (simp_all add: keeps_raise, intro keeps_intros attempt)
qed

lemma keeps_claim_owner [keeps_intros]: "owner_free J \<Longrightarrow> keeps J (claim_owner m loc me)"
  unfolding claim_owner_def by (intro keeps_intros keeps_claim_loop) (simp_all add: owner_free_def)

lemma keeps_claim_table [keeps_intros]:
  "job_free J \<Longrightarrow> owner_free J \<Longrightarrow> keeps J (claim_table cm m model loc)"
  unfolding claim_table_def by (intro keeps_intros keeps_modifyM) (auto dest: job_freeD)

lemma keeps_ensure_table_owner [keeps_intros]: "quiet J \<Longrightarrow> keeps J (ensure_table_owner m model)"
  unfolding ensure_table_owner_def by (intro keeps_intros)

section \<open>The adapter\<close>

text \<open>\<open>J\<close> looks at nothing that the adapter changes besides the watermark and the pending batch.\<close>

definition frame :: "('z adapter_scheme \<Rightarrow> bool) \<Rightarrow> bool" where
  "frame J \<longleftrightarrow> cacheless J \<and> source_free J \<and> job_free J \<and> owner_free J \<and>
     (\<forall>w x. J w \<longrightarrow> J (w\<lparr>ad_cache := x\<rparr>)) \<and> (\<forall>w x. J w \<longrightarrow> J (w\<lparr>ad_pending := x\<rparr>)) \<and>
     (\<forall>w x. J w \<longrightarrow> J (w\<lparr>ad_total := x\<rparr>)) \<and> (\<forall>w x. J w \<longrightarrow> J (w\<lparr>aw_uuids_used := x\<rparr>))"

lemma frameD:
  assumes "frame J"
  shows "cacheless J" "source_free J" "job_free J" "owner_free J" "quiet J"
    and "J w \<Longrightarrow> J (w\<lparr>ad_cache := x\<rparr>)" and "J w \<Longrightarrow> J (w\<lparr>ad_pending := y\<rparr>)"
    and "J w \<Longrightarrow> J (w\<lparr>ad_total := n\<rparr>)" and "J w \<Longrightarrow> J (w\<lparr>aw_uuids_used := n\<rparr>)"
  using assms by (simp_all add: frame_def)

lemma keeps_list_unprocessed [keeps_intros]:
  assumes "cacheless J"
  shows "keeps J (list_unprocessed c rs ps wm buf)"
proof -
  have "keeps J (list_pairs c wm buf rps fs)" for rps fs
  proof (induction rps arbitrary: fs)
    case (Cons rp rps)
    then show ?case
      unfolding tracker_discover_def by (cases rp) (simp add: tracker_discover_def, intro keeps_intros assms)
  qed (simp add: keeps_ret)
  then show ?thesis by (simp add: list_unprocessed_def)
qed

lemma keeps_ingested_uris [keeps_intros]:
  assumes "quiet J"
  shows "keeps J (ingested_uris c loc col ks)"
proof -
  have "keeps J (distinct_column_values c loc ps col)" for ps
    unfolding distinct_column_values_def by (intro keeps_intros assms keeps_reading) simp
  then show ?thesis by (induction ks) (auto intro: keeps_intros)
qed

lemma keeps_legacy_baseline [keeps_intros]:
  assumes "quiet J"
  shows "keeps J (legacy_baseline c loc vs latest)"
proof -
  have "keeps J (legacy_loop c loc t ws b)" for t ws b
  proof (induction ws arbitrary: b)
    case (Cons v ws)
    then show ?case unfolding legacy_loop.simps by (intro keeps_intros assms)
  qed (simp add: keeps_ret)
  then show ?thesis
    unfolding legacy_baseline_def by (intro keeps_intros assms)
qed

lemma keeps_committed_delta_version [keeps_intros]: "quiet J \<Longrightarrow> keeps J (committed_delta_version c loc p)"
  unfolding committed_delta_version_def by (intro keeps_intros)

lemma keeps_list_uncached [keeps_intros]:
  assumes "cacheless J"
  shows "keeps J (list_uncached c us rps fs)"
proof (induction rps arbitrary: fs)
  case (Cons rp rps)
  then show ?case by (cases rp) (simp, intro keeps_intros assms)
qed (simp add: keeps_ret)

lemma keeps_ensure_own_table [keeps_intros]: "quiet J \<Longrightarrow> keeps J (ensure_own_table c)"
  unfolding ensure_own_table_def by (intro keeps_intros)

lemma keeps_fresh_uuid [keeps_intros]: "frame J \<Longrightarrow> keeps J fresh_uuid"
  by (intro keepsI) (simp add: wp_def fresh_uuid_def frameD)

end
