(* ===== verification/Adapter_Recovery.thy ===== *)
theory Adapter_Recovery
  imports Adapter_Frame
begin

text \<open>
  Crash recovery of the checkpoint, for every pattern of outages. The \<open>view\<close> of a table is the
  watermark and the pending batch its \<open>_checkpoint\<close> directory holds; \<open>view_in\<close> bounds the views a
  program can leave behind, at a return or at an exception or the death of the process. The
  properties say what the view can be after \<open>begin_batch\<close>, \<open>update_checkpoint\<close> and
  \<open>reconcile_checkpoint\<close>.
\<close>

section \<open>Views\<close>

datatype view = View (v_wm: "doc option") (v_pend: "doc option")

definition view :: "table_dir \<Rightarrow> view" where
  "view d = View (watermark_doc d) (pend_file d)"

definition view_watermark :: "view \<Rightarrow> pyexn + watermark option" where
  "view_watermark v = (case v_wm v of None \<Rightarrow> Inr None | Some x \<Rightarrow> bindE (watermark_from_json x) (\<lambda>wm. Inr (Some wm)))"

definition view_pending :: "view \<Rightarrow> pyexn + pending_batch option" where
  "view_pending v =
     (case v_pend v of None \<Rightarrow> Inr None
      | Some x \<Rightarrow>
          (case pending_from_json x of
             Inr p \<Rightarrow> Inr (Some p)
           | Inl e \<Rightarrow> if exn_class e \<in> {ValueErr, KeyErr, TypeErr} then Inr None else Inl e))"

lemma stored_view:
  "stored_watermark d = view_watermark (view d)" "stored_pending d = view_pending (view d)"
  by (simp_all add: stored_watermark_def view_watermark_def stored_pending_def view_pending_def view_def)

definition set_wm :: "watermark \<Rightarrow> view \<Rightarrow> view" where
  "set_wm wm v = View (Some (watermark_to_json wm)) (v_pend v)"

definition set_pend :: "pending_batch option \<Rightarrow> view \<Rightarrow> view" where
  "set_pend p v = View (v_wm v) (map_option pending_to_json p)"

lemma view_set_simps [simp]:
  "view_watermark (set_wm wm v) = Inr (Some wm)" "view_pending (set_wm wm v) = view_pending v"
  "view_watermark (set_pend p v) = view_watermark v" "view_pending (set_pend p v) = Inr p"
  "set_wm wm (set_wm wm' v) = set_wm wm v" "set_pend p (set_pend q v) = set_pend p v"
  "set_pend p (set_wm wm v) = set_wm wm (set_pend p v)"
  by (cases p; simp add: view_watermark_def view_pending_def set_wm_def set_pend_def)+

definition view_in :: "table_key \<Rightarrow> (string \<times> log_file) list \<Rightarrow> (view \<Rightarrow> bool) \<Rightarrow> 'z lake_scheme \<Rightarrow> bool" where
  "view_in k fs S w \<longleftrightarrow> S (view (st_tables w k)) \<and> log_files w k = fs"

lemma view_in_mono: "view_in k fs S w \<Longrightarrow> (\<And>v. S v \<Longrightarrow> T v) \<Longrightarrow> view_in k fs T w"
  by (simp add: view_in_def)

lemma view_in_unfold:
  "view_in k fs S w = (S (view (st_tables w k)) \<and> (case lk_log w k of None \<Rightarrow> [] | Some fs \<Rightarrow> fs) = fs)"
  by (simp add: view_in_def log_files_def)

lemma view_in_upd_table:
  "view_in k fs S w \<Longrightarrow> (\<And>d. view (f d) = view d) \<Longrightarrow> view_in k fs S (upd_table k' f w)"
  by (cases "k' = k") (simp_all add: view_in_unfold upd_table_def)

lemma view_in_owner: "view_in k fs S w \<Longrightarrow> view_in k fs S (set_owner_file k' f w)"
  using view_in_upd_table [of k fs S w "\<lambda>d. d\<lparr>own_file := fst f\<rparr>" k']
  by (simp add: set_owner_file_def view_in_unfold view_def watermark_doc_def)

lemma view_in_sources: "view_in k fs S w \<Longrightarrow> view_in k fs S (upd_table k' (\<lambda>d. d\<lparr>src_dir := f d\<rparr>) w)"
  by (rule view_in_upd_table) (simp_all add: view_def watermark_doc_def)

lemma frame_view_in [simp]: "frame (view_in k fs S :: 'z adapter_scheme \<Rightarrow> bool)"
proof -
  have "source_free (view_in k fs S :: 'z adapter_scheme \<Rightarrow> bool)" "owner_free (view_in k fs S :: 'z adapter_scheme \<Rightarrow> bool)"
    unfolding source_free_def owner_free_def
    by (auto intro: view_in_sources view_in_owner) (simp_all add: quiet_def clock_free_def fault_free_def view_in_unfold)
  then show ?thesis
    by (simp add: frame_def cacheless_def job_free_def source_free_def) (simp add: view_in_unfold)
qed

lemma view_in_quiet [simp]: "quiet (view_in k fs S :: 'z lake_scheme \<Rightarrow> bool)"
  by (simp add: quiet_def clock_free_def fault_free_def view_in_unfold)

lemma view_in_reads_log: "abfss_parse loc = Some l \<Longrightarrow> reads_log (view_in (table_key l) fs S) loc fs"
  by (simp add: reads_log_def log_fixed_def view_in_def)

lemma view_in_put_watermark:
  "view_in k fs S w \<Longrightarrow> view_in k fs (\<lambda>v. \<exists>u. S u \<and> v = set_wm wm u) (upd_table k (put_watermark (watermark_to_json wm) t) w)"
  by (auto simp: view_in_unfold upd_table_def put_watermark_def view_def watermark_doc_def set_wm_def)

lemma view_in_put_pending:
  "view_in k fs S w \<Longrightarrow> view_in k fs (\<lambda>v. \<exists>u. S u \<and> v = set_pend (Some p) u) (upd_table k (put_pending (pending_to_json p) t) w)"
  by (auto simp: view_in_unfold upd_table_def put_pending_def view_def watermark_doc_def set_pend_def)

lemma view_in_drop_pending:
  "view_in k fs S w \<Longrightarrow> view_in k fs (\<lambda>v. \<exists>u. S u \<and> v = set_pend None u) (upd_table k drop_pending w)"
  by (auto simp: view_in_unfold upd_table_def drop_pending_def view_def watermark_doc_def set_pend_def)

section \<open>Reads and writes\<close>

lemma wp_view_read_watermark:
  fixes w :: "'z lake_scheme"
  assumes "view_in k fs S w" and "abfss_parse loc = Some l" and "k = table_key l"
  shows "wp (read_watermark m loc True) (\<lambda>r. view_in k fs (\<lambda>v. S v \<and> view_watermark v = Inr r)) (\<lambda>_. view_in k fs S) w"
  by (rule wp_mono [OF wp_read_watermark_strict [OF view_in_quiet assms(1,2)]])
     (auto simp: stored_view view_in_def assms(3))

lemma wp_view_read_pending:
  fixes w :: "'z lake_scheme"
  assumes "view_in k fs S w" and "abfss_parse loc = Some l" and "k = table_key l"
  shows "wp (read_pending m loc) (\<lambda>r. view_in k fs (\<lambda>v. S v \<and> view_pending v = Inr r)) (\<lambda>_. view_in k fs S) w"
  by (rule wp_mono [OF wp_read_pending [OF view_in_quiet assms(1,2)]])
     (auto simp: stored_view view_in_def assms(3))

lemma wp_view_write_watermark:
  fixes w :: "'z lake_scheme"
  assumes "view_in k fs S w" and "abfss_parse loc = Some l" and "k = table_key l"
  shows "wp (write_watermark m loc wm) (\<lambda>_. view_in k fs (\<lambda>v. \<exists>u. S u \<and> v = set_wm wm u))
    (\<lambda>_. view_in k fs (\<lambda>v. S v \<or> (\<exists>u. S u \<and> v = set_wm wm u))) w"
proof -
  let ?T = "\<lambda>v. \<exists>u. S u \<and> v = set_wm wm u"
  have "view_in k fs ?T (upd_table k (put_watermark (watermark_to_json wm) t) u)"
    if "view_in k fs S u \<or> view_in k fs ?T u" for u :: "'z lake_scheme" and t
    using that
    by (elim disjE) (rule view_in_put_watermark, assumption, rule view_in_mono [OF view_in_put_watermark], assumption, auto)
  then have "wp (write_watermark m loc wm) (\<lambda>_. view_in k fs ?T) (\<lambda>_ u. view_in k fs S u \<or> view_in k fs ?T u) w"
    by (intro wp_write_watermark) (use assms in auto)
  then show ?thesis by (rule wp_mono) (auto simp: view_in_def)
qed

lemma wp_view_write_pending:
  fixes w :: "'z lake_scheme"
  assumes "view_in k fs S w" and "abfss_parse loc = Some l" and "k = table_key l"
  shows "wp (write_pending m loc p) (\<lambda>_. view_in k fs (\<lambda>v. \<exists>u. S u \<and> v = set_pend (Some p) u))
    (\<lambda>_. view_in k fs (\<lambda>v. S v \<or> (\<exists>u. S u \<and> v = set_pend (Some p) u))) w"
proof -
  let ?T = "\<lambda>v. \<exists>u. S u \<and> v = set_pend (Some p) u"
  have "view_in k fs ?T (upd_table k (put_pending (pending_to_json p) t) u)"
    if "view_in k fs S u \<or> view_in k fs ?T u" for u :: "'z lake_scheme" and t
    using that
    by (elim disjE) (rule view_in_put_pending, assumption, rule view_in_mono [OF view_in_put_pending], assumption, auto)
  then have "wp (write_pending m loc p) (\<lambda>_. view_in k fs ?T) (\<lambda>_ u. view_in k fs S u \<or> view_in k fs ?T u) w"
    by (intro wp_write_pending) (use assms in auto)
  then show ?thesis by (rule wp_mono) (auto simp: view_in_def)
qed

text \<open>Deleting the pending batch may be given up silently.\<close>

lemma wp_view_delete_pending:
  fixes w :: "'z lake_scheme"
  assumes "view_in k fs S w" and "abfss_parse loc = Some l" and "k = table_key l"
  shows "wp (delete_pending m loc False) (\<lambda>_. view_in k fs (\<lambda>v. S v \<or> (\<exists>u. S u \<and> v = set_pend None u)))
    (\<lambda>_. view_in k fs (\<lambda>v. S v \<or> (\<exists>u. S u \<and> v = set_pend None u))) w"
proof -
  let ?T = "\<lambda>v. \<exists>u. S u \<and> v = set_pend None u"
  have "view_in k fs ?T (upd_table k drop_pending u)"
    if "view_in k fs S u \<or> view_in k fs ?T u" for u :: "'z lake_scheme"
    using that
    by (elim disjE) (rule view_in_drop_pending, assumption, rule view_in_mono [OF view_in_drop_pending], assumption, auto)
  then have "wp (delete_pending m loc False) (\<lambda>_ u. view_in k fs ?T u \<or> (\<not> False \<and> view_in k fs S u))
      (\<lambda>_ u. view_in k fs S u \<or> view_in k fs ?T u) w"
    by (intro wp_delete_pending) (use assms in auto)
  then show ?thesis by (rule wp_mono) (auto simp: view_in_def)
qed

section \<open>record\_batch\<close>

definition new_watermark :: "file_info list \<Rightarrow> watermark option \<Rightarrow> int option \<Rightarrow> watermark" where
  "new_watermark fs current v = (compute_new_watermark fs current)\<lparr>wm_delta_version := v\<rparr>"

lemma wp_view_record_batch:
  fixes w :: "'z adapter_scheme"
  assumes "view_in k fs S w" and "abfss_parse loc = Some l" and "k = table_key l"
  shows "wp (record_batch c loc files current v iv rt)
    (\<lambda>r u. r = new_watermark files current v \<and> view_in k fs (\<lambda>x. \<exists>u. S u \<and> x = set_wm (new_watermark files current v) u) u)
    (\<lambda>_. view_in k fs (\<lambda>x. S x \<or> (\<exists>u. S u \<and> x = set_wm (new_watermark files current v) u))) w"
proof -
  let ?new = "new_watermark files current v" and ?m = "en_manager c"
  let ?T = "\<lambda>x. \<exists>u. S u \<and> x = set_wm ?new u"
  let ?rest = "thenM (write_batch_sources (en_duck c) ?m loc (wm_batch_id ?new) (map fi_path files)
      (map fi_modification_time files) iv) (thenM (cleanup_sources ?m loc rt) (ret ?new))"
  have J: "source_free (view_in k fs ?T :: 'z adapter_scheme \<Rightarrow> bool)" by (rule frameD(2) [OF frame_view_in])
  have rest: "wp ?rest (\<lambda>r u. r = ?new \<and> view_in k fs ?T u) (\<lambda>_. view_in k fs ?T) u"
    if "view_in k fs ?T u" for u :: "'z adapter_scheme"
  proof -
    have "wp (thenM (cleanup_sources ?m loc rt) (ret ?new)) (\<lambda>r u. r = ?new \<and> view_in k fs ?T u) (\<lambda>_. view_in k fs ?T) u"
      if "view_in k fs ?T u" for u :: "'z adapter_scheme"
      unfolding wp_thenM by (rule wp_mono [OF keepsD [OF keeps_cleanup_sources [OF J] that]]) (simp_all add: wp_ret)
    then show ?thesis
      unfolding wp_thenM [of "write_batch_sources _ _ _ _ _ _ _"]
      by (intro wp_mono [OF keepsD [OF keeps_write_batch_sources [OF J] that]])
  qed
  have "wp (thenM (write_watermark ?m loc ?new) ?rest) (\<lambda>r u. r = ?new \<and> view_in k fs ?T u)
      (\<lambda>_. view_in k fs (\<lambda>x. S x \<or> ?T x)) w"
    unfolding wp_thenM [of "write_watermark _ _ _"]
    by (rule wp_mono [OF wp_view_write_watermark [OF assms]], rule wp_mono [OF rest]) (auto elim: view_in_mono)
  then show ?thesis by (simp add: record_batch_def Let_def new_watermark_def)
qed

section \<open>Resolving the pending batch\<close>

text \<open>The pending batch of a view is the one that applies to its watermark and is in the log.\<close>

definition recovered :: "pending_batch \<Rightarrow> watermark option \<Rightarrow> (string \<times> log_file) list \<Rightarrow> watermark" where
  "recovered p wm fs = new_watermark (pending_infos p) wm (token_version_of fs p)"

definition committed_pending :: "view \<Rightarrow> watermark option \<Rightarrow> (string \<times> log_file) list \<Rightarrow> pending_batch option" where
  "committed_pending v wm fs =
     (case view_pending v of
        Inr (Some p) \<Rightarrow> if applies_to p wm \<and> token_version_of fs p \<noteq> None then Some p else None
      | _ \<Rightarrow> None)"

lemma wp_resolve_pending:
  fixes w :: "'z adapter_scheme"
  assumes "view_in k fs (\<lambda>v. v = v0) w" and "abfss_parse loc = Some l" and "k = table_key l"
  shows "wp (resolve_pending c loc wm (commit_versions fs) (log_latest fs) iv rt)
    (\<lambda>r. case committed_pending v0 wm fs of
        Some p \<Rightarrow> (\<lambda>u. r = Some (recovered p wm fs) \<and>
          view_in k fs (\<lambda>v. v = set_wm (recovered p wm fs) v0 \<or> v = set_pend None (set_wm (recovered p wm fs) v0)) u)
      | None \<Rightarrow> (\<lambda>u. r = wm \<and> view_in k fs (\<lambda>v. v = v0 \<or> v = set_pend None v0) u))
    (\<lambda>_. view_in k fs (\<lambda>v. v = v0 \<or> (case committed_pending v0 wm fs of
        Some p \<Rightarrow> v = set_wm (recovered p wm fs) v0 \<or> v = set_pend None (set_wm (recovered p wm fs) v0)
      | None \<Rightarrow> v = set_pend None v0))) w"
  (is "wp _ ?q ?e w")
proof -
  let ?m = "en_manager c" and ?V = "\<lambda>S u :: 'z adapter_scheme. view_in k fs S u"
  let ?find = "\<lambda>p. find_token_version ?m loc p (commit_versions fs) (log_latest fs)"
  let ?give_up = "thenM (delete_pending ?m loc False) (ret wm)"
  let ?commit = "\<lambda>p v. bindM (record_batch c loc (pending_infos p) wm (Some v) iv rt) (\<lambda>new.
      thenM (delete_pending ?m loc False) (ret (Some new)))"
  have drop: "wp ?give_up ?q ?e u" if "committed_pending v0 wm fs = None" "?V (\<lambda>v. v = v0) u" for u
    unfolding wp_thenM
    by (rule wp_mono [OF wp_view_delete_pending [OF that(2) assms(2,3)]])
       (use that(1) in \<open>auto simp: wp_ret elim: view_in_mono\<close>)
  have commit: "wp (?commit p v) ?q ?e u"
    if p: "committed_pending v0 wm fs = Some p" "token_version_of fs p = Some v" and u: "?V (\<lambda>v. v = v0) u" for p v u
  proof -
    have r: "recovered p wm fs = new_watermark (pending_infos p) wm (Some v)" using p(2) by (simp add: recovered_def)
    have "wp (thenM (delete_pending ?m loc False) (ret (Some (recovered p wm fs)))) ?q ?e u'"
      if "?V (\<lambda>x. \<exists>u. u = v0 \<and> x = set_wm (recovered p wm fs) u) u'" for u'
      unfolding wp_thenM
      by (rule wp_mono [OF wp_view_delete_pending [OF that assms(2,3)]])
         (use p(1) in \<open>auto simp: wp_ret elim!: view_in_mono\<close>)
    then show ?thesis
      unfolding wp_bindM [of "record_batch _ _ _ _ _ _ _"]
      by (intro wp_mono [OF wp_view_record_batch [OF u assms(2,3)]])
         (use p(1) in \<open>auto simp: r elim!: view_in_mono\<close>)
  qed
  have resolve: "wp (if \<not> applies_to p wm then ?give_up
      else bindM (?find p) (\<lambda>version. case version of None \<Rightarrow> ?give_up | Some v \<Rightarrow> ?commit p v)) ?q ?e u"
    if p: "view_pending v0 = Inr (Some p)" and u: "?V (\<lambda>v. v = v0) u" for p u
  proof (cases "applies_to p wm")
    case False
    then have "committed_pending v0 wm fs = None" by (simp add: committed_pending_def p)
    then show ?thesis using False drop [OF _ u] by simp
  next
    case True
    have "wp (case version of None \<Rightarrow> ?give_up | Some v \<Rightarrow> ?commit p v) ?q ?e u'"
      if "?V (\<lambda>v. v = v0) u' \<and> version = token_version_of fs p" for version u'
      using that drop commit True by (auto simp: committed_pending_def p split: option.split)
    then show ?thesis
      using True wp_find_token_version [OF view_in_reads_log [OF assms(2)], of fs "\<lambda>v. v = v0" u ?m p] u assms(3)
      by (simp add: wp_bindM [of "?find p"]) (erule wp_mono, auto elim: view_in_mono)
  qed
  have "wp (case pending of None \<Rightarrow> ret wm | Some p \<Rightarrow>
      if \<not> applies_to p wm then ?give_up
      else bindM (?find p) (\<lambda>version. case version of None \<Rightarrow> ?give_up | Some v \<Rightarrow> ?commit p v)) ?q ?e u"
    if "?V (\<lambda>v. v = v0 \<and> view_pending v = Inr pending) u" for pending u
  proof -
    have "view_pending v0 = Inr pending" and u: "?V (\<lambda>v. v = v0) u" using that by (auto simp: view_in_def)
    then show ?thesis
      using resolve [of _ u] by (cases pending) (auto simp: wp_ret committed_pending_def elim: view_in_mono)
  qed
  then show ?thesis
    unfolding resolve_pending_def Let_def wp_bindM [of "read_pending _ _"]
    by (intro wp_mono [OF wp_view_read_pending [OF assms]]) (auto elim: view_in_mono)
qed

section \<open>Adopting unrecorded commits\<close>

lemma discovered_after_watermark:
  assumes "discover_unprocessed_files fs now wm buf = Inr out"
  shows "\<forall>f \<in> set out. after_watermark (wm_instant wm) f"
proof (cases "wm_readable wm")
  case True
  then show ?thesis using assms by (auto simp: discover_unprocessed_filter)
next
  case False
  have naive: "keep_unprocessed cut (Some d) fs = Inr out \<Longrightarrow> \<not> is_aware d \<Longrightarrow> out = []" for cut d
    by (induction fs arbitrary: out) (auto split: if_splits)
  obtain v where wm: "wm = Some v" using False by (cases wm) (auto simp: wm_readable_def)
  obtain md where md: "modified_time_dt v = Inr md"
    using assms wm by (cases "modified_time_dt v") (auto simp: discover_unprocessed_files_def bindE_def)
  obtain d where d: "md = Some d" "\<not> is_aware d"
    using False wm md by (auto simp: wm_readable_def split: option.splits)
  have "keep_unprocessed (now - buf * 1000000) (Some d) fs = Inr out"
    using assms wm md d(1) by (simp add: discover_unprocessed_files_def Let_def bindE_def)
  from naive [OF this d(2)] show ?thesis by simp
qed

lemma set_add_unseen: "set (add_unseen files fs) \<subseteq> set files \<union> set fs"
  by (induction files fs rule: add_unseen.induct) auto

lemma wp_list_unprocessed:
  fixes w :: "'z adapter_scheme"
  assumes "cacheless J" and "J w"
  shows "wp (list_unprocessed c rs ps wm buf) (\<lambda>r u. J u \<and> (\<forall>f \<in> set r. after_watermark (wm_instant wm) f)) (\<lambda>_. J) w"
proof -
  have "wp (list_pairs c wm buf rps fs) (\<lambda>r u. J u \<and> (\<forall>f \<in> set r. after_watermark (wm_instant wm) f)) (\<lambda>_. J) u"
    if "J u" and "\<forall>f \<in> set fs. after_watermark (wm_instant wm) f" for rps fs and u :: "'z adapter_scheme"
    using that
  proof (induction rps arbitrary: fs u)
    case (Cons rp rps)
    obtain r p where rp: "rp = (r, p)" by (cases rp)
    have "wp (tracker_discover c r p wm buf) (\<lambda>out u. J u \<and> (\<forall>f \<in> set out. after_watermark (wm_instant wm) f)) (\<lambda>_. J) u"
      unfolding tracker_discover_def wp_bindM [of "list_files _ _ _"]
      by (rule wp_mono [OF wp_list_files [OF assms(1) Cons.prems(1)]])
         (auto simp: wp_bindM now_us_def wp_asks wp_liftE dest: discovered_after_watermark split: sum.split)
    then show ?case
      unfolding rp list_pairs.simps wp_bindM
      by (rule wp_mono, intro Cons.IH) (use Cons.prems(2) set_add_unseen in fastforce)+
  qed (simp add: wp_ret)
  then show ?thesis using assms(2) by (simp add: list_unprocessed_def)
qed

text \<open>A URI that some ScopeEngine commit of the log recorded.\<close>

definition recorded_uri :: "env \<Rightarrow> abfss_location \<Rightarrow> (string \<times> log_file) list \<Rightarrow> string \<Rightarrow> bool" where
  "recorded_uri c l fs u \<longleftrightarrow> (\<exists>k \<in> set (commits_at fs (commit_versions fs)). is_scope_engine k \<and>
     (\<exists>col. u \<in> set (en_values c (map (data_url l) (added_data_paths k)) col)))"

text \<open>\<open>wm'\<close> is \<open>wm\<close> moved over files that recorded URIs match, as far as adoption may go.\<close>

definition adopts :: "env \<Rightarrow> abfss_location \<Rightarrow> (string \<times> log_file) list \<Rightarrow> watermark \<Rightarrow> watermark \<Rightarrow> bool" where
  "adopts c l fs wm wm' \<longleftrightarrow>
     (\<exists>listing uris. sorted (map fi_modification_time listing) \<and>
        (\<forall>f \<in> set listing. after_watermark (wm_instant (Some wm)) f) \<and> (\<forall>u \<in> set uris. recorded_uri c l fs u) \<and>
        adoptable_prefix listing (match_source_files uris listing) \<noteq> [] \<and>
        wm' = new_watermark (adoptable_prefix listing (match_source_files uris listing)) (Some wm) (Some (log_latest fs)))"

lemma wp_ingested_uris:
  fixes w :: "'z adapter_scheme"
  assumes "quiet J" and "J w" and "abfss_parse loc = Some l"
  shows "wp (ingested_uris c loc col ks)
    (\<lambda>r u. J u \<and> (\<forall>x \<in> set r. \<exists>k \<in> set ks. x \<in> set (en_values c (map (data_url l) (added_data_paths k)) col))) (\<lambda>_. J) w"
  using assms(2)
proof (induction ks arbitrary: w)
  case (Cons k ks)
  let ?v = "en_values c (map (data_url l) (added_data_paths k)) col"
  have "wp (storage_call (\<lambda>w. (Inr ?v, w))) (\<lambda>r u. J u \<and> r = ?v) (\<lambda>_. J) w"
    by (rule wp_storage_call) (use quiet_faults [OF assms(1) Cons.prems] in \<open>simp_all add: wp_def\<close>)
  then have "wp (distinct_column_values c loc (added_data_paths k) col) (\<lambda>r u. J u \<and> set r \<subseteq> set ?v) (\<lambda>_. J) w"
    unfolding distinct_column_values_def using Cons.prems assms(3) by (auto simp: wp_ret elim!: wp_mono)
  then show ?case
    unfolding ingested_uris.simps wp_bindM [of "distinct_column_values _ _ _ _"]
  proof (rule wp_mono)
    fix us and u :: "'z adapter_scheme"
    assume u: "J u \<and> set us \<subseteq> set ?v"
    then show "wp (bindM (ingested_uris c loc col ks) (\<lambda>rest. ret (us @ rest)))
        (\<lambda>r u. J u \<and> (\<forall>x \<in> set r. \<exists>k \<in> set (k # ks). x \<in> set (en_values c (map (data_url l) (added_data_paths k)) col)))
        (\<lambda>_. J) u"
      unfolding wp_bindM by (intro wp_mono [OF Cons.IH]) (auto simp: wp_ret)
  qed
qed (simp add: wp_ret)

lemma commits_at_subset: "set vs \<subseteq> set (commit_versions fs) \<Longrightarrow> set (commits_at fs vs) \<subseteq> set (commits_at fs (commit_versions fs))"
  by (auto simp: commits_at_def set_map_filter)

lemma wp_adopt_unrecorded:
  fixes w :: "'z adapter_scheme"
  assumes "view_in k fs S w" and "abfss_parse loc = Some l" and "k = table_key l"
    and "set vs \<subseteq> set (commit_versions fs)"
  shows "wp (adopt_unrecorded_commits c loc rs ps wm vs (log_latest fs) buf iv rt)
    (\<lambda>r u. (r = wm \<and> view_in k fs S u) \<or>
       (adopts c l fs wm r \<and> view_in k fs (\<lambda>x. \<exists>y. S y \<and> x = set_wm r y) u))
    (\<lambda>_. view_in k fs (\<lambda>x. S x \<or> (\<exists>wm' y. adopts c l fs wm wm' \<and> S y \<and> x = set_wm wm' y))) w"
  (is "wp _ ?q ?e w")
proof -
  let ?m = "en_manager c" and ?V = "\<lambda>S u :: 'z adapter_scheme. view_in k fs S u"
  have q: "quiet (?V S)" by (rule frameD(5) [OF frame_view_in])
  have cl: "cacheless (?V S)" by (rule frameD(1) [OF frame_view_in])
  have S_e: "?e x u" if "?V S u" for x and u :: "'z adapter_scheme" using that by (rule view_in_mono) simp
  let ?rec_fs = "\<lambda>uris listed. let unprocessed = sort_key fi_modification_time listed;
                  pre = adoptable_prefix unprocessed (match_source_files uris unprocessed) in
              if pre = [] then ret wm
              else record_batch c loc pre (Some wm) (Some (log_latest fs)) iv rt"
  let ?after = "\<lambda>r. \<forall>f \<in> set r. after_watermark (wm_instant (Some wm)) f"
  have recording: "wp (?rec_fs uris listed) ?q ?e u"
    if u: "?V S u" and uris: "\<forall>x \<in> set uris. recorded_uri c l fs x" and listed: "?after listed"
    for uris listed and u :: "'z adapter_scheme"
  proof -
    let ?un = "sort_key fi_modification_time listed"
    let ?pre = "adoptable_prefix ?un (match_source_files uris ?un)"
    have adopted: "adopts c l fs wm (new_watermark ?pre (Some wm) (Some (log_latest fs)))" if "?pre \<noteq> []"
      unfolding adopts_def using that uris listed
      by (intro exI [of _ ?un] exI [of _ uris]) simp
    then have "?q (new_watermark ?pre (Some wm) (Some (log_latest fs))) v"
      if "?pre \<noteq> []" "?V (\<lambda>x. \<exists>y. S y \<and> x = set_wm (new_watermark ?pre (Some wm) (Some (log_latest fs))) y) v"
      for v :: "'z adapter_scheme"
      using that by blast
    moreover have "?e x v"
      if "?pre \<noteq> []" "?V (\<lambda>x. S x \<or> (\<exists>y. S y \<and> x = set_wm (new_watermark ?pre (Some wm) (Some (log_latest fs))) y)) v"
      for x and v :: "'z adapter_scheme"
      using that(2) by (rule view_in_mono) (use adopted that(1) in blast)
    ultimately have recorded: "?pre \<noteq> [] \<Longrightarrow> wp (record_batch c loc ?pre (Some wm) (Some (log_latest fs)) iv rt) ?q ?e u"
      by (intro wp_mono [OF wp_view_record_batch [OF u assms(2,3)]]) blast+
    show ?thesis
    proof (cases "?pre = []")
      case False
      then show ?thesis using recorded by (simp add: Let_def)
    qed (use u in \<open>simp add: Let_def wp_ret\<close>)
  qed
  have ingested: "wp (bindM (ingested_uris c loc col commits) (\<lambda>uris.
      bindM (list_unprocessed c rs ps (Some wm) buf) (?rec_fs uris))) ?q ?e u"
    if u: "?V S u" and commits: "\<forall>k \<in> set commits. k \<in> set (commits_at fs (commit_versions fs)) \<and> is_scope_engine k"
    for col commits and u :: "'z adapter_scheme"
  proof -
    have "wp (bindM (list_unprocessed c rs ps (Some wm) buf) (?rec_fs uris)) ?q ?e v"
      if "?V S v" "\<forall>x \<in> set uris. recorded_uri c l fs x" for uris and v :: "'z adapter_scheme"
      unfolding wp_bindM [of "list_unprocessed _ _ _ _ _"]
      by (rule wp_mono [OF wp_list_unprocessed [OF cl that(1)]]) (use recording that(2) S_e in blast)+
    moreover have "\<forall>x \<in> set uris. recorded_uri c l fs x"
      if "\<forall>x \<in> set uris. \<exists>k \<in> set commits. x \<in> set (en_values c (map (data_url l) (added_data_paths k)) col)" for uris
      using that commits unfolding recorded_uri_def by blast
    ultimately show ?thesis
      unfolding wp_bindM [of "ingested_uris _ _ _ _"]
      by (intro wp_mono [OF wp_ingested_uris [OF q u assms(2)]]) (blast, use S_e in blast)
  qed
  have rest: "wp (bindM (case find has_schema (rev commits) of Some k \<Rightarrow> ret (Some k)
               | None \<Rightarrow> latest_metadata_commit ?m loc 100) (\<lambda>schema_commit.
        bindM (liftE (physical_column_name (en_loads c)
                 (case schema_commit of Some k \<Rightarrow> schema_string k | None \<Rightarrow> None) source_file_column)) (\<lambda>column.
          case column of
            None \<Rightarrow> ret wm
          | Some col \<Rightarrow> bindM (ingested_uris c loc col commits) (\<lambda>uris.
              bindM (list_unprocessed c rs ps (Some wm) buf) (?rec_fs uris))))) ?q ?e u"
    if u: "?V S u" and commits: "\<forall>k \<in> set commits. k \<in> set (commits_at fs (commit_versions fs)) \<and> is_scope_engine k"
    for commits and u :: "'z adapter_scheme"
  proof -
    have "keeps (?V S) (case find has_schema (rev commits) of Some k \<Rightarrow> ret (Some k)
        | None \<Rightarrow> latest_metadata_commit ?m loc 100)"
      by (auto intro: keeps_ret keeps_log_reads q split: option.split)
    then show ?thesis
      unfolding wp_bindM [of "case_option _ _ _"] using u
      by (elim wp_mono [OF keepsD])
         (use ingested commits S_e in \<open>auto simp: wp_bindM [of "liftE _"] wp_liftE wp_ret split: sum.split option.split\<close>)
  qed
  let ?ks = "filter (\<lambda>k. is_scope_engine k \<and> added_data_paths k \<noteq> []) (commits_at fs vs)"
  have scope: "\<forall>k \<in> set ?ks. k \<in> set (commits_at fs (commit_versions fs)) \<and> is_scope_engine k"
    using commits_at_subset [OF assms(4)] by auto
  have S_q: "?q wm u" if "?V S u" for u :: "'z adapter_scheme" using that by simp
  show ?thesis
    unfolding adopt_unrecorded_commits_def wp_bindM [of "read_commits _ _ _"] Let_def [of "en_manager c"]
      Let_def [of "filter _ _"]
  proof (rule wp_mono [OF wp_read_commits [OF view_in_reads_log [OF assms(2)]]])
    show "view_in (table_key l) fs S w" using assms(1,3) by simp
  next
    fix a and v :: "'z adapter_scheme"
    assume "view_in (table_key l) fs S v \<and> a = commits_at fs vs"
    then have a: "a = commits_at fs vs" and v: "?V S v" using assms(3) by auto
    show "wp (if filter (\<lambda>k. is_scope_engine k \<and> added_data_paths k \<noteq> []) a = [] then ret wm
        else bindM (case find has_schema (rev (filter (\<lambda>k. is_scope_engine k \<and> added_data_paths k \<noteq> []) a)) of
               Some k \<Rightarrow> ret (Some k) | None \<Rightarrow> latest_metadata_commit ?m loc 100) (\<lambda>schema_commit.
          bindM (liftE (physical_column_name (en_loads c)
                   (case schema_commit of Some k \<Rightarrow> schema_string k | None \<Rightarrow> None) source_file_column)) (\<lambda>column.
            case column of
              None \<Rightarrow> ret wm
            | Some col \<Rightarrow> bindM (ingested_uris c loc col (filter (\<lambda>k. is_scope_engine k \<and> added_data_paths k \<noteq> []) a)) (\<lambda>uris.
                bindM (list_unprocessed c rs ps (Some wm) buf) (?rec_fs uris))))) ?q ?e v"
    proof (cases "?ks = []")
      case True
      then show ?thesis using S_q [OF v] by (simp add: a wp_ret)
    next
      case False
      then show ?thesis using rest [OF v scope] by (simp only: a if_False)
    qed
  next
    show "view_in (table_key l) fs S v \<Longrightarrow> ?e x v" for x and v :: "'z adapter_scheme"
      using S_e [of v] assms(3) by simp
  qed
qed

text \<open>
  The views \<open>adopt_step\<close> and the final write can leave, from a view of \<open>S\<close> with watermark \<open>wm\<close>: that view,
  the same position at the latest version, or \<open>wm\<close> moved over adopted files.
\<close>

definition settled :: "env \<Rightarrow> abfss_location \<Rightarrow> (string \<times> log_file) list \<Rightarrow> watermark \<Rightarrow> (view \<Rightarrow> bool) \<Rightarrow> view \<Rightarrow> bool" where
  "settled c l fs wm S x \<longleftrightarrow>
     (\<exists>y. S y \<and> (x = y \<or> x = set_wm (wm\<lparr>wm_delta_version := Some (log_latest fs)\<rparr>) y \<or>
        (\<exists>wm'. adopts c l fs wm wm' \<and> x = set_wm wm' y)))"

lemma adopts_delta_version: "adopts c l fs wm wm' \<Longrightarrow> wm_delta_version wm' = Some (log_latest fs)"
  by (auto simp: adopts_def new_watermark_def)

lemma wp_adopt_step:
  fixes w :: "'z adapter_scheme"
  assumes "view_in k fs S w" and "abfss_parse loc = Some l" and "k = table_key l"
  shows "wp (adopt_step c loc rs ps wm (commit_versions fs) (log_latest fs) buf iv rt)
    (\<lambda>r u. (r = wm \<and> view_in k fs (settled c l fs wm S) u) \<or>
       (adopts c l fs wm r \<and> view_in k fs (\<lambda>x. \<exists>y. S y \<and> x = set_wm r y) u))
    (\<lambda>_. view_in k fs (settled c l fs wm S)) w"
  (is "wp _ ?q ?e w")
proof -
  let ?V = "\<lambda>S u :: 'z adapter_scheme. view_in k fs S u" and ?vs = "commit_versions fs" and ?latest = "log_latest fs"
  let ?base = "case wm_delta_version wm of Some v \<Rightarrow> ret v | None \<Rightarrow> legacy_baseline c loc ?vs ?latest"
  let ?adopt = "\<lambda>b. if b < ?latest then adopt_unrecorded_commits c loc rs ps wm (filter (\<lambda>v. b < v) ?vs) ?latest buf iv rt
      else ret wm"
  have q: "quiet (?V S)" by (rule frameD(5) [OF frame_view_in])
  have S_settled: "?V (settled c l fs wm S) u" if "?V S u" for u :: "'z adapter_scheme"
    using that by (rule view_in_mono) (auto simp: settled_def)
  have adopted: "?e x u" if "?V (\<lambda>x. S x \<or> (\<exists>wm' y. adopts c l fs wm wm' \<and> S y \<and> x = set_wm wm' y)) u"
    for x and u :: "'z adapter_scheme"
    using that by (rule view_in_mono) (unfold settled_def, blast)
  have "wp (?adopt b) ?q ?e u" if u: "?V S u" for b and u :: "'z adapter_scheme"
  proof (cases "b < ?latest")
    case True
    have "wp (adopt_unrecorded_commits c loc rs ps wm (filter (\<lambda>v. b < v) ?vs) ?latest buf iv rt) ?q ?e u"
      by (rule wp_mono [OF wp_adopt_unrecorded [OF u assms(2,3)]]) (simp, use S_settled in blast, use adopted in blast)
    then show ?thesis using True by simp
  qed (use u S_settled in \<open>simp add: wp_ret\<close>)
  moreover have "keeps (?V S) ?base"
    by (auto intro: keeps_ret keeps_legacy_baseline q split: option.split)
  ultimately have "wp (bindM ?base ?adopt) ?q ?e w"
    unfolding wp_bindM [of ?base] using assms(1) S_settled by (elim wp_mono [OF keepsD]) auto
  then show ?thesis
    unfolding adopt_step_def wp_tryM by (rule wp_mono) (auto simp: wp_ret wp_raise)
qed

section \<open>reconcile\_checkpoint\<close>

text \<open>The views of a table with view \<open>v0\<close> after its pending batch was resolved, and the watermark then.\<close>

definition resolved_views :: "view \<Rightarrow> watermark option \<Rightarrow> (string \<times> log_file) list \<Rightarrow> view \<Rightarrow> bool" where
  "resolved_views v0 wm fs x \<longleftrightarrow>
     (let v1 = (case committed_pending v0 wm fs of Some p \<Rightarrow> set_wm (recovered p wm fs) v0 | None \<Rightarrow> v0)
      in x = v1 \<or> x = set_pend None v1)"

definition resolved_watermark :: "view \<Rightarrow> watermark option \<Rightarrow> (string \<times> log_file) list \<Rightarrow> watermark option" where
  "resolved_watermark v0 wm fs =
     (case committed_pending v0 wm fs of Some p \<Rightarrow> Some (recovered p wm fs) | None \<Rightarrow> wm)"

definition reconciled :: "env \<Rightarrow> abfss_location \<Rightarrow> (string \<times> log_file) list \<Rightarrow> view \<Rightarrow> watermark option \<Rightarrow> view \<Rightarrow> bool" where
  "reconciled c l fs v0 wm x \<longleftrightarrow>
     (case resolved_watermark v0 wm fs of
        None \<Rightarrow> resolved_views v0 wm fs x
      | Some wm' \<Rightarrow> settled c l fs wm' (resolved_views v0 wm fs) x)"

lemma resolved_outcome:
  assumes "(case committed_pending v0 wm fs of
        Some p \<Rightarrow> (\<lambda>u. r = Some (recovered p wm fs) \<and>
          view_in k fs (\<lambda>v. v = set_wm (recovered p wm fs) v0 \<or> v = set_pend None (set_wm (recovered p wm fs) v0)) u)
      | None \<Rightarrow> (\<lambda>u. r = wm \<and> view_in k fs (\<lambda>v. v = v0 \<or> v = set_pend None v0) u)) u"
  shows "r = resolved_watermark v0 wm fs" and "view_in k fs (resolved_views v0 wm fs) u"
  using assms
  by (auto simp: resolved_watermark_def resolved_views_def view_in_def split: option.splits)

lemma resolved_reconciled: "resolved_views v0 wm fs x \<Longrightarrow> reconciled c l fs v0 wm x"
  by (auto simp: reconciled_def settled_def split: option.split)

lemma wp_reconcile:
  fixes w :: "'z adapter_scheme"
  assumes "view_in k fs (\<lambda>v. v = v0) w" and "abfss_parse loc = Some l" and "k = table_key l"
    and "view_watermark v0 = Inr wm"
  shows "wp (reconcile_checkpoint c loc rs ps model buf iv rt)
    (\<lambda>_. view_in k fs (reconciled c l fs v0 wm)) (\<lambda>_. view_in k fs (\<lambda>x. x = v0 \<or> reconciled c l fs v0 wm x)) w"
  (is "wp _ ?q ?e w")
proof -
  let ?V = "\<lambda>S u :: 'z adapter_scheme. view_in k fs S u" and ?m = "en_manager c"
  let ?vs = "commit_versions fs" and ?latest = "log_latest fs"
  let ?finish = "\<lambda>final. if wm_delta_version final \<noteq> Some ?latest
      then write_watermark ?m loc (final\<lparr>wm_delta_version := Some ?latest\<rparr>) else ret ()"
  let ?adopt = "\<lambda>wm. bindM (adopt_step c loc rs ps wm ?vs ?latest buf iv rt) ?finish"
  let ?R = "resolved_views v0 wm fs"
  have start: "?e x u" if "?V (\<lambda>v. v = v0) u" for x and u :: "'z adapter_scheme"
    using that by (rule view_in_mono) simp
  have done_e: "?e x u" if "?q y u" for x y and u :: "'z adapter_scheme" using that by (rule view_in_mono) simp
  have finish: "wp (?finish r) ?q ?e u"
    if wm1: "resolved_watermark v0 wm fs = Some wm1"
      and u: "(r = wm1 \<and> ?V (settled c l fs wm1 ?R) u) \<or> (adopts c l fs wm1 r \<and> ?V (\<lambda>x. \<exists>y. ?R y \<and> x = set_wm r y) u)"
    for wm1 r and u :: "'z adapter_scheme"
  proof (cases "adopts c l fs wm1 r")
    case True
    have "?q () u"
    proof (cases "r = wm1 \<and> ?V (settled c l fs wm1 ?R) u")
      case False
      then have "?V (\<lambda>x. \<exists>y. ?R y \<and> x = set_wm r y) u" using u by blast
      then show ?thesis
        by (rule view_in_mono) (use True wm1 in \<open>auto simp: reconciled_def settled_def\<close>)
    qed (use wm1 in \<open>auto simp: reconciled_def elim: view_in_mono\<close>)
    then show ?thesis using adopts_delta_version [OF True] by (simp add: wp_ret)
  next
    case False
    then have r: "r = wm1" and v: "?V (settled c l fs wm1 ?R) u" using u by auto
    have "?q () u" using v by (rule view_in_mono) (simp add: reconciled_def wm1)
    moreover have "wp (write_watermark ?m loc (wm1\<lparr>wm_delta_version := Some ?latest\<rparr>)) ?q ?e u"
    proof (rule wp_mono [OF wp_view_write_watermark [OF v assms(2,3)]])
      have kept: "reconciled c l fs v0 wm (set_wm (wm1\<lparr>wm_delta_version := Some ?latest\<rparr>) y)"
        if "settled c l fs wm1 ?R y" for y
        using that wm1 by (auto simp: reconciled_def settled_def)
      show "?q a v" if "?V (\<lambda>x. \<exists>y. settled c l fs wm1 ?R y \<and> x = set_wm (wm1\<lparr>wm_delta_version := Some ?latest\<rparr>) y) v"
        for a and v :: "'z adapter_scheme"
        using that by (rule view_in_mono) (use kept in auto)
      show "?e a v" if "?V (\<lambda>x. settled c l fs wm1 ?R x \<or>
          (\<exists>y. settled c l fs wm1 ?R y \<and> x = set_wm (wm1\<lparr>wm_delta_version := Some ?latest\<rparr>) y)) v"
        for a and v :: "'z adapter_scheme"
        using that by (rule view_in_mono) (use kept wm1 in \<open>auto simp: reconciled_def\<close>)
    qed
    ultimately show ?thesis by (simp add: r wp_ret)
  qed
  have adopt: "wp (?adopt wm1) ?q ?e u" if "resolved_watermark v0 wm fs = Some wm1" "?V ?R u" for wm1 and u :: "'z adapter_scheme"
    unfolding wp_bindM [of "adopt_step _ _ _ _ _ _ _ _ _ _"]
    by (rule wp_mono [OF wp_adopt_step [OF that(2) assms(2,3)]])
       (use finish [OF that(1)] that(1) in \<open>auto simp: reconciled_def elim!: view_in_mono\<close>)
  have resolve: "wp (bindM (resolve_pending c loc wm ?vs ?latest iv rt) (\<lambda>resolved.
      case resolved of None \<Rightarrow> ret () | Some wm1 \<Rightarrow> if ?latest < 0 then ret () else ?adopt wm1)) ?q ?e u"
    if "?V (\<lambda>v. v = v0) u" for u :: "'z adapter_scheme"
  proof -
    have "wp (case r of None \<Rightarrow> ret () | Some wm1 \<Rightarrow> if ?latest < 0 then ret () else ?adopt wm1) ?q ?e v"
      if "r = resolved_watermark v0 wm fs" "?V ?R v" for r and v :: "'z adapter_scheme"
    proof -
      have "?q () v" using that(2) by (rule view_in_mono) (rule resolved_reconciled)
      then show ?thesis using adopt that by (simp add: wp_ret split: option.split)
    qed
    note next_step = this [OF resolved_outcome]
    have "?e x v" if "?V (\<lambda>v. v = v0 \<or> (case committed_pending v0 wm fs of
        Some p \<Rightarrow> v = set_wm (recovered p wm fs) v0 \<or> v = set_pend None (set_wm (recovered p wm fs) v0)
      | None \<Rightarrow> v = set_pend None v0)) v" for x and v :: "'z adapter_scheme"
      using that
      by (rule view_in_mono) (auto intro!: resolved_reconciled simp: resolved_views_def split: option.splits)
    then show ?thesis
      unfolding wp_bindM [of "resolve_pending _ _ _ _ _ _ _"]
      by (intro wp_mono [OF wp_resolve_pending [OF that assms(2,3)]]) (rule next_step, assumption+)
  qed
  let ?rest = "\<lambda>wm versions latest. bindM (resolve_pending c loc wm versions latest iv rt) (\<lambda>resolved.
      case resolved of None \<Rightarrow> ret () | Some wm1 \<Rightarrow> if latest < 0 then ret ()
        else bindM (adopt_step c loc rs ps wm1 versions latest buf iv rt) (\<lambda>final.
           if wm_delta_version final \<noteq> Some latest
           then write_watermark ?m loc (final\<lparr>wm_delta_version := Some latest\<rparr>) else ret ()))"
  have read_log: "wp (bindM (read_log_versions ?m loc) (\<lambda>(versions, latest). ?rest wm versions latest)) ?q ?e u"
    if u: "?V (\<lambda>v. v = v0) u" for u :: "'z adapter_scheme"
    unfolding wp_bindM [of "read_log_versions _ _"]
  proof (rule wp_mono [OF wp_read_log_versions [OF view_in_reads_log [OF assms(2)]]])
    show "view_in (table_key l) fs (\<lambda>v. v = v0) u" using u assms(3) by simp
  next
    fix a and v :: "'z adapter_scheme"
    assume "view_in (table_key l) fs (\<lambda>v. v = v0) v \<and> a = (commit_versions fs, log_latest fs)"
    then show "wp (case a of (versions, latest) \<Rightarrow> ?rest wm versions latest) ?q ?e v"
      using resolve [of v] assms(3) by simp
  next
    show "view_in (table_key l) fs (\<lambda>v. v = v0) v \<Longrightarrow> ?e x v" for x and v :: "'z adapter_scheme"
      using start [of v] assms(3) by simp
  qed
  have "wp (bindM (read_watermark ?m loc True) (\<lambda>r.
      bindM (read_log_versions ?m loc) (\<lambda>(versions, latest). ?rest r versions latest))) ?q ?e u"
    if "?V (\<lambda>v. v = v0) u" for u :: "'z adapter_scheme"
    unfolding wp_bindM [of "read_watermark _ _ _"]
  proof (rule wp_mono [OF wp_view_read_watermark [OF that assms(2,3)]])
    fix r and v :: "'z adapter_scheme"
    assume "?V (\<lambda>x. x = v0 \<and> view_watermark x = Inr r) v"
    then have "r = wm" and "?V (\<lambda>x. x = v0) v" using assms(4) by (auto simp: view_in_def)
    then show "wp (bindM (read_log_versions ?m loc) (\<lambda>(versions, latest). ?rest r versions latest)) ?q ?e v"
      using read_log by simp
  qed (rule start)
  moreover have "keeps (?V (\<lambda>v. v = v0)) (claim_table ?m ?m model loc)"
    by (intro keeps_claim_table frameD(3,4) [OF frame_view_in])
  ultimately show ?thesis
    unfolding reconcile_checkpoint_def Let_def wp_thenM [of "claim_table _ _ _ _"] using assms(1) start
    by (elim wp_mono [OF keepsD]) auto
qed

end
