(* ===== verification/Adapter_Guarantees.thy ===== *)
theory Adapter_Guarantees
  imports Adapter_Recovery
begin

text \<open>
  What the checkpointing methods guarantee: a batch whose commit is in the Delta log is recorded
  exactly once however often its recovery is interrupted, a batch without a commit leaves the
  watermark where it was, and \<open>begin_batch\<close> and \<open>update_checkpoint\<close> are atomic.
\<close>

section \<open>Moves of the watermark\<close>

text \<open>
  What a run of \<open>reconcile_checkpoint\<close> may make of a watermark once the pending batch is resolved: it
  stays, it is stamped with the latest version, or it moves over adopted files.
\<close>

definition moved_on :: "env \<Rightarrow> abfss_location \<Rightarrow> (string \<times> log_file) list \<Rightarrow> watermark \<Rightarrow> watermark \<Rightarrow> bool" where
  "moved_on c l fs wm wm' \<longleftrightarrow>
     wm' = wm \<or> wm' = wm\<lparr>wm_delta_version := Some (log_latest fs)\<rparr> \<or> adopts c l fs wm wm'"

lemma adopts_batch_id: "adopts c l fs wm wm' \<Longrightarrow> wm_batch_id wm' = wm_batch_id wm + 1"
  by (auto simp: adopts_def new_watermark_def compute_new_watermark_def)

lemma moved_on_batch_id: "moved_on c l fs wm wm' \<Longrightarrow> wm_batch_id wm \<le> wm_batch_id wm'"
  by (auto simp: moved_on_def adopts_batch_id)

lemma moved_on_chain_batch_id: "(moved_on c l fs)\<^sup>*\<^sup>* wm wm' \<Longrightarrow> wm_batch_id wm \<le> wm_batch_id wm'"
  by (induction rule: rtranclp_induct) (auto dest: moved_on_batch_id)

lemma settled_moved:
  assumes "settled c l fs wm S x" and "\<And>y. S y \<Longrightarrow> view_watermark y = Inr (Some wm) \<and> view_pending y \<in> P"
  shows "\<exists>wm'. view_watermark x = Inr (Some wm') \<and> moved_on c l fs wm wm' \<and> view_pending x \<in> P"
  using assms unfolding settled_def moved_on_def by (auto 0 4)

lemma recovered_batch_id:
  "pb_files p \<noteq> [] \<Longrightarrow> wm_batch_id (recovered p wm fs) = (case wm of None \<Rightarrow> 0 | Some x \<Rightarrow> wm_batch_id x + 1)"
  by (simp add: recovered_def new_watermark_def compute_new_watermark_def pending_infos_def
      pending_file_paths_def pending_modification_times_def zip_map_map zip_same_conv_map)

lemma applies_to_before:
  assumes "applies_to p wm" and "applies_to p (Some x)"
  shows "case wm of None \<Rightarrow> False | Some y \<Rightarrow> wm_batch_id y = wm_batch_id x"
  using assms by (auto simp: applies_to_def same_position_def split: option.splits)

lemma recovered_no_longer_applies:
  assumes "applies_to p wm" and "pb_files p \<noteq> []" and "(moved_on c l fs)\<^sup>*\<^sup>* (recovered p wm fs) x"
  shows "\<not> applies_to p (Some x)"
proof
  assume "applies_to p (Some x)"
  from applies_to_before [OF assms(1) this] obtain y where "wm = Some y" "wm_batch_id y = wm_batch_id x"
    by (cases wm) auto
  then show False
    using recovered_batch_id [OF assms(2), of wm fs] moved_on_chain_batch_id [OF assms(3)] by simp
qed

section \<open>One call of reconcile\_checkpoint\<close>

text \<open>The table's watermark and pending batch, and its log, after a call that ended in \<open>w'\<close>.\<close>

definition table_shows ::
    "table_key \<Rightarrow> (string \<times> log_file) list \<Rightarrow> watermark \<Rightarrow> pending_batch option set \<Rightarrow> 'z lake_scheme \<Rightarrow> bool" where
  "table_shows k fs wm ps w \<longleftrightarrow> log_files w k = fs \<and> stored_watermark (st_tables w k) = Inr (Some wm) \<and>
     (\<exists>p \<in> ps. stored_pending (st_tables w k) = Inr p)"

definition table_unchanged :: "table_key \<Rightarrow> 'z lake_scheme \<Rightarrow> 'z lake_scheme \<Rightarrow> bool" where
  "table_unchanged k w w' \<longleftrightarrow> log_files w' k = log_files w k \<and> view (st_tables w' k) = view (st_tables w k)"

lemma unchanged_stored:
  "table_unchanged k w w' \<Longrightarrow> stored_watermark (st_tables w' k) = stored_watermark (st_tables w k)"
  "table_unchanged k w w' \<Longrightarrow> stored_pending (st_tables w' k) = stored_pending (st_tables w k)"
  by (simp_all add: table_unchanged_def stored_view)

lemma reconcile_cases:
  fixes w :: "'z adapter_scheme"
  assumes "abfss_parse loc = Some l" and "k = table_key l" and "stored_watermark (st_tables w k) = Inr wm"
    and "reconcile_checkpoint c loc rs ps model buf iv rt w = (res, w')"
  shows "log_files w' k = log_files w k \<and>
    (reconciled c l (log_files w k) (view (st_tables w k)) wm (view (st_tables w' k)) \<or>
     (\<exists>x. res = Inl x) \<and> view (st_tables w' k) = view (st_tables w k))"
proof -
  let ?v = "view (st_tables w k)"
  have "wp (reconcile_checkpoint c loc rs ps model buf iv rt)
      (\<lambda>_. view_in k (log_files w k) (reconciled c l (log_files w k) ?v wm))
      (\<lambda>_. view_in k (log_files w k) (\<lambda>x. x = ?v \<or> reconciled c l (log_files w k) ?v wm x)) w"
    by (rule wp_reconcile [OF _ assms(1,2)]) (use assms(3) in \<open>simp_all add: view_in_def stored_view\<close>)
  then show ?thesis
    using assms(4) by (cases res) (auto dest: wp_Inr wp_Inl simp: view_in_def)
qed

lemma reconciled_committed:
  assumes "view_pending v0 = Inr (Some p)" and "applies_to p wm" and "token_version_of fs p = Some v"
    and "reconciled c l fs v0 wm x"
  shows "\<exists>wm'. view_watermark x = Inr (Some wm') \<and> moved_on c l fs (recovered p wm fs) wm' \<and>
    view_pending x \<in> {Inr None, Inr (Some p)}"
proof -
  have "committed_pending v0 wm fs = Some p" using assms(1-3) by (simp add: committed_pending_def)
  then have "settled c l fs (recovered p wm fs) (resolved_views v0 wm fs) x"
    "resolved_views v0 wm fs y \<Longrightarrow> view_watermark y = Inr (Some (recovered p wm fs)) \<and>
      view_pending y \<in> {Inr None, Inr (Some p)}" for y
    using assms(4) by (auto simp: reconciled_def resolved_watermark_def resolved_views_def assms(1))
  then show ?thesis by (rule settled_moved)
qed

lemma reconciled_uncommitted:
  assumes "view_watermark v0 = Inr wm" and "committed_pending v0 wm fs = None" and "reconciled c l fs v0 wm x"
  shows "(case wm of None \<Rightarrow> view_watermark x = Inr None
      | Some wm0 \<Rightarrow> \<exists>wm'. view_watermark x = Inr (Some wm') \<and> moved_on c l fs wm0 wm') \<and>
    view_pending x \<in> {Inr None, view_pending v0}"
proof (cases wm)
  case None
  then show ?thesis
    using assms by (auto simp: reconciled_def resolved_watermark_def resolved_views_def)
next
  case (Some wm0)
  then have "settled c l fs wm0 (resolved_views v0 wm fs) x"
    using assms(2,3) by (simp add: reconciled_def resolved_watermark_def)
  then have "\<exists>wm'. view_watermark x = Inr (Some wm') \<and> moved_on c l fs wm0 wm' \<and>
      view_pending x \<in> {Inr None, view_pending v0}"
    by (rule settled_moved) (use assms(1,2) Some in \<open>auto simp: resolved_views_def\<close>)
  then show ?thesis using Some by auto
qed

lemma committed_batch_recovered_cases:
  fixes w :: "'z adapter_scheme"
  assumes "abfss_parse loc = Some l" and "stored_watermark (st_tables w (table_key l)) = Inr wm"
    and "stored_pending (st_tables w (table_key l)) = Inr (Some p)" and "applies_to p wm" and "pb_files p \<noteq> []"
    and "token_version_of (log_files w (table_key l)) p = Some v"
  shows "case reconcile_checkpoint c loc roots patterns model buf iv rt w of (res, w') \<Rightarrow>
    (\<exists>x. res = Inl x) \<and> table_unchanged (table_key l) w w' \<or>
    (\<exists>wm'. table_shows (table_key l) (log_files w (table_key l)) wm' {None, Some p} w' \<and>
       moved_on c l (log_files w (table_key l)) (recovered p wm (log_files w (table_key l))) wm' \<and>
       \<not> applies_to p (Some wm'))"
proof (cases "reconcile_checkpoint c loc roots patterns model buf iv rt w")
  case (Pair res w')
  let ?k = "table_key l" and ?fs = "log_files w (table_key l)"
  have pend: "view_pending (view (st_tables w ?k)) = Inr (Some p)" using assms(3) by (simp add: stored_view)
  from reconcile_cases [OF assms(1) HOL.refl assms(2) Pair] have fs: "log_files w' ?k = ?fs"
    and cases: "reconciled c l ?fs (view (st_tables w ?k)) wm (view (st_tables w' ?k)) \<or>
      (\<exists>x. res = Inl x) \<and> view (st_tables w' ?k) = view (st_tables w ?k)"
    by blast+
  show ?thesis
  proof (cases "reconciled c l ?fs (view (st_tables w ?k)) wm (view (st_tables w' ?k))")
    case True
    from reconciled_committed [OF pend assms(4,6) True] obtain wm'
      where wm': "view_watermark (view (st_tables w' ?k)) = Inr (Some wm')" "moved_on c l ?fs (recovered p wm ?fs) wm'"
        "view_pending (view (st_tables w' ?k)) \<in> {Inr None, Inr (Some p)}"
      by blast
    from wm'(2) have "\<not> applies_to p (Some wm')"
      by (intro recovered_no_longer_applies [OF assms(4,5)]) (rule r_into_rtranclp)
    then show ?thesis
      using wm' fs Pair unfolding table_shows_def stored_view by auto
  next
    case False
    then show ?thesis using cases fs Pair by (auto simp: table_unchanged_def)
  qed
qed

section \<open>Example worlds\<close>

text \<open>A log with the commit of \<open>sample_pending\<close>, and a process about to run in a given table and log.\<close>

definition sample_log :: "(string \<times> log_file) list" where
  "sample_log = [(commit_name 1, CommitFile sample_commit None)]"

definition sample_env :: env where
  "sample_env = \<lparr>en_manager = sample_manager, en_duck = duck_cast,
     en_values = (\<lambda>_ _. []), en_loads = (\<lambda>_. Malformed)\<rparr>"

definition sample_adapter :: "table_dir \<Rightarrow> (string \<times> log_file) list \<Rightarrow> (string \<times> file_info) list \<Rightarrow> adapter" where
  "sample_adapter d fs cache = \<lparr>st_faults = [], st_clock = 0, st_etag = 0, st_tables = (\<lambda>_. d),
     lk_log = (\<lambda>_. Some fs), g1_lookup = (\<lambda>_. None), g1_listings = [], g1_estimates = [],
     aw_jobs = [], aw_plans = [], aw_puts = [], aw_cancel_posts = [], aw_cancel_sent = [], aw_uuid = show_nat, aw_uuids_used = 0, aw_active = [],
     aw_cancelled_ids = [], aw_confirmed_ids = [],
     aw_run = \<lparr>own_run_id = ''r'', own_run_started_at = utc_dt 1000000\<rparr>, aw_cancelled_models = [], aw_claimed = [],
     aw_shutdown_in = None, hd_next_name = None, hd_next_au = None, hd_next_priority = None,
     hd_next_timeout = None, hd_next_model = None,
     ad_cache = cache, ad_pending = [], ad_total = 0, ad_cycles = []\<rparr>"

lemma sample_adapter_simps [simp]:
  "st_tables (sample_adapter d fs cache) k = d" "log_files (sample_adapter d fs cache) k = fs"
  "ad_cache (sample_adapter d fs cache) = cache"
  "log_files ((sample_adapter d fs cache)\<lparr>st_faults := x\<rparr>) k = fs"
  by (simp_all add: sample_adapter_def log_files_def)

lemma sample_dir_stored [simp]:
  "stored_watermark (empty_dir\<lparr>pend_file := x\<rparr>) = Inr None"
  "stored_pending (empty_dir\<lparr>pend_file := Some (pending_to_json p)\<rparr>) = Inr (Some p)"
  "stored_watermark empty_dir = Inr None" "stored_pending empty_dir = Inr None"
  by (simp_all add: stored_watermark_def stored_pending_def watermark_doc_def empty_dir_def)

lemma sample_log_versions: "commit_versions sample_log = [1]" "log_latest sample_log = 1"
  by (simp_all add: commit_versions_def sample_log_def commit_version_name map_filter_simps log_latest_def latest_of_def
      checkpoint_files_def)

lemma sample_token_of:
  assumes "pb_token p = ''tok''" and "pb_delta_version_before p \<le> 0"
  shows "token_version_of sample_log p = Some 1"
proof -
  have "carries_property (commit_parse 1 sample_commit None) batch_token_property ''tok''"
    by (simp add: carries_property_def commit_parse_def sample_commit_def commit_info_def or_empty_def dget_def
        batch_token_property_def)
  moreover have "commit_at sample_log 1 = Some (commit_parse 1 sample_commit None)"
    by (simp add: commit_at_def sample_log_def)
  moreover have "dc_version (commit_parse 1 sample_commit None) = 1" by (simp add: commit_parse_def)
  ultimately show ?thesis
    using assms by (simp add: token_version_of_def commits_at_def Let_def map_filter_simps sample_log_versions)
qed

lemma sample_token: "token_version_of sample_log sample_pending = Some 1"
  by (rule sample_token_of) (simp_all add: sample_pending_def)

lemma sample_applies: "applies_to sample_pending None" "pb_files sample_pending \<noteq> []"
  by (simp_all add: applies_to_def sample_pending_def)

section \<open>Properties\<close>

text \<open>
  C5: a batch whose commit is in the log is recorded. If the watermark is readable and the pending batch
  applies to it and the log carries its token, then whatever outages strike, \<open>reconcile_checkpoint\<close>
  either raises and leaves watermark and pending batch as they were, or the watermark has moved over the
  batch's files, once, and then at most to the log's latest version or over adopted files; the pending
  batch is gone or stays, but no longer applies. Only the first outcome is an exception without progress,
  and the Delta log is never touched.
\<close>

theorem committed_batch_recovered:
  fixes w :: "'z adapter_scheme"
  assumes "abfss_parse loc = Some l" and "stored_watermark (st_tables w (table_key l)) = Inr wm"
    and "stored_pending (st_tables w (table_key l)) = Inr (Some p)" and "applies_to p wm" and "pb_files p \<noteq> []"
    and "token_version_of (log_files w (table_key l)) p = Some v"
  shows "case reconcile_checkpoint c loc roots patterns model buf iv rt w of (res, w') \<Rightarrow>
    (\<exists>x. res = Inl x) \<and> table_unchanged (table_key l) w w' \<or>
    (\<exists>wm'. table_shows (table_key l) (log_files w (table_key l)) wm' {None, Some p} w' \<and>
       moved_on c l (log_files w (table_key l)) (recovered p wm (log_files w (table_key l))) wm' \<and>
       \<not> applies_to p (Some wm'))"
  by (rule committed_batch_recovered_cases [OF assms])

theorem committed_batch_recovered_witness:
  "case reconcile_checkpoint sample_env sample_loc [] [] ''m'' 0 10 100
      (sample_adapter (empty_dir\<lparr>pend_file := Some (pending_to_json sample_pending)\<rparr>) sample_log []
        \<lparr>st_faults := [NoFault, FailAfter Killed]\<rparr>) of (res, w') \<Rightarrow>
    (\<exists>x. res = Inl x) \<and> stored_watermark (st_tables w' (table_key sample_location)) = Inr None \<or>
    (\<exists>wm'. stored_watermark (st_tables w' (table_key sample_location)) = Inr (Some wm') \<and>
      \<not> applies_to sample_pending (Some wm'))"
  using committed_batch_recovered [OF parse_sample_loc, where wm = None and p = sample_pending and v = 1 and
      w = "sample_adapter (empty_dir\<lparr>pend_file := Some (pending_to_json sample_pending)\<rparr>) sample_log []
        \<lparr>st_faults := [NoFault, FailAfter Killed]\<rparr>" and c = sample_env and roots = "[]" and patterns = "[]" and
      model = "''m''" and buf = 0 and iv = 10 and rt = 100]
    sample_applies sample_token
  by (auto simp: table_shows_def dest: unchanged_stored split: prod.splits)

text \<open>
  C7: a batch without a commit is not recorded. If no pending batch applies to the watermark and is in the
  log (none is stored, it cannot be read, it belongs to another position, or its job never committed),
  then \<open>reconcile_checkpoint\<close> leaves the watermark where it was, but for the log version and adopted
  files, and at most deletes the pending batch, so its files are discovered again.
\<close>

theorem uncommitted_batch_discarded:
  fixes w :: "'z adapter_scheme"
  assumes "abfss_parse loc = Some l" and "stored_watermark (st_tables w (table_key l)) = Inr wm"
    and "case stored_pending (st_tables w (table_key l)) of
      Inr (Some p) \<Rightarrow> \<not> applies_to p wm \<or> token_version_of (log_files w (table_key l)) p = None | _ \<Rightarrow> True"
  shows "case reconcile_checkpoint c loc roots patterns model buf iv rt w of (_, w') \<Rightarrow>
    log_files w' (table_key l) = log_files w (table_key l) \<and>
    (case wm of None \<Rightarrow> stored_watermark (st_tables w' (table_key l)) = Inr None
     | Some wm0 \<Rightarrow> \<exists>wm'. stored_watermark (st_tables w' (table_key l)) = Inr (Some wm') \<and>
         moved_on c l (log_files w (table_key l)) wm0 wm') \<and>
    stored_pending (st_tables w' (table_key l)) \<in> {Inr None, stored_pending (st_tables w (table_key l))}"
proof (cases "reconcile_checkpoint c loc roots patterns model buf iv rt w")
  case (Pair res w')
  let ?k = "table_key l" and ?fs = "log_files w (table_key l)"
  have none: "committed_pending (view (st_tables w ?k)) wm ?fs = None"
    using assms(3) by (auto simp: committed_pending_def stored_view split: sum.splits option.splits)
  have wm: "view_watermark (view (st_tables w ?k)) = Inr wm" using assms(2) by (simp add: stored_view)
  have same: "case wm of None \<Rightarrow> view_watermark (view (st_tables w ?k)) = Inr None
    | Some wm0 \<Rightarrow> \<exists>wm'. view_watermark (view (st_tables w ?k)) = Inr (Some wm') \<and> moved_on c l ?fs wm0 wm'"
    by (cases wm) (simp_all add: wm moved_on_def)
  from reconcile_cases [OF assms(1) HOL.refl assms(2) Pair] show ?thesis
  proof (elim conjE disjE)
    assume "reconciled c l ?fs (view (st_tables w ?k)) wm (view (st_tables w' ?k))" and "log_files w' ?k = ?fs"
    then show ?thesis
      using reconciled_uncommitted [OF wm none, of c l "view (st_tables w' ?k)"] Pair
      by (cases wm) (simp_all add: stored_view)
  next
    assume "view (st_tables w' ?k) = view (st_tables w ?k)" and "log_files w' ?k = ?fs"
    then show ?thesis using same Pair by (cases wm) (simp_all add: stored_view)
  qed
qed

theorem uncommitted_batch_discarded_witness:
  "case reconcile_checkpoint sample_env sample_loc [] [] ''m'' 0 10 100
      (sample_adapter (empty_dir\<lparr>pend_file := Some (pending_to_json sample_pending)\<rparr>) [] []) of (_, w') \<Rightarrow>
    stored_watermark (st_tables w' (table_key sample_location)) = Inr None \<and>
    stored_pending (st_tables w' (table_key sample_location)) \<in> {Inr None, Inr (Some sample_pending)}"
proof -
  have "token_version_of [] sample_pending = None"
    by (simp add: token_version_of_def commit_versions_def commits_at_def log_latest_def checkpoint_files_def
        latest_of_def map_filter_simps sample_pending_def)
  then show ?thesis
    using uncommitted_batch_discarded [OF parse_sample_loc, where wm = None and
        w = "sample_adapter (empty_dir\<lparr>pend_file := Some (pending_to_json sample_pending)\<rparr>) [] []" and
        c = sample_env and roots = "[]" and patterns = "[]" and model = "''m''" and buf = 0 and iv = 10 and rt = 100]
    by (auto split: prod.splits)
qed

text \<open>
  Recovery that is interrupted and tried again: calls of \<open>reconcile_checkpoint\<close>, however each ends, with
  anything happening between them that leaves the table's log, watermark and pending batch alone.
\<close>

inductive recovery :: "env \<Rightarrow> abfss_location \<Rightarrow> string \<Rightarrow> 'z adapter_scheme \<Rightarrow> 'z adapter_scheme \<Rightarrow> bool"
  for c :: env and l :: abfss_location and loc :: string where
  untried: "recovery c l loc w w"
| retried: "recovery c l loc w u \<Longrightarrow> table_unchanged (table_key l) u u' \<Longrightarrow>
    reconcile_checkpoint c loc roots patterns model buf iv rt u' = (res, w') \<Longrightarrow> recovery c l loc w w'"

lemma table_shows_unchanged: "table_shows k fs wm ps u \<Longrightarrow> table_unchanged k u w \<Longrightarrow> table_shows k fs wm ps w"
  by (simp add: table_shows_def table_unchanged_def stored_view)

lemma reconcile_again:
  fixes w :: "'z adapter_scheme"
  assumes "abfss_parse loc = Some l" and "table_shows (table_key l) fs wm {None, Some p} w" and "\<not> applies_to p (Some wm)"
    and "reconcile_checkpoint c loc rs ps model buf iv rt w = (res, w')"
  shows "\<exists>wm'. table_shows (table_key l) fs wm' {None, Some p} w' \<and> moved_on c l fs wm wm'"
proof -
  let ?v = "view (st_tables w (table_key l))" and ?v' = "view (st_tables w' (table_key l))"
  have fs: "log_files w (table_key l) = fs" and wm: "stored_watermark (st_tables w (table_key l)) = Inr (Some wm)"
    and wm': "view_watermark ?v = Inr (Some wm)" and pend: "view_pending ?v \<in> {Inr None, Inr (Some p)}"
    using assms(2) by (auto simp: table_shows_def stored_view)
  have "committed_pending ?v (Some wm) fs = None" using pend assms(3) by (auto simp: committed_pending_def)
  note uncommitted = reconciled_uncommitted [OF wm' this, of c l]
  from reconcile_cases [OF assms(1) HOL.refl wm assms(4)] have "log_files w' (table_key l) = fs"
    and "reconciled c l fs ?v (Some wm) ?v' \<or> ?v' = ?v"
    using fs by auto
  then show ?thesis
    using uncommitted [of ?v'] wm' pend unfolding table_shows_def stored_view moved_on_def by auto
qed

lemma recovery_cases_committed:
  fixes w :: "'z adapter_scheme"
  assumes "recovery c l loc w w'" and "abfss_parse loc = Some l" and "log_files w (table_key l) = fs"
    and "stored_watermark (st_tables w (table_key l)) = Inr wm"
    and "stored_pending (st_tables w (table_key l)) = Inr (Some p)" and "applies_to p wm" and "pb_files p \<noteq> []"
    and "token_version_of fs p = Some v"
  shows "table_unchanged (table_key l) w w' \<or>
    (\<exists>wm'. table_shows (table_key l) fs wm' {None, Some p} w' \<and> (moved_on c l fs)\<^sup>*\<^sup>* (recovered p wm fs) wm')"
  using assms
proof (induction rule: recovery.induct)
  case (retried w u u' roots patterns model buf iv rt res w')
  note hyps = retried.prems
  from retried.IH [OF hyps] show ?case
  proof (elim disjE exE conjE)
    assume "table_unchanged (table_key l) w u"
    then have u': "table_unchanged (table_key l) w u'" using retried.hyps(2) by (simp add: table_unchanged_def)
    then have "stored_watermark (st_tables u' (table_key l)) = Inr wm"
      "stored_pending (st_tables u' (table_key l)) = Inr (Some p)" "log_files u' (table_key l) = fs"
      using hyps by (simp_all add: table_unchanged_def stored_view)
    then show ?thesis
      using committed_batch_recovered_cases [OF hyps(1) _ _ hyps(5,6), of u' v c roots patterns model buf iv rt]
        retried.hyps(3) u' hyps(7) by (auto simp: table_unchanged_def)
  next
    fix x
    assume x: "table_shows (table_key l) fs x {None, Some p} u" "(moved_on c l fs)\<^sup>*\<^sup>* (recovered p wm fs) x"
    from reconcile_again [OF hyps(1) table_shows_unchanged [OF x(1) retried.hyps(2)]
        recovered_no_longer_applies [OF hyps(5,6) x(2)] retried.hyps(3)]
    show ?thesis using x(2) by (metis rtranclp.rtrancl_into_rtrancl)
  qed
qed (simp add: table_unchanged_def)

text \<open>
  C6: exactly once. However often recovery is interrupted and tried again, with anything happening in
  between that leaves the table alone, a pending batch whose commit is in the log is folded into the
  watermark at most once: either nothing has changed yet, or the watermark has moved over the batch and
  from there only over adopted files, never over the batch again. It applies no longer, so no further
  attempt records it.
\<close>

theorem recovered_exactly_once:
  fixes w :: "'z adapter_scheme"
  assumes "recovery c l loc w w'" and "abfss_parse loc = Some l"
    and "stored_watermark (st_tables w (table_key l)) = Inr wm"
    and "stored_pending (st_tables w (table_key l)) = Inr (Some p)" and "applies_to p wm" and "pb_files p \<noteq> []"
    and "token_version_of (log_files w (table_key l)) p = Some v"
  shows "table_unchanged (table_key l) w w' \<or>
    (\<exists>wm'. table_shows (table_key l) (log_files w (table_key l)) wm' {None, Some p} w' \<and>
       (moved_on c l (log_files w (table_key l)))\<^sup>*\<^sup>* (recovered p wm (log_files w (table_key l))) wm' \<and>
       \<not> applies_to p (Some wm'))"
  using recovery_cases_committed [OF assms(1,2) HOL.refl assms(3-7)] recovered_no_longer_applies [OF assms(5,6)]
  by blast

theorem recovered_exactly_once_witness:
  "\<exists>w w'. recovery sample_env sample_location sample_loc w w' \<and>
     stored_pending (st_tables w (table_key sample_location)) = Inr (Some sample_pending) \<and>
     (w' :: adapter) = snd (reconcile_checkpoint sample_env sample_loc [] [] ''m'' 0 10 100
       (snd (reconcile_checkpoint sample_env sample_loc [] [] ''m'' 0 10 100 w))) \<and>
     (table_unchanged (table_key sample_location) w w' \<or>
      (\<exists>wm'. stored_watermark (st_tables w' (table_key sample_location)) = Inr (Some wm') \<and>
        \<not> applies_to sample_pending (Some wm')))"
proof -
  let ?w = "sample_adapter (empty_dir\<lparr>pend_file := Some (pending_to_json sample_pending)\<rparr>) sample_log []
    \<lparr>st_faults := [FailAfter Killed]\<rparr>"
  let ?run = "reconcile_checkpoint sample_env sample_loc [] [] ''m'' 0 10 100 :: (adapter, unit) eff"
  let ?w1 = "snd (?run ?w)"
  have step: "recovery sample_env sample_location sample_loc u (snd (?run v))"
    if "recovery sample_env sample_location sample_loc u v" for u v
    using recovery.retried [OF that _ prod.collapse [symmetric]] by (simp add: table_unchanged_def)
  have run: "recovery sample_env sample_location sample_loc ?w (snd (?run ?w1))"
    by (intro step recovery.untried)
  from recovered_exactly_once [OF run parse_sample_loc, where wm = None and p = sample_pending and v = 1]
  have "table_unchanged (table_key sample_location) ?w (snd (?run ?w1)) \<or>
      (\<exists>wm'. stored_watermark (st_tables (snd (?run ?w1)) (table_key sample_location)) = Inr (Some wm') \<and>
        \<not> applies_to sample_pending (Some wm'))"
    using sample_applies sample_token by (auto simp: table_shows_def)
  then show ?thesis
    by (intro exI [of _ ?w] exI [of _ "snd (?run ?w1)"] conjI run HOL.refl) (simp_all add: sample_adapter_def)
qed

end
