(* ===== verification/Calm_Runs.thy ===== *)
theory Calm_Runs
  imports Adapter_Recovery
begin

text \<open>
  Runs without outages: what each operation of the checkpoint manager and of the Delta log client
  returns and leaves when no request fails, and that \<open>resolve_pending\<close> then finishes its work.
\<close>

named_theorems calm_run \<open>operations when no request fails\<close>

lemma run_download_text [calm_run]:
  "st_faults w = [] \<Longrightarrow> or_absent (download_text field name k) w = (Inr (field (st_tables w k)), w)"
  by (simp add: or_absent_def download_text_def storage_call_no_fault run_bindM run_tryM run_ret not_found_def
      split: option.split)

lemma run_create_dir [calm_run]: "st_faults w = [] \<Longrightarrow> create_checkpoint_dir k w = (Inr (), w)"
  by (simp add: create_checkpoint_dir_def storage_call_no_fault)

lemma run_read_watermark [calm_run]:
  assumes "st_faults w = []" and "abfss_parse loc = Some l" and "stored_watermark (st_tables w (table_key l)) = Inr r"
  shows "read_watermark m loc s w = (Inr r, w)"
proof -
  have "mg_retry m (bindM (or_absent (download_text watermark_doc ''watermark.json'' (table_key l))) (\<lambda>raw.
      case raw of None \<Rightarrow> ret None
      | Some v \<Rightarrow> bindM (liftE (watermark_from_json v)) (\<lambda>wm. ret (Some wm)))) w = (Inr r, w)"
    using assms(3)
    by (intro mg_retry_success) (auto simp: run_bindM run_download_text [OF assms(1)] stored_watermark_def run_ret run_liftE
        split: option.splits sum.splits)
  then show ?thesis
    by (simp add: read_watermark_def assms(2) run_tryM)
qed

lemma run_write_watermark [calm_run]:
  assumes "st_faults w = []" and "abfss_parse loc = Some l"
  shows "write_watermark m loc wm w =
    (Inr (), upd_table (table_key l) (put_watermark (watermark_to_json wm) (st_clock w)) w)"
  by (simp add: write_watermark_def assms Let_def)
     (rule mg_retry_success, simp add: run_thenM run_create_dir assms upload_text_def storage_call_no_fault)

lemma run_read_pending [calm_run]:
  assumes "st_faults w = []" and "abfss_parse loc = Some l" and "stored_pending (st_tables w (table_key l)) = Inr r"
  shows "read_pending m loc w = (Inr r, w)"
proof -
  have raw: "mg_retry m (or_absent (download_text pend_file ''pending.json'' (table_key l))) w =
      (Inr (pend_file (st_tables w (table_key l))), w)"
    by (rule mg_retry_success) (rule run_download_text [OF assms(1)])
  show ?thesis
    using assms(3)
    by (auto simp: read_pending_def assms(2) run_bindM raw stored_pending_def run_ret run_liftE run_tryM
        split: option.splits sum.splits if_splits)
qed

lemma run_write_pending [calm_run]:
  assumes "st_faults w = []" and "abfss_parse loc = Some l"
  shows "write_pending m loc p w =
    (Inr (), upd_table (table_key l) (put_pending (pending_to_json p) (st_clock w)) w)"
  by (simp add: write_pending_def assms Let_def)
     (rule mg_retry_success, simp add: run_thenM run_create_dir assms upload_text_def storage_call_no_fault)

lemma run_delete_pending [calm_run]:
  assumes "st_faults w = []" and "abfss_parse loc = Some l"
  shows "delete_pending m loc s w = (Inr (), upd_table (table_key l) drop_pending w)"
proof -
  let ?k = "table_key l"
  have "upd_table ?k drop_pending w = w" if "pend_file (st_tables w ?k) = None"
    using that by (simp add: upd_table_def drop_pending_def fun_upd_idem)
  then have "mg_retry m (bindM (or_absent (delete_text (\<lambda>d. pend_file d \<noteq> None) drop_pending ''pending.json'' ?k)) (\<lambda>_. ret ())) w =
      (Inr (), upd_table ?k drop_pending w)"
    by (intro mg_retry_success) (auto simp: or_absent_def delete_text_def storage_call_no_fault assms(1) run_bindM run_tryM run_ret not_found_def)
  then show ?thesis
    by (simp add: delete_pending_def assms(2) run_tryM)
qed

section \<open>The Delta log\<close>

lemma run_list_log [calm_run]:
  assumes "st_faults w = []" and "abfss_parse loc = Some l"
  shows "list_log m loc w = (Inr (commit_versions (log_files w (table_key l)), checkpoint_files (log_files w (table_key l))), w)"
proof -
  have "mg_retry m (bindM (or_absent (log_listing (table_key l))) (\<lambda>fs. case fs of None \<Rightarrow> ret ([], [])
      | Some fs \<Rightarrow> ret (commit_versions fs, checkpoint_files fs))) w =
    (Inr (commit_versions (log_files w (table_key l)), checkpoint_files (log_files w (table_key l))), w)"
    by (intro mg_retry_success) (auto simp: or_absent_def log_listing_def storage_call_no_fault assms(1) run_bindM run_tryM run_ret not_found_def
        log_files_def commit_versions_def checkpoint_files_def map_filter_simps split: option.split)
  then show ?thesis by (simp add: list_log_def assms(2))
qed

lemma run_read_log_versions [calm_run]:
  assumes "st_faults w = []" and "abfss_parse loc = Some l"
  shows "read_log_versions m loc w =
      (Inr (commit_versions (log_files w (table_key l)), log_latest (log_files w (table_key l))), w)"
    and "latest_version m loc w = (Inr (log_latest (log_files w (table_key l))), w)"
  by (simp_all add: latest_version_def read_log_versions_def run_bindM run_list_log [OF assms] run_ret log_latest_def)

lemma run_read_commit [calm_run]:
  assumes "st_faults w = []" and "abfss_parse loc = Some l"
  shows "read_commit m loc v w = (Inr (commit_at (log_files w (table_key l)) v), w)"
proof -
  have "mg_retry m (bindM (or_absent (download_commit (table_key l) v)) (\<lambda>d. case d of None \<Rightarrow> ret None
      | Some (ls, t) \<Rightarrow> ret (Some (commit_parse v ls t)))) w = (Inr (commit_at (log_files w (table_key l)) v), w)"
    by (intro mg_retry_success) (auto simp: or_absent_def download_commit_def storage_call_no_fault assms(1) run_bindM run_tryM run_ret not_found_def
        log_files_def commit_at_def split: option.split log_file.split)
  then show ?thesis by (simp add: read_commit_def assms(2))
qed

lemma run_read_commits [calm_run]:
  assumes "st_faults w = []" and "abfss_parse loc = Some l"
  shows "read_commits m loc vs w = (Inr (commits_at (log_files w (table_key l)) vs), w)"
proof -
  have "read_commits_from m loc ws w = (Inr (List.map_filter (commit_at (log_files w (table_key l))) ws), w)" for ws
    by (induction ws) (simp_all add: run_ret run_bindM run_read_commit [OF assms] map_filter_simps split: option.split)
  then show ?thesis by (simp add: read_commits_def commits_at_def)
qed

lemma run_latest_metadata [calm_run]:
  assumes "st_faults w = []" and "abfss_parse loc = Some l" and "lk_log w (table_key l) = Some fs"
  shows "latest_metadata_commit m loc n w = (Inr (metadata_commit_of fs n), w)"
proof -
  have fs: "log_files w (table_key l) = fs" using assms(3) by (simp add: log_files_def)
  have "newest_metadata m loc stop vs w = (Inr (newest_metadata_of fs stop vs), w)" for stop vs
    by (induction vs) (auto simp: run_ret run_bindM run_read_commit [OF assms(1,2)] fs split: option.split)
  then show ?thesis
    by (auto simp: latest_metadata_commit_def assms(2) run_bindM run_list_log [OF assms(1,2)] run_ret fs Let_def
        metadata_commit_of_def query_checkpoint_def storage_call_no_fault assms(1,3) split: option.split list.split)
qed

lemma run_find_token_version [calm_run]:
  assumes "st_faults w = []" and "abfss_parse loc = Some l" and "lk_log w (table_key l) = Some fs"
  shows "find_token_version m loc p (commit_versions fs) (log_latest fs) w = (Inr (token_version_of fs p), w)"
proof -
  have fs: "log_files w (table_key l) = fs" using assms(3) by (simp add: log_files_def)
  show ?thesis
    by (simp add: find_token_version_def token_version_of_def Let_def run_bindM run_read_commits [OF assms(1,2)] fs run_ret
        run_latest_metadata [OF assms] split: option.split)
qed

section \<open>Recording a batch\<close>

text \<open>A directory of recorded sources has one file per name.\<close>

definition sources_ok :: "table_dir \<Rightarrow> bool" where
  "sources_ok d \<longleftrightarrow> (case src_dir d of None \<Rightarrow> True | Some fs \<Rightarrow> distinct (map fst fs))"

abbreviation put_sources :: "(string \<times> source_blob) list option \<Rightarrow> table_dir \<Rightarrow> table_dir" where
  "put_sources s d \<equiv> d\<lparr>src_dir := s\<rparr>"

lemma build_source_records_same_length:
  "length ps = length ts \<Longrightarrow> \<exists>rs. build_source_records ps ts i now = Inr rs"
  by (induction ps ts i now rule: build_source_records.induct) auto

lemma run_write_diff:
  assumes "st_faults w = []" and "abfss_parse loc = Some l" and "length ps = length ts"
    and "is_compaction i iv = Inr False" and "sources_ok (st_tables w (table_key l))"
  shows "\<exists>fs. write_batch_sources duck m loc i ps ts iv w = (Inr (), upd_table (table_key l) (put_sources (Some fs)) w) \<and>
    distinct (map fst fs)"
proof -
  let ?k = "table_key l" and ?old = "case src_dir (st_tables w (table_key l)) of None \<Rightarrow> [] | Some fs \<Rightarrow> fs"
  obtain rs where rs: "build_source_records ps ts i (isoformat (utc_dt (st_clock w))) = Inr rs"
    using build_source_records_same_length [OF assms(3)] by blast
  let ?fs = "assoc_put (show_int i) (Jsonl (map (\<lambda>r. Some (dump_record r)) rs)) ?old"
  have "thenM (create_sources_dir ?k) (write_jsonl ?k i rs) w = (Inr (), upd_table ?k (put_sources (Some ?fs)) w)"
    by (simp add: run_thenM create_sources_dir_def write_jsonl_def upload_source_def storage_call_no_fault assms(1)
        upd_table_def)
  then have "mg_retry m (thenM (create_sources_dir ?k) (write_jsonl ?k i rs)) w =
      (Inr (), upd_table ?k (put_sources (Some ?fs)) w)"
    by (intro mg_retry_success)
  moreover have "distinct (map fst ?fs)"
    using assms(5) by (intro distinct_keys_assoc_put) (simp add: sources_ok_def split: option.splits)
  ultimately show ?thesis
    by (intro exI [of _ ?fs])
       (simp add: write_batch_sources_def assms(2,4) Let_def now_us_def run_bindM run_asks run_liftE rs)
qed

lemma run_record_batch:
  fixes w :: "'z adapter_scheme"
  assumes "st_faults w = []" and "abfss_parse loc = Some l" and "sources_ok (st_tables w (table_key l))" and "0 \<le> rt"
    and "is_compaction (wm_batch_id (new_watermark fs wm v)) iv = Inr False"
  shows "\<exists>s. record_batch c loc fs wm v iv rt w =
    (Inr (new_watermark fs wm v), upd_table (table_key l)
       (put_sources s \<circ> put_watermark (watermark_to_json (new_watermark fs wm v)) (st_clock w)) w)"
proof -
  let ?k = "table_key l" and ?new = "new_watermark fs wm v" and ?m = "en_manager c"
  let ?w = "upd_table ?k (put_watermark (watermark_to_json ?new) (st_clock w)) w"
  have w: "st_faults ?w = []" "sources_ok (st_tables ?w ?k)"
    using assms(1,3) by (simp_all add: sources_ok_def put_watermark_def)
  from run_write_diff [OF w(1) assms(2) _ assms(5) w(2), of "map fi_path fs" "map fi_modification_time fs"] obtain s
    where sources: "write_batch_sources (en_duck c) ?m loc (wm_batch_id ?new) (map fi_path fs) (map fi_modification_time fs) iv ?w =
        (Inr (), upd_table ?k (put_sources (Some s)) ?w)" and s: "distinct (map fst s)"
    by auto
  let ?w2 = "upd_table ?k (put_sources (Some s)) ?w"
  have "st_faults ?w2 = []" "src_dir (st_tables ?w2 ?k) = Some s" using w(1) by simp_all
  from run_cleanup_sources [OF this s assms(2) HOL.refl assms(4)] obtain n s'
    where cleanup: "cleanup_sources ?m loc rt ?w2 = (Inr n, upd_table ?k (put_sources (Some s')) ?w2)" by blast
  have "upd_table ?k (put_sources (Some s')) ?w2 =
      upd_table ?k (put_sources (Some s') \<circ> put_watermark (watermark_to_json ?new) (st_clock w)) w"
    by (simp add: upd_table_def)
  then have "record_batch c loc fs wm v iv rt w = (Inr ?new, upd_table ?k
      (put_sources (Some s') \<circ> put_watermark (watermark_to_json ?new) (st_clock w)) w)"
    using sources cleanup
    by (simp add: record_batch_def new_watermark_def [symmetric] Let_def run_thenM run_write_watermark [OF assms(1,2)] run_ret)
  then show ?thesis by blast
qed

section \<open>Resolving the pending batch\<close>

definition settled_dir :: "watermark option \<Rightarrow> table_dir \<Rightarrow> bool" where
  "settled_dir wm d \<longleftrightarrow> stored_watermark d = Inr wm \<and> stored_pending d = Inr None"

lemma run_resolve_committed:
  fixes w :: "'z adapter_scheme"
  assumes "st_faults w = []" and "abfss_parse loc = Some l" and "sources_ok (st_tables w (table_key l))" and "0 \<le> rt"
    and "lk_log w (table_key l) = Some fs" and "stored_pending (st_tables w (table_key l)) = Inr (Some p)"
    and "applies_to p wm" and "token_version_of fs p = Some v"
    and "is_compaction (wm_batch_id (recovered p wm fs)) iv = Inr False"
  shows "\<exists>f. resolve_pending c loc wm (commit_versions fs) (log_latest fs) iv rt w =
      (Inr (Some (recovered p wm fs)), upd_table (table_key l) f w) \<and>
    settled_dir (Some (recovered p wm fs)) (f (st_tables w (table_key l)))"
proof -
  let ?k = "table_key l" and ?new = "recovered p wm fs" and ?m = "en_manager c"
  have new: "new_watermark (pending_infos p) wm (Some v) = ?new" by (simp add: recovered_def assms(8))
  from run_record_batch [OF assms(1-4), of "pending_infos p" wm "Some v" iv c] obtain s
    where recording: "record_batch c loc (pending_infos p) wm (Some v) iv rt w = (Inr ?new,
      upd_table ?k (put_sources s \<circ> put_watermark (watermark_to_json ?new) (st_clock w)) w)"
    using assms(9) unfolding new by blast
  let ?f = "drop_pending \<circ> (put_sources s \<circ> put_watermark (watermark_to_json ?new) (st_clock w))"
  have "resolve_pending c loc wm (commit_versions fs) (log_latest fs) iv rt w = (Inr (Some ?new), upd_table ?k ?f w)"
    using assms(1)
    by (simp add: resolve_pending_def Let_def run_bindM run_read_pending [OF assms(1,2,6)] assms(7,8)
        run_find_token_version [OF assms(1,2,5)] recording run_thenM run_delete_pending [OF _ assms(2)] run_ret)
  moreover have "settled_dir (Some ?new) (?f d)" for d
    by (simp add: settled_dir_def stored_watermark_def stored_pending_def watermark_doc_def drop_pending_def put_watermark_def)
  ultimately show ?thesis by blast
qed

lemma run_resolve_uncommitted:
  fixes w :: "'z adapter_scheme"
  assumes "st_faults w = []" and "abfss_parse loc = Some l" and "lk_log w (table_key l) = Some fs"
    and "stored_watermark (st_tables w (table_key l)) = Inr wm" and "stored_pending (st_tables w (table_key l)) = Inr pend"
    and "case pend of None \<Rightarrow> True | Some p \<Rightarrow> \<not> applies_to p wm \<or> token_version_of fs p = None"
  shows "\<exists>f. resolve_pending c loc wm (commit_versions fs) (log_latest fs) iv rt w = (Inr wm, upd_table (table_key l) f w) \<and>
    settled_dir wm (f (st_tables w (table_key l)))"
proof (cases pend)
  case None
  then have "resolve_pending c loc wm (commit_versions fs) (log_latest fs) iv rt w = (Inr wm, upd_table (table_key l) id w)"
    by (simp add: resolve_pending_def Let_def run_bindM run_read_pending [OF assms(1,2,5)] run_ret upd_table_def fun_upd_idem)
  moreover have "settled_dir wm (id (st_tables w (table_key l)))" using assms(4,5) None by (simp add: settled_dir_def)
  ultimately show ?thesis by blast
next
  case (Some p)
  then have "resolve_pending c loc wm (commit_versions fs) (log_latest fs) iv rt w = (Inr wm, upd_table (table_key l) drop_pending w)"
    using assms(6)
    by (auto simp: resolve_pending_def Let_def run_bindM run_read_pending [OF assms(1,2,5)] run_find_token_version [OF assms(1-3)]
        run_thenM run_delete_pending [OF assms(1,2)] run_ret)
  moreover have "settled_dir wm (drop_pending (st_tables w (table_key l)))"
    using assms(4) by (simp add: settled_dir_def drop_pending_def stored_watermark_def stored_pending_def watermark_doc_def)
  ultimately show ?thesis by blast
qed

section \<open>Claiming a table without orphans\<close>

definition no_orphans :: "string \<Rightarrow> 'z adla_scheme \<Rightarrow> bool" where
  "no_orphans model w \<longleftrightarrow> (\<forall>j \<in> set (aw_jobs w).
     \<not> (model_job_name model (jstr (dget (sj_dict j) ''name'' (JStr []))) \<and> \<not> is_self_job w (sj_dict j)))"

lemma no_orphans_cong:
  "aw_jobs w' = aw_jobs w \<Longrightarrow> aw_active w' = aw_active w \<Longrightarrow> aw_run w' = aw_run w \<Longrightarrow>
    no_orphans model w' = no_orphans model w"
  by (simp add: no_orphans_def is_self_job_def cong: json.case_cong)

lemma run_claim_owner:
  assumes "st_faults w = []" and "abfss_parse loc = Some l"
  shows "\<exists>w' r. claim_owner m loc me w = (Inr r, w') \<and>
    (case incumbent me (st_tables w (table_key l)) of
       Some o1 \<Rightarrow> r = o1 \<and> w' = w | None \<Rightarrow> r = me \<and> (\<exists>f. w' = set_owner_file (table_key l) f w))"
proof -
  let ?k = "table_key l" and ?d = "st_tables w (table_key l)"
  note dec = incumbent_decision [of me ?d]
  have "\<exists>w' r. claim_attempt ?k me w = (Inr (Some r), w') \<and>
    (case incumbent me ?d of
       Some o1 \<Rightarrow> r = o1 \<and> w' = w | None \<Rightarrow> r = me \<and> (\<exists>f. w' = set_owner_file ?k f w))"
    by (auto simp: claim_attempt_def run_bindM run_download_text [OF assms(1)] run_liftE dec run_ret claim_write_def
        run_thenM run_tryM run_create_dir [OF assms(1)] upload_owner_def storage_call_no_fault assms(1) cond_upload_def
        split: option.split)
  then obtain w' r where "claim_attempt ?k me w = (Inr (Some r), w')"
    and r: "case incumbent me ?d of
       Some o1 \<Rightarrow> r = o1 \<and> w' = w | None \<Rightarrow> r = me \<and> (\<exists>f. w' = set_owner_file ?k f w)" by blast
  then have "claim_loop owner_claim_attempts ?k me w = (Inr r, w')"
    by (simp add: owner_claim_attempts_def eval_nat_numeral run_bindM run_ret)
  then have "mg_retry m (claim_loop owner_claim_attempts ?k me) w = (Inr r, w')" by (intro mg_retry_success)
  then show ?thesis using r by (auto simp: claim_owner_def assms(2))
qed

lemma run_settle_none:
  assumes "st_faults w = []" and "no_orphans model w"
  shows "settle_orphaned_jobs m model mw iv w = (Inr [], w\<lparr>aw_cancelled_models := model # aw_cancelled_models w\<rparr>)"
proof -
  let ?f = "NamedNotEnded (model @ ''_'')"
  have jobs: "list_jobs m ?f 100 w = (Inr (take 100 (map sj_dict (filter (filter_accepts ?f) (aw_jobs w)))), w)"
    unfolding list_jobs_def by (rule mg_retry_success) (simp add: storage_call_no_fault assms(1))
  have "filter (\<lambda>j. model_job_name model (jstr (dget j ''name'' (JStr []))) \<and> \<not> is_self_job w j)
      (take 100 (map sj_dict (filter (filter_accepts ?f) (aw_jobs w)))) = []"
    using assms(2) by (auto simp: no_orphans_def filter_empty_conv dest!: in_set_takeD)
  then have "list_orphaned_jobs m model w = (Inr [], w)"
    by (simp add: list_orphaned_jobs_def run_bindM jobs run_asks run_ret)
  then show ?thesis
    by (simp add: settle_orphaned_jobs_def run_bindM run_tryM Let_def pending_jobs_def run_thenM cancel_each_def run_ret
        now_us_def run_asks settle_fuel_def note_settled_def run_modifyM)
qed

text \<open>What a claim leaves alone.\<close>

definition claimed_from :: "table_key \<Rightarrow> 'z adapter_scheme \<Rightarrow> 'z adapter_scheme \<Rightarrow> bool" where
  "claimed_from k w w' \<longleftrightarrow> st_faults w' = [] \<and> lk_log w' = lk_log w \<and>
     wm_file (st_tables w' k) = wm_file (st_tables w k) \<and> pend_file (st_tables w' k) = pend_file (st_tables w k) \<and>
     src_dir (st_tables w' k) = src_dir (st_tables w k)"

lemma claimed_from_stored:
  assumes "claimed_from k w w'"
  shows "stored_watermark (st_tables w' k) = stored_watermark (st_tables w k)"
    and "stored_pending (st_tables w' k) = stored_pending (st_tables w k)" and "sources_ok (st_tables w' k) = sources_ok (st_tables w k)"
  using assms by (simp_all add: claimed_from_def stored_watermark_def stored_pending_def watermark_doc_def sources_ok_def)

lemma run_claim_table:
  fixes w :: "'z adapter_scheme"
  assumes "st_faults w = []" and "abfss_parse loc = Some l" and "no_orphans model w"
    and "\<not> owned_by_other (aw_run w) (st_tables w (table_key l))"
  shows "\<exists>w'. claim_table cm m model loc w = (Inr [], w') \<and> claimed_from (table_key l) w w'"
proof -
  let ?me = "aw_run w" and ?k = "table_key l"
  from run_claim_owner [OF assms(1,2), of cm ?me] obtain w1 r where owner: "claim_owner cm loc ?me w = (Inr r, w1)"
    and r: "case incumbent ?me (st_tables w ?k) of
       Some o1 \<Rightarrow> r = o1 \<and> w1 = w | None \<Rightarrow> r = ?me \<and> (\<exists>f. w1 = set_owner_file ?k f w)" by blast
  have w1: "w1 = w \<or> (\<exists>f. w1 = set_owner_file ?k f w)" and me: "own_run_id r = own_run_id ?me"
    using r assms(4) by (auto simp: owned_by_other_def split: option.splits)
  let ?w2 = "w1\<lparr>aw_claimed := assoc_put model loc (aw_claimed w1)\<rparr>"
  have "st_faults ?w2 = []" using w1 assms(1) by (auto simp: set_owner_file_def)
  moreover have "no_orphans model ?w2"
    using w1 assms(3) no_orphans_cong [of ?w2 w model] by (auto simp: set_owner_file_def upd_table_def)
  ultimately have "claim_table cm m model loc w = (Inr [], ?w2\<lparr>aw_cancelled_models := model # aw_cancelled_models ?w2\<rparr>)"
    using run_settle_none [of ?w2 model m] by (simp add: claim_table_def run_bindM run_asks owner me run_thenM run_modifyM)
  moreover have "claimed_from ?k w (?w2\<lparr>aw_cancelled_models := model # aw_cancelled_models ?w2\<rparr>)"
    using w1 assms(1) by (auto simp: claimed_from_def set_owner_file_def upd_table_def)
  ultimately show ?thesis by blast
qed

section \<open>Recovery without outages\<close>

lemma run_reconcile_latest:
  fixes w :: "'z adapter_scheme"
  assumes "st_faults w = []" and "abfss_parse loc = Some l" and "no_orphans model w"
    and "\<not> owned_by_other (aw_run w) (st_tables w (table_key l))"
    and "sources_ok (st_tables w (table_key l))" and "0 \<le> rt" and "lk_log w (table_key l) = Some fs"
    and "stored_watermark (st_tables w (table_key l)) = Inr wm" and "stored_pending (st_tables w (table_key l)) = Inr (Some p)"
    and "applies_to p wm" and "token_version_of fs p = Some (log_latest fs)"
    and "is_compaction (wm_batch_id (recovered p wm fs)) iv = Inr False"
  shows "\<exists>w'. reconcile_checkpoint c loc roots patterns model buf iv rt w = (Inr (), w') \<and>
    settled_dir (Some (recovered p wm fs)) (st_tables w' (table_key l)) \<and> lk_log w' = lk_log w"
proof -
  let ?k = "table_key l" and ?m = "en_manager c" and ?new = "recovered p wm fs"
  from run_claim_table [OF assms(1-4), of ?m ?m] obtain w1
    where claim: "claim_table ?m ?m model loc w = (Inr [], w1)" and w1: "claimed_from ?k w w1" by blast
  note stored = claimed_from_stored [OF w1]
  have calm: "st_faults w1 = []" and log: "lk_log w1 ?k = Some fs" "log_files w1 ?k = fs"
    using w1 assms(7) by (simp_all add: claimed_from_def log_files_def)
  from run_resolve_committed [OF calm assms(2) _ assms(6) log(1) _ assms(10,11,12), of c] obtain f
    where resolve: "resolve_pending c loc wm (commit_versions fs) (log_latest fs) iv rt w1 = (Inr (Some ?new), upd_table ?k f w1)"
      and settled: "settled_dir (Some ?new) (f (st_tables w1 ?k))"
    using stored assms(5,9) by auto
  have "wm_delta_version ?new = Some (log_latest fs)" using assms(11) by (simp add: recovered_def new_watermark_def)
  then have "reconcile_checkpoint c loc roots patterns model buf iv rt w = (Inr (), upd_table ?k f w1)"
    using stored(1) assms(8)
    by (simp add: reconcile_checkpoint_def Let_def run_thenM claim run_bindM run_read_watermark [OF calm assms(2)]
        run_read_log_versions(1) [OF calm assms(2)] log(2) resolve adopt_step_def run_tryM run_ret)
  moreover have "lk_log (upd_table ?k f w1) = lk_log w" using w1 by (simp add: claimed_from_def upd_table_def)
  ultimately show ?thesis using settled by auto
qed

lemma run_begin_batch:
  fixes w :: "'z adapter_scheme"
  assumes "st_faults w = []" and "abfss_parse loc = Some l" and "map_of (aw_claimed w) (case hd_next_model w of None \<Rightarrow> [] | Some s \<Rightarrow> s) = None"
    and "stored_watermark (st_tables w (table_key l)) = Inr wm" and "\<forall>q \<in> set paths. map_of (ad_cache w) q \<noteq> None"
  shows "\<exists>r w'. begin_batch c loc paths job w = (Inr r, w') \<and> st_faults w' = [] \<and>
    src_dir (st_tables w' (table_key l)) = src_dir (st_tables w (table_key l)) \<and>
    own_file (st_tables w' (table_key l)) = own_file (st_tables w (table_key l)) \<and>
    aw_jobs w' = aw_jobs w \<and> aw_run w' = aw_run w"
proof -
  have own: "ensure_own_table c w = (Inr (), w)"
    using assms(3) by (simp add: ensure_own_table_def ensure_table_owner_def Let_def run_bindM run_asks run_ret)
  have "filter (\<lambda>p. map_of (ad_cache w) p = None) paths = []" using assms(5) by (simp add: filter_empty_conv)
  then show ?thesis
    using assms(1)
    by (simp add: begin_batch_def Let_def run_bindM run_asks run_thenM own run_read_watermark [OF assms(1,2,4)] fresh_uuid_def
        run_read_log_versions(2) [OF _ assms(2)] now_us_def run_write_pending [OF _ assms(2)] run_modifyM run_ret put_pending_def)
       (simp add: upd_table_def)
qed

end
