(* ===== verification/Adapter_Batches.thy ===== *)
theory Adapter_Batches
  imports Adapter_Guarantees Calm_Runs
begin

text \<open>
  A batch from \<open>begin_batch\<close> to \<open>update_checkpoint\<close>, or to the recovery after a crash: what each call
  leaves in the table under any outages, and that the two together process a batch exactly once.
\<close>

section \<open>begin\_batch\<close>

text \<open>The pending batch that \<open>begin_batch\<close> writes for \<open>paths\<close> from a world \<open>w\<close> with watermark \<open>wm\<close>.\<close>

definition begun :: "table_key \<Rightarrow> watermark option \<Rightarrow> string list \<Rightarrow> 'z adapter_scheme \<Rightarrow> pending_batch \<Rightarrow> bool" where
  "begun k wm paths w p \<longleftrightarrow>
     pb_token p = aw_uuid w (aw_uuids_used w) \<and> pb_watermark_before p = wm \<and>
     pb_batch_id p = (case wm of None \<Rightarrow> 0 | Some x \<Rightarrow> wm_batch_id x + 1) \<and>
     pb_files p = map (\<lambda>q. (q, cached_ms (ad_cache w) q)) paths \<and>
     pb_delta_version_before p = log_latest (log_files w k)"

lemma begun_applies: "begun k wm paths w p \<Longrightarrow> applies_to p wm"
  by (auto simp: begun_def applies_to_def same_position_def split: option.split)

lemma wp_latest_version:
  assumes "reads_log J loc fs" and "J w"
  shows "wp (latest_version m loc) (\<lambda>r w'. J w' \<and> r = log_latest fs) (\<lambda>_. J) w"
  unfolding latest_version_def wp_bindM
  by (rule wp_mono [OF wp_read_log_versions [OF assms]]) (auto simp: wp_ret)

lemma wp_begin_batch:
  fixes w :: "'z adapter_scheme"
  assumes "view_in k fs (\<lambda>v. v = v0) w" and "abfss_parse loc = Some l" and "k = table_key l"
    and "view_watermark v0 = Inr wm"
  shows "wp (begin_batch c loc paths job)
    (\<lambda>r u. \<exists>p. begun k wm paths w p \<and> r = [(batch_token_property, pb_token p)] \<and>
       (\<forall>q \<in> set paths. map_of (ad_cache w) q \<noteq> None) \<and>
       view_in k fs (\<lambda>v. v = set_pend (Some p) v0) u \<and> map_of (ad_pending u) loc = Some p)
    (\<lambda>_. view_in k fs (\<lambda>v. v = v0 \<or> (\<exists>p. begun k wm paths w p \<and> v = set_pend (Some p) v0))) w"
  (is "wp _ ?q ?e w")
proof -
  let ?m = "en_manager c"
  define tok where "tok = aw_uuid w (aw_uuids_used w)"
  define J where "J u \<longleftrightarrow> view_in k fs (\<lambda>v. v = v0) u \<and> aw_uuid u (aw_uuids_used u) = tok" for u :: "'z adapter_scheme"
  have fs: "log_files w k = fs" using assms(1) by (simp add: view_in_def)
  have quiet_J: "quiet J"
    unfolding J_def quiet_def clock_free_def fault_free_def by (simp add: view_in_unfold)
  have J_e: "?e x u" if "J u" for x and u :: "'z adapter_scheme"
    using that unfolding J_def by (elim conjE view_in_mono) simp
  let ?pend = "\<lambda>run now r latest. \<lparr>pb_token = tok,
      pb_batch_id = (case r of Some w \<Rightarrow> wm_batch_id w + 1 | None \<Rightarrow> 0),
      pb_run_id = own_run_id run, pb_job_name = job, pb_files = map (\<lambda>p. (p, cached_ms (ad_cache w) p)) paths,
      pb_watermark_before = r, pb_delta_version_before = latest,
      pb_created_at = isoformat (utc_dt now), pb_schema_version = pending_schema_version\<rparr>"
  have begun: "begun k wm paths w (?pend run now wm (log_latest fs))" for run now
    by (simp add: begun_def tok_def fs split: option.split)
  have pending_view: "view_in k fs S (u\<lparr>ad_pending := x\<rparr>)" if "view_in k fs S u" for S x and u :: "'z adapter_scheme"
    using that by (simp add: view_in_unfold)
  have writing: "wp (thenM (write_pending ?m loc (?pend run now wm (log_latest fs)))
        (thenM (modifyM (\<lambda>u. u\<lparr>ad_pending := assoc_put loc (?pend run now wm (log_latest fs)) (ad_pending u)\<rparr>))
          (ret [(batch_token_property, tok)]))) ?q ?e u"
    if known: "\<forall>q \<in> set paths. map_of (ad_cache w) q \<noteq> None" and u: "view_in k fs (\<lambda>v. v = v0) u"
    for run now and u :: "'z adapter_scheme"
    unfolding wp_thenM [of "write_pending _ _ _"]
  proof (rule wp_mono [OF wp_view_write_pending [OF u assms(2,3)]])
    let ?p = "?pend run now wm (log_latest fs)"
    show "wp (thenM (modifyM (\<lambda>u. u\<lparr>ad_pending := assoc_put loc ?p (ad_pending u)\<rparr>))
        (ret [(batch_token_property, tok)])) ?q ?e v"
      if "view_in k fs (\<lambda>v. \<exists>u. u = v0 \<and> v = set_pend (Some ?p) u) v" for v :: "'z adapter_scheme"
    proof -
      have "view_in k fs (\<lambda>v. v = set_pend (Some ?p) v0) v" using that by simp
      from pending_view [OF this] show ?thesis
        unfolding wp_thenM wp_modifyM wp_ret by (intro exI [of _ ?p]) (simp add: begun known)
    qed
    show "?e x v" if "view_in k fs (\<lambda>v. v = v0 \<or> (\<exists>u. u = v0 \<and> v = set_pend (Some ?p) u)) v"
      for x and v :: "'z adapter_scheme"
      using that by (rule view_in_mono) (use begun in blast)
  qed
  have latest: "wp (bindM (latest_version ?m loc) f) ?q ?e u"
    if "view_in k fs (\<lambda>v. v = v0) u" and "\<And>v. view_in k fs (\<lambda>v. v = v0) v \<Longrightarrow> wp (f (log_latest fs)) ?q ?e v"
    for f and u :: "'z adapter_scheme"
    unfolding wp_bindM
  proof (rule wp_mono [OF wp_latest_version [OF view_in_reads_log [OF assms(2)]]])
    show "view_in (table_key l) fs (\<lambda>v. v = v0) u" using that(1) assms(3) by simp
    show "wp (f r) ?q ?e v" if "view_in (table_key l) fs (\<lambda>v. v = v0) v \<and> r = log_latest fs" for r and v :: "'z adapter_scheme"
      using that \<open>\<And>v. view_in k fs (\<lambda>v. v = v0) v \<Longrightarrow> wp (f (log_latest fs)) ?q ?e v\<close> assms(3) by simp
    show "?e x v" if "view_in (table_key l) fs (\<lambda>v. v = v0) v" for x and v :: "'z adapter_scheme"
      using that assms(3) by (auto elim: view_in_mono)
  qed
  have token: "wp (bindM fresh_uuid f) ?q ?e u"
    if "J u" and "\<And>v. view_in k fs (\<lambda>v. v = v0) v \<Longrightarrow> wp (f tok) ?q ?e v" for f and u :: "'z adapter_scheme"
  proof -
    let ?u = "u\<lparr>aw_uuids_used := Suc (aw_uuids_used u)\<rparr>"
    have "fresh_uuid u = (Inr tok, ?u)" and "view_in k fs (\<lambda>v. v = v0) ?u"
      using that(1) by (simp_all add: fresh_uuid_def J_def view_in_unfold)
    then have "bindM fresh_uuid f u = f tok ?u" and "wp (f tok) ?q ?e ?u" using that(2) by (auto simp: run_bindM)
    then show ?thesis by (simp add: wp_def)
  qed
  have reading: "wp (bindM (read_watermark ?m loc True) f) ?q ?e u"
    if "J u" and "\<And>v. J v \<Longrightarrow> wp (f wm) ?q ?e v" for f and u :: "'z adapter_scheme"
    unfolding wp_bindM
  proof (rule wp_mono [OF wp_read_watermark_strict [OF quiet_J that(1) assms(2)]])
    show "wp (f r) ?q ?e v" if "J v \<and> stored_watermark (st_tables v (table_key l)) = Inr r" for r and v :: "'z adapter_scheme"
      using that \<open>\<And>v. J v \<Longrightarrow> wp (f wm) ?q ?e v\<close> assms(3,4) by (auto simp: J_def view_in_def stored_view)
  qed (rule J_e)
  have own: "wp (thenM (ensure_own_table c) f) ?q ?e u"
    if "J u" and "\<And>v. J v \<Longrightarrow> wp f ?q ?e v" for f and u :: "'z adapter_scheme"
    unfolding wp_thenM
    by (rule wp_mono [OF keepsD [OF keeps_ensure_own_table [OF quiet_J] that(1)]]) (use that(2) J_e in auto)
  have "J w" using assms(1) by (simp add: J_def tok_def)
  show ?thesis
  proof (cases "\<forall>q \<in> set paths. map_of (ad_cache w) q \<noteq> None")
    case False
    then have "filter (\<lambda>p. map_of (ad_cache w) p = None) paths \<noteq> []" by (auto simp: filter_empty_conv)
    then show ?thesis
      unfolding begin_batch_def Let_def wp_bindM [of "asks ad_cache"] wp_asks
      using J_e [OF \<open>J w\<close>] by (simp add: wp_raise)
  next
    case True
    then have none: "filter (\<lambda>p. map_of (ad_cache w) p = None) paths = []" by (simp add: filter_empty_conv)
    show ?thesis
      unfolding begin_batch_def Let_def wp_bindM [of "asks ad_cache"] wp_asks none
      apply (simp only: simp_thms if_False)
      apply (rule own [OF \<open>J w\<close>], rule reading, assumption, rule token, assumption)
      apply (simp only: wp_bindM [of "asks _"] wp_asks)
      apply (rule latest, assumption)
      apply (simp only: now_us_def wp_bindM [of "asks _"] wp_asks)
      apply (rule writing [OF True], assumption)
      done
  qed
qed

section \<open>update\_checkpoint\<close>

text \<open>The version recorded with a batch: of its own commit, or else the latest one; it may stay unknown.\<close>

definition commit_version_of :: "(string \<times> log_file) list \<Rightarrow> pending_batch option \<Rightarrow> int option" where
  "commit_version_of fs pending =
     (case (case pending of None \<Rightarrow> None | Some p \<Rightarrow> token_version_of fs p) of
        Some v \<Rightarrow> Some v
      | None \<Rightarrow> if 0 \<le> log_latest fs then Some (log_latest fs) else None)"

lemma wp_committed_delta_version:
  assumes "reads_log J loc fs" and "J w"
  shows "wp (committed_delta_version c loc pending) (\<lambda>r u. J u \<and> r \<in> {None, commit_version_of fs pending}) (\<lambda>_. J) w"
proof -
  let ?m = "en_manager c"
  let ?find = "\<lambda>versions latest. case pending of None \<Rightarrow> ret None | Some p \<Rightarrow> find_token_version ?m loc p versions latest"
  have find: "wp (bindM (?find (commit_versions fs) (log_latest fs)) (\<lambda>version.
      ret (case version of Some v \<Rightarrow> Some v | None \<Rightarrow> if 0 \<le> log_latest fs then Some (log_latest fs) else None)))
      (\<lambda>r u. J u \<and> r = commit_version_of fs pending) (\<lambda>_. J) u" if "J u" for u
  proof (cases pending)
    case None
    then show ?thesis using that by (simp add: wp_bindM wp_ret commit_version_of_def)
  next
    case (Some p)
    have "wp (find_token_version ?m loc p (commit_versions fs) (log_latest fs))
        (\<lambda>r u. J u \<and> r = token_version_of fs p) (\<lambda>_. J) u"
      by (rule wp_find_token_version [OF assms(1) that])
    then show ?thesis
      unfolding Some option.case wp_bindM wp_ret by (rule wp_mono) (simp_all add: commit_version_of_def)
  qed
  have "wp (bindM (read_log_versions ?m loc) (\<lambda>(versions, latest). bindM (?find versions latest) (\<lambda>version.
      ret (case version of Some v \<Rightarrow> Some v | None \<Rightarrow> if 0 \<le> latest then Some latest else None))))
      (\<lambda>r u. J u \<and> r = commit_version_of fs pending) (\<lambda>_. J) w"
    unfolding wp_bindM [of "read_log_versions _ _"]
    by (rule wp_mono [OF wp_read_log_versions [OF assms]]) (use find in auto)
  then show ?thesis
    unfolding committed_delta_version_def Let_def wp_tryM by (rule wp_mono) (auto simp: wp_ret wp_raise)
qed

lemma wp_list_uncached:
  fixes w :: "'z adapter_scheme"
  assumes "cacheless J" and "J w" and "fi_path ` set found \<subseteq> set uncached"
  shows "wp (list_uncached c uncached rps found) (\<lambda>r u. J u \<and> fi_path ` set r \<subseteq> set uncached) (\<lambda>_. J) w"
  using assms(2,3)
proof (induction rps arbitrary: found w)
  case (Cons rp rps)
  obtain r p where rp: "rp = (r, p)" by (cases rp)
  have "fi_path ` set (add_unseen found (filter (\<lambda>f. fi_path f \<in> set uncached) fs)) \<subseteq> set uncached" for fs
    using set_add_unseen [of found] Cons.prems(2) by fastforce
  then show ?case
    unfolding rp list_uncached.simps wp_bindM
    by (intro wp_mono [OF wp_list_files [OF assms(1) Cons.prems(1)]] Cons.IH) auto
qed (simp add: wp_ret)

text \<open>The files that \<open>update_checkpoint\<close> records for \<open>paths\<close>: the cached ones, then listed ones.\<close>

definition processed_files :: "(string \<times> file_info) list \<Rightarrow> string list \<Rightarrow> file_info list \<Rightarrow> bool" where
  "processed_files cache paths fs \<longleftrightarrow>
     (\<exists>found. fs = List.map_filter (map_of cache) paths @ found \<and>
        fi_path ` set found \<subseteq> {q \<in> set paths. map_of cache q = None})"

lemma wp_update_checkpoint:
  fixes w :: "'z adapter_scheme"
  assumes "view_in k fs (\<lambda>v. v = v0) w" and "abfss_parse loc = Some l" and "k = table_key l"
    and "view_watermark v0 = Inr wm"
  shows "wp (update_checkpoint c loc roots patterns paths iv rt)
    (\<lambda>_ u. (view_in k fs (\<lambda>v. v = v0) u \<and> processed_files (ad_cache w) paths []) \<or>
      (\<exists>done_fs version. done_fs \<noteq> [] \<and> processed_files (ad_cache w) paths done_fs \<and>
         version \<in> {None, commit_version_of fs (map_of (ad_pending w) loc)} \<and>
         view_in k fs (\<lambda>v. v = set_wm (new_watermark done_fs wm version) v0 \<or>
           v = set_pend None (set_wm (new_watermark done_fs wm version) v0)) u))
    (\<lambda>_. view_in k fs (\<lambda>v. v = v0 \<or>
      (\<exists>done_fs version. done_fs \<noteq> [] \<and> processed_files (ad_cache w) paths done_fs \<and>
         version \<in> {None, commit_version_of fs (map_of (ad_pending w) loc)} \<and>
         (v = set_wm (new_watermark done_fs wm version) v0 \<or>
          v = set_pend None (set_wm (new_watermark done_fs wm version) v0))))) w"
  (is "wp _ ?q ?e w")
proof -
  let ?m = "en_manager c" and ?cache = "ad_cache w" and ?pending = "map_of (ad_pending w) loc"
  define J where "J u \<longleftrightarrow> view_in k fs (\<lambda>v. v = v0) u \<and> ad_cache u = ?cache \<and> map_of (ad_pending u) loc = ?pending"
    for u :: "'z adapter_scheme"
  have quiet_J: "quiet J"
    unfolding J_def quiet_def clock_free_def fault_free_def by (simp add: view_in_unfold)
  have cl: "cacheless J"
    unfolding cacheless_def using quiet_J by (simp add: J_def view_in_unfold)
  have J_e: "?e x u" if "J u" for x and u :: "'z adapter_scheme"
    using that unfolding J_def by (elim conjE view_in_mono) simp
  let ?good = "\<lambda>fs0 version. fs0 \<noteq> [] \<and> processed_files ?cache paths fs0 \<and> version \<in> {None, commit_version_of fs ?pending}"
  let ?after = "\<lambda>fs0 version v. v = set_wm (new_watermark fs0 wm version) v0 \<or>
      v = set_pend None (set_wm (new_watermark fs0 wm version) v0)"
  have recording: "wp (thenM (record_batch c loc fs0 wm version iv rt)
      (if pending \<noteq> None then delete_pending ?m loc False else ret ())) ?q ?e u"
    if good: "?good fs0 version" and u: "view_in k fs (\<lambda>v. v = v0) u"
    for fs0 version and pending :: "pending_batch option" and u :: "'z adapter_scheme"
  proof -
    have q: "?q x v" and e: "?e y v" if "view_in k fs (?after fs0 version) v" for x y and v :: "'z adapter_scheme"
      using that good by (blast, intro view_in_mono [OF that], use good in blast)
    have "wp (if pending \<noteq> None then delete_pending ?m loc False else ret ()) ?q ?e v"
      if "view_in k fs (\<lambda>x. \<exists>u. u = v0 \<and> x = set_wm (new_watermark fs0 wm version) u) v" for v :: "'z adapter_scheme"
    proof (cases pending)
      case None
      then show ?thesis using q [OF view_in_mono [OF that]] by (simp add: wp_ret)
    next
      case (Some p)
      have "?q x v'" "?e y v'" if "view_in k fs (\<lambda>v. (\<exists>u. u = v0 \<and> v = set_wm (new_watermark fs0 wm version) u) \<or>
          (\<exists>u. (\<exists>u'. u' = v0 \<and> u = set_wm (new_watermark fs0 wm version) u') \<and> v = set_pend None u)) v'"
        for x y and v' :: "'z adapter_scheme"
        using q [OF view_in_mono [OF that]] e [OF view_in_mono [OF that]] by blast+
      with Some show ?thesis
        by (simp only: option.simps not_False_eq_True if_True) (rule wp_mono [OF wp_view_delete_pending [OF that assms(2,3)]])
    qed
    moreover have "?e y v" if "view_in k fs (\<lambda>x. x = v0 \<or> (\<exists>u. u = v0 \<and> x = set_wm (new_watermark fs0 wm version) u)) v"
      for y and v :: "'z adapter_scheme"
      using that by (rule view_in_mono) (use good in blast)
    ultimately show ?thesis
      unfolding wp_thenM by (intro wp_mono [OF wp_view_record_batch [OF u assms(2,3)]]) auto
  qed
  let ?uncached = "filter (\<lambda>p. map_of ?cache p = None) paths"
  let ?commit = "\<lambda>fs0. bindM (asks (\<lambda>w. map_of (ad_pending w) loc)) (\<lambda>pending.
      thenM (modifyM (\<lambda>w. w\<lparr>ad_pending := filter (\<lambda>e. fst e \<noteq> loc) (ad_pending w)\<rparr>))
        (bindM (committed_delta_version c loc pending) (\<lambda>version.
           thenM (record_batch c loc fs0 wm version iv rt)
             (if pending \<noteq> None then delete_pending ?m loc False else ret ()))))"
  have commit: "wp (?commit fs0) ?q ?e u" if "J u" and fs0: "fs0 \<noteq> []" "processed_files ?cache paths fs0"
    for fs0 and u :: "'z adapter_scheme"
  proof -
    let ?u = "u\<lparr>ad_pending := filter (\<lambda>e. fst e \<noteq> loc) (ad_pending u)\<rparr>"
    have pend: "map_of (ad_pending u) loc = ?pending" and v: "view_in (table_key l) fs (\<lambda>v. v = v0) ?u"
      using that(1) assms(3) by (simp_all add: J_def view_in_unfold)
    have "wp (bindM (committed_delta_version c loc ?pending) (\<lambda>version.
        thenM (record_batch c loc fs0 wm version iv rt)
          (if ?pending \<noteq> None then delete_pending ?m loc False else ret ()))) ?q ?e ?u"
      unfolding wp_bindM [of "committed_delta_version _ _ _"]
      by (rule wp_mono [OF wp_committed_delta_version [OF view_in_reads_log [OF assms(2)] v]])
         (use assms(3) fs0 in \<open>(intro recording, blast, simp), (simp, elim view_in_mono, simp)\<close>)
    then show ?thesis unfolding wp_bindM [of "asks _"] wp_asks pend wp_thenM [of "modifyM _"] wp_modifyM .
  qed
  let ?tail = "\<lambda>found. if List.map_filter (map_of ?cache) paths @ found = [] then ret ()
      else ?commit (List.map_filter (map_of ?cache) paths @ found)"
  have tail: "wp (?tail found) ?q ?e u" if "J u" and "fi_path ` set found \<subseteq> set ?uncached" for found and u :: "'z adapter_scheme"
  proof -
    have ok: "processed_files ?cache paths (List.map_filter (map_of ?cache) paths @ found)"
      using that(2) unfolding processed_files_def by auto
    show ?thesis
    proof (cases "List.map_filter (map_of ?cache) paths @ found = []")
      case True
      then have "?q () u" using that(1) ok by (simp add: J_def)
      then show ?thesis unfolding if_P [OF True] wp_ret .
    next
      case False
      then show ?thesis unfolding if_not_P [OF False] by (intro commit that(1) ok)
    qed
  qed
  have listing: "wp (bindM (if ?uncached = [] then ret [] else list_uncached c ?uncached (root_patterns roots patterns) []) ?tail)
      ?q ?e u" if "J u" for u :: "'z adapter_scheme"
  proof (cases "?uncached = []")
    case True
    show ?thesis unfolding if_P [OF True] wp_bindM [of "ret _"] wp_ret by (rule tail [OF that]) simp
  next
    case False
    have "wp (bindM (list_uncached c ?uncached (root_patterns roots patterns) []) ?tail) ?q ?e u"
      unfolding wp_bindM [of "list_uncached _ _ _ _"]
      by (rule wp_mono [OF wp_list_uncached [OF cl that]]) (simp, use tail in blast, rule J_e)
    then show ?thesis unfolding if_not_P [OF False] .
  qed
  have "wp (bindM (read_watermark ?m loc True) (\<lambda>current. bindM (asks ad_cache) (\<lambda>cache.
      let uncached = filter (\<lambda>p. map_of cache p = None) paths in
      bindM (if uncached = [] then ret [] else list_uncached c uncached (root_patterns roots patterns) []) (\<lambda>found.
        let processed = List.map_filter (map_of cache) paths @ found in
        if processed = [] then ret ()
        else bindM (asks (\<lambda>w. map_of (ad_pending w) loc)) (\<lambda>pending.
          thenM (modifyM (\<lambda>w. w\<lparr>ad_pending := filter (\<lambda>e. fst e \<noteq> loc) (ad_pending w)\<rparr>))
            (bindM (committed_delta_version c loc pending) (\<lambda>version.
               thenM (record_batch c loc processed current version iv rt)
                 (if pending \<noteq> None then delete_pending ?m loc False else ret ())))))))) ?q ?e u"
    if "J u" for u :: "'z adapter_scheme"
    unfolding wp_bindM [of "read_watermark _ _ _"]
  proof (rule wp_mono [OF wp_read_watermark_strict [OF quiet_J that assms(2)]])
    fix r and v :: "'z adapter_scheme"
    assume "J v \<and> stored_watermark (st_tables v (table_key l)) = Inr r"
    then have v: "J v" and r: "r = wm" and cache: "ad_cache v = ?cache"
      using assms(3,4) by (auto simp: J_def view_in_def stored_view)
    show "wp (bindM (asks ad_cache) (\<lambda>cache.
      let uncached = filter (\<lambda>p. map_of cache p = None) paths in
      bindM (if uncached = [] then ret [] else list_uncached c uncached (root_patterns roots patterns) []) (\<lambda>found.
        let processed = List.map_filter (map_of cache) paths @ found in
        if processed = [] then ret ()
        else bindM (asks (\<lambda>w. map_of (ad_pending w) loc)) (\<lambda>pending.
          thenM (modifyM (\<lambda>w. w\<lparr>ad_pending := filter (\<lambda>e. fst e \<noteq> loc) (ad_pending w)\<rparr>))
            (bindM (committed_delta_version c loc pending) (\<lambda>version.
               thenM (record_batch c loc processed r version iv rt)
                 (if pending \<noteq> None then delete_pending ?m loc False else ret ()))))))) ?q ?e v"
      unfolding wp_bindM [of "asks ad_cache"] wp_asks cache r Let_def by (rule listing [OF v])
  qed (rule J_e)
  note after_own = this
  have "J w" using assms(1) by (simp add: J_def)
  show ?thesis
    unfolding update_checkpoint_def Let_def [of "en_manager c"] wp_thenM [of "ensure_own_table c"]
    by (rule wp_mono [OF keepsD [OF keeps_ensure_own_table [OF quiet_J] \<open>J w\<close>]]) (rule after_own, assumption, rule J_e)
qed

lemma begin_batch_atomic_cases:
  fixes w :: "'z adapter_scheme"
  assumes "abfss_parse loc = Some l" and "stored_watermark (st_tables w (table_key l)) = Inr wm"
    and "begin_batch c loc paths job w = (res, w')"
  shows "log_files w' (table_key l) = log_files w (table_key l) \<and>
    stored_watermark (st_tables w' (table_key l)) = Inr wm \<and>
    (case res of
       Inr r \<Rightarrow> (\<forall>q \<in> set paths. map_of (ad_cache w) q \<noteq> None) \<and>
         (\<exists>p. begun (table_key l) wm paths w p \<and> applies_to p wm \<and> r = [(batch_token_property, pb_token p)] \<and>
            stored_pending (st_tables w' (table_key l)) = Inr (Some p) \<and> map_of (ad_pending w') loc = Some p)
     | Inl x \<Rightarrow> stored_pending (st_tables w' (table_key l)) = stored_pending (st_tables w (table_key l)) \<or>
         (\<exists>p. begun (table_key l) wm paths w p \<and> stored_pending (st_tables w' (table_key l)) = Inr (Some p)))"
proof -
  let ?k = "table_key l" and ?v = "view (st_tables w (table_key l))"
  have wm: "view_watermark ?v = Inr wm" using assms(2) by (simp add: stored_view)
  have "view_in ?k (log_files w ?k) (\<lambda>v. v = ?v) w" by (simp add: view_in_def)
  from wp_begin_batch [OF this assms(1) HOL.refl wm, of c paths job] show ?thesis
    using assms(3) by (auto simp: wp_def view_in_def stored_view wm begun_applies split: sum.splits)
qed

section \<open>Properties\<close>

text \<open>
  C9: \<open>begin_batch\<close> commits itself to a batch before the job can run. Under any outages it leaves the
  watermark and the Delta log alone. When it returns, every path was discovered before, the stored
  pending batch names exactly those paths with their modification times, a fresh token, the current
  watermark, to which it therefore applies, and the latest log version, and the token is what the job is
  told to write. When it raises, the stored pending batch is the old one or that new one.
\<close>

theorem begin_batch_atomic:
  fixes w :: "'z adapter_scheme"
  assumes "abfss_parse loc = Some l" and "stored_watermark (st_tables w (table_key l)) = Inr wm"
  shows "case begin_batch c loc paths job w of (res, w') \<Rightarrow>
    log_files w' (table_key l) = log_files w (table_key l) \<and>
    stored_watermark (st_tables w' (table_key l)) = Inr wm \<and>
    (case res of
       Inr r \<Rightarrow> (\<forall>q \<in> set paths. map_of (ad_cache w) q \<noteq> None) \<and>
         (\<exists>p. begun (table_key l) wm paths w p \<and> applies_to p wm \<and> r = [(batch_token_property, pb_token p)] \<and>
            stored_pending (st_tables w' (table_key l)) = Inr (Some p) \<and> map_of (ad_pending w') loc = Some p)
     | Inl x \<Rightarrow> stored_pending (st_tables w' (table_key l)) = stored_pending (st_tables w (table_key l)) \<or>
         (\<exists>p. begun (table_key l) wm paths w p \<and> stored_pending (st_tables w' (table_key l)) = Inr (Some p)))"
  using begin_batch_atomic_cases [OF assms] by (simp split: prod.split)

definition sample_cache :: "(string \<times> file_info) list" where
  "sample_cache = [(''/a'', \<lparr>fi_path = ''/a'', fi_name = ''a'', fi_length = 1, fi_modification_time = 1000,
     fi_estimated_bytes = None, fi_contributing_files = []\<rparr>)]"

theorem begin_batch_atomic_witness:
  "case begin_batch sample_env sample_loc [''/a''] ''j''
      (sample_adapter empty_dir [] sample_cache \<lparr>st_faults := [FailBefore (RequestTimeout ''t'')]\<rparr>) of (res, w') \<Rightarrow>
    stored_watermark (st_tables w' (table_key sample_location)) = Inr None \<and>
    (case res of Inr r \<Rightarrow> \<exists>p. stored_pending (st_tables w' (table_key sample_location)) = Inr (Some p)
     | Inl _ \<Rightarrow> True)"
  using begin_batch_atomic [OF parse_sample_loc, where wm = None and c = sample_env and paths = "[''/a'']" and job = "''j''" and
      w = "sample_adapter empty_dir [] sample_cache \<lparr>st_faults := [FailBefore (RequestTimeout ''t'')]\<rparr>"]
  by (auto split: prod.splits sum.splits)

text \<open>
  C10: \<open>update_checkpoint\<close> moves the watermark over the batch or not at all. Under any outages the stored
  watermark afterwards is the old one, with the pending batch untouched, or the one computed from the
  files of the batch that are known, with the version of the batch's own commit if the log has it; it is
  the new one when the call returns, unless no file of the batch could be found. With the new watermark
  the pending batch that \<open>begin_batch\<close> stored is gone or stays, but no longer applies.
\<close>

theorem update_checkpoint_atomic:
  fixes w :: "'z adapter_scheme"
  assumes "abfss_parse loc = Some l" and "stored_watermark (st_tables w (table_key l)) = Inr wm"
  shows "case update_checkpoint c loc roots patterns paths iv rt w of (res, w') \<Rightarrow>
    log_files w' (table_key l) = log_files w (table_key l) \<and>
    (table_unchanged (table_key l) w w' \<and> (res = Inr () \<longrightarrow> processed_files (ad_cache w) paths []) \<or>
     (\<exists>fs version. fs \<noteq> [] \<and> processed_files (ad_cache w) paths fs \<and>
        version \<in> {None, commit_version_of (log_files w (table_key l)) (map_of (ad_pending w) loc)} \<and>
        stored_watermark (st_tables w' (table_key l)) = Inr (Some (new_watermark fs wm version)) \<and>
        stored_pending (st_tables w' (table_key l)) \<in> {Inr None, stored_pending (st_tables w (table_key l))} \<and>
        (\<forall>p. applies_to p wm \<longrightarrow> \<not> applies_to p (Some (new_watermark fs wm version)))))"
proof -
  let ?k = "table_key l" and ?v = "view (st_tables w (table_key l))"
  have wm: "view_watermark ?v = Inr wm" using assms(2) by (simp add: stored_view)
  have start: "view_in ?k (log_files w ?k) (\<lambda>v. v = ?v) w" by (simp add: view_in_def)
  have moved: "\<not> applies_to p (Some (new_watermark fs wm version))" if "fs \<noteq> []" "applies_to p wm" for fs version p
    using applies_to_before [OF that(2), of "new_watermark fs wm version"] that(1)
    by (cases wm) (auto simp: new_watermark_def compute_new_watermark_def)
  let ?new = "\<lambda>fs version v. fs \<noteq> [] \<and> processed_files (ad_cache w) paths fs \<and>
      version \<in> {None, commit_version_of (log_files w ?k) (map_of (ad_pending w) loc)} \<and>
      (v = set_wm (new_watermark fs wm version) ?v \<or> v = set_pend None (set_wm (new_watermark fs wm version) ?v))"
  show ?thesis
  proof (cases "update_checkpoint c loc roots patterns paths iv rt w")
    case (Pair res w')
    note u = wp_update_checkpoint [OF start assms(1) HOL.refl wm, of c roots patterns paths iv rt]
    have fs: "log_files w' ?k = log_files w ?k"
      and cases: "(view (st_tables w' ?k) = ?v \<and> (res = Inr () \<longrightarrow> processed_files (ad_cache w) paths [])) \<or>
        (\<exists>fs version. ?new fs version (view (st_tables w' ?k)))"
      using u Pair by (cases res; fastforce simp: wp_def view_in_def)+
    from cases show ?thesis
    proof (elim disjE exE)
      assume "view (st_tables w' ?k) = ?v \<and> (res = Inr () \<longrightarrow> processed_files (ad_cache w) paths [])"
      then show ?thesis using Pair fs by (simp add: table_unchanged_def)
    next
      fix fs version
      assume new: "?new fs version (view (st_tables w' ?k))"
      then have "stored_watermark (st_tables w' ?k) = Inr (Some (new_watermark fs wm version))"
        and "stored_pending (st_tables w' ?k) \<in> {Inr None, stored_pending (st_tables w ?k)}"
        by (auto simp: stored_view)
      with new moved [of fs _ version] have "\<exists>fs version. fs \<noteq> [] \<and> processed_files (ad_cache w) paths fs \<and>
        version \<in> {None, commit_version_of (log_files w ?k) (map_of (ad_pending w) loc)} \<and>
        stored_watermark (st_tables w' ?k) = Inr (Some (new_watermark fs wm version)) \<and>
        stored_pending (st_tables w' ?k) \<in> {Inr None, stored_pending (st_tables w ?k)} \<and>
        (\<forall>p. applies_to p wm \<longrightarrow> \<not> applies_to p (Some (new_watermark fs wm version)))"
        by blast
      then show ?thesis using Pair \<open>log_files w' ?k = log_files w ?k\<close> by simp
    qed
  qed
qed

theorem update_checkpoint_atomic_witness:
  "case update_checkpoint sample_env sample_loc [] [] [''/a''] 10 100
      (sample_adapter empty_dir [] sample_cache \<lparr>st_faults := [NoFault, FailAfter Killed]\<rparr>) of (res, w') \<Rightarrow>
    stored_watermark (st_tables w' (table_key sample_location)) = Inr None \<and> res \<noteq> Inr () \<or>
    (\<exists>wm. stored_watermark (st_tables w' (table_key sample_location)) = Inr (Some wm))"
  using update_checkpoint_atomic [OF parse_sample_loc, where wm = None and c = sample_env and paths = "[''/a'']" and
      roots = "[]" and patterns = "[]" and iv = 10 and rt = 100 and
      w = "sample_adapter empty_dir [] sample_cache \<lparr>st_faults := [NoFault, FailAfter Killed]\<rparr>"]
  by (auto simp: processed_files_def sample_cache_def map_filter_simps dest: unchanged_stored split: prod.splits)

text \<open>
  C1: a batch is processed exactly once, even when the process dies after \<open>begin_batch\<close>. Whatever
  becomes of the job, if the table's watermark and pending batch are still those \<open>begin_batch\<close> left, then a
  later \<open>reconcile_checkpoint\<close> that returns finds the watermark moved over the batch's files when the log
  has the batch's commit, and unmoved, but for adoption, when it has not.
\<close>

theorem interrupted_batch_settled:
  fixes w :: "'z adapter_scheme"
  assumes "abfss_parse loc = Some l" and "stored_watermark (st_tables w (table_key l)) = Inr wm" and "paths \<noteq> []"
    and "begin_batch c loc paths job w = (Inr props, w1)"
    and "view (st_tables w2 (table_key l)) = view (st_tables w1 (table_key l))"
    and "reconcile_checkpoint c loc roots patterns model buf iv rt (w2 :: 'z adapter_scheme) = (Inr (), w3)"
  shows "\<exists>p. begun (table_key l) wm paths w p \<and> props = [(batch_token_property, pb_token p)] \<and>
    (case token_version_of (log_files w2 (table_key l)) p of
       Some v \<Rightarrow> \<exists>wm'. stored_watermark (st_tables w3 (table_key l)) = Inr (Some wm') \<and>
         moved_on c l (log_files w2 (table_key l)) (new_watermark (pending_infos p) wm (Some v)) wm'
     | None \<Rightarrow> (case wm of None \<Rightarrow> stored_watermark (st_tables w3 (table_key l)) = Inr None
         | Some wm0 \<Rightarrow> \<exists>wm'. stored_watermark (st_tables w3 (table_key l)) = Inr (Some wm') \<and>
             moved_on c l (log_files w2 (table_key l)) wm0 wm'))"
proof -
  let ?k = "table_key l" and ?fs = "log_files w2 (table_key l)" and ?v = "view (st_tables w (table_key l))"
  have wm: "view_watermark ?v = Inr wm" using assms(2) by (simp add: stored_view)
  have start: "view_in ?k (log_files w ?k) (\<lambda>v. v = ?v) w" by (simp add: view_in_def)
  from wp_Inr [OF wp_begin_batch [OF start assms(1) HOL.refl wm] assms(4)] obtain p
    where p: "begun ?k wm paths w p" "props = [(batch_token_property, pb_token p)]"
      and v1: "view (st_tables w1 ?k) = set_pend (Some p) ?v"
    by (auto simp: view_in_def)
  let ?v2 = "view (st_tables w2 ?k)"
  have v2: "view_watermark ?v2 = Inr wm" "view_pending ?v2 = Inr (Some p)" by (simp_all add: assms(5) v1 wm)
  have settled: "reconciled c l ?fs ?v2 wm (view (st_tables w3 ?k))"
    using reconcile_cases [OF assms(1) HOL.refl _ assms(6)] v2(1) by (auto simp: stored_view)
  show ?thesis
  proof (cases "token_version_of ?fs p")
    case None
    then have "committed_pending ?v2 wm ?fs = None" by (simp add: committed_pending_def v2(2))
    from reconciled_uncommitted [OF v2(1) this settled] show ?thesis
      using p None by (cases wm) (auto simp: stored_view)
  next
    case (Some v)
    from reconciled_committed [OF v2(2) begun_applies [OF p(1)] Some settled] show ?thesis
      using p Some by (auto simp: stored_view recovered_def)
  qed
qed

definition sample_start :: adapter where
  "sample_start = (sample_adapter empty_dir [] sample_cache)\<lparr>aw_uuid := (\<lambda>_. ''tok'')\<rparr>"

theorem interrupted_batch_settled_witness:
  "\<exists>props w1 w3. begin_batch sample_env sample_loc [''/a''] ''j'' sample_start = (Inr props, w1) \<and>
     reconcile_checkpoint sample_env sample_loc [] [] ''m'' 0 10 100 (w1\<lparr>lk_log := (\<lambda>_. Some sample_log)\<rparr>) = (Inr (), w3) \<and>
     props = [(batch_token_property, ''tok'')] \<and>
     (\<exists>wm. stored_watermark (st_tables w3 (table_key sample_location)) = Inr (Some wm))"
proof -
  let ?k = "table_key sample_location"
  have start: "st_faults sample_start = []" "stored_watermark (st_tables sample_start ?k) = Inr None"
    "st_tables sample_start ?k = empty_dir" "aw_jobs sample_start = []"
    by (simp_all add: sample_start_def sample_adapter_def)
  have "map_of (aw_claimed sample_start) (case hd_next_model sample_start of None \<Rightarrow> [] | Some s \<Rightarrow> s) = None"
    "\<forall>q \<in> set [''/a'']. map_of (ad_cache sample_start) q \<noteq> None"
    by (simp_all add: sample_start_def sample_adapter_def sample_cache_def)
  from run_begin_batch [OF start(1) parse_sample_loc this(1) start(2) this(2), of sample_env "''j''"] obtain props w1
    where begin1: "begin_batch sample_env sample_loc [''/a''] ''j'' sample_start = (Inr props, w1)"
      and w1: "st_faults w1 = []" "src_dir (st_tables w1 ?k) = None" "own_file (st_tables w1 ?k) = None" "aw_jobs w1 = []"
    using start(3,4) by (auto simp: empty_dir_def)
  from begin_batch_atomic_cases [OF parse_sample_loc start(2) begin1] obtain p
    where p: "begun ?k None [''/a''] sample_start p" "stored_watermark (st_tables w1 ?k) = Inr None"
      "stored_pending (st_tables w1 ?k) = Inr (Some p)" "props = [(batch_token_property, pb_token p)]" by auto
  let ?w2 = "w1\<lparr>lk_log := (\<lambda>_. Some sample_log)\<rparr>"
  have tok: "pb_token p = ''tok''" "pb_delta_version_before p = -1" "pb_files p \<noteq> []"
    using p(1) by (simp_all add: begun_def sample_start_def log_latest_def latest_of_def log_files_def sample_adapter_def
        commit_versions_def checkpoint_files_def map_filter_simps)
  have token: "token_version_of sample_log p = Some (log_latest sample_log)"
    using sample_token_of [of p] tok by (simp add: sample_log_versions)
  have "is_compaction (wm_batch_id (recovered p None sample_log)) 10 = Inr False"
    using recovered_batch_id [OF tok(3), of None] by (simp add: is_compaction_def)
  then obtain w3 where reconcile3:
      "reconcile_checkpoint sample_env sample_loc [] [] ''m'' 0 10 100 ?w2 = (Inr (), w3)"
    using run_reconcile_latest [of ?w2 sample_loc sample_location "''m''" 100 sample_log None p 10 sample_env "[]" "[]" 0]
      w1 p(2,3) parse_sample_loc begun_applies [OF p(1)] token
    by (auto simp: no_orphans_def owned_by_other_def incumbent_def sources_ok_def)
  from interrupted_batch_settled [OF parse_sample_loc start(2) _ begin1 _ reconcile3]
  obtain q where q: "begun ?k None [''/a''] sample_start q"
    and outcome: "case token_version_of (log_files ?w2 ?k) q of
       Some v \<Rightarrow> \<exists>wm'. stored_watermark (st_tables w3 ?k) = Inr (Some wm') \<and>
         moved_on sample_env sample_location (log_files ?w2 ?k) (new_watermark (pending_infos q) None (Some v)) wm'
     | None \<Rightarrow> (case (None :: watermark option) of None \<Rightarrow> stored_watermark (st_tables w3 ?k) = Inr None
         | Some wm0 \<Rightarrow> \<exists>wm'. stored_watermark (st_tables w3 ?k) = Inr (Some wm') \<and>
             moved_on sample_env sample_location (log_files ?w2 ?k) wm0 wm')"
    by auto
  have "token_version_of sample_log q = Some 1"
    using q by (intro sample_token_of) (simp_all add: begun_def sample_start_def log_latest_def latest_of_def log_files_def
        sample_adapter_def commit_versions_def checkpoint_files_def map_filter_simps)
  then have "\<exists>wm. stored_watermark (st_tables w3 ?k) = Inr (Some wm)"
    using outcome by (auto simp: log_files_def)
  then show ?thesis using begin1 reconcile3 p(4) tok(1) by blast
qed



end
