(* ===== verification/Quota_Eviction.thy ===== *)
theory Quota_Eviction
  imports Credentials Adla_Jobs "HOL-Library.Multiset"
begin

text \<open>
  \<open>quota_eviction.py\<close>: when the queue of the workspace is full, \<open>retry_with_quota_eviction\<close> cancels the
  least important jobs of other runs and submits again. What it needs of the connection handle is the
  protocol \<open>EvictionContext\<close>, here the record \<open>eviction_ctx\<close>; the locale \<open>eviction_context\<close> states what
  the handle promises, and it is interpreted on \<open>ScopeConnectionHandle\<close> (\<open>handle_ctx\<close>).
\<close>

section \<open>Policy\<close>

record quota_policy =
  qp_account :: string
  qp_enabled :: bool
  qp_max_attempts :: int
  qp_cancel_num :: int
  qp_wait_seconds :: real
  qp_jitter_seconds :: real

definition quota_from_credentials :: "scope_credentials \<Rightarrow> quota_policy" where
  "quota_from_credentials c =
     \<lparr>qp_account = adla_account c, qp_enabled = enable_quota_eviction c, qp_max_attempts = quota_eviction_max_attempts c,
      qp_cancel_num = quota_eviction_cancel_num c, qp_wait_seconds = quota_eviction_wait_seconds c,
      qp_jitter_seconds = quota_eviction_jitter_seconds c\<rparr>"

definition quota_disabled :: quota_policy where
  "quota_disabled = \<lparr>qp_account = [], qp_enabled = False, qp_max_attempts = 0, qp_cancel_num = 1,
     qp_wait_seconds = 1, qp_jitter_seconds = 0\<rparr>"

definition quota_needles :: "string list" where
  "quota_needles = [''Cannot exceed'', ''queued SCOPE jobs'']"

definition is_quota_error :: "pyexn \<Rightarrow> bool" where
  "is_quota_error e \<longleftrightarrow> list_all (\<lambda>needle. py_contains needle (exn_text e)) quota_needles"

section \<open>Victims\<close>

text \<open>\<open>int(job.get("priority", 0))\<close>, or 0 when that raises \<open>TypeError\<close> or \<open>ValueError\<close>.\<close>

definition victim_priority :: "job_dict \<Rightarrow> int" where
  "victim_priority job = (case jint (dget job ''priority'' (JInt 0)) of Inr i \<Rightarrow> i | Inl _ \<Rightarrow> 0)"

definition victim_key :: "job_dict \<Rightarrow> int \<times> string" where
  "victim_key job = (- victim_priority job, or_blank (dget job ''submitTime'' JNull))"

definition select_victims :: "job_dict list \<Rightarrow> int \<Rightarrow> job_dict list" where
  "select_victims jobs k = (if k \<le> 0 \<or> jobs = [] then [] else take (nat k) (sort_key victim_key jobs))"

section \<open>Evicting\<close>

record 'w eviction_ctx =
  ec_list_jobs :: "('w, job_dict list) eff"
  ec_cancel_job_async :: "string \<Rightarrow> ('w, unit) eff"
  ec_is_self_job :: "'w \<Rightarrow> job_dict \<Rightarrow> bool"

fun cancel_victims :: "'w eviction_ctx \<Rightarrow> job_dict list \<Rightarrow> ('w, job_dict list) eff" where
  "cancel_victims ctx [] = ret []"
| "cancel_victims ctx (victim # vs) =
     (if job_id_of victim = [] then cancel_victims ctx vs
      else
        bindM (tryM (thenM (ec_cancel_job_async ctx (job_id_of victim)) (ret [victim])) (\<lambda>_. ret [])) (\<lambda>cancelled.
        bindM (cancel_victims ctx vs) (\<lambda>rest. ret (cancelled @ rest))))"

definition gather_and_cancel :: "'w eviction_ctx \<Rightarrow> quota_policy \<Rightarrow> ('w, job_dict list) eff" where
  "gather_and_cancel ctx policy =
     bindM (tryM (bindM (ec_list_jobs ctx) (\<lambda>jobs. ret (Some jobs))) (\<lambda>_. ret None)) (\<lambda>listed.
       case listed of
         None \<Rightarrow> ret []
       | Some jobs \<Rightarrow>
           bindM (asks (\<lambda>w. filter (\<lambda>job. \<not> ec_is_self_job ctx w job) jobs)) (\<lambda>others.
             cancel_victims ctx (select_victims others (qp_cancel_num policy))))"

text \<open>
  The attempts that are left, and the exception of the last one. \<open>draw\<close> is what \<open>random.uniform\<close> returns
  when that many attempts are left.
\<close>

fun eviction_loop ::
    "'w eviction_ctx \<Rightarrow> quota_policy \<Rightarrow> (real \<Rightarrow> ('w, unit) eff) \<Rightarrow> (nat \<Rightarrow> real) \<Rightarrow> ('w, 'a) eff \<Rightarrow>
     nat \<Rightarrow> pyexn option \<Rightarrow> ('w, 'a) eff" where
  "eviction_loop ctx policy sleep draw op 0 last_exc =
     raise (case last_exc of Some e \<Rightarrow> e | None \<Rightarrow> PyExn OtherError ''AssertionError'')"
| "eviction_loop ctx policy sleep draw op (Suc n) last_exc =
     tryM op (\<lambda>exc.
       if \<not> is_quota_error exc then raise exc
       else
         bindM (gather_and_cancel ctx policy) (\<lambda>victims.
           if victims = [] then raise exc
           else
             thenM (sleep (max 0 (qp_wait_seconds policy + draw n)))
               (eviction_loop ctx policy sleep draw op n (Some exc))))"

definition retry_with_quota_eviction ::
    "'w eviction_ctx \<Rightarrow> quota_policy \<Rightarrow> (real \<Rightarrow> ('w, unit) eff) \<Rightarrow> (nat \<Rightarrow> real) \<Rightarrow> ('w, 'a) eff \<Rightarrow> ('w, 'a) eff" where
  "retry_with_quota_eviction ctx policy sleep draw op =
     (if \<not> qp_enabled policy \<or> qp_max_attempts policy \<le> 0 then op
      else eviction_loop ctx policy sleep draw op (nat (qp_max_attempts policy)) None)"

text \<open>The handle as an \<open>EvictionContext\<close>.\<close>

definition handle_ctx :: "manager \<Rightarrow> ('z adla_scheme) eviction_ctx" where
  "handle_ctx m = \<lparr>ec_list_jobs = list_jobs m NotEnded 1000, ec_cancel_job_async = cancel_job_async m,
     ec_is_self_job = is_self_job\<rparr>"

section \<open>The contract of an eviction context\<close>

text \<open>
  \<open>posts\<close> are the cancel requests sent so far, \<open>known\<close> the jobs of the service. Listing returns jobs of
  the service and asks for no cancellation; a cancel request names its job and no other; neither changes
  which jobs are this run's own, nor which jobs there are.
\<close>

locale eviction_context =
  fixes ctx :: "'w eviction_ctx"
    and posts :: "'w \<Rightarrow> string list"
    and known :: "'w \<Rightarrow> job_dict list"
  assumes list_jobs_law: "wp (ec_list_jobs ctx)
      (\<lambda>jobs w'. set jobs \<subseteq> set (known w) \<and> known w' = known w \<and> posts w' = posts w \<and> ec_is_self_job ctx w' = ec_is_self_job ctx w)
      (\<lambda>_ w'. known w' = known w \<and> posts w' = posts w \<and> ec_is_self_job ctx w' = ec_is_self_job ctx w) w"
    and cancel_law: "wp (ec_cancel_job_async ctx i)
      (\<lambda>_ w'. known w' = known w \<and> set (posts w') \<subseteq> insert i (set (posts w)) \<and> ec_is_self_job ctx w' = ec_is_self_job ctx w)
      (\<lambda>_ w'. known w' = known w \<and> set (posts w') \<subseteq> insert i (set (posts w)) \<and> ec_is_self_job ctx w' = ec_is_self_job ctx w) w"
begin

text \<open>
  From \<open>w\<close> to \<open>w'\<close>, in which jobs may have been submitted, only jobs of the service that are not this
  run's were asked to cancel.
\<close>

definition spares_own :: "'w \<Rightarrow> 'w \<Rightarrow> bool" where
  "spares_own w w' \<longleftrightarrow> set (known w) \<subseteq> set (known w') \<and> ec_is_self_job ctx w' = ec_is_self_job ctx w \<and>
     (\<forall>i \<in> set (posts w') - set (posts w). \<exists>j \<in> set (known w'). job_id_of j = i \<and> i \<noteq> [] \<and> \<not> ec_is_self_job ctx w j)"

lemma spares_own_refl: "spares_own w w"
  by (simp add: spares_own_def)

lemma spares_ownD:
  assumes "spares_own w w'"
  shows "set (known w) \<subseteq> set (known w')" and "ec_is_self_job ctx w' = ec_is_self_job ctx w"
    and "i \<in> set (posts w') \<Longrightarrow> i \<notin> set (posts w) \<Longrightarrow>
      \<exists>j \<in> set (known w'). job_id_of j = i \<and> i \<noteq> [] \<and> \<not> ec_is_self_job ctx w j"
  using assms unfolding spares_own_def by blast+

lemma spares_own_trans:
  assumes "spares_own u v" and "spares_own v w"
  shows "spares_own u w"
  unfolding spares_own_def
proof (intro conjI ballI)
  show "set (known u) \<subseteq> set (known w)" using spares_ownD(1) [OF assms(1)] spares_ownD(1) [OF assms(2)] by (rule subset_trans)
  show "ec_is_self_job ctx w = ec_is_self_job ctx u" using spares_ownD(2) [OF assms(1)] spares_ownD(2) [OF assms(2)] by simp
  fix i
  assume i: "i \<in> set (posts w) - set (posts u)"
  show "\<exists>j \<in> set (known w). job_id_of j = i \<and> i \<noteq> [] \<and> \<not> ec_is_self_job ctx u j"
  proof (cases "i \<in> set (posts v)")
    case True
    then show ?thesis using spares_ownD(3) [OF assms(1), of i] spares_ownD(1) [OF assms(2)] i by blast
  next
    case False
    then show ?thesis using spares_ownD(3) [OF assms(2), of i] spares_ownD(2) [OF assms(1)] i by auto
  qed
qed

lemma cancel_victims_spares:
  assumes "set vs \<subseteq> set (known w)" and "\<forall>v \<in> set vs. \<not> ec_is_self_job ctx w v"
  shows "wp (cancel_victims ctx vs) (\<lambda>r w'. spares_own w w' \<and> set r \<subseteq> set vs) (\<lambda>_ w'. spares_own w w') w"
  using assms
proof (induction vs arbitrary: w)
  case (Cons v vs)
  have rest: "wp (cancel_victims ctx vs) (\<lambda>r w'. spares_own w w' \<and> set r \<subseteq> set (v # vs)) (\<lambda>_ w'. spares_own w w') u"
    if "spares_own w u" for u
  proof (rule wp_mono [OF Cons.IH])
    show "set vs \<subseteq> set (known u)" "\<forall>v \<in> set vs. \<not> ec_is_self_job ctx u v"
      using Cons.prems spares_ownD(1,2) [OF that] by auto
  qed (use that spares_own_trans in auto)
  show ?case
  proof (cases "job_id_of v = []")
    case True
    then show ?thesis using rest [OF spares_own_refl] by simp
  next
    case False
    let ?cancel = "thenM (ec_cancel_job_async ctx (job_id_of v)) (ret [v])"
    have one: "spares_own w u" if "known u = known w" "set (posts u) \<subseteq> insert (job_id_of v) (set (posts w))"
        "ec_is_self_job ctx u = ec_is_self_job ctx w" for u
      unfolding spares_own_def using that Cons.prems False by auto
    have "wp ?cancel (\<lambda>r u. spares_own w u \<and> set r \<subseteq> {v}) (\<lambda>_ u. spares_own w u) w"
      unfolding wp_thenM by (rule wp_mono [OF cancel_law]) (auto simp: wp_ret intro: one)
    then have "wp (tryM ?cancel (\<lambda>_. ret [])) (\<lambda>r u. spares_own w u \<and> set r \<subseteq> {v}) (\<lambda>_ u. spares_own w u) w"
      unfolding wp_tryM by (rule wp_mono) (auto simp: wp_ret)
    then have "wp (bindM (tryM ?cancel (\<lambda>_. ret [])) (\<lambda>cancelled. bindM (cancel_victims ctx vs) (\<lambda>rest. ret (cancelled @ rest))))
        (\<lambda>r w'. spares_own w w' \<and> set r \<subseteq> set (v # vs)) (\<lambda>_ w'. spares_own w w') w"
      unfolding wp_bindM by (rule wp_mono) (auto simp: wp_ret intro!: wp_mono [OF rest])
    then show ?thesis using False by simp
  qed
qed (simp add: wp_ret spares_own_refl)

lemma select_victims_subset: "set (select_victims jobs k) \<subseteq> set jobs"
  by (auto simp: select_victims_def dest: in_set_takeD)

lemma gather_spares: "wp (gather_and_cancel ctx policy) (\<lambda>_ w'. spares_own w w') (\<lambda>_ w'. spares_own w w') w"
proof -
  have listing: "wp (tryM (bindM (ec_list_jobs ctx) (\<lambda>jobs. ret (Some jobs))) (\<lambda>_. ret None))
      (\<lambda>r u. spares_own w u \<and> (case r of None \<Rightarrow> True | Some jobs \<Rightarrow> set jobs \<subseteq> set (known u))) (\<lambda>_ u. spares_own w u) w"
    unfolding wp_tryM wp_bindM by (rule wp_mono [OF list_jobs_law]) (auto simp: wp_ret spares_own_def)
  have "wp (case r of None \<Rightarrow> ret [] | Some jobs \<Rightarrow>
      bindM (asks (\<lambda>w. filter (\<lambda>job. \<not> ec_is_self_job ctx w job) jobs)) (\<lambda>others.
        cancel_victims ctx (select_victims others (qp_cancel_num policy))))
      (\<lambda>_ w'. spares_own w w') (\<lambda>_ w'. spares_own w w') u"
    if "spares_own w u \<and> (case r of None \<Rightarrow> True | Some jobs \<Rightarrow> set jobs \<subseteq> set (known u))" for r u
  proof (cases r)
    case None
    then show ?thesis using that by (simp add: wp_ret)
  next
    case (Some jobs)
    let ?others = "filter (\<lambda>job. \<not> ec_is_self_job ctx u job) jobs"
    have "wp (cancel_victims ctx (select_victims ?others (qp_cancel_num policy)))
        (\<lambda>r w'. spares_own u w' \<and> set r \<subseteq> set (select_victims ?others (qp_cancel_num policy))) (\<lambda>_ w'. spares_own u w') u"
      by (rule cancel_victims_spares) (use select_victims_subset [of ?others] that Some in auto)
    then show ?thesis
      using that Some by (auto simp: wp_bindM wp_asks intro: spares_own_trans elim!: wp_mono)
  qed
  then show ?thesis
    unfolding gather_and_cancel_def wp_bindM [of "tryM _ _"] by (intro wp_mono [OF listing]) auto
qed

lemma eviction_loop_spares:
  assumes op: "\<And>w. wp op (\<lambda>a w'. spares_own w w') (\<lambda>_ w'. spares_own w w') w"
    and sleep: "\<And>d w. wp (sleep d) (\<lambda>_ w'. spares_own w w') (\<lambda>_ w'. spares_own w w') w"
  shows "wp (eviction_loop ctx policy sleep draw op n last_exc) (\<lambda>_ w'. spares_own w w') (\<lambda>_ w'. spares_own w w') w"
proof (induction n arbitrary: last_exc w)
  case (Suc n)
  let ?S = "\<lambda>u. spares_own w u" and ?loop = "\<lambda>exc. eviction_loop ctx policy sleep draw op n (Some exc)"
  let ?evict = "\<lambda>exc. bindM (gather_and_cancel ctx policy) (\<lambda>victims.
      if victims = [] then raise exc else thenM (sleep (max 0 (qp_wait_seconds policy + draw n))) (?loop exc))"
  have from_u: "wp k (\<lambda>_. ?S) (\<lambda>_. ?S) u" if "?S u" "wp k (\<lambda>_ v. spares_own u v) (\<lambda>_ v. spares_own u v) u" for k :: "('w, 'x) eff" and u
    using that(2) by (rule wp_mono) (use that(1) spares_own_trans in blast)+
  have again: "wp (thenM (sleep d) (?loop exc)) (\<lambda>_. ?S) (\<lambda>_. ?S) u" if "?S u" for d exc u
    unfolding wp_thenM by (rule wp_mono [OF from_u [OF that sleep]]) (auto intro: from_u Suc.IH)
  have evict: "wp (?evict exc) (\<lambda>_. ?S) (\<lambda>_. ?S) u" if "?S u" for exc u
    unfolding wp_bindM by (rule wp_mono [OF from_u [OF that gather_spares]]) (auto simp: wp_raise again)
  show ?case
    unfolding eviction_loop.simps wp_tryM
    by (rule wp_mono [OF op]) (auto simp: wp_raise evict)
qed (simp add: wp_raise spares_own_refl)

lemma retry_spares:
  assumes "\<And>w. wp op (\<lambda>a w'. spares_own w w') (\<lambda>_ w'. spares_own w w') w"
    and "\<And>d w. wp (sleep d) (\<lambda>_ w'. spares_own w w') (\<lambda>_ w'. spares_own w w') w"
  shows "wp (retry_with_quota_eviction ctx policy sleep draw op) (\<lambda>_ w'. spares_own w w') (\<lambda>_ w'. spares_own w w') w"
  using assms eviction_loop_spares [OF assms] by (simp add: retry_with_quota_eviction_def)

end

section \<open>The handle keeps the contract\<close>

lemma wp_list_jobs_law:
  fixes w :: "'z adla_scheme"
  shows "wp (list_jobs m f n)
    (\<lambda>jobs w'. set jobs \<subseteq> set (map sj_dict (aw_jobs w)) \<and> map sj_dict (aw_jobs w') = map sj_dict (aw_jobs w) \<and>
       aw_cancel_posts w' = aw_cancel_posts w \<and> is_self_job w' = is_self_job w)
    (\<lambda>_ w'. map sj_dict (aw_jobs w') = map sj_dict (aw_jobs w) \<and> aw_cancel_posts w' = aw_cancel_posts w \<and>
       is_self_job w' = is_self_job w) w"
proof -
  let ?J = "\<lambda>u :: 'z adla_scheme. aw_jobs u = aw_jobs w \<and> aw_cancel_posts u = aw_cancel_posts w \<and>
      aw_active u = aw_active w \<and> aw_run u = aw_run w"
  have "wp (list_jobs m f n) (\<lambda>jobs u. ?J u \<and> jobs = take n (map sj_dict (filter (filter_accepts f) (aw_jobs w)))) (\<lambda>_. ?J) w"
    unfolding list_jobs_def
    by (rule wp_retried_read, simp add: quiet_def clock_free_def fault_free_def, simp, rule wp_storage_call)
       (simp_all add: wp_def)
  then show ?thesis
    by (rule wp_mono) (auto simp: is_self_job_def fun_eq_iff cong: json.case_cong dest!: in_set_takeD)
qed

lemma wp_cancel_law:
  fixes w :: "'z adla_scheme"
  shows "wp (cancel_job_async m i)
    (\<lambda>_ w'. map sj_dict (aw_jobs w') = map sj_dict (aw_jobs w) \<and> set (aw_cancel_posts w') \<subseteq> insert i (set (aw_cancel_posts w)) \<and>
       is_self_job w' = is_self_job w)
    (\<lambda>_ w'. map sj_dict (aw_jobs w') = map sj_dict (aw_jobs w) \<and> set (aw_cancel_posts w') \<subseteq> insert i (set (aw_cancel_posts w)) \<and>
       is_self_job w' = is_self_job w) w"
proof -
  let ?J = "\<lambda>u :: 'z adla_scheme. aw_jobs u = aw_jobs w \<and> set (aw_cancel_posts u) \<subseteq> insert i (set (aw_cancel_posts w)) \<and>
      aw_active u = aw_active w \<and> aw_run u = aw_run w"
  have "wp (cancel_job_async m i) (\<lambda>_. ?J) (\<lambda>_. ?J) w"
    unfolding cancel_job_async_def
    by (rule wp_quiet_logged) (simp_all add: quiet_def clock_free_def fault_free_def subset_insertI wp_def)
  then show ?thesis
    by (rule wp_mono) (auto simp: is_self_job_def fun_eq_iff cong: json.case_cong)
qed

interpretation handle_eviction: eviction_context "handle_ctx m :: ('z adla_scheme) eviction_ctx" aw_cancel_posts
    "\<lambda>w. map sj_dict (aw_jobs w)" for m
  by unfold_locales (unfold handle_ctx_def eviction_ctx.simps, rule wp_list_jobs_law, rule wp_cancel_law)

end
