(* ===== verification/Job_Lifecycle.thy ===== *)
theory Job_Lifecycle
  imports Quota_Eviction Adapter_Discovery
begin

text \<open>
  The life of a SCOPE job (\<open>connections.py\<close>): \<open>submit_job\<close>, \<open>poll_job\<close>, \<open>cancel_job\<close>, \<open>submit_and_wait\<close>,
  \<open>cancel_orphaned_jobs\<close> and \<open>execute\<close>. A PUT is answered by the next \<open>put_plan\<close> of the service: it accepts
  the job, with the response and the polls to come, or refuses it; plans, polls and outages are arbitrary.
  Waiting loops have fuel, and the lemmas show that it is enough because every round waits. States and
  results in responses are taken to be strings or null.
\<close>

section \<open>ADLAJob\<close>

record adla_job =
  jb_id :: string
  jb_name :: string
  jb_state :: json
  jb_result :: json
  jb_error :: "string option"
  jb_raw :: job_dict

definition new_job :: "string \<Rightarrow> string \<Rightarrow> adla_job" where
  "new_job i name = \<lparr>jb_id = i, jb_name = name, jb_state = JStr ''Preparing'', jb_result = JNull, jb_error = None, jb_raw = []\<rparr>"

definition is_terminal :: "adla_job \<Rightarrow> bool" where
  "is_terminal job \<longleftrightarrow> is_ended (jb_state job)"

definition is_success :: "json \<Rightarrow> bool" where
  "is_success r \<longleftrightarrow> r = JStr ''Succeeded''"

definition succeeded :: "adla_job \<Rightarrow> bool" where
  "succeeded job \<longleftrightarrow> is_ended (jb_state job) \<and> is_success (jb_result job)"

text \<open>The \<open>message\<close> entries of the error objects; \<open>join\<close> raises on one that is no string.\<close>

fun error_messages :: "json list \<Rightarrow> pyexn + string list" where
  "error_messages [] = Inr []"
| "error_messages (JDict m # es) =
     bindE (error_messages es) (\<lambda>rest.
       case dget m ''message'' (JStr (jstr (JDict m))) of
         JStr s \<Rightarrow> Inr (s # rest)
       | _ \<Rightarrow> Inl (PyExn TypeErr ''sequence item: expected str instance''))"
| "error_messages (_ # es) = error_messages es"

definition extract_error :: "job_dict \<Rightarrow> pyexn + string option" where
  "extract_error data =
     bindE (if jtruthy (dget data ''errorMessage'' JNull) then Inr (dget data ''errorMessage'' JNull)
            else bindE (jattr_dict (dget data ''properties'' (JDict []))) (\<lambda>p. Inr (dget p ''errorMessage'' JNull)))
       (\<lambda>err. case err of
          JList es \<Rightarrow> bindE (error_messages es) (\<lambda>msgs. Inr (Some (if msgs \<noteq> [] then py_join ''; '' msgs else jstr err)))
        | _ \<Rightarrow> Inr (if jtruthy err then Some (jstr err) else None))"

text \<open>\<open>update_from_response\<close>: the job after the assignments, and the exception when one is raised.\<close>

definition update_from_response :: "adla_job \<Rightarrow> job_dict \<Rightarrow> adla_job \<times> pyexn option" where
  "update_from_response job data =
     (let job' = job\<lparr>jb_raw := data, jb_state := dget data ''state'' (jb_state job), jb_result := dget data ''result'' (jb_result job)\<rparr>
      in if is_ended (jb_state job') \<and> \<not> is_success (jb_result job') then
           (case extract_error data of Inl e \<Rightarrow> (job', Some e) | Inr m \<Rightarrow> (job'\<lparr>jb_error := m\<rparr>, None))
         else (job', None))"

section \<open>submit\_job, poll\_job\<close>

definition put_job :: "manager \<Rightarrow> string \<Rightarrow> job_dict \<Rightarrow> ('z adla_scheme, job_dict) eff" where
  "put_job m i body = mg_retry m (storage_call (\<lambda>w.
     case aw_plans w of
       [] \<Rightarrow> (Inl (http_error ''ADLA API PUT returned 500''), w)
     | Refuses text # ps \<Rightarrow> (Inl (http_error text), w\<lparr>aw_plans := ps\<rparr>)
     | Accepts response polls # ps \<Rightarrow>
         (Inr response, w\<lparr>aw_plans := ps, aw_puts := aw_puts w @ [body], aw_jobs := (if i \<in> sj_id ` set (aw_jobs w) then aw_jobs w
            else aw_jobs w @ [\<lparr>sj_id = i, sj_dict = body, sj_polls = polls\<rparr>])\<rparr>)))"

definition next_uuid :: "('z adla_scheme, string) eff" where
  "next_uuid = (\<lambda>w. (Inr (aw_uuid w (aw_uuids_used w)), w\<lparr>aw_uuids_used := Suc (aw_uuids_used w)\<rparr>))"

text \<open>The configuration of a handle besides its manager: its policies and what \<open>random.uniform\<close> returns.\<close>

record handle_config =
  hc_manager :: manager
  hc_quota :: quota_policy
  hc_job_retry :: retry_policy
  hc_draw :: "nat \<Rightarrow> real"
  hc_pipeline_id :: string
  hc_recurrence_id :: "string \<Rightarrow> string"

definition job_body :: "handle_config \<Rightarrow> string \<Rightarrow> string \<Rightarrow> string \<Rightarrow> string \<Rightarrow> int \<Rightarrow> int \<Rightarrow> string option \<Rightarrow> job_dict" where
  "job_body h run_id i name script au priority model_name =
     [(''jobId'', JStr i), (''name'', JStr name), (''type'', JStr ''Scope''), (''degreeOfParallelism'', JInt au),
      (''priority'', JInt priority),
      (''properties'', JDict [(''type'', JStr ''Scope''), (''script'', JStr script)])] @
     (case model_name of
        Some (c # s) \<Rightarrow>
          [(''related'', JDict
             [(''pipelineId'', JStr (hc_pipeline_id h)), (''pipelineName'', JStr ''dbt-scope''),
              (''pipelineUri'', JStr ''https://github.com/microsoft/dbt-scope''), (''runId'', JStr run_id),
              (''recurrenceId'', JStr (hc_recurrence_id h (c # s))), (''recurrenceName'', JStr (c # s))])]
      | _ \<Rightarrow> [])"

definition aborting :: "string \<Rightarrow> pyexn" where
  "aborting name = PyExn DbtRuntimeError (''Not submitting SCOPE job '' @ CHR 0x27 # name @ CHR 0x27 # '': the dbt run is aborting'')"

definition submit_job ::
    "handle_config \<Rightarrow> string \<Rightarrow> string \<Rightarrow> int \<Rightarrow> int \<Rightarrow> string option \<Rightarrow> ('z adla_scheme, adla_job) eff" where
  "submit_job h name script au priority model_name =
     bindM shutdown_is_set (\<lambda>stop.
       if stop then raise (aborting name)
       else
         bindM next_uuid (\<lambda>i.
         bindM (asks aw_run) (\<lambda>run.
         bindM (retry_with_quota_eviction (handle_ctx (hc_manager h)) (hc_quota h) sleepM (hc_draw h)
                 (put_job (hc_manager h) i (job_body h (own_run_id run) i name script au priority model_name))) (\<lambda>response.
           case update_from_response (new_job i name) response of
             (job, None) \<Rightarrow> ret job
           | (_, Some e) \<Rightarrow> raise e))))"

text \<open>\<open>poll_job\<close>, with the exception that \<open>update_from_response\<close> raises after it changed the job.\<close>

definition poll_job :: "handle_config \<Rightarrow> adla_job \<Rightarrow> ('z adla_scheme, adla_job \<times> pyexn option) eff" where
  "poll_job h job = bindM (get_job (hc_manager h) (jb_id job)) (\<lambda>d. ret (update_from_response job d))"

section \<open>cancel\_job\<close>

fun cancel_loop :: "nat \<Rightarrow> manager \<Rightarrow> string \<Rightarrow> int \<Rightarrow> int \<Rightarrow> int \<Rightarrow> ('z adla_scheme, bool) eff" where
  "cancel_loop 0 m i poll_interval max_wait start = raise out_of_fuel"
| "cancel_loop (Suc n) m i poll_interval max_wait start =
     bindM now_us (\<lambda>now.
       if start + max_wait * 1000000 \<le> now then ret False
       else
         thenM (sleepM (real_of_int poll_interval))
           (bindM (poll_ended m i) (\<lambda>ended.
              if ended then thenM (note_confirmed i) (ret True)
              else cancel_loop n m i poll_interval max_wait start)))"

definition cancel_job :: "manager \<Rightarrow> string \<Rightarrow> int \<Rightarrow> int \<Rightarrow> ('z adla_scheme, bool) eff" where
  "cancel_job m i poll_interval max_wait =
     thenM (note_cancelled i)
       (bindM (tryM (thenM (cancel_job_async m i) (ret None)) (\<lambda>e. ret (Some e))) (\<lambda>failed.
          case failed of
            Some e \<Rightarrow>
              bindM (poll_ended m i) (\<lambda>terminal.
                if \<not> terminal then raise e else thenM (note_confirmed i) (ret True))
          | None \<Rightarrow>
              bindM now_us (\<lambda>start.
                cancel_loop (settle_fuel max_wait poll_interval) m i poll_interval max_wait start)))"

definition cancel_own_job :: "manager \<Rightarrow> string \<Rightarrow> int \<Rightarrow> ('z adla_scheme, bool) eff" where
  "cancel_own_job m i wait_seconds =
     thenM (note_cancelled i)
       (bindM (tryM (bindM (cancel_job m i 2 wait_seconds) (\<lambda>b. ret (Some b))) (\<lambda>_. ret None)) (\<lambda>confirmed.
          case confirmed of
            None \<Rightarrow> ret False
          | Some b \<Rightarrow> thenM (whenM b (note_confirmed i)) (ret b)))"

section \<open>cancel\_orphaned\_jobs\<close>

fun cancel_orphans :: "manager \<Rightarrow> job_dict list \<Rightarrow> ('z adla_scheme, json list) eff" where
  "cancel_orphans m [] = ret []"
| "cancel_orphans m (job # jobs) =
     bindM (tryM (thenM (cancel_job m (jstr (dget job ''jobId'' (JStr []))) 2 120) (ret [dget job ''jobId'' (JStr [])]))
              (\<lambda>_. ret [])) (\<lambda>cancelled.
     bindM (cancel_orphans m jobs) (\<lambda>rest. ret (cancelled @ rest)))"

definition cancel_orphaned_jobs :: "manager \<Rightarrow> string \<Rightarrow> ('z adla_scheme, json list) eff" where
  "cancel_orphaned_jobs m model =
     bindM (asks (\<lambda>w. model \<in> set (aw_cancelled_models w))) (\<lambda>settled.
       if settled then ret []
       else
         bindM (tryM (bindM (list_orphaned_jobs m model) (\<lambda>jobs. ret (Some jobs))) (\<lambda>_. ret None)) (\<lambda>listed.
           case listed of
             None \<Rightarrow> thenM (note_settled model) (ret [])
           | Some jobs \<Rightarrow>
               bindM (cancel_orphans m jobs) (\<lambda>cancelled. thenM (note_settled model) (ret cancelled))))"

section \<open>submit\_and\_wait\<close>

definition job_error :: "exn_class \<Rightarrow> string \<Rightarrow> adla_job \<Rightarrow> string \<Rightarrow> pyexn" where
  "job_error cls name job text =
     PyExn cls (''SCOPE job '' @ CHR 0x27 # name @ CHR 0x27 # '' ('' @ jb_id job @ '') '' @ text)"

definition opt_text :: "string option \<Rightarrow> string" where
  "opt_text t = (case t of None \<Rightarrow> ''None'' | Some s \<Rightarrow> s)"

definition register_active :: "string \<Rightarrow> ('z adla_scheme, unit) eff" where
  "register_active i = modifyM (\<lambda>w. w\<lparr>aw_active := i # filter (\<lambda>j. j \<noteq> i) (aw_active w)\<rparr>)"

definition deregister_active :: "string \<Rightarrow> ('z adla_scheme, unit) eff" where
  "deregister_active i = modifyM (\<lambda>w. w\<lparr>aw_active := filter (\<lambda>j. j \<noteq> i) (aw_active w)\<rparr>)"

definition max_consecutive_poll_failures :: nat where
  "max_consecutive_poll_failures = 5"

text \<open>The polling loop: the job when it left the loop, and the exception that ended it.\<close>

fun wait_loop ::
    "nat \<Rightarrow> handle_config \<Rightarrow> string \<Rightarrow> int \<Rightarrow> int \<Rightarrow> int \<Rightarrow> int \<Rightarrow> adla_job \<Rightarrow> nat \<Rightarrow>
     ('z adla_scheme, adla_job \<times> pyexn option) eff" where
  "wait_loop 0 h name poll_interval max_wait wait_on_cancel start job failures = raise out_of_fuel"
| "wait_loop (Suc n) h name poll_interval max_wait wait_on_cancel start job failures =
     (if is_terminal job then ret (job, None)
      else
        bindM shutdown_is_set (\<lambda>stop.
          if stop then
            bindM (asks (\<lambda>w. jb_id job \<in> set (aw_cancelled_ids w))) (\<lambda>cancelled.
              thenM (if cancelled then ret () else bindM (cancel_own_job (hc_manager h) (jb_id job) wait_on_cancel) (\<lambda>_. ret ()))
                (ret (job, Some (job_error DbtRuntimeError name job ''cancelled by shutdown signal''))))
          else
            bindM now_us (\<lambda>now.
              if start + max_wait * 1000000 \<le> now
              then ret (job, Some (job_error DbtRuntimeError name job (''timed out after '' @
                show_int ((now - start) div 1000000) @ ''s in state '' @ jstr (jb_state job))))
              else
                thenM (sleepM (real_of_int poll_interval))
                  (bindM (tryM (bindM (poll_job h job) (\<lambda>r. ret (Inr r))) (\<lambda>e. ret (Inl e))) (\<lambda>polled.
                     case polled of
                       Inr (job', None) \<Rightarrow> wait_loop n h name poll_interval max_wait wait_on_cancel start job' 0
                     | Inr (job', Some e) \<Rightarrow> ret (job', Some e)
                     | Inl e \<Rightarrow>
                         if exn_class e \<in> {RequestsConnectionError, RequestsTimeout} then
                           if max_consecutive_poll_failures \<le> Suc failures
                           then ret (job, Some (job_error DbtDatabaseError name job (''poll failed '' @
                             show_nat (Suc failures) @ '' consecutive times: '' @ exn_text e)))
                           else wait_loop n h name poll_interval max_wait wait_on_cancel start job (Suc failures)
                         else ret (job, Some e))))))"

text \<open>The end of \<open>submit_and_wait\<close> for a job that is not given up.\<close>

definition finish_job :: "string \<Rightarrow> adla_job \<Rightarrow> ('z adla_scheme, adla_job) eff" where
  "finish_job name job =
     (if succeeded job then ret job
      else bindM (asks (\<lambda>w. jb_id job \<in> set (aw_cancelled_ids w))) (\<lambda>cancelled.
        if cancelled then raise (job_error DbtRuntimeError name job ''was cancelled by this dbt run'')
        else raise (job_error DbtDatabaseError name job (''failed: '' @ opt_text (jb_error job)))))"

text \<open>The last look at a job whose cancellation is confirmed: it may have succeeded first.\<close>

definition final_poll :: "handle_config \<Rightarrow> string \<Rightarrow> adla_job \<Rightarrow> pyexn \<Rightarrow> ('z adla_scheme, adla_job) eff" where
  "final_poll h name job exc =
     bindM (tryM (poll_job h job) (\<lambda>e. ret (job, Some e))) (\<lambda>(job', poll_exc).
       case poll_exc of
         Some e \<Rightarrow> raise (job_error DbtRuntimeError name job
           (''was abandoned and its final result is unknown: '' @ exn_text e))
       | None \<Rightarrow> if \<not> succeeded job' then raise exc else finish_job name job')"

text \<open>The \<open>except Exception\<close> of \<open>submit_and_wait\<close>: cancel the job, and see how it ended.\<close>

definition give_up_job :: "handle_config \<Rightarrow> string \<Rightarrow> int \<Rightarrow> adla_job \<Rightarrow> pyexn \<Rightarrow> ('z adla_scheme, adla_job) eff" where
  "give_up_job h name wait_on_cancel job exc =
     bindM (asks (\<lambda>w. jb_id job \<in> set (aw_cancelled_ids w))) (\<lambda>cancelled.
       if cancelled then raise exc
       else
         bindM (cancel_own_job (hc_manager h) (jb_id job) wait_on_cancel) (\<lambda>confirmed.
           if \<not> confirmed then
             raise (job_error DbtRuntimeError name job
               ''was abandoned and its cancellation was not confirmed; it may still commit'')
           else final_poll h name job exc))"

definition track_job ::
    "handle_config \<Rightarrow> string \<Rightarrow> int \<Rightarrow> int \<Rightarrow> string option \<Rightarrow> int \<Rightarrow> adla_job \<Rightarrow> ('z adla_scheme, adla_job) eff" where
  "track_job h name poll_interval max_wait model_name wait_on_cancel job =
     bindM now_us (\<lambda>start.
     bindM (tryM (thenM (ensure_table_owner (hc_manager h) model_name) (ret None)) (\<lambda>e. ret (Some e))) (\<lambda>superseded.
     bindM (case superseded of
              Some e \<Rightarrow> ret (job, Some e)
            | None \<Rightarrow> wait_loop (settle_fuel max_wait poll_interval) h name poll_interval max_wait wait_on_cancel start job 0)
       (\<lambda>(job', exc).
         case exc of
           None \<Rightarrow> finish_job name job'
         | Some e \<Rightarrow> give_up_job h name wait_on_cancel job' e)))"

definition submit_and_wait ::
    "handle_config \<Rightarrow> string \<Rightarrow> string \<Rightarrow> int \<Rightarrow> int \<Rightarrow> int \<Rightarrow> int \<Rightarrow> string option \<Rightarrow> int \<Rightarrow> ('z adla_scheme, adla_job) eff" where
  "submit_and_wait h name script au priority poll_interval max_wait model_name wait_on_cancel =
     thenM (ensure_table_owner (hc_manager h) model_name)
       (bindM (submit_job h name script au priority model_name) (\<lambda>job.
        thenM (register_active (jb_id job))
          (finallyM (track_job h name poll_interval max_wait model_name wait_on_cancel job)
             (deregister_active (jb_id job)))))"

section \<open>execute\<close>

text \<open>\<open>str.rstrip(";")\<close>, and the statements that need no job.\<close>

definition strip_semicolons :: "string \<Rightarrow> string" where
  "strip_semicolons s = rev (dropWhile (\<lambda>c. c = CHR '';'') (rev s))"

definition needs_no_job :: "string \<Rightarrow> bool" where
  "needs_no_job sql \<longleftrightarrow> py_strip sql = [] \<or> py_startswith (py_strip sql) ''--''"

definition is_debug_query :: "string \<Rightarrow> bool" where
  "is_debug_query sql \<longleftrightarrow>
     py_strip (strip_semicolons (py_lower (py_strip sql))) \<in> {''select 1'', ''select 1 as id''}"

text \<open>\<open>_get_token\<close>, as a request that may fail: without a credential above all.\<close>

definition get_token_request :: "('z adla_scheme, unit) eff" where
  "get_token_request = storage_call (\<lambda>w. (Inr (), w))"

definition or_default :: "int option \<Rightarrow> int \<Rightarrow> int" where
  "or_default v d = (case v of None \<Rightarrow> d | Some i \<Rightarrow> if i = 0 then d else i)"

definition or_default_text :: "string option \<Rightarrow> string \<Rightarrow> string" where
  "or_default_text v d = (case v of None \<Rightarrow> d | Some s \<Rightarrow> if s = [] then d else s)"

definition wrap_exception :: "('w, 'a) eff \<Rightarrow> ('w, 'a) eff" where
  "wrap_exception op =
     tryM op (\<lambda>e. if exn_class e = DbtDatabaseError then raise e else raise (PyExn DbtDatabaseError (exn_text e)))"

definition consume_job_settings :: "('z adla_scheme, unit) eff" where
  "consume_job_settings = modifyM (\<lambda>w. w\<lparr>hd_next_name := None, hd_next_au := None, hd_next_priority := None, hd_next_timeout := None\<rparr>)"

text \<open>The message of the response and its code.\<close>

definition execute ::
    "handle_config \<Rightarrow> scope_credentials \<Rightarrow> string \<Rightarrow> string \<Rightarrow> ('z adla_scheme, string \<times> string option) eff" where
  "execute h c sql job_name =
     (if needs_no_job sql then ret (''SKIP'', None)
      else if is_debug_query sql then thenM get_token_request (ret (''OK'', None))
      else
        bindM (wrap_exception
          (bindM (asks (\<lambda>w. w)) (\<lambda>w.
           let name = or_default_text (hd_next_name w) job_name; au = or_default (hd_next_au w) (cred_au c);
               priority = or_default (hd_next_priority w) (cred_priority c);
               max_wait = or_default (hd_next_timeout w) (job_timeout_seconds c); model = hd_next_model w
           in
           thenM consume_job_settings
             (thenM (if or_default_text model [] = [] then ret ()
                     else bindM (cancel_orphaned_jobs (hc_manager h) (or_default_text model [])) (\<lambda>_. ret ()))
               (retry_on_message (mg_engine (hc_manager h)) (hc_job_retry h) sleepM (Some shutdown_is_set)
                 (submit_and_wait h name sql au priority (poll_interval_seconds c) max_wait model (wait_on_cancel_seconds c)))))))
          (\<lambda>job. ret (''OK job_id='' @ jb_id job,
             Some (if jtruthy (jb_result job) then jstr (jb_result job) else ''OK''))))"

end
