(* ===== verification/Job_Outcomes.thy ===== *)
theory Job_Outcomes
  imports Job_Lifecycle Adapter_Frame
begin

text \<open>
  What becomes of a job: a cancellation that is confirmed did end the job, a job that \<open>submit_and_wait\<close>
  stops tracking has ended or was asked to cancel, the waiting loops end, and the jobs the quota
  eviction cancels are never this run's own.
\<close>

section \<open>Requests about a job\<close>

text \<open>
  The invariant of the loops: the tables, a good service on which the jobs of \<open>E\<close> have ended, the ids
  \<open>C\<close> that this process asked to cancel, and a time that has passed.
\<close>

definition tracked :: "(table_key \<Rightarrow> table_dir) \<Rightarrow> string set \<Rightarrow> string set \<Rightarrow> int \<Rightarrow> 'z adla_scheme \<Rightarrow> bool" where
  "tracked T E C c w \<longleftrightarrow> ended_jobs T E w \<and> C \<subseteq> set (aw_cancelled_ids w) \<and> not_before c w"

lemma trackedD:
  assumes "tracked T E C c w"
  shows "ended_jobs T E w" "C \<subseteq> set (aw_cancelled_ids w)" "not_before c w"
  using assms by (simp_all add: tracked_def)

lemma tracked_mono: "tracked T E C c w \<Longrightarrow> D \<subseteq> E \<Longrightarrow> B \<subseteq> C \<Longrightarrow> d \<le> c \<Longrightarrow> tracked T D B d w"
  by (auto simp: tracked_def not_before_def elim: ended_jobs_mono)

lemma tracked_notes:
  "tracked T E C c w \<Longrightarrow> tracked T E (insert i C) c (w\<lparr>aw_cancelled_ids := i # aw_cancelled_ids w\<rparr>)"
  "tracked T E C c w \<Longrightarrow> tracked T E C c (w\<lparr>aw_confirmed_ids := x\<rparr>)"
  "tracked T E C c w \<Longrightarrow> tracked T E C c (w\<lparr>aw_shutdown_in := s\<rparr>)"
  by (auto simp: tracked_def not_before_def ended_jobs_def jobs_ok_def job_ended_def)

lemma wp_note_ids:
  fixes w :: "'z adla_scheme"
  assumes "tracked T E C c w"
  shows "wp (note_cancelled i) (\<lambda>_. tracked T E (insert i C) c) e w" and "wp (note_confirmed i) (\<lambda>_. tracked T E C c) e w"
  using tracked_notes [OF assms] by (simp_all add: note_cancelled_def note_confirmed_def wp_modifyM)

lemma wp_tracked_sleep:
  fixes w :: "'z adla_scheme"
  assumes "tracked T E C c w"
  shows "wp (sleepM (real_of_int iv)) (\<lambda>_. tracked T E C (c + iv * 1000000)) e w"
proof -
  have "\<lceil>real_of_int iv * 1000000\<rceil> = iv * 1000000" by (metis ceiling_of_int of_int_mult of_int_numeral)
  then show ?thesis
    using assms max.cobounded2 [of "iv * 1000000" 0]
    by (simp add: sleepM_def wp_modifyM tracked_def not_before_def ended_jobs_def jobs_ok_def job_ended_def add_mono)
qed

lemma wp_tracked_shutdown:
  fixes w :: "'z adla_scheme"
  shows "tracked T E C c w \<Longrightarrow> wp shutdown_is_set (\<lambda>_. tracked T E C c) e w"
  by (auto simp: shutdown_is_set_def wp_def tracked_notes split: option.split nat.split)

lemma quiet_cancelled: "quiet (\<lambda>w :: 'z adla_scheme. C \<subseteq> set (aw_cancelled_ids w))"
  by (simp add: quiet_def clock_free_def fault_free_def)

lemma wp_tracked_get_job:
  fixes w :: "'z adla_scheme"
  assumes "patient m" and "tracked T E C c w"
  shows "wp (get_job m i) (\<lambda>d. tracked T (if is_ended (job_state d) then insert i E else E) C c) (\<lambda>_. tracked T E C c) w"
proof -
  note D = trackedD [OF assms(2)]
  have "wp (get_job m i) (\<lambda>_. not_before c) (\<lambda>_. not_before c) w"
    unfolding get_job_def by (rule wp_request_time [OF assms(1) D(3)]) (auto simp: wp_def split: option.split)
  moreover have "wp (get_job m i) (\<lambda>_ u. C \<subseteq> set (aw_cancelled_ids u)) (\<lambda>_ u. C \<subseteq> set (aw_cancelled_ids u)) w"
    unfolding get_job_def by (rule wp_quiet_request [OF quiet_cancelled D(2)]) (auto simp: wp_def split: option.split)
  ultimately have "wp (get_job m i) (\<lambda>d u. ended_jobs T (if is_ended (job_state d) then insert i E else E) u \<and>
      not_before c u \<and> C \<subseteq> set (aw_cancelled_ids u)) (\<lambda>_ u. ended_jobs T E u \<and> not_before c u \<and> C \<subseteq> set (aw_cancelled_ids u)) w"
    by (intro wp_conj wp_get_job [OF D(1)])
  then show ?thesis by (rule wp_mono) (simp_all add: tracked_def)
qed

lemma wp_tracked_cancel_request:
  fixes w :: "'z adla_scheme"
  assumes "patient m" and "tracked T E C c w"
  shows "wp (cancel_job_async m i) (\<lambda>_. tracked T E C c) (\<lambda>_. tracked T E C c) w"
proof -
  note D = trackedD [OF assms(2)]
  have time: "wp (cancel_job_async m i) (\<lambda>_. not_before c) (\<lambda>_. not_before c) w"
    unfolding cancel_job_async_def by (rule wp_logged_time [OF assms(1) D(3)]) (simp_all add: wp_def)
  let ?J = "\<lambda>u :: 'z adla_scheme. ended_jobs T E u \<and> C \<subseteq> set (aw_cancelled_ids u)"
  have q: "quiet ?J"
    by (simp add: quiet_def clock_free_def fault_free_def ended_jobs_def jobs_ok_def job_ended_def)
  have "wp (cancel_job_async m i) (\<lambda>_. ?J) (\<lambda>_. ?J) w"
    unfolding cancel_job_async_def by (rule wp_quiet_logged [OF q]) (use D(1,2) in \<open>simp_all add: wp_def\<close>)
  from wp_conj [OF this time] show ?thesis by (rule wp_mono) (simp_all add: tracked_def)
qed

lemma wp_tracked_poll_ended:
  fixes w :: "'z adla_scheme"
  assumes "patient m" and "tracked T E C c w"
  shows "wp (poll_ended m i) (\<lambda>b. tracked T (if b then insert i E else E) C c)
    (\<lambda>x u. tracked T E C c u \<and> exn_class x = ProcessKilled) w"
  unfolding poll_ended_def wp_tryM wp_bindM wp_ret
  by (rule wp_mono [OF wp_tracked_get_job [OF assms]]) auto

section \<open>Cancelling\<close>

lemma wp_cancel_loop:
  fixes w :: "'z adla_scheme"
  assumes "patient m" and "0 < iv" and "tracked T E C (start + mw * 1000000 - int n * (iv * 1000000)) w"
  shows "wp (cancel_loop (Suc n) m i iv mw start) (\<lambda>b u. \<exists>c. tracked T (if b then insert i E else E) C c u)
    (\<lambda>x u. (\<exists>c. tracked T E C c u) \<and> exn_class x = ProcessKilled) w"
  using assms(3)
proof (induction n arbitrary: w)
  case 0
  then show ?case
    by (auto simp: wp_bindM now_us_def wp_asks wp_ret tracked_def not_before_def)
next
  case (Suc n)
  let ?c = "start + mw * 1000000 - int n * (iv * 1000000)"
  let ?q = "\<lambda>b u. \<exists>c. tracked T (if b then insert i E else E) C c u"
  let ?e = "\<lambda>x u. (\<exists>c. tracked T E C c u) \<and> exn_class x = ProcessKilled"
  have polled: "wp (if b then thenM (note_confirmed i) (ret True) else cancel_loop (Suc n) m i iv mw start) ?q ?e u"
    if "tracked T (if b then insert i E else E) C ?c u" for b and u :: "'z adla_scheme"
  proof (cases b)
    case True
    then have "tracked T (insert i E) C ?c u" using that by simp
    from wp_note_ids(2) [OF this, of i ?e] show ?thesis
      using True by (simp add: wp_thenM) (erule wp_mono, auto simp: wp_ret)
  next
    case False
    then show ?thesis using that Suc.IH [of u] by (simp del: cancel_loop.simps)
  qed
  have "wp (bindM (poll_ended m i) (\<lambda>b. if b then thenM (note_confirmed i) (ret True) else cancel_loop (Suc n) m i iv mw start))
      ?q ?e u" if "tracked T E C ?c u" for u :: "'z adla_scheme"
    unfolding wp_bindM by (rule wp_mono [OF wp_tracked_poll_ended [OF assms(1) that]]) (use polled in blast)+
  moreover have "?c = start + mw * 1000000 - int (Suc n) * (iv * 1000000) + iv * 1000000" by (simp add: algebra_simps)
  ultimately have "wp (thenM (sleepM (real_of_int iv))
      (bindM (poll_ended m i) (\<lambda>b. if b then thenM (note_confirmed i) (ret True) else cancel_loop (Suc n) m i iv mw start)))
      ?q ?e w"
    unfolding wp_thenM [of "sleepM _"] by (intro wp_mono [OF wp_tracked_sleep [OF Suc.prems]]) auto
  then show ?case
    using Suc.prems unfolding cancel_loop.simps(2) [of "Suc n"]
    by (auto simp: wp_bindM [of "asks _"] now_us_def wp_asks wp_ret)
qed

lemma fuel_room: "0 < (iv::int) \<Longrightarrow> mw * 1000000 \<le> int (nat (mw div iv) + 1) * (iv * 1000000)"
proof -
  assume iv: "0 < iv"
  have "mw < (mw div iv) * iv + iv"
    using iv by (metis add.commute add_less_cancel_left div_mult_mod_eq pos_mod_bound)
  moreover have "(mw div iv) * iv \<le> int (nat (mw div iv)) * iv" using iv by (intro mult_right_mono) auto
  ultimately have "mw \<le> int (nat (mw div iv) + 1) * iv" by (simp add: algebra_simps)
  then show ?thesis by simp
qed

lemma wp_cancel_job:
  fixes w :: "'z adla_scheme"
  assumes "patient m" and "0 < iv" and "tracked T E C c w"
  shows "wp (cancel_job m i iv mw) (\<lambda>b u. \<exists>c. tracked T (if b then insert i E else E) (insert i C) c u)
    (\<lambda>_ u. \<exists>c. tracked T E (insert i C) c u) w"
  (is "wp _ ?q ?e w")
proof -
  let ?C = "insert i C"
  let ?after = "\<lambda>failed. case failed of
      Some e \<Rightarrow> bindM (poll_ended m i) (\<lambda>terminal. if \<not> terminal then raise e else thenM (note_confirmed i) (ret True))
    | None \<Rightarrow> bindM now_us (\<lambda>start. cancel_loop (settle_fuel mw iv) m i iv mw start)"
  have final: "wp (if \<not> terminal then raise e else thenM (note_confirmed i) (ret True)) ?q ?e u"
    if "tracked T (if terminal then insert i E else E) ?C c u" for terminal e and u :: "'z adla_scheme"
  proof (cases terminal)
    case True
    then have "tracked T (insert i E) ?C c u" using that by simp
    from wp_note_ids(2) [OF this, of i ?e] show ?thesis
      using True by (simp add: wp_thenM) (erule wp_mono, auto simp: wp_ret)
  qed (use that in \<open>auto simp: wp_raise\<close>)
  have loop: "wp (cancel_loop (settle_fuel mw iv) m i iv mw start) ?q ?e u"
    if "tracked T E ?C c u" and "start = st_clock u" for start and u :: "'z adla_scheme"
  proof -
    have "not_before (start + mw * 1000000 - int (nat (mw div iv) + 1) * (iv * 1000000)) u"
      using fuel_room [OF assms(2), of mw] that(2) by (simp add: not_before_def)
    then have "tracked T E ?C (start + mw * 1000000 - int (nat (mw div iv) + 1) * (iv * 1000000)) u"
      using that(1) by (simp add: tracked_def)
    from wp_cancel_loop [OF assms(1,2) this, of i] show ?thesis
      by (simp add: settle_fuel_def del: cancel_loop.simps) (erule wp_mono, auto)
  qed
  have after: "wp (?after failed) ?q ?e u" if "tracked T E ?C c u" for failed and u :: "'z adla_scheme"
  proof (cases failed)
    case None
    then show ?thesis using loop [OF that HOL.refl] by (simp add: wp_bindM now_us_def wp_asks)
  next
    case (Some e)
    have "wp (bindM (poll_ended m i) (\<lambda>terminal. if \<not> terminal then raise e else thenM (note_confirmed i) (ret True))) ?q ?e u"
      unfolding wp_bindM by (rule wp_mono [OF wp_tracked_poll_ended [OF assms(1) that]]) (use final in blast)+
    then show ?thesis using Some by simp
  qed
  have "wp (tryM (thenM (cancel_job_async m i) (ret None)) (\<lambda>e. ret (Some e))) (\<lambda>_. tracked T E ?C c) ?e u"
    if "tracked T E ?C c u" for u :: "'z adla_scheme"
    unfolding wp_tryM wp_thenM wp_ret
    by (rule wp_mono [OF wp_tracked_cancel_request [OF assms(1) that]]) auto
  then have "wp (bindM (tryM (thenM (cancel_job_async m i) (ret None)) (\<lambda>e. ret (Some e))) ?after) ?q ?e u"
    if "tracked T E ?C c u" for u :: "'z adla_scheme"
    unfolding wp_bindM [of "tryM _ _"] by (rule wp_mono) (use that after in blast)+
  then show ?thesis
    unfolding cancel_job_def wp_thenM [of "note_cancelled i"]
    by (intro wp_mono [OF wp_note_ids(1) [OF assms(3)]]) auto
qed

lemma wp_cancel_own_job:
  fixes w :: "'z adla_scheme"
  assumes "patient m" and "tracked T E C c w"
  shows "wp (cancel_own_job m i wait) (\<lambda>b u. \<exists>c. tracked T (if b then insert i E else E) (insert i C) c u)
    (\<lambda>x _. exn_class x = ProcessKilled) w"
  (is "wp _ ?q ?e w")
proof -
  let ?C = "insert i C"
  have caught: "wp (tryM (bindM (cancel_job m i 2 wait) (\<lambda>b. ret (Some b))) (\<lambda>_. ret None))
      (\<lambda>r u. \<exists>c. tracked T (if r = Some True then insert i E else E) ?C c u) ?e u"
    if "tracked T E ?C c u" for u :: "'z adla_scheme"
    unfolding wp_tryM wp_bindM wp_ret
    by (rule wp_mono [OF wp_cancel_job [OF assms(1) _ that]]) auto
  have noted: "wp (case r of None \<Rightarrow> ret False | Some b \<Rightarrow> thenM (whenM b (note_confirmed i)) (ret b)) ?q ?e u"
    if "\<exists>c. tracked T (if r = Some True then insert i E else E) ?C c u" for r and u :: "'z adla_scheme"
  proof -
    from that obtain d where d: "tracked T (if r = Some True then insert i E else E) ?C d u" by blast
    show ?thesis
    proof (cases "r = Some True")
      case True
      then have "tracked T (insert i E) ?C d u" using d by simp
      from wp_note_ids(2) [OF this, of i ?e] show ?thesis
        using True by (simp add: wp_thenM wp_whenM) (erule wp_mono, auto simp: wp_ret)
    qed (use d in \<open>auto simp: wp_ret wp_thenM wp_whenM split: option.split\<close>)
  qed
  have "wp (bindM (tryM (bindM (cancel_job m i 2 wait) (\<lambda>b. ret (Some b))) (\<lambda>_. ret None))
      (\<lambda>r. case r of None \<Rightarrow> ret False | Some b \<Rightarrow> thenM (whenM b (note_confirmed i)) (ret b))) ?q ?e u"
    if "tracked T E ?C c u" for u :: "'z adla_scheme"
    unfolding wp_bindM [of "tryM _ _"] by (rule wp_mono [OF caught [OF that]]) (use noted in blast)+
  then show ?thesis
    unfolding cancel_own_job_def wp_thenM [of "note_cancelled i"]
    by (intro wp_mono [OF wp_note_ids(1) [OF assms(2)]]) auto
qed

section \<open>Waiting\<close>

lemma wp_if: "(b \<Longrightarrow> wp x q e w) \<Longrightarrow> (\<not> b \<Longrightarrow> wp y q e w) \<Longrightarrow> wp (if b then x else y) q e w"
  by simp

lemma update_from_response_id: "jb_id (fst (update_from_response job d)) = jb_id job"
  by (auto simp: update_from_response_def Let_def split: sum.split)

lemma update_from_response_terminal:
  "is_terminal (fst (update_from_response job d)) \<Longrightarrow> \<not> is_terminal job \<Longrightarrow> is_ended (job_state d)"
  by (auto simp: update_from_response_def Let_def is_terminal_def job_state_def dget_def split: sum.splits option.splits if_splits)

text \<open>What the loop, and the tracking of a job as a whole, leaves: the job, and what is known of it.\<close>

definition left_job :: "(table_key \<Rightarrow> table_dir) \<Rightarrow> string set \<Rightarrow> string set \<Rightarrow> string \<Rightarrow> adla_job \<times> pyexn option \<Rightarrow> 'z adla_scheme \<Rightarrow> bool" where
  "left_job T E C i r w \<longleftrightarrow> jb_id (fst r) = i \<and> (snd r = None \<longrightarrow> is_terminal (fst r)) \<and>
     (\<exists>c. tracked T (if is_terminal (fst r) then insert i E else E) C c w)"

lemma left_jobI:
  assumes "tracked T E' C' c w" and "E \<subseteq> E'" and "C \<subseteq> C'" and "jb_id job = i" and "is_terminal job \<Longrightarrow> i \<in> E'"
    and "exc = None \<Longrightarrow> is_terminal job"
  shows "left_job T E C i (job, exc) w"
proof -
  have "tracked T (if is_terminal job then insert i E else E) C c w"
    using tracked_mono [OF assms(1)] assms(2,3,5) by auto
  then show ?thesis using assms(4,6) by (auto simp: left_job_def)
qed

lemma wp_tracked_poll_job:
  fixes w :: "'z adla_scheme"
  assumes "patient (hc_manager h)" and "tracked T E C c w" and "\<not> is_terminal job"
  shows "wp (poll_job h job) (\<lambda>r u. jb_id (fst r) = jb_id job \<and>
      tracked T (if is_terminal (fst r) then insert (jb_id job) E else E) C c u) (\<lambda>_. tracked T E C c) w"
  unfolding poll_job_def wp_bindM wp_ret
  by (rule wp_mono [OF wp_tracked_get_job [OF assms(1,2)]])
     (use update_from_response_terminal [OF _ assms(3)] update_from_response_id in \<open>auto split: if_splits elim: tracked_mono\<close>)

lemma wp_wait_round:
  fixes w :: "'z adla_scheme"
  assumes "patient (hc_manager h)" and "tracked T E C c w" and "is_terminal job \<Longrightarrow> jb_id job \<in> E"
    and more: "\<And>E' job' fails (u :: 'z adla_scheme). c < start + mw * 1000000 \<Longrightarrow> tracked T E' C (c + iv * 1000000) u \<Longrightarrow>
      E \<subseteq> E' \<Longrightarrow> (is_terminal job' \<Longrightarrow> jb_id job' \<in> E') \<Longrightarrow> jb_id job' = jb_id job \<Longrightarrow>
      wp (wait_loop n h name iv mw woc start job' fails) (left_job T E C (jb_id job)) (\<lambda>x _. exn_class x = ProcessKilled) u"
  shows "wp (wait_loop (Suc n) h name iv mw woc start job fails) (left_job T E C (jb_id job)) (\<lambda>x _. exn_class x = ProcessKilled) w"
  (is "wp _ ?q ?e w")
proof (cases "is_terminal job")
  case True
  then show ?thesis using left_jobI [OF assms(2)] assms(3) by (auto simp: wp_ret)
next
  case False
  let ?i = "jb_id job"
  have give_up: "?q (job, Some exc) u" if "\<exists>c. tracked T E' C' c u" "E \<subseteq> E'" "C \<subseteq> C'" for exc E' C' and u :: "'z adla_scheme"
    using that left_jobI [of T E' C' _ u E C job ?i "Some exc"] False by auto
  let ?poll = "tryM (bindM (poll_job h job) (\<lambda>r. ret (Inr r))) (\<lambda>e. ret (Inl e))"
  let ?next = "\<lambda>polled. case polled of
       Inr (job', None) \<Rightarrow> wait_loop n h name iv mw woc start job' 0
     | Inr (job', Some e) \<Rightarrow> ret (job', Some e)
     | Inl e \<Rightarrow>
         if exn_class e \<in> {RequestsConnectionError, RequestsTimeout} then
           if max_consecutive_poll_failures \<le> Suc fails
           then ret (job, Some (job_error DbtDatabaseError name job (''poll failed '' @
             show_nat (Suc fails) @ '' consecutive times: '' @ exn_text e)))
           else wait_loop n h name iv mw woc start job (Suc fails)
         else ret (job, Some e)"
  let ?c = "c + iv * 1000000"
  have "wp (?next polled) ?q ?e u"
    if "c < start + mw * 1000000"
      and p: "case polled of Inl _ \<Rightarrow> tracked T E C ?c u
        | Inr r \<Rightarrow> jb_id (fst r) = ?i \<and> tracked T (if is_terminal (fst r) then insert ?i E else E) C ?c u"
    for polled and u :: "'z adla_scheme"
  proof (cases polled)
    case (Inl e)
    then show ?thesis using p more [OF that(1), of E u job] False give_up [of E C u] by (auto simp: wp_ret)
  next
    case (Inr r)
    obtain job' exc where r: "r = (job', exc)" by (cases r)
    have j: "jb_id job' = ?i" and t: "tracked T (if is_terminal job' then insert ?i E else E) C ?c u" using p Inr r by auto
    show ?thesis
    proof (cases exc)
      case None
      have "wp (wait_loop n h name iv mw woc start job' 0) ?q ?e u"
        by (rule more [OF that(1) t]) (use j in auto)
      then show ?thesis using Inr r None by simp
    next
      case (Some e)
      have "left_job T E C ?i (job', Some e) u" by (rule left_jobI [OF t]) (use j in auto)
      then show ?thesis using Inr r Some by (simp add: wp_ret)
    qed
  qed
  moreover have "wp ?poll (\<lambda>polled u. case polled of Inl _ \<Rightarrow> tracked T E C ?c u
        | Inr r \<Rightarrow> jb_id (fst r) = ?i \<and> tracked T (if is_terminal (fst r) then insert ?i E else E) C ?c u) ?e u"
    if "tracked T E C ?c u" for u :: "'z adla_scheme"
    unfolding wp_tryM wp_bindM wp_ret
    by (rule wp_mono [OF wp_tracked_poll_job [OF assms(1) that False]]) auto
  ultimately have poll: "wp (bindM ?poll ?next) ?q ?e u"
    if "c < start + mw * 1000000" "tracked T E C ?c u" for u :: "'z adla_scheme"
    unfolding wp_bindM [of ?poll] using that by (blast intro: wp_mono)
  have cancelling: "wp (thenM (if cancelled then ret () else bindM (cancel_own_job (hc_manager h) ?i woc) (\<lambda>_. ret ()))
      (ret (job, Some exc))) ?q ?e u" if "tracked T E C c u" for cancelled exc and u :: "'z adla_scheme"
  proof (cases cancelled)
    case True
    then show ?thesis using give_up [of E C u exc] that by (auto simp: wp_thenM wp_ret)
  next
    case False
    have "wp (cancel_own_job (hc_manager h) ?i woc) (\<lambda>_. ?q (job, Some exc)) ?e u"
      by (rule wp_mono [OF wp_cancel_own_job [OF assms(1) that]]) (auto intro!: give_up split: if_splits)
    then show ?thesis using False by (simp add: wp_thenM wp_bindM) (erule wp_mono, simp_all add: wp_ret)
  qed
  have in_time: "wp (if start + mw * 1000000 \<le> st_clock u then ret (job, Some exc)
      else thenM (sleepM (real_of_int iv)) (bindM ?poll ?next)) ?q ?e u"
    if "tracked T E C c u" for exc and u :: "'z adla_scheme"
  proof (cases "start + mw * 1000000 \<le> st_clock u")
    case True
    then show ?thesis using give_up [of E C u exc] that by (auto simp: wp_ret)
  next
    case False
    then have "c < start + mw * 1000000" using that by (simp add: tracked_def not_before_def)
    then have "wp (thenM (sleepM (real_of_int iv)) (bindM ?poll ?next)) ?q ?e u"
      unfolding wp_thenM by (intro wp_mono [OF wp_tracked_sleep [OF that]] poll) auto
    then show ?thesis unfolding if_not_P [OF False] .
  qed
  show ?thesis
    unfolding wait_loop.simps if_not_P [OF False] wp_bindM [of shutdown_is_set] now_us_def
    by (rule wp_mono [OF wp_tracked_shutdown [OF assms(2)]], rule wp_if;
        (unfold wp_bindM [of "asks _"] wp_asks, rule cancelling in_time, assumption)?)
qed

lemma wp_wait_loop:
  fixes w :: "'z adla_scheme"
  assumes "patient (hc_manager h)" and "0 < iv" and "tracked T E C (start + mw * 1000000 - int n * (iv * 1000000)) w"
    and "is_terminal job \<Longrightarrow> jb_id job \<in> E"
  shows "wp (wait_loop (Suc n) h name iv mw woc start job fails) (left_job T E C (jb_id job)) (\<lambda>x _. exn_class x = ProcessKilled) w"
  using assms(3,4)
proof (induction n arbitrary: E w job fails)
  case 0
  then show ?case by (intro wp_wait_round [OF assms(1)]) auto
next
  case (Suc n)
  have c: "start + mw * 1000000 - int (Suc n) * (iv * 1000000) + iv * 1000000 = start + mw * 1000000 - int n * (iv * 1000000)"
    by (simp add: algebra_simps)
  show ?case
  proof (rule wp_wait_round [OF assms(1) Suc.prems])
    fix E' job' fails' and u :: "'z adla_scheme"
    assume "tracked T E' C (start + mw * 1000000 - int (Suc n) * (iv * 1000000) + iv * 1000000) u" "E \<subseteq> E'"
      "is_terminal job' \<Longrightarrow> jb_id job' \<in> E'" "jb_id job' = jb_id job"
    then have "wp (wait_loop (Suc n) h name iv mw woc start job' fails') (left_job T E' C (jb_id job)) (\<lambda>x _. exn_class x = ProcessKilled) u"
      using Suc.IH [of E' u job' fails'] by (simp only: c)
    then show "wp (wait_loop (Suc n) h name iv mw woc start job' fails') (left_job T E C (jb_id job)) (\<lambda>x _. exn_class x = ProcessKilled) u"
      by (rule wp_mono) (use \<open>E \<subseteq> E'\<close> in \<open>auto simp: left_job_def elim!: tracked_mono split: if_splits\<close>)
  qed
qed

section \<open>Tracking a submitted job\<close>

lemma wp_tracked_ensure_owner:
  fixes w :: "'z adla_scheme"
  assumes "patient m" and "tracked T E C c w"
  shows "wp (ensure_table_owner m model) (\<lambda>_. tracked T E C c) (\<lambda>_. tracked T E C c) w"
proof -
  let ?J = "tracked T E C c :: 'z adla_scheme \<Rightarrow> bool"
  have up: "clock_free ?J"
    by (auto simp: clock_free_def tracked_def not_before_def ended_jobs_def jobs_ok_def job_ended_def)
  have "wp (or_absent (download_text own_file name k)) (\<lambda>_. ?J) (\<lambda>_. ?J) u" if "?J u" for name k and u :: "'z adla_scheme"
  proof -
    have "wp (download_text own_file name k) (\<lambda>_. ?J) (\<lambda>_. ?J) u"
      unfolding download_text_def
      by (rule wp_storage_call)
         (use that in \<open>auto simp: wp_def tracked_def not_before_def ended_jobs_def jobs_ok_def job_ended_def split: option.split\<close>)
    then show ?thesis
      unfolding or_absent_def wp_tryM wp_bindM wp_ret by (rule wp_mono) (auto simp: wp_ret wp_raise)
  qed
  then have "wp (mg_retry m (or_absent (download_text own_file name k))) (\<lambda>_. ?J) (\<lambda>_. ?J) u" if "?J u" for name k and u :: "'z adla_scheme"
    by (intro wp_mg_retry_up [OF assms(1) up that])
  then have reading: "keeps ?J (mg_retry m (or_absent (download_text own_file name k)))" for name k by (intro keepsI)
  have "keeps ?J (ensure_table_owner m model)"
    unfolding ensure_table_owner_def read_owner_def Let_def
    by (intro reading keeps_bindM keeps_tryM keeps_ret keeps_raise keeps_liftE keeps_if keeps_asks keeps_option keeps_prod)
  then show ?thesis using assms(2) by (rule keepsD)
qed

text \<open>The job that \<open>submit_and_wait\<close> is done with has ended, or this process asked to cancel it.\<close>

definition accounted :: "(table_key \<Rightarrow> table_dir) \<Rightarrow> string set \<Rightarrow> string \<Rightarrow> 'z adla_scheme \<Rightarrow> bool" where
  "accounted T E i w \<longleftrightarrow> (\<exists>c. tracked T (insert i E) {} c w) \<or> (\<exists>c. tracked T E {i} c w)"

lemma wp_finish_job:
  assumes "accounted T E (jb_id job) w" and "is_terminal job \<Longrightarrow> \<exists>c. tracked T (insert (jb_id job) E) {} c w" and "is_terminal job"
  shows "wp (finish_job name job)
    (\<lambda>r u. r = job \<and> succeeded r \<and> (\<exists>c. tracked T (insert (jb_id job) E) {} c u)) (\<lambda>x u. accounted T E (jb_id job) u) w"
  using assms by (auto simp: finish_job_def wp_ret wp_bindM wp_asks wp_raise)

lemma accountedI: "tracked T E' C c u \<Longrightarrow> E \<subseteq> E' \<Longrightarrow> i \<in> C \<or> i \<in> E' \<Longrightarrow> accounted T E i u"
  using tracked_mono [of T E' C c u "insert i E" "{}" c] tracked_mono [of T E' C c u E "{i}" c]
  by (auto simp: accounted_def)

lemma wp_final_poll:
  fixes w :: "'z adla_scheme"
  assumes "patient (hc_manager h)" and "tracked T (insert i E) {i} c w" and "jb_id job = i"
  shows "wp (final_poll h name job exc)
    (\<lambda>r u. jb_id r = i \<and> succeeded r \<and> (\<exists>c. tracked T (insert i E) {} c u))
    (\<lambda>x u. exn_class x = ProcessKilled \<or> accounted T E i u) w"
  (is "wp _ ?q ?e w")
proof -
  let ?t = "tracked T (insert i E) {i} c"
  have "wp (poll_job h job) (\<lambda>r u. jb_id (fst r) = i \<and> ?t u) (\<lambda>_. ?t) w"
    unfolding poll_job_def wp_bindM wp_ret
    by (rule wp_mono [OF wp_tracked_get_job [OF assms(1,2)]])
       (use update_from_response_id [of job] assms(3) in \<open>auto split: if_splits elim: tracked_mono\<close>)
  then have polled: "wp (tryM (poll_job h job) (\<lambda>e. ret (job, Some e))) (\<lambda>r u. jb_id (fst r) = i \<and> ?t u) ?e w"
    unfolding wp_tryM by (rule wp_mono) (auto simp: wp_ret assms(3))
  have known: "accounted T E i u" "\<exists>c. tracked T (insert i E) {} c u" if "?t u" for u :: "'z adla_scheme"
    using accountedI [OF that, of E i] tracked_mono [OF that, of "insert i E" "{}" c] by auto
  show ?thesis
    unfolding final_poll_def wp_bindM [of "tryM _ _"]
    by (rule wp_mono [OF polled]) (auto simp: wp_raise finish_job_def wp_ret known split: prod.split option.split)
qed

lemma wp_give_up_job:
  fixes w :: "'z adla_scheme"
  assumes "patient (hc_manager h)" and "left_job T E {} i (job, Some exc) w"
  shows "wp (give_up_job h name woc job exc)
    (\<lambda>r u. jb_id r = i \<and> succeeded r \<and> (\<exists>c. tracked T (insert i E) {} c u))
    (\<lambda>x u. exn_class x = ProcessKilled \<or> accounted T E i u) w"
  (is "wp _ ?q ?e w")
proof -
  let ?E = "if is_terminal job then insert i E else E"
  have i: "jb_id job = i" using assms(2) by (simp add: left_job_def)
  obtain c where t: "tracked T ?E {} c w" using assms(2) by (auto simp: left_job_def)
  have confirmed: "wp (if \<not> b then raise lost else final_poll h name job exc) ?q ?e u"
    if "\<exists>c. tracked T (if b then insert i ?E else ?E) {i} c u" for b lost and u :: "'z adla_scheme"
  proof -
    from that obtain d where d: "tracked T (if b then insert i ?E else ?E) {i} d u" by blast
    show ?thesis
    proof (rule wp_if)
      assume "\<not> b"
      have "accounted T E i u" by (rule accountedI [OF d]) auto
      then show "wp (raise lost) ?q ?e u" by (simp add: wp_raise)
    next
      assume "\<not> \<not> b"
      then have "tracked T (insert i E) {i} d u" by (intro tracked_mono [OF d]) auto
      then show "wp (final_poll h name job exc) ?q ?e u" by (rule wp_final_poll [OF assms(1) _ i])
    qed
  qed
  have raised: "accounted T E i w" if "i \<in> set (aw_cancelled_ids w)"
  proof -
    have "tracked T ?E {i} c w" using t that by (simp add: tracked_def)
    then show ?thesis by (rule accountedI) auto
  qed
  show ?thesis
    unfolding give_up_job_def i wp_bindM [of "asks _"] wp_asks
  proof (rule wp_if)
    assume "i \<in> set (aw_cancelled_ids w)"
    then show "wp (raise exc) ?q ?e w" using raised by (simp add: wp_raise)
  next
    show "wp (bindM (cancel_own_job (hc_manager h) i woc) (\<lambda>confirmed. if \<not> confirmed then
        raise (job_error DbtRuntimeError name job ''was abandoned and its cancellation was not confirmed; it may still commit'')
        else final_poll h name job exc)) ?q ?e w"
      unfolding wp_bindM [of "cancel_own_job _ _ _"]
      by (rule wp_mono [OF wp_cancel_own_job [OF assms(1) t]], rule confirmed) auto
  qed
qed

lemma wp_track_job:
  fixes w :: "'z adla_scheme"
  assumes "patient (hc_manager h)" and "0 < iv" and "ended_jobs T E w" and "is_terminal job \<Longrightarrow> jb_id job \<in> E"
  shows "wp (track_job h name iv mw model woc job)
    (\<lambda>r u. jb_id r = jb_id job \<and> succeeded r \<and> (\<exists>c. tracked T (insert (jb_id job) E) {} c u))
    (\<lambda>x u. exn_class x = ProcessKilled \<or> accounted T E (jb_id job) u) w"
  (is "wp _ ?q ?e w")
proof -
  let ?i = "jb_id job" and ?m = "hc_manager h" and ?s = "st_clock w"
  let ?after = "\<lambda>r. case r of (job', exc) \<Rightarrow>
      case exc of None \<Rightarrow> finish_job name job' | Some e \<Rightarrow> give_up_job h name woc job' e"
  have t: "tracked T E {} ?s w" using assms(3) by (simp add: tracked_def not_before_def)
  have after: "wp (?after r) ?q ?e u" if l: "left_job T E {} ?i r u" for r and u :: "'z adla_scheme"
  proof -
    obtain job' exc where r: "r = (job', exc)" by (cases r)
    show ?thesis
    proof (cases exc)
      case None
      have i: "jb_id job' = ?i" and "is_terminal job'" and "\<exists>c. tracked T (insert ?i E) {} c u"
        using l r None by (auto simp: left_job_def)
      then show ?thesis
        using r None by (auto simp: finish_job_def wp_ret wp_bindM wp_asks wp_raise accounted_def)
    next
      case (Some e)
      then show ?thesis using wp_give_up_job [OF assms(1)] l r by auto
    qed
  qed
  have looped: "wp (case superseded of Some e \<Rightarrow> ret (job, Some e)
      | None \<Rightarrow> wait_loop (settle_fuel mw iv) h name iv mw woc ?s job 0) (left_job T E {} ?i) ?e u"
    if u: "tracked T E {} ?s u" for superseded and u :: "'z adla_scheme"
  proof (cases superseded)
    case None
    have "tracked T E {} (?s + mw * 1000000 - int (nat (mw div iv) + 1) * (iv * 1000000)) u"
      by (rule tracked_mono [OF u]) (use fuel_room [OF assms(2), of mw] in auto)
    from wp_wait_loop [OF assms(1,2) this assms(4), of name woc 0] show ?thesis
      using None by (simp add: settle_fuel_def del: wait_loop.simps) (erule wp_mono, auto)
  next
    case (Some e)
    have "left_job T E {} ?i (job, Some e) u" by (rule left_jobI [OF u]) (use assms(4) in auto)
    then show ?thesis using Some by (simp add: wp_ret)
  qed
  have "wp (tryM (thenM (ensure_table_owner ?m model) (ret None)) (\<lambda>e. ret (Some e))) (\<lambda>_. tracked T E {} ?s) ?e w"
    unfolding wp_tryM wp_thenM wp_ret by (rule wp_mono [OF wp_tracked_ensure_owner [OF assms(1) t]]) auto
  moreover have "wp (bindM (case superseded of Some e \<Rightarrow> ret (job, Some e)
      | None \<Rightarrow> wait_loop (settle_fuel mw iv) h name iv mw woc ?s job 0) ?after) ?q ?e u"
    if "tracked T E {} ?s u" for superseded and u :: "'z adla_scheme"
    unfolding wp_bindM [of "case_option _ _ _"] by (rule wp_mono [OF looped [OF that]]) (use after in blast)+
  ultimately show ?thesis
    unfolding track_job_def now_us_def wp_bindM [of "asks _"] wp_asks wp_bindM [of "tryM _ _"]
    by (rule wp_mono) auto
qed

end
