(* ===== verification/Job_Guarantees.thy ===== *)
theory Job_Guarantees
  imports Job_Outcomes
begin

text \<open>
  What the life of a job guarantees: the properties of \<open>submit_job\<close>, \<open>select_victims\<close> and
  \<open>submit_and_wait\<close>, and a gap between the PUT of a job and its registration.
\<close>

section \<open>Victims\<close>

lemma take_before_drop:
  fixes f :: "'a \<Rightarrow> 'b :: linorder"
  assumes "sorted (map f xs)" and "v \<in> set (take n xs)" and "r \<in> set (drop n xs)"
  shows "f v \<le> f r"
  using assms sorted_append [of "map f (take n xs)" "map f (drop n xs)"] by (simp flip: map_append)

text \<open>\<open>v\<close> is at least as good a victim as \<open>r\<close>: less important, or as important and submitted earlier.\<close>

definition evicted_before :: "job_dict \<Rightarrow> job_dict \<Rightarrow> bool" where
  "evicted_before v r \<longleftrightarrow> victim_priority r < victim_priority v \<or>
     (victim_priority r = victim_priority v \<and> or_blank (dget v ''submitTime'' JNull) \<le> or_blank (dget r ''submitTime'' JNull))"

lemma evicted_before_key: "evicted_before v r \<longleftrightarrow> victim_key v \<le> victim_key r"
  by (auto simp: evicted_before_def victim_key_def less_eq_prod_def)

text \<open>
  C19: \<open>select_victims\<close> picks as many jobs as it may, out of the listed ones, and none that it leaves is a
  better victim than one that it picks: they have the highest priority numbers, the oldest first.
\<close>

theorem victims_least_important:
  "let vs = select_victims jobs k in
     length vs = (if k \<le> 0 then 0 else min (nat k) (length jobs)) \<and>
     (\<exists>rest. mset jobs = mset vs + mset rest \<and> (\<forall>v \<in> set vs. \<forall>r \<in> set rest. evicted_before v r))"
proof (cases "k \<le> 0 \<or> jobs = []")
  case False
  let ?s = "sort_key victim_key jobs"
  have "mset jobs = mset (take (nat k) ?s) + mset (drop (nat k) ?s)" by (simp flip: mset_append)
  moreover have "\<forall>v \<in> set (take (nat k) ?s). \<forall>r \<in> set (drop (nat k) ?s). evicted_before v r"
    using take_before_drop [OF sorted_sort_key] by (auto simp: evicted_before_key)
  ultimately show ?thesis using False by (auto simp: select_victims_def Let_def)
qed (auto simp: select_victims_def)

definition queued_job :: "string \<Rightarrow> int \<Rightarrow> string \<Rightarrow> job_dict" where
  "queued_job i priority submitted = [(''jobId'', JStr i), (''priority'', JInt priority), (''submitTime'', JStr submitted)]"

theorem victims_least_important_witness:
  "let jobs = [queued_job ''a'' 100 ''2024-01-01'', queued_job ''b'' 1000 ''2024-01-02'']; vs = select_victims jobs 1 in
     length vs = 1 \<and> (\<exists>rest. mset jobs = mset vs + mset rest)"
  using victims_least_important [of "[queued_job ''a'' 100 ''2024-01-01'', queued_job ''b'' 1000 ''2024-01-02'']" 1]
  unfolding Let_def by auto

section \<open>Submitting\<close>

abbreviation only_others :: "manager \<Rightarrow> 'z adla_scheme \<Rightarrow> 'z adla_scheme \<Rightarrow> bool" where
  "only_others m \<equiv> eviction_context.spares_own (handle_ctx m) aw_cancel_posts (\<lambda>w. map sj_dict (aw_jobs w))"

lemma only_others_def:
  fixes w w' :: "'z adla_scheme"
  shows "only_others m w w' \<longleftrightarrow>
     sj_dict ` set (aw_jobs w) \<subseteq> sj_dict ` set (aw_jobs w') \<and> is_self_job w' = is_self_job w \<and>
     (\<forall>i \<in> set (aw_cancel_posts w') - set (aw_cancel_posts w).
        \<exists>j \<in> set (aw_jobs w'). job_id_of (sj_dict j) = i \<and> i \<noteq> [] \<and> \<not> is_self_job w (sj_dict j))"
  unfolding handle_eviction.spares_own_def by (simp add: handle_ctx_def)

lemma is_self_job_cong:
  "aw_active u = aw_active w \<Longrightarrow> aw_run u = aw_run w \<Longrightarrow> is_self_job u = is_self_job w"
  by (simp add: is_self_job_def fun_eq_iff cong: json.case_cong)

lemma only_others_grow:
  fixes w u :: "'z adla_scheme"
  assumes "only_others m w u" and "set (aw_jobs u) \<subseteq> set (aw_jobs u')" and "aw_cancel_posts u' = aw_cancel_posts u"
    and "aw_active u' = aw_active u" and "aw_run u' = aw_run u"
  shows "only_others m w u'"
  using assms(1,2) unfolding only_others_def assms(3) is_self_job_cong [OF assms(4,5)] by blast

lemma only_others_quiet: "quiet (only_others m (w :: 'z adla_scheme))"
  unfolding quiet_def clock_free_def fault_free_def by (auto elim!: only_others_grow)

lemma keeps_only_others:
  fixes w :: "'z adla_scheme"
  shows "keeps (only_others m w) (put_job m i body)" and "keeps (only_others m w) shutdown_is_set"
    and "keeps (only_others m w) next_uuid" and "keeps (only_others m w) (sleepM d)"
proof -
  show "keeps (only_others m w) (put_job m i body)"
    unfolding put_job_def
    by (intro keeps_mg_retry keeps_storage_call only_others_quiet keepsI)
       (auto simp: wp_def split: list.split put_plan.split elim!: only_others_grow)
  show "keeps (only_others m w) shutdown_is_set" "keeps (only_others m w) next_uuid"
    by (auto simp: keeps_def wp_def shutdown_is_set_def next_uuid_def split: option.split nat.split elim!: only_others_grow)
  show "keeps (only_others m w) (sleepM d)" by (intro keeps_sleepM only_others_quiet)
qed

lemma wp_submit_job_spares:
  fixes w :: "'z adla_scheme"
  shows "wp (submit_job h name script au priority model_name)
    (\<lambda>_. only_others (hc_manager h) w) (\<lambda>_. only_others (hc_manager h) w) w"
proof -
  let ?m = "hc_manager h" and ?J = "only_others (hc_manager h) w"
  have self: "only_others ?m u u" for u :: "'z adla_scheme" by (rule handle_eviction.spares_own_refl)
  have "wp (retry_with_quota_eviction (handle_ctx ?m) (hc_quota h) sleepM (hc_draw h) (put_job ?m i body))
      (\<lambda>_. only_others ?m u) (\<lambda>_. only_others ?m u) u" for i body and u :: "'z adla_scheme"
    by (rule handle_eviction.retry_spares) (rule keepsD [OF keeps_only_others(1) self] keepsD [OF keeps_only_others(4) self])+
  note spares = this
  have "keeps ?J (retry_with_quota_eviction (handle_ctx ?m) (hc_quota h) sleepM (hc_draw h) (put_job ?m i body))" for i body
    by (rule keepsI, rule wp_mono [OF spares]; erule (1) handle_eviction.spares_own_trans)
  then have "keeps ?J (submit_job h name script au priority model_name)"
    unfolding submit_job_def by (intro keeps_only_others keeps_intros) (auto intro: keeps_intros split: option.split)
  then show ?thesis using self by (rule keepsD)
qed

text \<open>
  C19: under any outages and whatever the service answers, every cancel request that \<open>submit_job\<close> sends to
  make room in a full queue names a job of the service that is not one of this run: neither submitted by
  this process nor labelled with its run id.
\<close>

theorem eviction_spares_own_run:
  assumes "submit_job h name script au priority model_name w = (r, w')"
    and "i \<in> set (aw_cancel_posts w')" and "i \<notin> set (aw_cancel_posts w)"
  shows "\<exists>j \<in> set (aw_jobs w'). job_id_of (sj_dict j) = i \<and> \<not> is_self_job w (sj_dict j)"
proof -
  have "only_others (hc_manager h) w w'"
    using wp_submit_job_spares [of h name script au priority model_name w] assms(1) by (cases r) (simp_all add: wp_def)
  then show ?thesis using assms(2,3) unfolding only_others_def by blast
qed

definition sample_handle :: handle_config where
  "sample_handle = \<lparr>hc_manager = sample_manager,
     hc_quota = \<lparr>qp_account = ''a'', qp_enabled = True, qp_max_attempts = 2, qp_cancel_num = 1, qp_wait_seconds = 1,
       qp_jitter_seconds = 0\<rparr>,
     hc_job_retry = disabled_policy, hc_draw = (\<lambda>_. 0), hc_pipeline_id = ''p'', hc_recurrence_id = (\<lambda>s. s)\<rparr>"

definition accepted :: put_plan where
  "accepted = Accepts [(''state'', JStr ''Queued'')] [[(''state'', JStr ''Ended''), (''result'', JStr ''Succeeded'')]]"

definition full_queue :: adla where
  "full_queue = (sample_adla empty_dir [\<lparr>sj_id = ''v'', sj_dict = queued_job ''v'' 100 ''2024-01-01'', sj_polls = []\<rparr>])
     \<lparr>aw_plans := [Refuses ''Cannot exceed 200 queued SCOPE jobs'', accepted]\<rparr>"

lemma full_queue_evicts:
  "aw_cancel_posts (snd (submit_job sample_handle ''b'' [] 1 1 None full_queue)) = [''v'']"
  by (simp add: submit_job_def shutdown_is_set_def next_uuid_def retry_with_quota_eviction_def sample_handle_def put_job_def
      full_queue_def accepted_def sample_adla_def mg_retry_def retry_on_message_def sample_manager_def retry_enabled_def
      disabled_policy_def storage_call_def handle_ctx_def is_quota_error_def quota_needles_def http_error_def
      gather_and_cancel_def list_jobs_def cancel_job_async_def logged_call_def select_victims_def victim_key_def queued_job_def dget_def
      job_id_of_def or_blank_def is_self_job_def sleepM_def next_poll_def job_state_def is_ended_def update_from_response_def
      new_job_def Let_def eff_run run_bindM run_thenM run_tryM eval_nat_numeral)

theorem eviction_spares_own_run_witness:
  "case submit_job sample_handle ''b'' [] 1 1 None full_queue of (_, w') \<Rightarrow>
     aw_cancel_posts w' = [''v''] \<and> (\<exists>j \<in> set (aw_jobs w'). job_id_of (sj_dict j) = ''v'' \<and> \<not> is_self_job full_queue (sj_dict j))"
proof -
  obtain r w' where run: "submit_job sample_handle ''b'' [] 1 1 None full_queue = (r, w')" by (cases "submit_job sample_handle ''b'' [] 1 1 None full_queue")
  then have "aw_cancel_posts w' = [''v'']" using full_queue_evicts by simp
  moreover have "aw_cancel_posts full_queue = []" by (simp add: full_queue_def sample_adla_def)
  ultimately show ?thesis using eviction_spares_own_run [OF run, of "''v''"] run by simp
qed

text \<open>What tracking a job leaves alone.\<close>

definition shutdown_free :: "('z adla_scheme \<Rightarrow> bool) \<Rightarrow> bool" where
  "shutdown_free J \<longleftrightarrow> job_free J \<and> (\<forall>w x. J w \<longrightarrow> J (w\<lparr>aw_shutdown_in := x\<rparr>))"

lemma shutdown_freeD: "shutdown_free J \<Longrightarrow> job_free J" "shutdown_free J \<Longrightarrow> quiet J"
  by (simp_all add: shutdown_free_def job_free_quiet)

lemma keeps_shutdown_is_set: "shutdown_free J \<Longrightarrow> keeps J shutdown_is_set"
  by (auto simp: keeps_def wp_def shutdown_is_set_def shutdown_free_def split: option.split nat.split)

lemma keeps_cancel_own_job:
  assumes "shutdown_free J"
  shows "keeps J (cancel_own_job m i wait)"
proof -
  note D = shutdown_freeD [OF assms]
  have "keeps J (cancel_loop n m i iv mw start)" for n iv mw start
  proof (induction n)
    case (Suc n)
    then show ?case unfolding cancel_loop.simps by (intro keeps_intros D)
  qed (simp add: keeps_raise)
  then have "keeps J (cancel_job m i iv mw)" for iv mw
    unfolding cancel_job_def by (intro keeps_intros D)
  then show ?thesis
    unfolding cancel_own_job_def whenM_def by (intro keeps_intros D)
qed

lemma keeps_track_job_by:
  assumes J: "quiet J" and own: "\<And>i. keeps J (cancel_own_job (hc_manager h) i wait)"
    and get: "\<And>i. keeps J (get_job (hc_manager h) i)" and stop: "keeps J shutdown_is_set"
  shows "keeps J (track_job h name iv mw model wait job)"
proof -
  have poll: "keeps J (poll_job h job)" for job
    unfolding poll_job_def by (intro keeps_intros get)
  have loop: "keeps J (wait_loop n h name iv mw wait start job fails)" for n start job fails
  proof (induction n arbitrary: job fails)
    case (Suc n)
    have "keeps J (case polled of Inr (job', None) \<Rightarrow> wait_loop n h name iv mw wait start job' 0
       | Inr (job', Some e) \<Rightarrow> ret (job', Some e)
       | Inl e \<Rightarrow>
           if exn_class e \<in> {RequestsConnectionError, RequestsTimeout} then
             if max_consecutive_poll_failures \<le> Suc fails
             then ret (job, Some (job_error DbtDatabaseError name job (''poll failed '' @
               show_nat (Suc fails) @ '' consecutive times: '' @ exn_text e)))
             else wait_loop n h name iv mw wait start job (Suc fails)
           else ret (job, Some e))" for polled :: "pyexn + adla_job \<times> pyexn option"
      using Suc.IH by (auto simp: keeps_ret split: sum.split option.split prod.split)
    then show ?case
      unfolding wait_loop.simps by (intro keeps_intros stop own poll J)
  qed (simp add: keeps_raise)
  have finish: "keeps J (finish_job name job)" for job
    unfolding finish_job_def by (intro keeps_intros)
  have "keeps J (give_up_job h name wait job exc)" for job exc
    unfolding give_up_job_def final_poll_def by (intro keeps_intros own poll finish)
  then show ?thesis
    unfolding track_job_def by (intro keeps_intros loop finish J)
qed

lemma keeps_track_job:
  assumes "shutdown_free J"
  shows "keeps J (track_job h name iv mw model wait job)"
  by (rule keeps_track_job_by) (intro keeps_intros keeps_shutdown_is_set keeps_cancel_own_job shutdown_freeD [OF assms] assms)+

section \<open>Cancel requests\<close>

text \<open>If the job is noted as cancelled, a request to cancel it has been sent.\<close>

definition asked :: "string \<Rightarrow> 'z adla_scheme \<Rightarrow> bool" where
  "asked i w \<longleftrightarrow> (i \<in> set (aw_cancelled_ids w) \<longrightarrow> i \<in> set (aw_cancel_sent w))"

lemma quiet_asked: "quiet (asked i)"
  by (simp add: quiet_def clock_free_def fault_free_def asked_def)

lemma asked_simps [simp]:
  "asked i (w\<lparr>aw_jobs := js\<rparr>) = asked i w" "asked i (w\<lparr>aw_confirmed_ids := x\<rparr>) = asked i w"
  "asked i (w\<lparr>aw_cancel_posts := x\<rparr>) = asked i w" "asked i (w\<lparr>aw_shutdown_in := s\<rparr>) = asked i w"
  by (simp_all add: asked_def)

lemma keeps_asked:
  fixes i :: string
  shows "keeps (asked i) (get_job m j)" and "keeps (asked i) (note_confirmed j)" and "keeps (asked i) shutdown_is_set"
  unfolding get_job_def note_confirmed_def
  by (intro keeps_mg_retry keeps_storage_call quiet_asked keeps_modifyM keepsI;
      auto simp: wp_def shutdown_is_set_def split: option.split nat.split)+

text \<open>The request settles the note that \<open>cancel_job\<close> makes before it sends it.\<close>

lemma wp_request_asked:
  fixes w :: "'z adla_scheme"
  assumes "asked i w \<or> i = j"
  shows "wp (cancel_job_async m j) (\<lambda>_. asked i) (\<lambda>_. asked i) w"
proof -
  have sent: "wp (logged_call (\<lambda>w. w\<lparr>aw_cancel_sent := j # aw_cancel_sent w\<rparr>)
      (\<lambda>w. (Inr (), w\<lparr>aw_cancel_posts := j # aw_cancel_posts w\<rparr>))) (\<lambda>_. asked i) (\<lambda>x w. asked i w \<and> True) v"
    if "asked i v \<or> i = j" for v :: "'z adla_scheme"
    by (rule wp_logged_call, rule wp_storage_call) (use that in \<open>auto simp: wp_def asked_def\<close>)
  have "wp (cancel_job_async m j) (\<lambda>_. asked i) (\<lambda>x w. asked i w \<and> True) w"
    unfolding cancel_job_async_def mg_retry_def
    by (rule wp_retry_first)
       (use sent assms keepsD [OF keeps_sleepM [OF quiet_asked]] in auto)
  then show ?thesis by simp
qed

lemma keeps_cancel_own_job_asked: "keeps (asked i) (cancel_own_job m j wait)"
proof -
  note steps = keeps_bindM keeps_thenM keeps_if keeps_option keeps_ret keeps_raise keeps_now_us keeps_sleepM quiet_asked keeps_asked(2)
  have poll: "keeps (asked i) (poll_ended m j)"
    unfolding poll_ended_def by (intro keeps_tryM keeps_bindM keeps_ret keeps_asked(1))
  have loop: "keeps (asked i) (cancel_loop n m j iv mw start)" for n iv mw start
    by (induction n) (auto intro!: steps poll)
  have after: "keeps (asked i) (case failed of
      Some e \<Rightarrow> bindM (poll_ended m j) (\<lambda>terminal. if \<not> terminal then raise e else thenM (note_confirmed j) (ret True))
    | None \<Rightarrow> bindM now_us (\<lambda>start. cancel_loop (settle_fuel mw iv) m j iv mw start))" for failed iv mw
    by (intro steps poll loop)
  have noted: "wp (note_cancelled j) (\<lambda>_ u. asked i u \<or> i = j) (\<lambda>_ _. False) w" if "asked i w \<or> i = j" for w :: "'a adla_scheme"
    using that by (auto simp: note_cancelled_def wp_modifyM asked_def)
  have request: "wp (tryM (thenM (cancel_job_async m j) (ret None)) (\<lambda>e. ret (Some e))) (\<lambda>_. asked i) (\<lambda>_. asked i) w"
    if "asked i w \<or> i = j" for w :: "'a adla_scheme"
    unfolding wp_tryM wp_thenM wp_ret by (rule wp_mono [OF wp_request_asked [OF that]]) simp_all
  have job: "wp (cancel_job m j iv mw) (\<lambda>_. asked i) (\<lambda>_. asked i) w" if "asked i w \<or> i = j" for iv mw and w :: "'a adla_scheme"
    unfolding cancel_job_def wp_thenM [of "note_cancelled j"] wp_bindM [of "tryM _ _"]
    by (rule wp_mono [OF noted [OF that]], rule wp_mono [OF request])
       (assumption | rule keepsD [OF after] | simp)+
  have tried: "wp (tryM (bindM (cancel_job m j 2 wait) (\<lambda>b. ret (Some b))) (\<lambda>_. ret None)) (\<lambda>_. asked i) (\<lambda>_. asked i) w"
    if "asked i w \<or> i = j" for w :: "'a adla_scheme"
    unfolding wp_tryM wp_bindM wp_ret by (rule wp_mono [OF job [OF that]]) simp_all
  have done_it: "keeps (asked i) (case confirmed of None \<Rightarrow> ret False | Some b \<Rightarrow> thenM (whenM b (note_confirmed j)) (ret b))" for confirmed
    unfolding whenM_def by (intro steps)
  show ?thesis
    unfolding cancel_own_job_def
    by (rule keepsI, unfold wp_thenM [of "note_cancelled j"] wp_bindM [of "tryM _ _"], rule wp_mono [OF noted], simp,
        rule wp_mono [OF tried]) (assumption | rule keepsD [OF done_it] | simp)+
qed

lemma keeps_track_job_asked: "keeps (asked i) (track_job h name iv mw model wait job)"
  by (rule keeps_track_job_by) (intro quiet_asked keeps_cancel_own_job_asked keeps_asked)+

section \<open>Tracking\<close>

lemma accountedD: "accounted T E i w \<Longrightarrow> job_ended w i \<or> i \<in> set (aw_cancelled_ids w)"
  by (auto simp: accounted_def tracked_def ended_jobs_def)

text \<open>
  C16: once a job is registered it is accounted for, whatever fails: if tracking it returns, it is a job
  that succeeded, and it has ended on the service; if tracking raises, the job has ended or this process
  has sent a \<open>CancelJob\<close> request for it (which may have been lost), unless the process died. The job is
  one that is not noted as cancelled yet, as a job just submitted is.
\<close>

theorem tracked_job_accounted:
  fixes w :: "'z adla_scheme"
  assumes "patient (hc_manager h)" and "0 < iv" and "jobs_ok w" and "\<not> is_terminal job"
    and "jb_id job \<notin> set (aw_cancelled_ids w)"
  shows "case track_job h name iv mw model wait_on_cancel job w of
      (Inr r, w') \<Rightarrow> jb_id r = jb_id job \<and> succeeded r \<and> job_ended w' (jb_id job)
    | (Inl x, w') \<Rightarrow> exn_class x = ProcessKilled \<or> job_ended w' (jb_id job) \<or> jb_id job \<in> set (aw_cancel_sent w')"
proof -
  have "ended_jobs (st_tables w) {} w" using assms(3) by (simp add: ended_jobs_def)
  note track = wp_track_job [OF assms(1,2) this, of job name mw model wait_on_cancel]
  have start: "asked (jb_id job) w" using assms(5) by (simp add: asked_def)
  have "wp (track_job h name iv mw model wait_on_cancel job)
      (\<lambda>r w'. jb_id r = jb_id job \<and> succeeded r \<and> job_ended w' (jb_id job))
      (\<lambda>x w'. exn_class x = ProcessKilled \<or> job_ended w' (jb_id job) \<or> jb_id job \<in> set (aw_cancel_sent w')) w"
    by (rule wp_mono [OF wp_conj [OF track keepsD [OF keeps_track_job_asked start]]])
       (use assms(4) in \<open>auto dest: accountedD trackedD(1) simp: ended_jobs_def asked_def\<close>)
  then show ?thesis unfolding wp_def .
qed

theorem tracked_job_accounted_witness:
  "case track_job sample_handle ''b'' 5 600 None 30 (new_job ''j'' ''b'') (sample_adla empty_dir [running_job ''j'' ''b'']) of
      (Inr r, w') \<Rightarrow> succeeded r \<and> job_ended w' ''j''
    | (Inl x, w') \<Rightarrow> exn_class x = ProcessKilled \<or> job_ended w' ''j'' \<or> ''j'' \<in> set (aw_cancel_sent w')"
proof -
  have "jobs_ok (sample_adla empty_dir [running_job ''j'' ''b''])" by (rule running_job_ok) simp
  moreover have "patient (hc_manager sample_handle)"
    by (simp add: sample_handle_def patient_def sample_manager_def disabled_policy_def)
  moreover have "\<not> is_terminal (new_job ''j'' ''b'')" "jb_id (new_job ''j'' ''b'') = ''j''"
    by (simp_all add: new_job_def is_terminal_def is_ended_def)
  moreover have "''j'' \<notin> set (aw_cancelled_ids (sample_adla empty_dir [running_job ''j'' ''b'']))"
    by (simp add: sample_adla_def)
  ultimately show ?thesis
    using tracked_job_accounted [of sample_handle 5 _ "new_job ''j'' ''b''" "''b''" 600 None 30]
    by (fastforce split: prod.splits sum.splits)
qed

text \<open>
  C17: the polling loops of \<open>submit_and_wait\<close> and \<open>cancel_job\<close> end within the fuel the model gives them,
  under any outages and however the job evolves; a cancellation that is confirmed did end the job.
\<close>

theorem job_loops_end:
  fixes w :: "'z adla_scheme"
  assumes "patient (hc_manager h)" and "0 < iv" and "jobs_ok w"
  shows "(case wait_loop (settle_fuel mw iv) h name iv mw wait_on_cancel (st_clock w) job 0 w of
        (Inr (job', exc), _) \<Rightarrow> is_terminal job' \<or> exc \<noteq> None | (Inl x, _) \<Rightarrow> is_terminal job \<or> exn_class x = ProcessKilled) \<and>
    (case cancel_loop (settle_fuel mw iv) (hc_manager h) i iv mw (st_clock w) w of
        (Inr confirmed, w') \<Rightarrow> \<not> confirmed \<or> job_ended w' i | (Inl x, _) \<Rightarrow> exn_class x = ProcessKilled)"
    (is "?wait \<and> ?cancel")
proof
  let ?c = "st_clock w + mw * 1000000 - int (nat (mw div iv) + 1) * (iv * 1000000)"
  have t: "tracked (st_tables w) {} {} ?c w"
    using assms(3) fuel_room [OF assms(2), of mw] by (simp add: tracked_def ended_jobs_def not_before_def)
  show ?cancel
    using wp_cancel_loop [OF assms(1,2) t, of i]
    by (auto simp: wp_def settle_fuel_def tracked_def ended_jobs_def simp del: cancel_loop.simps split: prod.splits sum.splits if_splits)
  show ?wait
  proof (cases "is_terminal job")
    case True
    then show ?thesis by (simp add: settle_fuel_def ret_def)
  next
    case False
    from wp_wait_loop [OF assms(1,2) t, of job name wait_on_cancel 0] False show ?thesis
      by (auto simp: wp_def settle_fuel_def left_job_def simp del: wait_loop.simps split: prod.splits sum.splits)
  qed
qed

theorem job_loops_end_witness:
  "case cancel_loop (settle_fuel 120 2) sample_manager ''j'' 2 120 0 (sample_adla empty_dir [running_job ''j'' ''b'']) of
     (Inr confirmed, w') \<Rightarrow> \<not> confirmed \<or> job_ended w' ''j'' | (Inl x, _) \<Rightarrow> exn_class x = ProcessKilled"
proof -
  have "jobs_ok (sample_adla empty_dir [running_job ''j'' ''b''])" by (rule running_job_ok) simp
  from job_loops_end [OF _ _ this, of sample_handle 2] show ?thesis
    by (simp add: sample_handle_def patient_def sample_manager_def disabled_policy_def sample_adla_def del: cancel_loop.simps)
qed

section \<open>Submitting and waiting\<close>

text \<open>A service that accepts a job does not call it ended at once, and an ended job stays ended.\<close>

fun plan_ok :: "put_plan \<Rightarrow> bool" where
  "plan_ok (Accepts response polls) = (\<not> is_ended (dget response ''state'' (JStr ''Preparing'')) \<and> stays_ended polls)"
| "plan_ok (Refuses _) = True"

definition service_ok :: "string list \<Rightarrow> 'z adla_scheme \<Rightarrow> bool" where
  "service_ok A w \<longleftrightarrow> jobs_ok w \<and> list_all plan_ok (aw_plans w) \<and> (\<forall>n. aw_uuid w n \<noteq> []) \<and> aw_active w = A"

lemma service_ok_quiet: "quiet (service_ok A :: 'z adla_scheme \<Rightarrow> bool)"
  by (simp add: quiet_def clock_free_def fault_free_def service_ok_def jobs_ok_def)

lemma wp_retry_quota:
  assumes "J w" and op: "\<And>w. J w \<Longrightarrow> wp op q (\<lambda>_. J) w"
    and "keeps J (gather_and_cancel ctx policy)" and "\<And>d. keeps J (sleep d)"
  shows "wp (retry_with_quota_eviction ctx policy sleep draw op) q (\<lambda>_. J) w"
proof -
  have "wp (eviction_loop ctx policy sleep draw op n e) q (\<lambda>_. J) w" if "J w" for n e w
    using that
  proof (induction n arbitrary: e w)
    case (Suc n)
    have again: "wp (thenM (sleep d) (eviction_loop ctx policy sleep draw op n e)) q (\<lambda>_. J) u" if "J u" for d e u
      unfolding wp_thenM by (rule wp_mono [OF keepsD [OF assms(4) that]]) (use Suc.IH in auto)
    have "wp (bindM (gather_and_cancel ctx policy) (\<lambda>victims. if victims = [] then raise exc
        else thenM (sleep (max 0 (qp_wait_seconds policy + draw n))) (eviction_loop ctx policy sleep draw op n (Some exc))))
        q (\<lambda>_. J) u" if "J u" for exc u
      unfolding wp_bindM by (rule wp_mono [OF keepsD [OF assms(3) that]]) (auto simp: wp_raise again)
    then show ?case
      unfolding eviction_loop.simps wp_tryM by (intro wp_mono [OF op [OF Suc.prems]]) (auto simp: wp_raise)
  qed (simp add: wp_raise)
  then show ?thesis using assms(1) op by (simp add: retry_with_quota_eviction_def)
qed

lemma keeps_gather:
  fixes J :: "'z adla_scheme \<Rightarrow> bool"
  assumes "quiet J" and "\<And>i. keeps J (cancel_job_async m i)"
  shows "keeps J (gather_and_cancel (handle_ctx m) policy)"
proof -
  have "keeps J (list_jobs m f n)" for f n
    unfolding list_jobs_def by (intro keeps_mg_retry keeps_storage_call assms(1) keeps_reading) simp
  moreover have "keeps J (cancel_victims (handle_ctx m) vs)" for vs
    by (induction vs) (auto simp: handle_ctx_def intro!: keeps_intros assms(2))
  ultimately show ?thesis
    unfolding gather_and_cancel_def by (intro keeps_intros) (simp_all add: handle_ctx_def)
qed

lemma job_body_id: "dget (job_body h run i name script au priority model) ''jobId'' d = JStr i"
  by (simp add: job_body_def dget_def)

lemma wp_put_job:
  fixes w :: "'z adla_scheme"
  assumes "service_ok A w" and "i \<noteq> []" and "body = job_body h run i name script au priority model"
  shows "wp (put_job m i body) (\<lambda>response u. service_ok A u \<and> \<not> is_ended (dget response ''state'' (JStr ''Preparing'')))
    (\<lambda>_. service_ok A) w"
  unfolding put_job_def
  by (rule wp_quiet_request [OF service_ok_quiet assms(1)])
     (use assms(2,3) job_body_id in
      \<open>auto simp: wp_def service_ok_def jobs_ok_def job_ok_def split: list.splits put_plan.splits\<close>)

lemma wp_submit_job:
  fixes w :: "'z adla_scheme"
  assumes "service_ok A w"
  shows "wp (submit_job h name script au priority model) (\<lambda>job u. service_ok A u \<and> \<not> is_terminal job) (\<lambda>_. service_ok A) w"
    (is "wp _ ?q ?e w")
proof -
  let ?m = "hc_manager h"
  have cancel: "keeps (service_ok A) (cancel_job_async ?m i)" for i
    unfolding cancel_job_async_def
    by (intro keeps_mg_retry keeps_logged_call service_ok_quiet keepsI) (simp_all add: wp_def service_ok_def jobs_ok_def)
  have "wp (retry_with_quota_eviction (handle_ctx ?m) (hc_quota h) sleepM (hc_draw h)
        (put_job ?m i (job_body h run i name script au priority model)))
      (\<lambda>response u. service_ok A u \<and> \<not> is_ended (dget response ''state'' (JStr ''Preparing''))) ?e u"
    if "service_ok A u" and "i \<noteq> []" for i run and u :: "'z adla_scheme"
    by (rule wp_retry_quota [where J = "service_ok A"])
       (use that in \<open>auto intro!: wp_put_job [OF _ _ HOL.refl] keeps_gather keeps_sleepM service_ok_quiet cancel\<close>)
  note posted = this
  have put: "wp (bindM (retry_with_quota_eviction (handle_ctx ?m) (hc_quota h) sleepM (hc_draw h)
        (put_job ?m i (job_body h run i name script au priority model)))
      (\<lambda>response. case update_from_response (new_job i name) response of (job, None) \<Rightarrow> ret job | (_, Some e) \<Rightarrow> raise e)) ?q ?e u"
    if "service_ok A u" and "i \<noteq> []" for i run and u :: "'z adla_scheme"
    unfolding wp_bindM
    by (rule wp_mono [OF posted [OF that]])
       (auto simp: update_from_response_def Let_def new_job_def is_terminal_def wp_ret wp_raise split: sum.splits option.splits prod.splits)
  have "wp next_uuid (\<lambda>i u. service_ok A u \<and> i \<noteq> []) ?e u" if "service_ok A u" for u :: "'z adla_scheme"
    using that by (simp add: wp_def next_uuid_def service_ok_def jobs_ok_def)
  then have fresh: "wp (bindM next_uuid (\<lambda>i. bindM (asks aw_run) (\<lambda>run.
      bindM (retry_with_quota_eviction (handle_ctx ?m) (hc_quota h) sleepM (hc_draw h)
        (put_job ?m i (job_body h (own_run_id run) i name script au priority model)))
      (\<lambda>response. case update_from_response (new_job i name) response of (job, None) \<Rightarrow> ret job | (_, Some e) \<Rightarrow> raise e)))) ?q ?e u"
    if "service_ok A u" for u :: "'z adla_scheme"
    unfolding wp_bindM [of next_uuid] wp_bindM [of "asks _"] wp_asks by (rule wp_mono) (use that put in auto)
  have "wp shutdown_is_set (\<lambda>_. service_ok A) ?e w"
    using assms by (auto simp: wp_def shutdown_is_set_def service_ok_def jobs_ok_def split: option.split nat.split)
  then show ?thesis
    unfolding submit_job_def wp_bindM [of shutdown_is_set]
    by (rule wp_mono) (auto intro!: wp_if fresh simp: wp_raise)
qed

lemma wp_submit_and_wait:
  fixes w :: "'z adla_scheme"
  assumes "patient (hc_manager h)" and "0 < iv" and "service_ok A w"
  shows "wp (submit_and_wait h name script au priority iv mw model wait)
    (\<lambda>r u. succeeded r \<and> job_ended u (jb_id r) \<and> aw_active u = filter (\<lambda>i. i \<noteq> jb_id r) A)
    (\<lambda>x u. exn_class x = ProcessKilled \<or> set (aw_active u) \<subseteq> set A) w"
  (is "wp _ ?q ?e w")
proof -
  let ?track = "\<lambda>job. finallyM (track_job h name iv mw model wait job) (deregister_active (jb_id job))"
  have tracked: "wp (?track job) ?q ?e u"
    if "jobs_ok u" and "\<not> is_terminal job" and A: "aw_active u = jb_id job # filter (\<lambda>i. i \<noteq> jb_id job) A"
    for job and u :: "'z adla_scheme"
  proof -
    let ?J = "\<lambda>v :: 'z adla_scheme. aw_active v = aw_active u"
    have "shutdown_free ?J"
      by (simp add: shutdown_free_def job_free_def quiet_def clock_free_def fault_free_def)
    then have kept: "wp (track_job h name iv mw model wait job) (\<lambda>_. ?J) (\<lambda>_. ?J) u"
      by (intro keepsD [OF keeps_track_job]) simp_all
    have known: "wp (track_job h name iv mw model wait job)
        (\<lambda>r v. jb_id r = jb_id job \<and> succeeded r \<and> (\<exists>c. tracked (st_tables u) {jb_id job} {} c v)) (\<lambda>_ _. True) u"
      by (rule wp_mono [OF wp_track_job [OF assms(1,2)]]) (use that(1,2) in \<open>auto simp: ended_jobs_def\<close>)
    have "wp (track_job h name iv mw model wait job)
        (\<lambda>r v. jb_id r = jb_id job \<and> succeeded r \<and> job_ended v (jb_id job) \<and> ?J v) (\<lambda>_. ?J) u"
      by (rule wp_mono [OF wp_conj [OF kept known]]) (auto dest!: trackedD(1) simp: ended_jobs_def)
    then show ?thesis
      unfolding wp_finallyM deregister_active_def
      by (rule wp_mono) (auto simp: wp_modifyM A job_ended_def)
  qed
  have registered: "wp (thenM (register_active (jb_id job)) (?track job)) ?q ?e u"
    if "service_ok A u \<and> \<not> is_terminal job" for job and u :: "'z adla_scheme"
    unfolding register_active_def wp_thenM wp_modifyM
    by (rule tracked) (use that in \<open>simp_all add: service_ok_def jobs_ok_def\<close>)
  have "wp (bindM (submit_job h name script au priority model)
      (\<lambda>job. thenM (register_active (jb_id job)) (?track job))) ?q ?e u" if "service_ok A u" for u :: "'z adla_scheme"
    unfolding wp_bindM [of "submit_job _ _ _ _ _ _"]
    by (rule wp_mono [OF wp_submit_job [OF that]]) (rule registered, auto simp: service_ok_def)
  then show ?thesis
    unfolding submit_and_wait_def wp_thenM [of "ensure_table_owner _ _"]
    by (intro wp_mono [OF keepsD [OF keeps_ensure_table_owner [OF service_ok_quiet] assms(3)]]) (auto simp: service_ok_def)
qed

text \<open>
  C15: \<open>submit_and_wait\<close> returns only a job that succeeded, and that has ended on the service, so the caller
  may look for its commit; and whether it returns or raises, it leaves no job of its own in the registry
  of active jobs, unless the process dies.
\<close>

theorem submit_and_wait_outcome:
  assumes "patient (hc_manager h)" and "0 < iv"
    and "jobs_ok w" and "list_all plan_ok (aw_plans w)" and "\<forall>n. aw_uuid w n \<noteq> []"
  shows "case submit_and_wait h name script au priority iv mw model wait w of
      (Inr r, w') \<Rightarrow> succeeded r \<and> job_ended w' (jb_id r) \<and> aw_active w' = filter (\<lambda>i. i \<noteq> jb_id r) (aw_active w)
    | (Inl x, w') \<Rightarrow> exn_class x = ProcessKilled \<or> set (aw_active w') \<subseteq> set (aw_active w)"
proof -
  have "service_ok (aw_active w) w" using assms(3-5) by (simp add: service_ok_def)
  from wp_submit_and_wait [OF assms(1,2) this] show ?thesis unfolding wp_def .
qed

theorem submit_and_wait_outcome_witness:
  "case submit_and_wait sample_handle ''b'' [] 1 1 5 600 None 30 ((sample_adla empty_dir [])\<lparr>aw_plans := [accepted]\<rparr>) of
      (Inr r, w') \<Rightarrow> succeeded r \<and> job_ended w' (jb_id r) \<and> aw_active w' = []
    | (Inl x, w') \<Rightarrow> exn_class x = ProcessKilled \<or> aw_active w' = []"
proof -
  let ?w = "(sample_adla empty_dir [])\<lparr>aw_plans := [accepted]\<rparr>"
  have "jobs_ok ?w" "list_all plan_ok (aw_plans ?w)" "\<forall>n. aw_uuid ?w n \<noteq> []" and A: "aw_active ?w = []"
    by (simp_all add: sample_adla_def jobs_ok_def accepted_def is_ended_def dget_def)
  moreover have "patient (hc_manager sample_handle)"
    by (simp add: sample_handle_def patient_def sample_manager_def disabled_policy_def)
  moreover obtain r w' where "submit_and_wait sample_handle ''b'' [] 1 1 5 600 None 30 ?w = (r, w')"
    by (cases "submit_and_wait sample_handle ''b'' [] 1 1 5 600 None 30 ?w")
  ultimately show ?thesis
    using submit_and_wait_outcome [of sample_handle 5 ?w "''b''" "[]" 1 1 600 None 30] unfolding A by (cases r) simp_all
qed

section \<open>A submission whose response is lost\<close>

lemma retry_quota_other_error:
  assumes "op w = (Inl e, w')" and "\<not> is_quota_error e"
  shows "retry_with_quota_eviction ctx policy sleep draw op w = (Inl e, w')"
proof -
  have "eviction_loop ctx policy sleep draw op (Suc n) last w = (Inl e, w')" for n last
    using assms by (simp add: run_tryM eff_run)
  then show ?thesis
    using assms(1) by (cases "nat (qp_max_attempts policy)") (auto simp: retry_with_quota_eviction_def simp del: eviction_loop.simps)
qed

text \<open>
  C18: a gap in the bookkeeping. If the service accepts the PUT of a job and the response is lost,
  \<open>submit_and_wait\<close> raises the transport error and the job runs on: it is in no registry, so neither this
  process nor its shutdown handler cancels it, and since it carries the run id of this run the search for
  orphans skips it for the rest of the run. When the error is one the job retry covers, \<open>execute\<close> submits
  the same script again beside it.
\<close>

theorem lost_submission_untracked:
  assumes "ensure_table_owner (hc_manager h) (Some (c # m)) w = (Inr (), w1)"
    and "aw_shutdown_in w1 = None" and "st_faults w1 = FailAfter x # fs" and "aw_plans w1 = Accepts response polls # ps"
    and "\<not> retry_enabled (mg_policy (hc_manager h))" and "\<not> is_quota_error (outage_exn x)"
    and i: "i = aw_uuid w1 (aw_uuids_used w1)"
    and "i \<notin> sj_id ` set (aw_jobs w1)" and "i \<notin> set (aw_active w1)" and "i \<notin> set (aw_cancelled_ids w1)"
  shows "\<exists>w'. submit_and_wait h name script au priority iv mw (Some (c # m)) wait w = (Inl (outage_exn x), w') \<and>
     (\<exists>j \<in> set (aw_jobs w'). sj_id j = i \<and> sj_polls j = polls \<and> is_self_job w' (sj_dict j)) \<and>
     i \<notin> set (aw_active w') \<and> i \<notin> set (aw_cancelled_ids w')"
proof -
  let ?body = "job_body h (own_run_id (aw_run w1)) i name script au priority (Some (c # m))"
  let ?w2 = "w1\<lparr>aw_uuids_used := Suc (aw_uuids_used w1)\<rparr>"
  let ?w3 = "?w2\<lparr>st_faults := fs, aw_plans := ps, aw_puts := aw_puts w1 @ [?body], aw_jobs := aw_jobs w1 @ [\<lparr>sj_id = i, sj_dict = ?body, sj_polls = polls\<rparr>]\<rparr>"
  have "put_job (hc_manager h) i ?body ?w2 = (Inl (outage_exn x), ?w3)"
    using assms(3-5,8) by (simp add: put_job_def mg_retry_def retry_on_message_def storage_call_def)
  then have "retry_with_quota_eviction (handle_ctx (hc_manager h)) (hc_quota h) sleepM (hc_draw h)
      (put_job (hc_manager h) i ?body) ?w2 = (Inl (outage_exn x), ?w3)"
    using assms(6) by (rule retry_quota_other_error)
  then have "submit_job h name script au priority (Some (c # m)) w1 = (Inl (outage_exn x), ?w3)"
    using assms(2) i by (simp add: submit_job_def run_bindM shutdown_is_set_def next_uuid_def run_asks)
  then have "submit_and_wait h name script au priority iv mw (Some (c # m)) wait w = (Inl (outage_exn x), ?w3)"
    using assms(1) by (simp add: submit_and_wait_def run_thenM run_bindM)
  moreover have "is_self_job ?w3 ?body"
    by (simp add: is_self_job_def job_body_def dget_def)
  ultimately show ?thesis using assms(9,10) by (intro exI [of _ ?w3]) simp
qed

theorem lost_submission_untracked_witness:
  "\<exists>w'. submit_and_wait sample_handle ''b'' [] 1 1 5 600 (Some ''m'') 30
       ((sample_adla empty_dir [])\<lparr>aw_plans := [accepted], st_faults := [FailAfter (RequestTimeout ''t'')]\<rparr>) =
       (Inl (PyExn RequestsTimeout ''t''), w') \<and>
     (\<exists>j \<in> set (aw_jobs w'). sj_id j = show_nat 0 \<and> is_self_job w' (sj_dict j)) \<and> show_nat 0 \<notin> set (aw_active w')"
proof -
  let ?w = "(sample_adla empty_dir [])\<lparr>aw_plans := [accepted], st_faults := [FailAfter (RequestTimeout ''t'')]\<rparr>"
  have "ensure_table_owner (hc_manager sample_handle) (Some ''m'') ?w = (Inr (), ?w)"
    by (simp add: ensure_table_owner_def sample_adla_def run_bindM_asks run_ret Let_def)
  moreover have "\<not> retry_enabled (mg_policy (hc_manager sample_handle))" "\<not> is_quota_error (outage_exn (RequestTimeout ''t''))"
    by (simp_all add: sample_handle_def sample_manager_def retry_enabled_def disabled_policy_def is_quota_error_def quota_needles_def)
  ultimately show ?thesis
    using lost_submission_untracked [where w = ?w and ?w1.0 = ?w and h = sample_handle and c = "CHR ''m''" and m = "[]" and
        x = "RequestTimeout ''t''" and fs = "[]" and ps = "[]" and i = "show_nat 0" and name = "''b''" and script = "[]" and
        au = 1 and priority = 1 and iv = 5 and mw = 600 and wait = 30]
    by (auto simp: sample_adla_def accepted_def)
qed

end
