(* ===== verification/Job_Shutdown.thy ===== *)
theory Job_Shutdown
  imports Job_Guarantees
begin

text \<open>
  Cancelling the active jobs of the process: \<open>_cancel_active_jobs\<close>, \<open>cancel_all_active_jobs\<close> and the dbt
  hooks of \<open>connections.py\<close>, and the signal and exit handlers of \<open>impl.py\<close>. The workers of the thread pool
  act on different jobs; the model runs them one after another, and the argument \<open>in_time\<close> says which of
  them are done when the pool is left.
\<close>

section \<open>Observed credentials\<close>

text \<open>Credentials are compared by identity; \<open>key\<close> names the object.\<close>

type_synonym observed = "(nat \<times> scope_credentials) list"

definition observe_credentials :: "nat \<Rightarrow> scope_credentials \<Rightarrow> observed \<Rightarrow> observed" where
  "observe_credentials key c seen = (if key \<in> fst ` set seen then seen else seen @ [(key, c)])"

definition any_observed_cancel_enabled :: "observed \<Rightarrow> bool" where
  "any_observed_cancel_enabled seen \<longleftrightarrow> (if seen = [] then True else list_ex (\<lambda>e. cancel_jobs_on_shutdown (snd e)) seen)"

definition observed_max_wait :: "observed \<Rightarrow> int" where
  "observed_max_wait seen =
     (let values = map (\<lambda>e. wait_on_cancel_seconds (snd e)) (filter (\<lambda>e. cancel_jobs_on_shutdown (snd e)) seen)
      in if values = [] then 30 else Max (set values))"

section \<open>Cancelling\<close>

definition cancel_one :: "manager \<Rightarrow> int \<Rightarrow> string \<Rightarrow> ('z adla_scheme, bool) eff" where
  "cancel_one m wait_seconds i =
     bindM (asks (\<lambda>w. i \<in> set (aw_confirmed_ids w))) (\<lambda>known.
       if known then ret True
       else
         thenM (note_cancelled i)
           (bindM (tryM (bindM (cancel_job m i 2 wait_seconds) (\<lambda>b. ret (Some b))) (\<lambda>_. ret None)) (\<lambda>confirmed.
              case confirmed of
                None \<Rightarrow> ret False
              | Some b \<Rightarrow> thenM (whenM b (note_confirmed i)) (ret b))))"

fun cancel_entries :: "manager \<Rightarrow> int \<Rightarrow> (string \<Rightarrow> bool) \<Rightarrow> string list \<Rightarrow> ('z adla_scheme, (string \<times> bool) list) eff" where
  "cancel_entries m wait_seconds in_time [] = ret []"
| "cancel_entries m wait_seconds in_time (i # is) =
     bindM (cancel_one m wait_seconds i) (\<lambda>confirmed.
     bindM (cancel_entries m wait_seconds in_time is) (\<lambda>rest. ret ((i, in_time i \<and> confirmed) # rest)))"

definition cancel_active_jobs :: "manager \<Rightarrow> (string \<Rightarrow> bool) \<Rightarrow> int \<Rightarrow> ('z adla_scheme, (string \<times> bool) list) eff" where
  "cancel_active_jobs m in_time wait_seconds =
     bindM (asks aw_active) (\<lambda>entries.
       if entries = [] then ret [] else cancel_entries m wait_seconds in_time entries)"

definition cancel_all_active_jobs :: "manager \<Rightarrow> (string \<Rightarrow> bool) \<Rightarrow> int \<Rightarrow> ('z adla_scheme, nat \<times> nat) eff" where
  "cancel_all_active_jobs m in_time wait_seconds =
     bindM (cancel_active_jobs m in_time wait_seconds) (\<lambda>results. ret (length results, length (filter snd results)))"

definition set_shutdown :: "('z adla_scheme, unit) eff" where
  "set_shutdown = modifyM (\<lambda>w. w\<lparr>aw_shutdown_in := Some 0\<rparr>)"

text \<open>\<open>ScopeConnectionManager.cancel\<close> and \<open>cancel_open\<close>, the signal handler, and the exit handler.\<close>

definition connection_cancel :: "manager \<Rightarrow> (string \<Rightarrow> bool) \<Rightarrow> scope_credentials option \<Rightarrow> ('z adla_scheme, unit) eff" where
  "connection_cancel m in_time creds =
     thenM set_shutdown
       (if (case creds of None \<Rightarrow> True | Some c \<Rightarrow> cancel_jobs_on_shutdown c)
        then bindM (cancel_all_active_jobs m in_time (case creds of None \<Rightarrow> 30 | Some c \<Rightarrow> wait_on_cancel_seconds c)) (\<lambda>_. ret ())
        else ret ())"

definition cancel_open :: "manager \<Rightarrow> (string \<Rightarrow> bool) \<Rightarrow> ('z adla_scheme, string list) eff" where
  "cancel_open m in_time = thenM set_shutdown (bindM (cancel_active_jobs m in_time 30) (\<lambda>results. ret (map fst results)))"

definition shutdown_cancel :: "manager \<Rightarrow> (string \<Rightarrow> bool) \<Rightarrow> observed \<Rightarrow> ('z adla_scheme, unit) eff" where
  "shutdown_cancel m in_time seen =
     (if any_observed_cancel_enabled seen
      then tryM (bindM (cancel_all_active_jobs m in_time (observed_max_wait seen)) (\<lambda>_. ret ())) (\<lambda>_. ret ())
      else ret ())"

definition signal_handler :: "manager \<Rightarrow> (string \<Rightarrow> bool) \<Rightarrow> observed \<Rightarrow> ('z adla_scheme, unit) eff \<Rightarrow> ('z adla_scheme, unit) eff" where
  "signal_handler m in_time seen prev = thenM set_shutdown (thenM (shutdown_cancel m in_time seen) prev)"

section \<open>What a shutdown confirms\<close>

text \<open>
  A worker never raises, whatever fails, unless the process dies; it asks for the cancellation, and the job
  it calls confirmed has ended, unless it was on record as confirmed before.
\<close>

lemma wp_cancel_one:
  fixes w :: "'z adla_scheme"
  assumes "patient m" and "tracked T E C c w"
  shows "wp (cancel_one m wait i)
    (\<lambda>b u. if i \<in> set (aw_confirmed_ids w) then b \<and> u = w else \<exists>c. tracked T (if b then insert i E else E) (insert i C) c u)
    (\<lambda>x _. exn_class x = ProcessKilled) w"
proof -
  have "wp (cancel_own_job m i wait) (\<lambda>b u. \<exists>c. tracked T (if b then insert i E else E) (insert i C) c u)
      (\<lambda>x _. exn_class x = ProcessKilled) w"
    by (rule wp_cancel_own_job [OF assms])
  moreover have eq: "cancel_one m wait i = bindM (asks (\<lambda>w. i \<in> set (aw_confirmed_ids w))) (\<lambda>known.
      if known then ret True else cancel_own_job m i wait)"
    unfolding cancel_one_def cancel_own_job_def by (rule HOL.refl)
  ultimately show ?thesis
    unfolding eq wp_bindM [of "asks _"] wp_asks
    by (cases "i \<in> set (aw_confirmed_ids w)") (simp_all only: if_P if_not_P if_True if_False wp_ret simp_thms)
qed

lemma wp_cancel_entries:
  fixes w :: "'z adla_scheme"
  assumes "patient m"
  shows "tracked T E C c w \<Longrightarrow> wp (cancel_entries m wait in_time is)
    (\<lambda>results u. map fst results = is \<and> (\<exists>c. tracked T E C c u)) (\<lambda>x _. exn_class x = ProcessKilled) w"
proof (induction "is" arbitrary: w c)
  case (Cons i js)
  have rest: "wp (bindM (cancel_entries m wait in_time js) (\<lambda>rest. ret ((i, in_time i \<and> b) # rest)))
      (\<lambda>results u. map fst results = i # js \<and> (\<exists>c. tracked T E C c u)) (\<lambda>x _. exn_class x = ProcessKilled) u"
    if "\<exists>c. tracked T E C c u" for b and u :: "'z adla_scheme"
  proof -
    from that obtain d where "tracked T E C d u" by blast
    from Cons.IH [OF this] show ?thesis unfolding wp_bindM wp_ret by (rule wp_mono) simp_all
  qed
  have "wp (cancel_one m wait i) (\<lambda>_ u. \<exists>c. tracked T E C c u) (\<lambda>x _. exn_class x = ProcessKilled) w"
    by (rule wp_mono [OF wp_cancel_one [OF assms Cons.prems]])
       (use Cons.prems in \<open>auto split: if_splits elim: tracked_mono\<close>)
  then show ?case
    unfolding cancel_entries.simps wp_bindM [of "cancel_one m wait i"] by (rule wp_mono) (auto intro: rest)
qed (auto simp: wp_ret)

text \<open>A shutdown handler raises nothing of its own and reports every active job.\<close>

lemma shutdown_reports_every_job:
  fixes w :: "'z adla_scheme"
  assumes "patient m" and "jobs_ok w"
  shows "wp (cancel_active_jobs m in_time wait) (\<lambda>results _. map fst results = aw_active w) (\<lambda>x _. exn_class x = ProcessKilled) w"
proof -
  have "tracked (st_tables w) {} {} (st_clock w) w"
    using assms(2) by (simp add: tracked_def ended_jobs_def not_before_def)
  note entries = wp_cancel_entries [OF assms(1) this, of wait in_time "aw_active w"]
  show ?thesis
    unfolding cancel_active_jobs_def wp_bindM wp_asks
    by (rule wp_if) (simp add: wp_ret, rule wp_mono [OF entries], simp_all)
qed

end
