(* ===== verification/Delta_Client.thy ===== *)
theory Delta_Client
  imports Delta_Log
begin

text \<open>
  The inspection methods of \<open>DeltaLakeClient\<close> and \<open>DuckDbDeltaLakeClient\<close> (\<open>delta_lake.py\<close>). The text of
  every query is built as in the code; DuckDB itself is the argument \<open>dk\<close>, whose operations are arbitrary
  effects. A row is a list of JSON values, SQL's \<open>NULL\<close> is \<open>JNull\<close>. The lemmas show that names and
  locations stay inside their quotes in a query, and that a connection is closed again.
\<close>

section \<open>Quoting\<close>

definition sql_literal :: "string \<Rightarrow> string" where
  "sql_literal value = replace_char CHR 0x27 [CHR 0x27, CHR 0x27] value"

definition sql_identifier :: "string \<Rightarrow> string" where
  "sql_identifier value = CHR 0x22 # replace_char CHR 0x22 [CHR 0x22, CHR 0x22] value @ [CHR 0x22]"

text \<open>How SQL reads quoted text, after the opening quote \<open>q\<close>: a doubled quote stands for itself.\<close>

fun read_quoted :: "char \<Rightarrow> string \<Rightarrow> (string \<times> string) option" where
  "read_quoted q [] = None"
| "read_quoted q (c # s) =
     (if c \<noteq> q then map_option (\<lambda>(v, rest). (c # v, rest)) (read_quoted q s)
      else case s of
             d # t \<Rightarrow> if d = q then map_option (\<lambda>(v, rest). (q # v, rest)) (read_quoted q t) else Some ([], s)
           | [] \<Rightarrow> Some ([], []))"

lemma read_quoted_replace:
  assumes "case rest of [] \<Rightarrow> True | c # _ \<Rightarrow> c \<noteq> q"
  shows "read_quoted q (replace_char q [q, q] v @ q # rest) = Some (v, rest)"
  using assms by (induction v) (auto simp: replace_char_def split: list.splits)

section \<open>Connections\<close>

record 'w duckdb =
  dk_open :: "('w, unit) eff"
  dk_execute :: "string \<Rightarrow> ('w, unit) eff"
  dk_token :: "('w, string) eff"
  dk_fetchall :: "string \<Rightarrow> ('w, json list list) eff"
  dk_description :: "string \<Rightarrow> ('w, (string \<times> string) list) eff"
  dk_close :: "('w, unit) eff"

definition duckdb_extension_sql :: string where
  "duckdb_extension_sql = ''INSTALL delta; LOAD delta; INSTALL azure; LOAD azure;''"

definition transport_sql :: string where
  "transport_sql = ''SET azure_transport_option_type = '' @ CHR 0x27 # ''curl'' @ CHR 0x27 # '';''"

definition secret_sql :: "string \<Rightarrow> string" where
  "secret_sql token = ''CREATE SECRET az1 (TYPE AZURE, PROVIDER ACCESS_TOKEN, ACCESS_TOKEN '' @
     CHR 0x27 # sql_literal token @ CHR 0x27 # '');''"

text \<open>\<open>with self.connect() as conn: body\<close>.\<close>

definition with_connection :: "'w duckdb \<Rightarrow> ('w, 'a) eff \<Rightarrow> ('w, 'a) eff" where
  "with_connection dk body =
     thenM (dk_open dk)
       (finallyM
         (thenM (dk_execute dk duckdb_extension_sql)
           (thenM (dk_execute dk transport_sql)
             (bindM (dk_token dk) (\<lambda>token. thenM (dk_execute dk (secret_sql token)) body))))
         (dk_close dk))"

definition fetchall :: "'w duckdb \<Rightarrow> string \<Rightarrow> ('w, json list list) eff" where
  "fetchall dk query = with_connection dk (dk_fetchall dk query)"

definition fetchone :: "'w duckdb \<Rightarrow> string \<Rightarrow> ('w, json list option) eff" where
  "fetchone dk query = with_connection dk (bindM (dk_fetchall dk query) (\<lambda>rows.
     ret (case rows of [] \<Rightarrow> None | row # _ \<Rightarrow> Some row)))"

section \<open>Inspection\<close>

text \<open>\<open>except CredentialUnavailableError: raise; except Exception: return default\<close>.\<close>

definition or_on_error :: "('w, 'a) eff \<Rightarrow> 'a \<Rightarrow> ('w, 'a) eff" where
  "or_on_error op fallback = tryM op (\<lambda>e. if exn_class e = CredentialUnavailableError then raise e else ret fallback)"

definition delta_scan :: "string \<Rightarrow> string" where
  "delta_scan loc = ''delta_scan('' @ CHR 0x27 # sql_literal loc @ CHR 0x27 # '')''"

definition table_exists :: "'w duckdb \<Rightarrow> string \<Rightarrow> ('w, bool) eff" where
  "table_exists dk loc =
     or_on_error (bindM (fetchone dk (''SELECT 1 FROM '' @ delta_scan loc @ '' LIMIT 0'')) (\<lambda>_. ret True)) False"

definition get_max_partition :: "'w duckdb \<Rightarrow> string \<Rightarrow> string \<Rightarrow> ('w, string option) eff" where
  "get_max_partition dk loc col =
     or_on_error
       (bindM (fetchone dk (''SELECT MAX('' @ sql_identifier col @ '') AS mv FROM '' @ delta_scan loc)) (\<lambda>row.
          case row of
            Some (v # _) \<Rightarrow> ret (if v \<noteq> JNull then Some (jstr v) else None)
          | _ \<Rightarrow> ret None)) None"

definition describe :: "'w duckdb \<Rightarrow> string \<Rightarrow> ('w, (string \<times> string) list) eff" where
  "describe dk loc = with_connection dk (dk_description dk (''SELECT * FROM '' @ delta_scan loc @ '' LIMIT 0''))"

definition get_columns :: "'w duckdb \<Rightarrow> string \<Rightarrow> ('w, string list option) eff" where
  "get_columns dk loc = or_on_error (bindM (describe dk loc) (\<lambda>cs. ret (Some (map fst cs)))) None"

text \<open>The dict comprehension: a repeated name keeps its place and takes the last type.\<close>

definition get_schema :: "'w duckdb \<Rightarrow> string \<Rightarrow> ('w, (string \<times> string) list option) eff" where
  "get_schema dk loc =
     or_on_error (bindM (describe dk loc) (\<lambda>cs. ret (Some (fold (\<lambda>(n, t) m. assoc_put n t m) cs [])))) None"

definition validate_partition_column :: "'w duckdb \<Rightarrow> string \<Rightarrow> string \<Rightarrow> ('w, unit) eff" where
  "validate_partition_column dk loc col =
     bindM (get_columns dk loc) (\<lambda>columns.
       case columns of
         None \<Rightarrow> ret ()
       | Some cs \<Rightarrow>
           if col \<notin> set cs
           then raise (PyExn DbtRuntimeError
             (''Delta table at '' @ squoted loc @ '' exists but does not contain column '' @ squoted col @
              ''. Available columns: '' @ jstr (JList (map JStr cs)) @ ''. The model requires column '' @ squoted col @
              '' for incremental processing.''))
           else ret ())"

definition get_total_row_count :: "'w duckdb \<Rightarrow> string \<Rightarrow> ('w, int) eff" where
  "get_total_row_count dk loc =
     bindM (fetchone dk (''SELECT COUNT(*) AS cnt FROM '' @ delta_scan loc)) (\<lambda>row.
       case row of Some (v # _) \<Rightarrow> liftE (jint v) | _ \<Rightarrow> ret 0)"

definition get_partition_counts :: "'w duckdb \<Rightarrow> string \<Rightarrow> string \<Rightarrow> ('w, (string \<times> int) list) eff" where
  "get_partition_counts dk loc col =
     bindM (fetchall dk (''SELECT '' @ sql_identifier col @ '', COUNT(*) AS cnt FROM '' @ delta_scan loc @
         '' GROUP BY '' @ sql_identifier col @ '' ORDER BY '' @ sql_identifier col)) (\<lambda>rows.
       liftE (bindE (mapE (\<lambda>row. bindE (jint (row ! 1)) (\<lambda>n. Inr (jstr (row ! 0), n))) rows)
         (\<lambda>entries. Inr (fold (\<lambda>(k, n) m. assoc_put k n m) entries []))))"

section \<open>Listings\<close>

text \<open>\<open>file_system.get_paths\<close> below a prefix is the argument \<open>paths\<close>: names, and whether each is a directory.\<close>

definition list_table_paths ::
    "manager \<Rightarrow> (table_key \<Rightarrow> ('z store_scheme, (string \<times> bool) list) eff) \<Rightarrow> string \<Rightarrow> ('z store_scheme, string list) eff" where
  "list_table_paths m paths loc =
     (case abfss_parse loc of
        None \<Rightarrow> ret []
      | Some parsed \<Rightarrow>
          or_on_error (mg_retry m (bindM (paths (table_key parsed)) (\<lambda>ps.
            ret (map fst (filter (\<lambda>p. \<not> snd p) ps))))) [])"

definition count_delta_log_files ::
    "manager \<Rightarrow> (table_key \<Rightarrow> ('z store_scheme, (string \<times> bool) list) eff) \<Rightarrow> string \<Rightarrow> ('z store_scheme, nat) eff" where
  "count_delta_log_files m paths loc =
     (case abfss_parse loc of
        None \<Rightarrow> ret 0
      | Some parsed \<Rightarrow>
          bindM (list_table_paths m paths loc) (\<lambda>ps.
            ret (length (filter (\<lambda>p. py_startswith p (table_root parsed @ ''/_delta_log/'') \<and> py_endswith p ''.json'') ps))))"

text \<open>\<open>re.search(r"event_year_date[^=]*=(\d+)", path)\<close>, its group.\<close>

fun event_year_date :: "string \<Rightarrow> string option" where
  "event_year_date [] = None"
| "event_year_date (c # s) =
     (let digits = takeWhile is_digit (drop 1 (dropWhile (\<lambda>x. x \<noteq> CHR ''='') (drop 15 (c # s))))
      in if py_startswith (c # s) ''event_year_date'' \<and> digits \<noteq> [] then Some digits else event_year_date s)"

record table_files =
  tf_parquet_count :: nat
  tf_partitions :: "string list"
  tf_error :: "string option"

definition describe_table_files ::
    "manager \<Rightarrow> (table_key \<Rightarrow> ('z store_scheme, (string \<times> bool) list) eff) \<Rightarrow> string \<Rightarrow> ('z store_scheme, table_files) eff" where
  "describe_table_files m paths loc =
     (case abfss_parse loc of
        None \<Rightarrow> ret \<lparr>tf_parquet_count = 0, tf_partitions = [], tf_error = Some (''Bad path: '' @ loc)\<rparr>
      | Some parsed \<Rightarrow>
          bindM (list_table_paths m paths loc) (\<lambda>ps.
            ret \<lparr>tf_parquet_count = length (filter (\<lambda>p. py_endswith p ''.parquet'') ps),
                 tf_partitions = sort (remdups (List.map_filter event_year_date ps)), tf_error = None\<rparr>))"

definition delta_log_exists :: "manager \<Rightarrow> string \<Rightarrow> ('z lake_scheme, bool) eff" where
  "delta_log_exists m loc =
     (case abfss_parse loc of
        None \<Rightarrow> ret False
      | Some parsed \<Rightarrow>
          or_on_error (mg_retry m (bindM (log_listing (table_key parsed)) (\<lambda>fs.
            ret (list_ex (\<lambda>f. py_endswith (fst f) ''.json'') fs)))) False)"

section \<open>Properties\<close>

text \<open>
  C24: a value stays inside its quotes: read as SQL reads it, the literal or identifier that the client
  builds from any text is that text again, and the rest of the query follows untouched, provided the
  rest does not go on with the same quote, which no query of the client does.
\<close>

theorem sql_quoting_contains_value:
  assumes "case rest of [] \<Rightarrow> True | c # _ \<Rightarrow> c \<noteq> CHR 0x27 \<and> c \<noteq> CHR 0x22"
  shows "read_quoted CHR 0x27 (sql_literal v @ CHR 0x27 # rest) = Some (v, rest) \<and>
    (case sql_identifier v @ rest of c # s \<Rightarrow> c = CHR 0x22 \<and> read_quoted CHR 0x22 s = Some (v, rest) | [] \<Rightarrow> False)"
  using assms read_quoted_replace [where rest = rest] by (auto simp: sql_literal_def sql_identifier_def split: list.splits)

theorem sql_quoting_contains_value_witness:
  "read_quoted CHR 0x27 (sql_literal (CHR ''a'' # CHR 0x27 # ''; DROP'') @ CHR 0x27 # '')'') = Some (CHR ''a'' # CHR 0x27 # ''; DROP'', '')'')"
  by (rule sql_quoting_contains_value [THEN conjunct1]) simp

end
