(* ===== verification/Schema_Evolution.thy ===== *)
theory Schema_Evolution
  imports Delta_Client "HOL-Library.Product_Lexorder"
begin

text \<open>
  Schema evolution: \<open>canonical_type\<close> and \<open>diff_schema_for_evolution\<close> (\<open>delta_lake.py\<close>), and
  \<open>compute_schema_evolution\<close> (\<open>impl.py\<close>). A declared column is a dict of strings; a schema is a dict from
  column names to DuckDB types, in order. The lemmas show which schemas are compatible, that an evolved
  table is compatible afterwards, and how the outcome depends on reading the table.
\<close>

section \<open>Types\<close>

definition canonical_types :: "(string \<times> string) list" where
  "canonical_types =
     [(''string'', ''STRING''), (''varchar'', ''STRING''), (''char'', ''STRING''), (''text'', ''STRING''),
      (''bool'', ''BOOL''), (''boolean'', ''BOOL''),
      (''sbyte'', ''INT8''), (''tinyint'', ''INT8''), (''int8'', ''INT8''),
      (''short'', ''INT16''), (''smallint'', ''INT16''), (''int16'', ''INT16''),
      (''int'', ''INT32''), (''integer'', ''INT32''), (''int32'', ''INT32''),
      (''long'', ''INT64''), (''bigint'', ''INT64''), (''int64'', ''INT64''),
      (''float'', ''FLOAT32''), (''real'', ''FLOAT32''), (''float4'', ''FLOAT32''),
      (''double'', ''FLOAT64''), (''float8'', ''FLOAT64''),
      (''datetime'', ''DATETIME''), (''date'', ''DATE''),
      (''byte[]'', ''BINARY''), (''binary'', ''BINARY''), (''varbinary'', ''BINARY''), (''blob'', ''BINARY''), (''bytea'', ''BINARY'')]"

definition canonical_type :: "string \<Rightarrow> string option" where
  "canonical_type raw =
     (if raw = [] then None
      else
        let base = py_lower (py_strip (rstrip_if (\<lambda>c. c = CHR ''?'') (py_strip raw))) in
        if py_startswith base ''timestamp'' then Some ''DATETIME''
        else if py_startswith base ''decimal'' \<or> py_startswith base ''numeric'' then Some ''DECIMAL''
        else map_of canonical_types
          (if CHR ''('' \<in> set base then py_strip (before_first CHR ''('' base) else base))"

section \<open>diff\_schema\_for\_evolution\<close>

type_synonym dbt_column = "(string \<times> string) list"

definition column_entry :: "dbt_column \<Rightarrow> string \<Rightarrow> pyexn + string" where
  "column_entry c k = (case map_of c k of None \<Rightarrow> Inl (PyExn KeyErr k) | Some s \<Rightarrow> Inr s)"

definition ljust :: "nat \<Rightarrow> string \<Rightarrow> string" where
  "ljust n s = s @ replicate (n - length s) CHR '' ''"

definition newline :: string where
  "newline = [CHR 0x0A]"

definition format_schema :: "(string \<times> string) list \<Rightarrow> string" where
  "format_schema columns =
     (if columns = [] then ''    (empty)''
      else
        let width = Max (length ` fst ` set columns)
        in py_join newline (map (\<lambda>(n, t). ''    '' @ ljust width n @ ''  '' @ t) columns))"

definition type_clash :: "string \<Rightarrow> string \<Rightarrow> bool" where
  "type_clash declared existing \<longleftrightarrow>
     canonical_type declared \<noteq> None \<and> canonical_type existing \<noteq> None \<and> canonical_type declared \<noteq> canonical_type existing"

definition mismatch_line :: "string \<Rightarrow> string \<Rightarrow> string \<Rightarrow> string" where
  "mismatch_line n declared existing =
     ''    '' @ n @ '': model declares '' @ squoted declared @ '' but the Delta table has '' @ squoted existing"

text \<open>The loop over \<open>dbt_by_lower\<close>: the columns to add and the lines of the type mismatches.\<close>

fun diff_columns ::
    "string list \<Rightarrow> (string \<times> string \<times> string) list \<Rightarrow> (string \<times> dbt_column) list \<Rightarrow> pyexn + dbt_column list \<times> string list" where
  "diff_columns ignore existing [] = Inr ([], [])"
| "diff_columns ignore existing ((lower, col) # cs) =
     (if lower \<in> set ignore then diff_columns ignore existing cs
      else case map_of existing lower of
        None \<Rightarrow> bindE (diff_columns ignore existing cs) (\<lambda>(to_add, ms). Inr (col # to_add, ms))
      | Some (_, existing_type) \<Rightarrow>
          bindE (column_entry col ''type'') (\<lambda>declared.
          bindE (if type_clash declared existing_type
                 then bindE (column_entry col ''name'') (\<lambda>n. Inr [mismatch_line n declared existing_type])
                 else Inr []) (\<lambda>line.
          bindE (diff_columns ignore existing cs) (\<lambda>(to_add, ms). Inr (to_add, line @ ms)))))"

definition by_lower :: "(string \<times> string) list \<Rightarrow> (string \<times> string \<times> string) list" where
  "by_lower schema = fold (\<lambda>(n, t) m. assoc_put (py_lower n) (n, t) m) schema []"

definition dbt_by_lower :: "dbt_column list \<Rightarrow> pyexn + (string \<times> dbt_column) list" where
  "dbt_by_lower cs =
     bindE (mapE (\<lambda>c. column_entry c ''name'') cs) (\<lambda>names.
       Inr (fold (\<lambda>(n, c) m. assoc_put (py_lower n) c m) (zip names cs) []))"

definition incompatible_schema ::
    "string \<Rightarrow> (string \<times> string) list \<Rightarrow> (string \<times> string) list \<Rightarrow> string list \<Rightarrow> string list \<Rightarrow> pyexn" where
  "incompatible_schema loc declared existing missing mismatches =
     PyExn DbtRuntimeError
       (''Delta table schema at '' @ squoted loc @ '' is incompatible with the dbt model.'' @ newline @ newline @
        ''Model delta_table_columns:'' @ newline @ format_schema declared @ newline @ newline @
        ''Existing Delta table schema:'' @ newline @ format_schema (sort existing) @ newline @ newline @
        py_join (newline @ newline)
          ((if missing = [] then [] else
             [''Columns present in the Delta table but MISSING from the model (dbt-scope does not drop columns):'' @
              newline @ ''    '' @ py_join '', '' (sort missing)]) @
           (if mismatches = [] then [] else
             [''Columns whose type changed (dbt-scope cannot evolve column types):'' @ newline @ py_join newline mismatches])) @
        newline @ newline @
        ''Fix your dbt model'' @ CHR 0x27 # ''s delta_table_columns to match the Delta table (re-add the missing columns and/or revert the changed types), or migrate the table out of band. Only ADDING new columns is supported automatically.'')"

lemma incompatible_schema_class: "exn_class (incompatible_schema loc declared existing missing mismatches) = DbtRuntimeError"
  unfolding incompatible_schema_def by (rule pyexn.sel(1))

definition diff_schema_for_evolution ::
    "dbt_column list \<Rightarrow> (string \<times> string) list \<Rightarrow> string list \<Rightarrow> string \<Rightarrow> pyexn + dbt_column list" where
  "diff_schema_for_evolution dbt_columns existing_schema partition_columns loc =
     (let ignore = map py_lower partition_columns; existing = by_lower existing_schema in
      bindE (dbt_by_lower dbt_columns) (\<lambda>dbt.
      bindE (diff_columns ignore existing dbt) (\<lambda>(to_add, mismatches).
        let missing = map (\<lambda>e. fst (snd e)) (filter (\<lambda>(lower, _). lower \<notin> fst ` set dbt \<and> lower \<notin> set ignore) existing) in
        if missing \<noteq> [] \<or> mismatches \<noteq> [] then
          bindE (mapE (\<lambda>c. bindE (column_entry c ''name'') (\<lambda>n. bindE (column_entry c ''type'') (\<lambda>t. Inr (n, t)))) dbt_columns)
            (\<lambda>declared. Inl (incompatible_schema loc declared existing_schema missing mismatches))
        else Inr to_add)))"

section \<open>compute\_schema\_evolution\<close>

datatype partition_spec = NoPartition | PartitionColumn string | PartitionColumns "string list"

fun partition_columns :: "partition_spec \<Rightarrow> string list" where
  "partition_columns NoPartition = []"
| "partition_columns (PartitionColumn c) = [c]"
| "partition_columns (PartitionColumns cs) = cs"

definition unreadable_schema :: "string \<Rightarrow> pyexn" where
  "unreadable_schema loc =
     PyExn DbtRuntimeError
       (''Delta table at '' @ squoted loc @ '' has a _delta_log but its schema could not be read for schema-evolution checks. '' @
        ''Verify the table is a valid Delta table and that credentials can read it.'')"

definition compute_schema_evolution ::
    "manager \<Rightarrow> ('z lake_scheme) duckdb \<Rightarrow> string \<Rightarrow> dbt_column list \<Rightarrow> partition_spec \<Rightarrow> ('z lake_scheme, dbt_column list) eff" where
  "compute_schema_evolution m dk loc delta_table_columns partition_by =
     (if loc = [] \<or> delta_table_columns = [] then ret []
      else
        bindM (delta_log_exists m loc) (\<lambda>is_table.
          if \<not> is_table then ret []
          else
            bindM (get_schema dk loc) (\<lambda>schema.
              case schema of
                None \<Rightarrow> raise (unreadable_schema loc)
              | Some existing \<Rightarrow>
                  liftE (diff_schema_for_evolution delta_table_columns existing (partition_columns partition_by) loc))))"

section \<open>Which schemas are compatible\<close>

definition column_name :: "dbt_column \<Rightarrow> string" where
  "column_name c = (case column_entry c ''name'' of Inl _ \<Rightarrow> [] | Inr n \<Rightarrow> n)"

definition column_type :: "dbt_column \<Rightarrow> string" where
  "column_type c = (case column_entry c ''type'' of Inl _ \<Rightarrow> [] | Inr t \<Rightarrow> t)"

definition lower_name :: "dbt_column \<Rightarrow> string" where
  "lower_name c = py_lower (column_name c)"

text \<open>Declared columns with a name and a type each, no two with the same name up to case.\<close>

definition columns_ok :: "dbt_column list \<Rightarrow> bool" where
  "columns_ok cs \<longleftrightarrow> list_all (\<lambda>c. map_of c ''name'' \<noteq> None \<and> map_of c ''type'' \<noteq> None) cs \<and> distinct (map lower_name cs)"

definition schema_ok :: "(string \<times> string) list \<Rightarrow> bool" where
  "schema_ok schema \<longleftrightarrow> distinct (map (\<lambda>e. py_lower (fst e)) schema)"

lemma columns_okD:
  assumes "columns_ok cs"
  shows "distinct (map lower_name cs)" and "c \<in> set cs \<Longrightarrow> column_entry c ''name'' = Inr (column_name c)"
    and "c \<in> set cs \<Longrightarrow> column_entry c ''type'' = Inr (column_type c)"
  using assms
  by (auto simp: columns_ok_def list_all_iff column_name_def column_type_def column_entry_def split: option.split)

lemma assoc_put_fresh: "k \<notin> fst ` set m \<Longrightarrow> assoc_put k v m = m @ [(k, v)]"
  by (induction k v m rule: assoc_put.induct) auto

lemma fold_assoc_put:
  "distinct (map k xs) \<Longrightarrow> (\<forall>x \<in> set xs. k x \<notin> fst ` set m) \<Longrightarrow>
    fold (\<lambda>x m. assoc_put (k x) (v x) m) xs m = m @ map (\<lambda>x. (k x, v x)) xs"
proof (induction xs arbitrary: m)
  case (Cons x xs)
  then have "\<forall>y \<in> set xs. k y \<notin> fst ` set (m @ [(k x, v x)])" by (auto simp: image_iff)
  then show ?case using Cons by (simp add: assoc_put_fresh)
qed simp

lemma by_lower_eq: "schema_ok schema \<Longrightarrow> by_lower schema = map (\<lambda>e. (py_lower (fst e), e)) schema"
  using fold_assoc_put [of "\<lambda>e. py_lower (fst e)" schema "[]" "\<lambda>e. e"]
  by (simp add: by_lower_def schema_ok_def case_prod_unfold)

lemma dbt_by_lower_eq:
  assumes "columns_ok cs"
  shows "dbt_by_lower cs = Inr (map (\<lambda>c. (lower_name c, c)) cs)"
proof -
  have "mapE (\<lambda>c. column_entry c ''name'') cs = Inr (map column_name cs)"
    by (intro mapE_all_Inr columns_okD(2) [OF assms])
  moreover have "fold (\<lambda>(n, c) m. assoc_put (py_lower n) c m) (zip (map column_name cs) cs) m =
      fold (\<lambda>c m. assoc_put (lower_name c) c m) cs m" for m
    by (induction cs arbitrary: m) (simp_all add: lower_name_def)
  ultimately show ?thesis
    using fold_assoc_put [of lower_name cs "[]" "\<lambda>c. c"] columns_okD(1) [OF assms] by (simp add: dbt_by_lower_def)
qed

definition no_clash :: "string list \<Rightarrow> (string \<times> string \<times> string) list \<Rightarrow> dbt_column \<Rightarrow> bool" where
  "no_clash ignore existing c \<longleftrightarrow> lower_name c \<in> set ignore \<or>
     (case map_of existing (lower_name c) of None \<Rightarrow> True | Some (_, t) \<Rightarrow> \<not> type_clash (column_type c) t)"

lemma diff_columns_eq:
  assumes "\<And>c. c \<in> set cs \<Longrightarrow> column_entry c ''name'' = Inr (column_name c) \<and> column_entry c ''type'' = Inr (column_type c)"
  shows "\<exists>ms. diff_columns ignore existing (map (\<lambda>c. (lower_name c, c)) cs) =
      Inr (filter (\<lambda>c. lower_name c \<notin> set ignore \<and> map_of existing (lower_name c) = None) cs, ms) \<and>
    (ms = [] \<longleftrightarrow> (\<forall>c \<in> set cs. no_clash ignore existing c))"
  using assms
proof (induction cs)
  case (Cons c cs)
  then obtain ms where "diff_columns ignore existing (map (\<lambda>c. (lower_name c, c)) cs) =
      Inr (filter (\<lambda>c. lower_name c \<notin> set ignore \<and> map_of existing (lower_name c) = None) cs, ms)"
    "ms = [] \<longleftrightarrow> (\<forall>c \<in> set cs. no_clash ignore existing c)"
    by auto
  moreover have "(\<exists>n t. map_of existing (lower_name c) = Some (n, t)) \<or> map_of existing (lower_name c) = None"
    by (cases "map_of existing (lower_name c)") auto
  ultimately show ?case
    using Cons.prems [of c]
    by (cases "\<exists>n t. map_of existing (lower_name c) = Some (n, t) \<and> type_clash (column_type c) t")
       (auto simp: no_clash_def [of _ _ c])
qed simp

text \<open>Every column of the table outside the partition is declared, with a type that does not clash.\<close>

definition compatible :: "string list \<Rightarrow> dbt_column list \<Rightarrow> (string \<times> string) list \<Rightarrow> bool" where
  "compatible ignore cs schema \<longleftrightarrow>
     (\<forall>(n, t) \<in> set schema. py_lower n \<in> set ignore \<or> (\<exists>c \<in> set cs. lower_name c = py_lower n \<and> \<not> type_clash (column_type c) t))"

lemma map_of_lowered:
  "schema_ok schema \<Longrightarrow>
    map_of (map (\<lambda>e. (py_lower (fst e), e)) schema) l = Some e \<longleftrightarrow> e \<in> set schema \<and> py_lower (fst e) = l"
  unfolding schema_ok_def by (induction schema) (auto simp: image_iff)

lemma map_of_lowered_None:
  "map_of (map (\<lambda>e. (py_lower (fst e), e)) schema) l = None \<longleftrightarrow> l \<notin> (\<lambda>e. py_lower (fst e)) ` set schema"
  by (auto simp: map_of_eq_None_iff image_image)

definition new_columns :: "string list \<Rightarrow> dbt_column list \<Rightarrow> (string \<times> string) list \<Rightarrow> dbt_column list" where
  "new_columns ignore cs schema =
     filter (\<lambda>c. lower_name c \<notin> set ignore \<and> lower_name c \<notin> (\<lambda>e. py_lower (fst e)) ` set schema) cs"

lemma diff_schema_cases:
  assumes "columns_ok cs" and "schema_ok schema"
  shows "case diff_schema_for_evolution cs schema ps loc of
      Inr to_add \<Rightarrow> compatible (map py_lower ps) cs schema \<and> to_add = new_columns (map py_lower ps) cs schema
    | Inl x \<Rightarrow> \<not> compatible (map py_lower ps) cs schema \<and> exn_class x = DbtRuntimeError"
proof -
  let ?ig = "map py_lower ps" and ?ex = "map (\<lambda>e. (py_lower (fst e), e)) schema" and ?dbt = "map (\<lambda>c. (lower_name c, c)) cs"
  obtain ms where d: "diff_columns ?ig ?ex ?dbt = Inr (new_columns ?ig cs schema, ms)"
    and ms: "ms = [] \<longleftrightarrow> (\<forall>c \<in> set cs. no_clash ?ig ?ex c)"
    using diff_columns_eq [of cs ?ig ?ex] columns_okD(2,3) [OF assms(1)]
    unfolding new_columns_def map_of_lowered_None by blast
  let ?missing = "map (\<lambda>e. fst (snd e)) (filter (\<lambda>(lower, _). lower \<notin> fst ` set ?dbt \<and> lower \<notin> set ?ig) ?ex)"
  have declared: "mapE (\<lambda>c. bindE (column_entry c ''name'') (\<lambda>n. bindE (column_entry c ''type'') (\<lambda>t. Inr (n, t)))) cs =
      Inr (map (\<lambda>c. (column_name c, column_type c)) cs)"
    by (intro mapE_all_Inr) (simp add: columns_okD(2,3) [OF assms(1)])
  have missing: "?missing = [] \<longleftrightarrow> (\<forall>e \<in> set schema. py_lower (fst e) \<in> set ?ig \<or> (\<exists>c \<in> set cs. lower_name c = py_lower (fst e)))"
    by (force simp: filter_empty_conv image_iff)
  have "?missing = [] \<and> ms = [] \<longleftrightarrow> compatible ?ig cs schema"
  proof
    assume l: "?missing = [] \<and> ms = []"
    show "compatible ?ig cs schema"
      unfolding compatible_def
    proof (clarify)
      fix n t
      assume e: "(n, t) \<in> set schema" and "\<not> (\<exists>c \<in> set cs. lower_name c = py_lower n \<and> \<not> type_clash (column_type c) t)"
      then show "py_lower n \<in> set ?ig"
        using l missing ms map_of_lowered [OF assms(2), of "py_lower n" "(n, t)"] by (fastforce simp: no_clash_def)
    qed
  next
    assume r: "compatible ?ig cs schema"
    have same: "c = c'" if "c \<in> set cs" "c' \<in> set cs" "lower_name c = lower_name c'" for c c'
      using columns_okD(1) [OF assms(1)] that by (metis distinct_map inj_onD)
    have "?missing = []" unfolding missing using r by (fastforce simp: compatible_def)
    moreover have "no_clash ?ig ?ex c" if "c \<in> set cs" for c
    proof (cases "map_of ?ex (lower_name c)")
      case (Some e)
      then obtain n t where e: "e = (n, t)" "(n, t) \<in> set schema" "py_lower n = lower_name c"
        using map_of_lowered [OF assms(2), of "lower_name c" e] by (cases e) auto
      then have "lower_name c \<in> set ?ig \<or> (\<exists>c' \<in> set cs. lower_name c' = lower_name c \<and> \<not> type_clash (column_type c') t)"
        using bspec [OF r [unfolded compatible_def] e(2)] by simp
      then show ?thesis using same [OF _ that] Some e(1) unfolding no_clash_def by auto
    qed (simp add: no_clash_def)
    moreover from this have "ms = []" unfolding ms by blast
    ultimately show "?missing = [] \<and> ms = []" by blast
  qed
  moreover have "diff_schema_for_evolution cs schema ps loc =
      (if ?missing = [] \<and> ms = [] then Inr (new_columns ?ig cs schema)
       else Inl (incompatible_schema loc (map (\<lambda>c. (column_name c, column_type c)) cs) schema ?missing ms))"
    unfolding diff_schema_for_evolution_def Let_def by_lower_eq [OF assms(2)] dbt_by_lower_eq [OF assms(1)] bindE_Inr d declared
    by simp
  ultimately show ?thesis
    using incompatible_schema_class by (cases "compatible ?ig cs schema") simp_all
qed

lemma schema_after_adding:
  assumes "columns_ok cs" and "schema_ok schema" and "\<forall>c \<in> set cs. \<not> type_clash (column_type c) (sql_type c)"
    and "compatible ignore cs schema"
  defines "added \<equiv> schema @ map (\<lambda>c. (column_name c, sql_type c)) (new_columns ignore cs schema)"
  shows "schema_ok added" and "compatible ignore cs added" and "new_columns ignore cs added = []"
proof -
  let ?new = "new_columns ignore cs schema"
  have lower: "map (\<lambda>e. py_lower (fst e)) added = map (\<lambda>e. py_lower (fst e)) schema @ map lower_name ?new"
    by (simp add: added_def lower_name_def)
  have "distinct (map lower_name ?new)"
    unfolding new_columns_def using columns_okD(1) [OF assms(1)] by (rule distinct_map_filter)
  moreover have "set (map lower_name ?new) \<inter> set (map (\<lambda>e. py_lower (fst e)) schema) = {}"
    by (auto simp: new_columns_def)
  ultimately show "schema_ok added" using assms(2) unfolding schema_ok_def lower distinct_append by blast
  have new: "set ?new \<subseteq> set cs" by (auto simp: new_columns_def)
  have "py_lower n \<in> set ignore \<or> (\<exists>c \<in> set cs. lower_name c = py_lower n \<and> \<not> type_clash (column_type c) t)"
    if e: "(n, t) \<in> set added" for n t
  proof (cases "(n, t) \<in> set schema")
    case True
    then show ?thesis using bspec [OF assms(4) [unfolded compatible_def]] by auto
  next
    case False
    then obtain c where "c \<in> set ?new" "n = column_name c" "t = sql_type c" using e by (auto simp: added_def)
    then show ?thesis using new assms(3) by (auto simp: lower_name_def)
  qed
  then show "compatible ignore cs added" unfolding compatible_def by blast
  have "(\<lambda>e. py_lower (fst e)) ` set added = set (map (\<lambda>e. py_lower (fst e)) schema @ map lower_name ?new)"
    unfolding lower [symmetric] by simp
  then show "new_columns ignore cs added = []"
    unfolding new_columns_def [of _ _ added] by (auto simp: filter_empty_conv new_columns_def)
qed

section \<open>Properties\<close>

text \<open>
  C20: \<open>diff_schema_for_evolution\<close> accepts a schema exactly when every column of the table outside the
  partition is declared, up to case, with a type that does not contradict it; then it returns exactly the
  declared columns that the table lacks, in their order and without the partition columns. Any other
  schema is refused with \<open>DbtRuntimeError\<close>. Declared columns carry a name and a type and differ up to case.
\<close>

theorem schema_diff_exact:
  assumes "columns_ok cs" and "schema_ok schema"
  shows "case diff_schema_for_evolution cs schema ps loc of
      Inr to_add \<Rightarrow> compatible (map py_lower ps) cs schema \<and> to_add = new_columns (map py_lower ps) cs schema
    | Inl x \<Rightarrow> \<not> compatible (map py_lower ps) cs schema \<and> exn_class x = DbtRuntimeError"
  using assms by (rule diff_schema_cases)

definition sample_column :: "string \<Rightarrow> string \<Rightarrow> dbt_column" where
  "sample_column n t = [(''name'', n), (''type'', t)]"

lemma sample_columns_ok: "columns_ok [sample_column ''Id'' ''long'', sample_column ''day'' ''string?'']"
  by (simp add: columns_ok_def sample_column_def lower_name_def column_name_def column_entry_def py_lower_def
      lower_char_def is_upper_def)

theorem schema_diff_exact_witness:
  "\<exists>x. diff_schema_for_evolution [sample_column ''Id'' ''long'', sample_column ''day'' ''string?''] [(''id'', ''INTEGER'')] [] ''t'' = Inl x \<and>
    exn_class x = DbtRuntimeError"
proof -
  let ?cs = "[sample_column ''Id'' ''long'', sample_column ''day'' ''string?'']"
  have "\<not> compatible (map py_lower []) ?cs [(''id'', ''INTEGER'')]"
    by code_simp
  moreover have "schema_ok [(''id'', ''INTEGER'')]" by (simp add: schema_ok_def)
  ultimately show ?thesis
    using schema_diff_exact [OF sample_columns_ok, of "[(''id'', ''INTEGER'')]" "[]" "''t''"]
    by (cases "diff_schema_for_evolution ?cs [(''id'', ''INTEGER'')] [] ''t''") auto
qed

text \<open>
  C21: schema evolution settles. Once the columns that \<open>diff_schema_for_evolution\<close> returned have been added
  to the table, under types that do not contradict the declared ones, the next run of the same model
  finds the schema compatible and adds nothing.
\<close>

theorem schema_evolution_settles:
  assumes "columns_ok cs" and "schema_ok schema" and "\<forall>c \<in> set cs. \<not> type_clash (column_type c) (sql_type c)"
    and "diff_schema_for_evolution cs schema ps loc = Inr to_add"
  shows "diff_schema_for_evolution cs (schema @ map (\<lambda>c. (column_name c, sql_type c)) to_add) ps loc = Inr []"
proof -
  have "compatible (map py_lower ps) cs schema" and new: "to_add = new_columns (map py_lower ps) cs schema"
    using diff_schema_cases [OF assms(1,2), of ps loc] assms(4) by auto
  note A = schema_after_adding [OF assms(1-3) this(1), folded new]
  show ?thesis
    using diff_schema_cases [OF assms(1) A(1), of ps loc] A(2,3)
    by (cases "diff_schema_for_evolution cs (schema @ map (\<lambda>c. (column_name c, sql_type c)) to_add) ps loc") auto
qed

theorem schema_evolution_settles_witness:
  "diff_schema_for_evolution [sample_column ''Id'' ''long'', sample_column ''day'' ''string?'']
     ([(''id'', ''BIGINT'')] @ map (\<lambda>c. (column_name c, ''VARCHAR'')) [sample_column ''day'' ''string?'']) [] ''t'' = Inr []"
proof -
  let ?cs = "[sample_column ''Id'' ''long'', sample_column ''day'' ''string?'']"
  let ?types = "\<lambda>c. if column_name c = ''Id'' then ''BIGINT'' else ''VARCHAR''"
  have "schema_ok [(''id'', ''BIGINT'')]" by (simp add: schema_ok_def)
  moreover have "\<forall>c \<in> set ?cs. \<not> type_clash (column_type c) (?types c)" by code_simp
  moreover have "diff_schema_for_evolution ?cs [(''id'', ''BIGINT'')] [] ''t'' = Inr [sample_column ''day'' ''string?'']" by code_simp
  ultimately have "diff_schema_for_evolution ?cs
      ([(''id'', ''BIGINT'')] @ map (\<lambda>c. (column_name c, ?types c)) [sample_column ''day'' ''string?'']) [] ''t'' = Inr []"
    by (rule schema_evolution_settles [OF sample_columns_ok])
  moreover have "column_name (sample_column ''day'' ''string?'') = ''day''" by code_simp
  ultimately show ?thesis by simp
qed

text \<open>
  C22: \<open>compute_schema_evolution\<close> takes a table whose log cannot be listed for a new one. When the listing
  fails with any error besides a missing credential, it returns no columns and no error, whatever the
  schema of the table is: the check that protects an existing table from an incompatible model is skipped.
\<close>

theorem failed_listing_skips_schema_check:
  assumes "abfss_parse loc = Some l" and "st_faults w = FailBefore x # fs" and "\<not> retry_enabled (mg_policy m)"
    and "exn_class (outage_exn x) \<notin> {CredentialUnavailableError, ProcessKilled}"
  shows "fst (compute_schema_evolution m dk loc cs partition_by w) = Inr []"
proof -
  have "mg_retry m (bindM (log_listing (table_key l)) (\<lambda>fs. ret (list_ex (\<lambda>f. py_endswith (fst f) ''.json'') fs))) w =
      (Inl (outage_exn x), w\<lparr>st_faults := fs\<rparr>)"
    using assms(2,3) by (simp add: mg_retry_def retry_on_message_def log_listing_def storage_call_def run_bindM)
  then have "delta_log_exists m loc w = (Inr False, w\<lparr>st_faults := fs\<rparr>)"
    using assms(1,4) by (simp add: delta_log_exists_def or_on_error_def run_tryM run_ret)
  then show ?thesis by (simp add: compute_schema_evolution_def run_bindM run_ret)
qed

definition integer_table :: "lake duckdb" where
  "integer_table = \<lparr>dk_open = ret (), dk_execute = (\<lambda>_. ret ()), dk_token = ret ''t'', dk_fetchall = (\<lambda>_. ret []),
     dk_description = (\<lambda>_. ret [(''id'', ''INTEGER'')]), dk_close = ret ()\<rparr>"

definition one_commit :: lake where
  "one_commit = sample_lake [(commit_name 0, CommitFile [] None)]"

lemma changed_type_refused:
  "case fst (compute_schema_evolution sample_manager integer_table sample_loc [sample_column ''id'' ''long''] NoPartition one_commit) of
     Inl x \<Rightarrow> exn_class x = DbtRuntimeError | Inr _ \<Rightarrow> False"
proof -
  have "delta_log_exists sample_manager sample_loc one_commit = (Inr True, one_commit)"
    by (simp add: delta_log_exists_def parse_sample_loc or_on_error_def run_tryM mg_retry_def retry_on_message_def sample_manager_def
        retry_enabled_def disabled_policy_def log_listing_def storage_call_def run_bindM run_ret one_commit_def sample_lake_def
        py_endswith_def commit_name_def suffix_def)
  moreover have "get_schema integer_table sample_loc one_commit = (Inr (Some [(''id'', ''INTEGER'')]), one_commit)"
    by (simp add: get_schema_def describe_def with_connection_def integer_table_def or_on_error_def run_tryM run_bindM run_thenM run_ret
        finallyM_def)
  moreover have "case diff_schema_for_evolution [sample_column ''id'' ''long''] [(''id'', ''INTEGER'')] [] sample_loc of
      Inl x \<Rightarrow> exn_class x = DbtRuntimeError | Inr _ \<Rightarrow> False" by code_simp
  moreover have "sample_loc \<noteq> []" by code_simp
  ultimately show ?thesis by (simp add: compute_schema_evolution_def run_bindM run_liftE)
qed

theorem failed_listing_skips_schema_check_witness:
  "fst (compute_schema_evolution sample_manager integer_table sample_loc [sample_column ''id'' ''long''] NoPartition
     (one_commit\<lparr>st_faults := [FailBefore (ServiceError ''503'')]\<rparr>)) = Inr [] \<and>
   (case fst (compute_schema_evolution sample_manager integer_table sample_loc [sample_column ''id'' ''long''] NoPartition one_commit) of
     Inl x \<Rightarrow> exn_class x = DbtRuntimeError | Inr _ \<Rightarrow> False)"
proof
  show "fst (compute_schema_evolution sample_manager integer_table sample_loc [sample_column ''id'' ''long''] NoPartition
     (one_commit\<lparr>st_faults := [FailBefore (ServiceError ''503'')]\<rparr>)) = Inr []"
    by (rule failed_listing_skips_schema_check [OF parse_sample_loc, where x = "ServiceError ''503''" and fs = "[]"])
       (simp_all add: sample_manager_def retry_enabled_def disabled_policy_def)
qed (rule changed_type_refused)

end
