(* ===== verification/Script_Builder.thy ===== *)
theory Script_Builder
  imports Schema_Evolution Credentials
begin

text \<open>
  \<open>script_builder.py\<close>: the SCOPE scripts that \<open>ScriptBuilder\<close> assembles, and \<open>ScopeAdapter.build_script_config\<close>.
  A script is text, built line for line as in the code, the \<open>textwrap.dedent\<close> of its template blocks
  included. The lemmas show when a script is refused, that the batch token reaches the table properties,
  and that the \<open>EXTRACT\<close> statement names exactly the source files.
\<close>

section \<open>textwrap.dedent\<close>

fun split_lines :: "string \<Rightarrow> string list" where
  "split_lines [] = [[]]"
| "split_lines (c # s) =
     (if c = CHR 0x0A then [] # split_lines s
      else case split_lines s of l # ls \<Rightarrow> (c # l) # ls | [] \<Rightarrow> [[c]])"

definition join_lines :: "string list \<Rightarrow> string" where
  "join_lines ls = py_join newline ls"

definition is_blank :: "char \<Rightarrow> bool" where
  "is_blank c \<longleftrightarrow> c = CHR '' '' \<or> c = CHR 0x09"

definition indent_of :: "string \<Rightarrow> string" where
  "indent_of l = takeWhile is_blank l"

fun common_prefix :: "string \<Rightarrow> string \<Rightarrow> string" where
  "common_prefix (a # s) (b # t) = (if a = b then a # common_prefix s t else [])"
| "common_prefix _ _ = []"

text \<open>The common indentation of the lines that hold more than blanks.\<close>

fun margin_of :: "string list \<Rightarrow> string option" where
  "margin_of [] = None"
| "margin_of (l # ls) =
     (if list_all is_blank l then margin_of ls
      else Some (case margin_of ls of None \<Rightarrow> indent_of l | Some m \<Rightarrow> common_prefix (indent_of l) m))"

definition drop_margin :: "string \<Rightarrow> string \<Rightarrow> string" where
  "drop_margin m l = (if list_all is_blank l then [] else if prefix m l then drop (length m) l else l)"

definition dedent_lines :: "string list \<Rightarrow> string list" where
  "dedent_lines ls = map (drop_margin (case margin_of ls of None \<Rightarrow> [] | Some m \<Rightarrow> m)) ls"

definition dedent :: "string \<Rightarrow> string" where
  "dedent text = join_lines (dedent_lines (split_lines text))"

section \<open>Configuration\<close>

record column_def =
  cd_name :: string
  cd_type :: string

definition render_column :: "column_def \<Rightarrow> string" where
  "render_column c = ''    '' @ cd_name c @ '' '' @ cd_type c"

record script_config =
  sc_delta_location :: string
  sc_storage_account :: string
  sc_container :: string
  sc_delta_base_path :: string
  sc_table_name :: string
  sc_partition_by :: partition_spec
  sc_source_roots :: "string list"
  sc_source_patterns :: "string list"
  sc_max_files_per_trigger :: int
  sc_max_bytes_per_trigger :: int
  sc_safety_buffer_seconds :: int
  sc_adls_gen1_account :: string
  sc_source_files :: "string list"
  sc_scope_settings :: "(string \<times> json) list"
  sc_batch_token :: "string option"
  sc_feature_previews :: string
  sc_au :: int
  sc_priority :: int
  sc_commit_condition :: string
  sc_max_file_count :: json
  sc_delta_columns :: "column_def list"
  sc_extract_columns :: "column_def list"

definition resolved_delta_location :: "script_config \<Rightarrow> string" where
  "resolved_delta_location c =
     (if sc_delta_location c \<noteq> [] then sc_delta_location c
      else ''abfss://'' @ sc_container c @ ''@'' @ sc_storage_account c @ ''.dfs.core.windows.net/'' @
           sc_delta_base_path c @ ''/'' @ sc_table_name c)"

section \<open>Parts of a script\<close>

definition dquoted :: "string \<Rightarrow> string" where
  "dquoted s = CHR 0x22 # s @ [CHR 0x22]"

abbreviation sp :: "nat \<Rightarrow> string" where
  "sp n \<equiv> replicate n CHR '' ''"

definition header_comment :: "string \<Rightarrow> string \<Rightarrow> string" where
  "header_comment strategy table_name = dedent (join_lines
     [sp 8 @ ''// '' @ replicate 60 CHR ''='', sp 8 @ ''// Generated by dbt-scope adapter'',
      sp 8 @ ''// Model: '' @ table_name, sp 8 @ ''// Strategy: '' @ strategy,
      sp 8 @ ''// '' @ replicate 60 CHR ''='', sp 4])"

definition set_feature_previews :: "string \<Rightarrow> string" where
  "set_feature_previews previews = ''SET @@FeaturePreviews = '' @ dquoted previews @ '';'' @ newline"

definition valid_commit_conditions :: "string list" where
  "valid_commit_conditions = [''FailIfConflict'', ''FailIfFileConflict'', ''FailIfPartitionConflict'']"

definition set_commit_condition :: "string \<Rightarrow> pyexn + string" where
  "set_commit_condition condition =
     (if condition \<notin> set valid_commit_conditions
      then Inl (PyExn DbtRuntimeError (''Invalid delta_lake_commit_condition '' @ squoted condition @ ''. Valid values: '' @
             jrepr (JList (map JStr valid_commit_conditions))))
      else Inr (''SET @@DeltaLakeCommitCondition = '' @ dquoted condition @ '';'' @ newline))"

definition set_max_file_count :: "json \<Rightarrow> pyexn + string" where
  "set_max_file_count v =
     (case v of
        JInt i \<Rightarrow>
          if i < 1 \<or> 1000000 < i
          then Inl (PyExn DbtRuntimeError (''Invalid max_file_count_per_output_file_set '' @ squoted (show_int i) @
                 '': must be in [1, 1000000].''))
          else Inr (''SET @@MaxFileCountPerOutputFileSet = '' @ show_int i @ '';'' @ newline)
      | _ \<Rightarrow> Inl (PyExn DbtRuntimeError (''Invalid max_file_count_per_output_file_set '' @ squoted (jrepr v) @ '': must be an int.'')))"

definition declare_paths :: "string \<Rightarrow> string" where
  "declare_paths loc = ''#DECLARE @deltaPath string = '' @ dquoted loc @ '';'' @ newline"

definition create_table :: "column_def list \<Rightarrow> partition_spec \<Rightarrow> string \<Rightarrow> string" where
  "create_table columns partition_by location_var =
     join_lines
       ([''CREATE TABLE IF NOT EXISTS @target ('', py_join ('','' @ newline) (map render_column columns), '')''] @
        (if partition_columns partition_by = [] then []
         else [''PARTITIONED BY ('' @ py_join '', '' (partition_columns partition_by) @ '')'']) @
        [''LOCATION '' @ location_var, ''OPTIONS (LAYOUT = DELTA);'' @ newline])"

definition table_properties :: "script_config \<Rightarrow> (string \<times> json) list" where
  "table_properties c =
     (let properties = sc_scope_settings c
      in case sc_batch_token c of
           Some (d # t) \<Rightarrow> assoc_put batch_token_property (JStr (d # t)) properties
         | _ \<Rightarrow> properties)"

definition quote_prop_value :: "json \<Rightarrow> string" where
  "quote_prop_value v = (case v of JStr s \<Rightarrow> dquoted s | _ \<Rightarrow> jstr v)"

definition alter_table_properties :: "(string \<times> json) list \<Rightarrow> string" where
  "alter_table_properties settings =
     ''ALTER TABLE @target SET TBLPROPERTIES ('' @ newline @ sp 4 @
     py_join ('','' @ newline @ sp 4) (map (\<lambda>(k, v). dquoted k @ '' = '' @ quote_prop_value v) settings) @ newline @ '');'' @ newline"

definition delete_all_rows :: string where
  "delete_all_rows = dedent (join_lines
     [sp 8 @ ''DECLARE TABLE @target_rw'', sp 8 @ ''LOCATION @deltaPath'', sp 8 @ ''OPTIONS (LAYOUT = DELTA);'', [],
      sp 8 @ ''DELETE FROM @target_rw WHERE true;'', sp 4])"

definition virtual_columns :: "(string \<times> string) list" where
  "virtual_columns =
     [(''source_file_uri'', ''FILE.URI()''), (''source_file_length'', ''FILE.LENGTH()''),
      (''source_file_created'', ''FILE.CREATED()''), (''source_file_modified'', ''FILE.MODIFIED()'')]"

definition extract_column :: "column_def \<Rightarrow> string" where
  "extract_column c =
     (case map_of virtual_columns (cd_name c) of
        Some e \<Rightarrow> sp 8 @ cd_name c @ '' = '' @ e
      | None \<Rightarrow> sp 8 @ cd_name c @ '' : '' @ cd_type c)"

definition extract_from_files :: "column_def list \<Rightarrow> string list \<Rightarrow> string" where
  "extract_from_files extract_columns source_files =
     dedent (join_lines
       [sp 8 @ ''@data ='', sp 12 @ ''EXTRACT'',
        sp 8 @ py_join ('','' @ newline) (map extract_column extract_columns),
        sp 12 @ ''FROM '' @ py_join ('','' @ newline @ sp 9) (map dquoted source_files),
        sp 12 @ ''USING Extractors.SStream();'', sp 4])"

definition model_transform_and_insert :: "string \<Rightarrow> column_def list \<Rightarrow> string" where
  "model_transform_and_insert model_sql delta_columns =
     (let sql = rstrip_if is_space (rstrip_if (\<lambda>c. c = CHR '';'') (py_strip model_sql));
          col_list = py_join '', '' (map cd_name delta_columns)
      in join_lines [''@batch_data ='', sp 4 @ sql @ '';'', [], ''INSERT INTO @target ('' @ col_list @ '')'',
           ''SELECT '' @ col_list @ '' FROM @batch_data;''])"

section \<open>Scripts\<close>

definition script_head :: "string \<Rightarrow> script_config \<Rightarrow> pyexn + string list" where
  "script_head strategy c =
     bindE (set_commit_condition (sc_commit_condition c)) (\<lambda>condition.
     bindE (set_max_file_count (sc_max_file_count c)) (\<lambda>max_count.
       Inr ([header_comment strategy (sc_table_name c), set_feature_previews (sc_feature_previews c), condition, max_count,
             declare_paths (resolved_delta_location c), create_table (sc_delta_columns c) (sc_partition_by c) ''@deltaPath''] @
            (if table_properties c = [] then [] else [alter_table_properties (table_properties c)]))))"

definition build_full_refresh :: "script_config \<Rightarrow> string \<Rightarrow> pyexn + string" where
  "build_full_refresh c model_sql =
     bindE (script_head ''full-refresh'' c) (\<lambda>parts.
       Inr (join_lines (parts @ [delete_all_rows, extract_from_files (sc_extract_columns c) (sc_source_files c),
              model_transform_and_insert model_sql (sc_delta_columns c)])))"

definition build_incremental :: "script_config \<Rightarrow> string \<Rightarrow> pyexn + string" where
  "build_incremental c model_sql =
     bindE (script_head (''incremental ('' @ show_nat (length (sc_source_files c)) @ '' files)'') c) (\<lambda>parts.
       Inr (join_lines (parts @ [extract_from_files (sc_extract_columns c) (sc_source_files c),
              model_transform_and_insert model_sql (sc_delta_columns c)])))"

definition build_drop :: "script_config \<Rightarrow> string" where
  "build_drop c = dedent (join_lines
     [sp 12 @ ''// Drop all data from '' @ sc_table_name c, sp 12 @ ''DECLARE TABLE @target'',
      sp 12 @ ''LOCATION '' @ dquoted (resolved_delta_location c), sp 12 @ ''OPTIONS (LAYOUT = DELTA);'', [],
      sp 12 @ ''DELETE FROM @target WHERE true;'', sp 8])"

section \<open>build\_script\_config\<close>

text \<open>The entries of the model's config that are set; \<open>None\<close> stands for an absent key.\<close>

record model_config =
  mc_delta_table_columns :: "dbt_column list"
  mc_extract_columns :: "dbt_column list"
  mc_delta_location :: "string option"
  mc_partition_by :: partition_spec
  mc_source_roots :: "string list"
  mc_source_patterns :: "string list"
  mc_max_files_per_trigger :: "int option"
  mc_max_bytes_per_trigger :: "int option"
  mc_safety_buffer_seconds :: "int option"
  mc_adls_gen1_account :: "string option"
  mc_scope_settings :: "(string \<times> json) list"
  mc_au :: "int option"
  mc_priority :: "int option"

definition get_or :: "'a option \<Rightarrow> 'a \<Rightarrow> 'a" where
  "get_or v d = (case v of None \<Rightarrow> d | Some x \<Rightarrow> x)"

definition column_def_of :: "dbt_column \<Rightarrow> pyexn + column_def" where
  "column_def_of c =
     bindE (column_entry c ''name'') (\<lambda>n. Inr \<lparr>cd_name = n, cd_type = get_or (map_of c ''type'') ''string''\<rparr>)"

definition build_script_config :: "scope_credentials \<Rightarrow> model_config \<Rightarrow> string \<Rightarrow> pyexn + script_config" where
  "build_script_config creds m table_name =
     bindE (mapE column_def_of (mc_delta_table_columns m)) (\<lambda>delta_columns.
     bindE (mapE column_def_of (mc_extract_columns m)) (\<lambda>extract_columns.
       Inr \<lparr>sc_delta_location = get_or (mc_delta_location m) [], sc_storage_account = storage_account creds,
         sc_container = cred_container creds, sc_delta_base_path = delta_base_path creds, sc_table_name = table_name,
         sc_partition_by = mc_partition_by m, sc_source_roots = mc_source_roots m, sc_source_patterns = mc_source_patterns m,
         sc_max_files_per_trigger = get_or (mc_max_files_per_trigger m) (cred_max_files_per_trigger creds),
         sc_max_bytes_per_trigger = get_or (mc_max_bytes_per_trigger m) (cred_max_bytes_per_trigger creds),
         sc_safety_buffer_seconds = get_or (mc_safety_buffer_seconds m) 30,
         sc_adls_gen1_account = get_or (mc_adls_gen1_account m) (adls_gen1_account creds),
         sc_source_files = [], sc_scope_settings = mc_scope_settings m, sc_batch_token = None,
         sc_feature_previews = (case scope_feature_previews creds of Some (c # s) \<Rightarrow> c # s | _ \<Rightarrow> ''EnableDeltaTableDynamicInsert:on''),
         sc_au = get_or (mc_au m) (cred_au creds), sc_priority = get_or (mc_priority m) (cred_priority creds),
         sc_commit_condition = ''FailIfFileConflict'', sc_max_file_count = JInt 5000,
         sc_delta_columns = delta_columns, sc_extract_columns = extract_columns\<rparr>))"

section \<open>Lines\<close>

lemma split_lines_nonempty: "split_lines s \<noteq> []"
  by (induction s) (auto split: list.split)

lemma split_lines_append: "split_lines (a @ CHR 0x0A # b) = split_lines a @ split_lines b"
  by (induction a) (auto split: list.split simp: split_lines_nonempty)

lemma split_lines_single: "CHR 0x0A \<notin> set s \<Longrightarrow> split_lines s = [s]"
  by (induction s) auto

lemma join_lines_Cons: "ls \<noteq> [] \<Longrightarrow> join_lines (l # ls) = l @ CHR 0x0A # join_lines ls"
  by (cases ls) (simp_all add: join_lines_def newline_def)

lemma join_split_lines: "join_lines (split_lines s) = s"
proof (induction s)
  case (Cons c s)
  obtain l ls where s: "split_lines s = l # ls" using split_lines_nonempty [of s] by (cases "split_lines s") auto
  then show ?case using Cons.IH by (cases "ls = []") (auto simp: join_lines_Cons, simp_all add: join_lines_def)
qed (simp add: join_lines_def)

lemma split_join_lines: "ls \<noteq> [] \<Longrightarrow> split_lines (join_lines ls) = concat (map split_lines ls)"
proof (induction ls)
  case (Cons l ls)
  then show ?case by (cases "ls = []") (simp_all add: join_lines_Cons split_lines_append, simp add: join_lines_def)
qed simp

lemma in_split_lines: "l \<in> set (split_lines s) \<Longrightarrow> set l \<subseteq> set s"
proof (induction s arbitrary: l)
  case (Cons c s)
  obtain m ms where s: "split_lines s = m # ms" using split_lines_nonempty [of s] by (cases "split_lines s") auto
  have "set k \<subseteq> set s" if "k \<in> set (m # ms)" for k using Cons.IH [of k] that s by simp
  then show ?case using Cons.prems s by (fastforce split: if_splits)
qed simp

section \<open>Quoted texts\<close>

text \<open>The texts between double quotes, in order, as the SCOPE compiler reads a list of quoted paths.\<close>

fun quoted_from :: "string option \<Rightarrow> string \<Rightarrow> string list" where
  "quoted_from _ [] = []"
| "quoted_from None (c # s) = (if c = CHR 0x22 then quoted_from (Some []) s else quoted_from None s)"
| "quoted_from (Some acc) (c # s) =
     (if c = CHR 0x22 then rev acc # quoted_from None s else quoted_from (Some (c # acc)) s)"

definition quoted_texts :: "string \<Rightarrow> string list" where
  "quoted_texts s = quoted_from None s"

abbreviation unquoted :: "string \<Rightarrow> bool" where
  "unquoted s \<equiv> CHR 0x22 \<notin> set s"

definition balanced :: "string \<Rightarrow> bool" where
  "balanced l \<longleftrightarrow> even (length (filter (\<lambda>c. c = CHR 0x22) l))"

lemma quoted_from_append:
  "(even (length (filter (\<lambda>c. c = CHR 0x22) l)) \<longrightarrow> quoted_from None (l @ t) = quoted_from None l @ quoted_from None t) \<and>
   (odd (length (filter (\<lambda>c. c = CHR 0x22) l)) \<longrightarrow> quoted_from (Some acc) (l @ t) = quoted_from (Some acc) l @ quoted_from None t)"
  by (induction l arbitrary: acc) auto

lemma quoted_balanced: "balanced l \<Longrightarrow> quoted_texts (l @ t) = quoted_texts l @ quoted_texts t"
  using quoted_from_append [of l] by (simp add: balanced_def quoted_texts_def)

lemma unquoted_balanced: "unquoted l \<Longrightarrow> balanced l"
proof -
  assume "unquoted l"
  then have "filter (\<lambda>c. c = CHR 0x22) l = []" by (auto simp: filter_empty_conv)
  then show "balanced l" by (simp add: balanced_def)
qed

lemma quoted_unquoted: "unquoted l \<Longrightarrow> quoted_texts l = []"
  unfolding quoted_texts_def by (induction l) auto

lemma quoted_dquoted: "unquoted f \<Longrightarrow> quoted_texts (dquoted f) = [f]"
proof -
  have "quoted_from (Some acc) (f @ [CHR 0x22]) = [rev acc @ f]" if "unquoted f" for acc
    using that by (induction f arbitrary: acc) auto
  then show "unquoted f \<Longrightarrow> quoted_texts (dquoted f) = [f]" by (simp add: quoted_texts_def dquoted_def)
qed

lemma balanced_append: "balanced a \<Longrightarrow> balanced b \<Longrightarrow> balanced (a @ b)"
  by (simp add: balanced_def)

lemma balanced_dquoted: "unquoted f \<Longrightarrow> balanced (dquoted f)"
  using unquoted_balanced [of f] by (simp add: balanced_def dquoted_def)

lemma quoted_join_lines:
  "\<forall>l \<in> set ls. balanced l \<Longrightarrow> quoted_texts (join_lines ls) = concat (map quoted_texts ls)"
proof (induction ls)
  case (Cons l ls)
  have "quoted_texts (CHR 0x0A # t) = quoted_texts t" for t by (simp add: quoted_texts_def)
  then show ?case
    using Cons by (cases "ls = []") (simp_all add: join_lines_Cons quoted_balanced, simp add: join_lines_def)
qed (simp add: join_lines_def quoted_texts_def)

section \<open>Dedenting keeps the quoted texts\<close>

lemma common_prefix_set: "set (common_prefix a b) \<subseteq> set a"
  by (induction a b rule: common_prefix.induct) auto

lemma indent_blank: "list_all is_blank (indent_of l)"
  by (auto simp: list_all_iff indent_of_def dest: set_takeWhileD)

lemma margin_blank: "margin_of ls = Some m \<Longrightarrow> list_all is_blank m"
proof (induction ls arbitrary: m)
  case (Cons l ls)
  show ?case
  proof (cases "list_all is_blank l")
    case True
    then show ?thesis using Cons by simp
  next
    case False
    then have "set m \<subseteq> set (indent_of l)"
      using Cons.prems common_prefix_set [of "indent_of l"] by (cases "margin_of ls") auto
    then show ?thesis using indent_blank [of l] by (auto simp: list_all_iff)
  qed
qed simp

lemma blank_unquoted: "list_all is_blank l \<Longrightarrow> unquoted l"
proof
  assume "list_all is_blank l" and "CHR 0x22 \<in> set l"
  then have "is_blank CHR 0x22" unfolding list_all_iff by (rule bspec)
  then show False by (simp add: is_blank_def)
qed

lemma drop_margin_quoted:
  assumes "list_all is_blank m"
  shows "quoted_texts (drop_margin m l) = quoted_texts l" and "balanced (drop_margin m l) = balanced l"
proof -
  have "unquoted m" by (rule blank_unquoted [OF assms])
  then have "quoted_texts (m @ t) = quoted_texts t" "balanced (m @ t) = balanced t" for t
    using unquoted_balanced [of m] quoted_balanced [of m t] quoted_unquoted [of m] by (simp_all add: balanced_def)
  then have "quoted_texts (drop_margin m l) = quoted_texts l \<and> balanced (drop_margin m l) = balanced l"
    using quoted_unquoted [OF blank_unquoted, of l] unquoted_balanced [OF blank_unquoted, of l]
      quoted_unquoted [of "[]"] unquoted_balanced [of "[]"]
    by (cases "list_all is_blank l") (auto simp: drop_margin_def prefix_def)
  then show "quoted_texts (drop_margin m l) = quoted_texts l" "balanced (drop_margin m l) = balanced l" by auto
qed

lemma dedent_keeps_quoted:
  assumes "\<forall>l \<in> set (split_lines text). balanced l"
  shows "quoted_texts (dedent text) = quoted_texts text"
proof -
  define m where "m = (case margin_of (split_lines text) of None \<Rightarrow> [] | Some m \<Rightarrow> m)"
  have m: "list_all is_blank m" unfolding m_def using margin_blank by (auto split: option.split)
  have "quoted_texts (dedent text) = concat (map quoted_texts (split_lines text))"
    using assms quoted_join_lines [of "map (drop_margin m) (split_lines text)"] drop_margin_quoted [OF m]
    by (simp add: dedent_def dedent_lines_def m_def [symmetric] o_def)
  also have "\<dots> = quoted_texts text"
    using quoted_join_lines [OF assms] by (simp add: join_split_lines)
  finally show ?thesis .
qed

section \<open>Properties\<close>

definition balanced_lines :: "string \<Rightarrow> bool" where
  "balanced_lines text \<longleftrightarrow> (\<forall>l \<in> set (split_lines text). balanced l)"

lemma balanced_lines_join: "\<forall>l \<in> set ls. balanced_lines l \<Longrightarrow> ls \<noteq> [] \<Longrightarrow> balanced_lines (join_lines ls)"
  by (auto simp: balanced_lines_def split_join_lines)

lemma balanced_lines_unquoted: "unquoted s \<Longrightarrow> balanced_lines s"
  unfolding balanced_lines_def by (meson in_split_lines subsetD unquoted_balanced)

definition path_ok :: "string \<Rightarrow> bool" where
  "path_ok f \<longleftrightarrow> unquoted f \<and> CHR 0x0A \<notin> set f"

text \<open>The list after \<open>FROM\<close>, behind text \<open>p\<close> of its first line.\<close>

lemma path_list:
  assumes "\<forall>f \<in> set fs. path_ok f" and "unquoted p" and "CHR 0x0A \<notin> set p"
  shows "balanced_lines (p @ py_join ('','' @ newline @ sp 9) (map dquoted fs)) \<and>
    quoted_texts (p @ py_join ('','' @ newline @ sp 9) (map dquoted fs)) = fs"
  using assms
proof (induction fs arbitrary: p)
  case Nil
  then show ?case by (simp add: balanced_lines_unquoted quoted_unquoted)
next
  case (Cons f fs)
  have f: "unquoted f" "CHR 0x0A \<notin> set f" using Cons.prems by (simp_all add: path_ok_def)
  have one: "balanced (p @ dquoted f @ r)" "quoted_texts (p @ dquoted f @ r) = [f]" if "unquoted r" for r
    using unquoted_balanced [OF Cons.prems(2)] balanced_dquoted [OF f(1)] unquoted_balanced [OF that]
      quoted_unquoted [OF Cons.prems(2)] quoted_dquoted [OF f(1)] quoted_unquoted [OF that]
    by (simp_all add: balanced_append quoted_balanced)
  show ?case
  proof (cases fs)
    case Nil
    have "split_lines (p @ dquoted f) = [p @ dquoted f]"
      using f(2) Cons.prems(3) by (intro split_lines_single) (auto simp: dquoted_def)
    then show ?thesis using Nil one [of "[]"] by (simp add: balanced_lines_def)
  next
    case (Cons g gs)
    let ?head = "p @ dquoted f @ '',''" and ?rest = "sp 9 @ py_join ('','' @ newline @ sp 9) (map dquoted fs)"
    have shape: "p @ py_join ('','' @ newline @ sp 9) (map dquoted (f # fs)) = ?head @ CHR 0x0A # ?rest"
      using Cons by (simp add: newline_def)
    have IH: "balanced_lines ?rest" "quoted_texts ?rest = fs"
      using Cons.IH [of "sp 9"] Cons.prems(1) by simp_all
    have "split_lines ?head = [?head]"
      using f(2) Cons.prems(3) by (intro split_lines_single) (auto simp: dquoted_def)
    then have "balanced_lines (?head @ CHR 0x0A # ?rest)"
      using IH(1) one(1) [of "'',''"] unfolding balanced_lines_def split_lines_append by auto
    moreover have "quoted_texts (?head @ CHR 0x0A # ?rest) = f # quoted_texts (CHR 0x0A # ?rest)"
      using quoted_balanced [OF one(1), of "'',''"] one(2) [of "'',''"] by simp
    moreover have "quoted_texts (CHR 0x0A # ?rest) = quoted_texts ?rest" by (simp add: quoted_texts_def)
    ultimately show ?thesis unfolding shape IH(2) by simp
  qed
qed

lemma quoted_by_lines: "balanced_lines s \<Longrightarrow> quoted_texts s = concat (map quoted_texts (split_lines s))"
  using quoted_join_lines [of "split_lines s"] by (simp add: balanced_lines_def join_split_lines)

lemma quoted_blocks:
  assumes "\<forall>b \<in> set bs. balanced_lines b" and "bs \<noteq> []"
  shows "quoted_texts (dedent (join_lines bs)) = concat (map quoted_texts bs)"
proof -
  have b: "balanced_lines (join_lines bs)" using assms by (rule balanced_lines_join)
  have "quoted_texts (dedent (join_lines bs)) = concat (map quoted_texts (concat (map split_lines bs)))"
    using dedent_keeps_quoted [of "join_lines bs"] b quoted_by_lines [OF b]
    by (simp add: balanced_lines_def split_join_lines [OF assms(2)])
  also have "\<dots> = concat (map (\<lambda>b. concat (map quoted_texts (split_lines b))) bs)"
    by (induction bs) simp_all
  also have "map (\<lambda>b. concat (map quoted_texts (split_lines b))) bs = map quoted_texts bs"
    using assms(1) quoted_by_lines by simp
  finally show ?thesis .
qed

lemma quoted_template:
  assumes "unquoted a" and "unquoted b" and "unquoted c" and "balanced_lines d" and "unquoted e" and "unquoted g"
  shows "quoted_texts (dedent (join_lines [a, b, c, d, e, g])) = quoted_texts d"
proof -
  note plain = assms(1,2,3,5,6)
  have "\<forall>l \<in> set [a, b, c, d, e, g]. balanced_lines l" using assms(4) plain [THEN balanced_lines_unquoted] by simp
  then show ?thesis using plain [THEN quoted_unquoted] by (subst quoted_blocks) simp_all
qed

lemma unquoted_join: "unquoted sep \<Longrightarrow> \<forall>x \<in> set xs. unquoted x \<Longrightarrow> unquoted (py_join sep xs)"
  by (induction sep xs rule: py_join.induct) auto

text \<open>
  C23: the \<open>EXTRACT\<close> statement of a script reads exactly the source files: the quoted paths in it are the
  given paths, each once and in their order, whatever \<open>textwrap.dedent\<close> does to the indentation. Paths
  have no double quote or line break, and column names and types no double quote.
\<close>

theorem extract_names_source_files:
  assumes "\<forall>f \<in> set source_files. path_ok f" and "\<forall>c \<in> set columns. unquoted (cd_name c) \<and> unquoted (cd_type c)"
  shows "quoted_texts (extract_from_files columns source_files) = source_files"
proof -
  have "unquoted (extract_column c)" if "c \<in> set columns" for c
    using assms(2) that by (auto simp: extract_column_def virtual_columns_def split: option.split)
  then have cols: "unquoted (sp 8 @ py_join ('','' @ newline) (map extract_column columns))"
    using unquoted_join [of "'','' @ newline" "map extract_column columns"] by (auto simp: newline_def)
  have paths: "balanced_lines (sp 12 @ ''FROM '' @ py_join ('','' @ newline @ sp 9) (map dquoted source_files)) \<and>
      quoted_texts (sp 12 @ ''FROM '' @ py_join ('','' @ newline @ sp 9) (map dquoted source_files)) = source_files"
    using path_list [OF assms(1), of "sp 12 @ ''FROM ''"] by simp
  have "quoted_texts (extract_from_files columns source_files) =
      quoted_texts (sp 12 @ ''FROM '' @ py_join ('','' @ newline @ sp 9) (map dquoted source_files))"
    unfolding extract_from_files_def by (rule quoted_template [OF _ _ cols paths [THEN conjunct1]]) simp_all
  then show ?thesis using paths by simp
qed

theorem extract_names_source_files_witness:
  "quoted_texts (extract_from_files [\<lparr>cd_name = ''id'', cd_type = ''long''\<rparr>] [''/in/a.ss'', ''/in/b.ss'']) = [''/in/a.ss'', ''/in/b.ss'']"
  by (rule extract_names_source_files) (simp_all add: path_ok_def)

lemma py_join_occurs: "\<exists>u v. py_join sep (xs @ y # zs) = u @ y @ v"
proof (induction xs)
  case Nil
  then show ?case by (cases zs) (auto intro: exI [of _ "[]"])
next
  case (Cons x xs)
  then obtain u v where "py_join sep (xs @ y # zs) = u @ y @ v" by blast
  moreover have "py_join sep ((x # xs) @ y # zs) = x @ sep @ py_join sep (xs @ y # zs)" by (cases "xs @ y # zs") auto
  ultimately have "py_join sep ((x # xs) @ y # zs) = (x @ sep @ u) @ y @ v" by simp
  then show ?case by blast
qed

lemma script_head_Inr:
  assumes "script_head strategy c = Inr parts" and "table_properties c \<noteq> []"
  shows "\<exists>pre. parts = pre @ [alter_table_properties (table_properties c)]"
proof -
  obtain condition max_count where "parts =
      [header_comment strategy (sc_table_name c), set_feature_previews (sc_feature_previews c), condition, max_count,
       declare_paths (resolved_delta_location c), create_table (sc_delta_columns c) (sc_partition_by c) ''@deltaPath''] @
      [alter_table_properties (table_properties c)]"
    using assms by (auto simp: script_head_def bindE_eq_Inr)
  then show ?thesis by blast
qed

text \<open>
  When a batch token is set, both scripts stamp it: the \<open>ALTER TABLE\<close> statement of the script sets
  exactly the properties \<open>table_properties\<close> gives, among them \<open>dbt_scope.batch_token\<close> with the token, even
  if the model's own settings name that property, and no other property differs from the settings.
\<close>

theorem batch_token_stamped:
  assumes "sc_batch_token c = Some t" and "t \<noteq> []" and "Inr script \<in> {build_incremental c sql, build_full_refresh c sql}"
  shows "(\<exists>u v. script = u @ alter_table_properties (table_properties c) @ v) \<and>
    py_contains (dquoted batch_token_property @ '' = '' @ dquoted t) (alter_table_properties (table_properties c)) \<and>
    map_of (table_properties c) = (map_of (sc_scope_settings c))(batch_token_property \<mapsto> JStr t)"
proof -
  let ?p = "table_properties c"
  have p: "?p = assoc_put batch_token_property (JStr t) (sc_scope_settings c)"
    using assms(1,2) by (cases t) (simp_all add: table_properties_def)
  have m: "map_of ?p = (map_of (sc_scope_settings c))(batch_token_property \<mapsto> JStr t)" by (simp add: p)
  then have "(batch_token_property, JStr t) \<in> set ?p" by (simp add: map_of_SomeD)
  then obtain q r where q: "?p = q @ (batch_token_property, JStr t) # r" by (meson split_list)
  let ?entry = "dquoted batch_token_property @ '' = '' @ dquoted t"
  obtain u v where "py_join ('','' @ newline @ sp 4) (map (\<lambda>(k, v). dquoted k @ '' = '' @ quote_prop_value v) ?p) = u @ ?entry @ v"
    using py_join_occurs [of "'','' @ newline @ sp 4" "map (\<lambda>(k, v). dquoted k @ '' = '' @ quote_prop_value v) q" ?entry
        "map (\<lambda>(k, v). dquoted k @ '' = '' @ quote_prop_value v) r"]
    by (auto simp: q quote_prop_value_def)
  then have "alter_table_properties ?p =
      (''ALTER TABLE @target SET TBLPROPERTIES ('' @ newline @ sp 4 @ u) @ ?entry @ (v @ newline @ '');'' @ newline)"
    unfolding alter_table_properties_def by simp
  then have contains: "py_contains ?entry (alter_table_properties ?p)" unfolding py_contains_iff by blast
  have "?p \<noteq> []" using q by simp
  obtain strategy parts rest where "script_head strategy c = Inr parts" and script: "script = join_lines (parts @ rest)"
    using assms(3) by (auto simp: build_incremental_def build_full_refresh_def bindE_eq_Inr eq_commute [of "Inr script"])
  then obtain pre where "parts = pre @ [alter_table_properties ?p]"
    using script_head_Inr \<open>?p \<noteq> []\<close> by blast
  then have "\<exists>u v. script = u @ alter_table_properties ?p @ v"
    unfolding script join_lines_def using py_join_occurs [of newline pre] by simp
  then show ?thesis using contains m by blast
qed

text \<open>
  A script is refused exactly for a commit condition that is none of the three, or a file count that
  is no integer (a boolean is none) or outside 1 to 1000000, and then with \<open>DbtRuntimeError\<close>.
\<close>

theorem script_refused_exactly:
  "let valid = (sc_commit_condition c \<in> set valid_commit_conditions \<and> (\<exists>i. sc_max_file_count c = JInt i \<and> 1 \<le> i \<and> i \<le> 1000000)) in
    (case build_incremental c sql of Inl x \<Rightarrow> \<not> valid \<and> exn_class x = DbtRuntimeError | Inr _ \<Rightarrow> valid) \<and>
    (case build_full_refresh c sql of Inl x \<Rightarrow> \<not> valid \<and> exn_class x = DbtRuntimeError | Inr _ \<Rightarrow> valid)"
proof -
  let ?valid = "sc_commit_condition c \<in> set valid_commit_conditions \<and> (\<exists>i. sc_max_file_count c = JInt i \<and> 1 \<le> i \<and> i \<le> 1000000)"
  have "case script_head s c of Inl x \<Rightarrow> \<not> ?valid \<and> exn_class x = DbtRuntimeError | Inr _ \<Rightarrow> ?valid" for s
  proof -
    have "case set_commit_condition (sc_commit_condition c) of
        Inl x \<Rightarrow> sc_commit_condition c \<notin> set valid_commit_conditions \<and> exn_class x = DbtRuntimeError
      | Inr _ \<Rightarrow> sc_commit_condition c \<in> set valid_commit_conditions"
      unfolding set_commit_condition_def by (simp only: if_splits sum.case pyexn.sel simp_thms split: if_split) 
    moreover have "case set_max_file_count (sc_max_file_count c) of
        Inl x \<Rightarrow> \<not> (\<exists>i. sc_max_file_count c = JInt i \<and> 1 \<le> i \<and> i \<le> 1000000) \<and> exn_class x = DbtRuntimeError
      | Inr _ \<Rightarrow> \<exists>i. sc_max_file_count c = JInt i \<and> 1 \<le> i \<and> i \<le> 1000000"
      unfolding set_max_file_count_def by (cases "sc_max_file_count c") auto
    ultimately show ?thesis
      by (cases "set_commit_condition (sc_commit_condition c)"; cases "set_max_file_count (sc_max_file_count c)")
         (auto simp: script_head_def)
  qed
  from this [of "''full-refresh''"] this [of "''incremental ('' @ show_nat (length (sc_source_files c)) @ '' files)''"]
  show ?thesis
    unfolding Let_def build_incremental_def build_full_refresh_def
    by (cases "script_head ''full-refresh'' c"; cases "script_head (''incremental ('' @ show_nat (length (sc_source_files c)) @ '' files)'') c")
       auto
qed

theorem batch_token_stamped_witness:
  "\<exists>c script. sc_batch_token c = Some ''tok'' \<and> build_incremental c ''SELECT 1'' = Inr script \<and>
    py_contains (dquoted batch_token_property @ '' = '' @ dquoted ''tok'') (alter_table_properties (table_properties c))"
proof -
  let ?m = "\<lparr>mc_delta_table_columns = [sample_column ''id'' ''long''], mc_extract_columns = [], mc_delta_location = None,
    mc_partition_by = NoPartition, mc_source_roots = [], mc_source_patterns = [], mc_max_files_per_trigger = None,
    mc_max_bytes_per_trigger = None, mc_safety_buffer_seconds = None, mc_adls_gen1_account = None,
    mc_scope_settings = [(''dbt_scope.batch_token'', JStr ''old'')], mc_au = None, mc_priority = None\<rparr>"
  obtain c0 where c0: "build_script_config default_credentials ?m ''t'' = Inr c0"
    and ok: "sc_commit_condition c0 = ''FailIfFileConflict''" "sc_max_file_count c0 = JInt 5000"
    by (simp add: build_script_config_def column_def_of_def column_entry_def sample_column_def)
  let ?c = "c0\<lparr>sc_batch_token := Some ''tok''\<rparr>"
  obtain script where script: "build_incremental ?c ''SELECT 1'' = Inr script"
    using ok by (simp add: build_incremental_def script_head_def set_commit_condition_def set_max_file_count_def valid_commit_conditions_def)
  have "py_contains (dquoted batch_token_property @ '' = '' @ dquoted ''tok'') (alter_table_properties (table_properties ?c))"
    by (rule batch_token_stamped [where script = script and sql = "''SELECT 1''", THEN conjunct2, THEN conjunct1])
       (simp_all add: script)
  then show ?thesis using script by (intro exI [of _ ?c] exI [of _ script]) simp
qed

end
