(* ===== verification/Trigger_Config.thy ===== *)
theory Trigger_Config
  imports Adapter_Discovery
begin

text \<open>
  \<open>trigger_config.py\<close> and what \<open>ScopeAdapter\<close> makes of it: intervals, \<open>TriggerConfig\<close>,
  \<open>parse_trigger_config\<close> and \<open>parse_trigger\<close>. An interval is the number of microseconds its \<open>timedelta\<close>
  holds; the decimal number in it is taken exactly, where Python rounds it to a float first. The lemmas
  show that an accepted trigger is a valid one and bound the cycles of a processing-time model.
\<close>

section \<open>Intervals\<close>

definition unit_to_seconds :: "(string \<times> real) list" where
  "unit_to_seconds =
     [(''s'', 1), (''sec'', 1), (''secs'', 1), (''second'', 1), (''seconds'', 1),
      (''m'', 60), (''min'', 60), (''mins'', 60), (''minute'', 60), (''minutes'', 60)]"

text \<open>\<open>-?\d+(\.\d+)?\<close> at the start: the number and what follows it.\<close>

definition scan_unsigned :: "string \<Rightarrow> (real \<times> string) option" where
  "scan_unsigned s =
     (let ds = takeWhile is_digit s; r = dropWhile is_digit s in
      if ds = [] then None
      else case r of
          CHR ''.'' # t \<Rightarrow>
            (let fs = takeWhile is_digit t
             in if fs = [] then Some (real (digits_val 0 ds), r)
                else Some (real (digits_val 0 (ds @ fs)) / 10 ^ length fs, dropWhile is_digit t))
        | _ \<Rightarrow> Some (real (digits_val 0 ds), r))"

definition scan_number :: "string \<Rightarrow> (real \<times> string) option" where
  "scan_number s =
     (case s of
        CHR ''-'' # t \<Rightarrow> map_option (\<lambda>(v, r). (- v, r)) (scan_unsigned t)
      | _ \<Rightarrow> scan_unsigned s)"

definition round_half_even :: "real \<Rightarrow> int" where
  "round_half_even x =
     (let f = \<lfloor>x\<rfloor>; d = x - of_int f
      in if d < 1 / 2 then f else if 1 / 2 < d then f + 1 else if even f then f else f + 1)"

definition timedelta_limit_us :: int where
  "timedelta_limit_us = 86400000000 * 1000000000"

definition invalid_interval :: "string \<Rightarrow> pyexn" where
  "invalid_interval raw = PyExn DbtRuntimeError (''Invalid trigger interval '' @ squoted raw @ ''. Expected a format like '' @
     py_join '', '' (map squoted [''10 seconds'', ''30s'', ''1 minute'', ''5m'']) @ ''.'')"

definition parse_interval :: "string \<Rightarrow> pyexn + int" where
  "parse_interval raw =
     (case scan_number (dropWhile is_space raw) of
        None \<Rightarrow> Inl (invalid_interval raw)
      | Some (v, rest) \<Rightarrow>
          (case map_of unit_to_seconds (py_lower (rstrip_if is_space (dropWhile is_space rest))) of
             None \<Rightarrow> Inl (invalid_interval raw)
           | Some seconds_per_unit \<Rightarrow>
               (let seconds = v * seconds_per_unit in
                if seconds \<le> 0 then Inl (PyExn DbtRuntimeError (''Trigger interval must be positive, got '' @ squoted raw))
                else if timedelta_limit_us \<le> round_half_even (seconds * 1000000) then Inl (PyExn OverflowErr ''days'')
                else Inr (round_half_even (seconds * 1000000)))))"

section \<open>TriggerConfig\<close>

record trigger_config =
  tc_type :: json
  tc_interval :: int
  tc_max_cycles :: "int option"

definition available_now :: json where
  "available_now = JStr ''available_now''"

definition processing_time :: json where
  "processing_time = JStr ''processing_time''"

fun hashable :: "json \<Rightarrow> bool" where
  "hashable (JList _) = False"
| "hashable (JDict _) = False"
| "hashable _ = True"

definition trigger_post_init :: "trigger_config \<Rightarrow> pyexn + trigger_config" where
  "trigger_post_init tc =
     (if \<not> hashable (tc_type tc) then Inl (PyExn TypeErr ''unhashable type'')
      else if tc_type tc \<notin> {available_now, processing_time} then
        Inl (PyExn DbtRuntimeError (''Invalid trigger type '' @ squoted (jstr (tc_type tc)) @
          ''. Must be one of: available_now, processing_time.''))
      else if tc_type tc = processing_time \<and> tc_interval tc \<le> 0 then
        Inl (PyExn DbtRuntimeError (''Trigger type '' @ squoted ''processing_time'' @ '' requires a positive '' @ squoted ''interval'' @ ''.''))
      else
        (case tc_max_cycles tc of
           Some n \<Rightarrow>
             if n \<le> 0 then Inl (PyExn DbtRuntimeError (''max_cycles must be a positive integer, got '' @ show_int n @ ''.''))
             else Inr tc
         | None \<Rightarrow> Inr tc))"

definition interval_missing :: pyexn where
  "interval_missing = PyExn DbtRuntimeError (''Trigger type '' @ squoted ''processing_time'' @ '' requires an '' @ squoted ''interval'' @
     '' (e.g. '' @ py_join '', '' (map squoted [''10 seconds'', ''30s'', ''1 minute'']) @ '').'')"

definition parse_trigger_config :: "(string \<times> json) list \<Rightarrow> pyexn + trigger_config" where
  "parse_trigger_config raw =
     (if raw = [] then trigger_post_init \<lparr>tc_type = available_now, tc_interval = 0, tc_max_cycles = None\<rparr>
      else
        let trigger_type = dget raw ''type'' available_now; raw_interval = dget raw ''interval'' JNull;
            max_cycles = dget raw ''max_cycles'' JNull in
        bindE (if trigger_type = processing_time then
                 if \<not> jtruthy raw_interval
                 then Inl interval_missing
                 else parse_interval (jstr raw_interval)
               else Inr 0) (\<lambda>interval.
        bindE (if max_cycles = JNull then Inr None
               else case jint max_cycles of
                   Inr n \<Rightarrow> Inr (Some n)
                 | Inl _ \<Rightarrow> Inl (PyExn DbtRuntimeError (''max_cycles must be an integer, got '' @ squoted (jstr max_cycles) @ ''.''))) (\<lambda>cycles.
          trigger_post_init \<lparr>tc_type = trigger_type, tc_interval = interval, tc_max_cycles = cycles\<rparr>)))"

text \<open>The dict \<open>parse_trigger\<close> returns: type, seconds and cycles.\<close>

definition parse_trigger :: "(string \<times> json) list \<Rightarrow> pyexn + (json \<times> real \<times> int option)" where
  "parse_trigger raw =
     bindE (parse_trigger_config raw) (\<lambda>tc. Inr (tc_type tc, of_int (tc_interval tc) / 1000000, tc_max_cycles tc))"

definition default_processing_time_timeout_seconds :: int where
  "default_processing_time_timeout_seconds = 2592000"

section \<open>Valid triggers\<close>

definition trigger_ok :: "trigger_config \<Rightarrow> bool" where
  "trigger_ok tc \<longleftrightarrow> (tc_type tc = available_now \<or> tc_type tc = processing_time \<and> 0 < tc_interval tc) \<and>
     (case tc_max_cycles tc of None \<Rightarrow> True | Some n \<Rightarrow> 0 < n)"

lemma trigger_post_init_cases:
  "case trigger_post_init tc of Inr tc' \<Rightarrow> tc' = tc \<and> trigger_ok tc | Inl x \<Rightarrow> \<not> trigger_ok tc \<and> exn_class x \<in> {DbtRuntimeError, TypeErr}"
  by (auto simp: trigger_post_init_def trigger_ok_def available_now_def processing_time_def split: option.split)

lemma parse_interval_cases:
  "case parse_interval raw of Inr us \<Rightarrow> 0 \<le> us \<and> us < timedelta_limit_us | Inl x \<Rightarrow> exn_class x \<in> {DbtRuntimeError, OverflowErr}"
proof -
  have "0 \<le> round_half_even x" if "0 < x" for x
    using that unfolding round_half_even_def Let_def by (smt (verit) floor_less_iff of_int_0)
  then show ?thesis
    by (auto simp: parse_interval_def invalid_interval_def Let_def split: option.split prod.split)
qed

text \<open>
  C37: A trigger that \<open>parse_trigger_config\<close> accepts is a valid one: its type is one of the two, an interval
  that a loop waits for is positive, also after it was rounded to microseconds, and a bound on the cycles
  is positive. It refuses everything else with \<open>DbtRuntimeError\<close>, besides a type that is no string and an
  interval too long for a \<open>timedelta\<close>.
\<close>

theorem parsed_trigger_valid:
  "case parse_trigger_config raw of
     Inr tc \<Rightarrow> trigger_ok tc
   | Inl x \<Rightarrow> exn_class x \<in> {DbtRuntimeError, TypeErr, OverflowErr}"
proof -
  let ?E = "\<lambda>x. exn_class x \<in> {DbtRuntimeError, TypeErr, OverflowErr}"
  have post: "case_sum ?E trigger_ok (trigger_post_init tc)" for tc
    using trigger_post_init_cases [of tc] by (cases "trigger_post_init tc") auto
  have step: "case_sum ?E trigger_ok (bindE r k)" if "case_sum ?E (\<lambda>_. True) r" "\<And>a. case_sum ?E trigger_ok (k a)"
    for r :: "pyexn + 'a" and k
    using that by (cases r) simp_all
  have interval: "case_sum ?E (\<lambda>_. True) (if t = processing_time then if \<not> jtruthy i then Inl interval_missing
      else parse_interval (jstr i) else Inr 0)" for t i
    using parse_interval_cases [of "jstr i"] by (cases "parse_interval (jstr i)") (auto simp: interval_missing_def)
  have cycles: "case_sum ?E (\<lambda>_. True) (if m = JNull then Inr None else case jint m of Inr n \<Rightarrow> Inr (Some n)
      | Inl _ \<Rightarrow> Inl (PyExn DbtRuntimeError (''max_cycles must be an integer, got '' @ squoted (jstr m) @ ''.'')))" for m
    by (cases "jint m") simp_all
  show ?thesis
  proof (cases "raw = []")
    case True
    then show ?thesis using post by (simp add: parse_trigger_config_def)
  next
    case False
    show ?thesis
      unfolding parse_trigger_config_def Let_def if_not_P [OF False]
      by (intro step [OF interval] step [OF cycles] post)
  qed
qed

section \<open>Cycles\<close>

definition cycles_done :: "nat \<Rightarrow> 'z adapter_scheme \<Rightarrow> nat" where
  "cycles_done thread w = (case map_of (ad_cycles w) thread of None \<Rightarrow> 0 | Some n \<Rightarrow> n)"

text \<open>
  A processing-time model with a bound stops in time: as long as \<open>wait_for_next_cycle\<close> says to go on,
  it has counted one more cycle and the bound is not reached; when it says to stop, the count starts over.
\<close>

theorem cycles_bounded:
  "case wait_for_next_cycle thread interval (Some n) w of
     (Inr True, w') \<Rightarrow> cycles_done thread w' = Suc (cycles_done thread w) \<and> cycles_done thread w' < n
   | (Inr False, w') \<Rightarrow> cycles_done thread w' = 0
   | (Inl _, _) \<Rightarrow> False"
proof -
  have forget: "map_of (filter (\<lambda>e. fst e \<noteq> thread) m) thread = None" for m :: "(nat \<times> nat) list"
    by (auto simp: map_of_eq_None_iff)
  show ?thesis
    by (auto simp: wait_for_next_cycle_def run_bindM run_thenM run_asks run_modifyM run_ret shutdown_is_set_def forget_cycle_def sleepM_def
        cycles_done_def forget split: option.split nat.split)
qed

end
