(* ===== verification/Token_Credential.thy ===== *)
theory Token_Credential
  imports Storage_World Credentials
begin

text \<open>
  How a token is acquired (\<open>delta_lake.py\<close>, \<open>_file_lock.py\<close>, \<open>custom_credential.py\<close>): \<open>RetryPolicy\<close>,
  \<open>FileLock\<close>, \<open>LockedTokenCredential.get_token\<close>, \<open>build_credential\<close> and \<open>load_custom_credential\<close>. The
  credential inside is an argument; the locale \<open>token_source\<close> states what the lock and the credential
  promise, and it is interpreted on the model of \<open>FileLock\<close>. The lemmas show how many attempts are made
  and that the lock is free whenever the code waits or is done.
\<close>

section \<open>RetryPolicy\<close>

record token_policy =
  tp_max_retries :: int
  tp_initial_delay_seconds :: real
  tp_max_delay_seconds :: real

definition default_token_policy :: token_policy where
  "default_token_policy = \<lparr>tp_max_retries = 10, tp_initial_delay_seconds = 1, tp_max_delay_seconds = 10\<rparr>"

definition from_http_retries :: "int option \<Rightarrow> token_policy" where
  "from_http_retries http_retries_opt =
     (case http_retries_opt of
        None \<Rightarrow> default_token_policy
      | Some n \<Rightarrow>
          if n < 0 then default_token_policy
          else \<lparr>tp_max_retries = n, tp_initial_delay_seconds = 1, tp_max_delay_seconds = 10\<rparr>)"

section \<open>FileLock\<close>

text \<open>
  The locks of the machine: \<open>tk_held\<close> are the ones this process holds, \<open>tk_busy\<close> is how many more attempts
  find the lock held by another process. \<open>flock\<close> waits for it; on Windows the code retries.
\<close>

record token_world = store +
  tk_held :: "string list"
  tk_busy :: nat

definition os_error :: "string \<Rightarrow> pyexn" where
  "os_error m = PyExn OtherError m"

definition try_lock :: "string \<Rightarrow> ('z token_world_scheme, bool) eff" where
  "try_lock name = (\<lambda>w. case tk_busy w of
       0 \<Rightarrow> (Inr True, w\<lparr>tk_held := name # tk_held w\<rparr>)
     | Suc n \<Rightarrow> (Inr False, w\<lparr>tk_busy := n\<rparr>))"

definition flock_ex :: "string \<Rightarrow> ('z token_world_scheme, unit) eff" where
  "flock_ex name = modifyM (\<lambda>w. w\<lparr>tk_busy := 0, tk_held := name # tk_held w\<rparr>)"

text \<open>\<open>_lock_win32\<close>; \<open>draw k\<close> is what \<open>random.random()\<close> returns with that much fuel left.\<close>

fun lock_win32_loop :: "nat \<Rightarrow> (nat \<Rightarrow> real) \<Rightarrow> string \<Rightarrow> int \<Rightarrow> real \<Rightarrow> ('z token_world_scheme, unit) eff" where
  "lock_win32_loop 0 draw name deadline delay = raise (os_error ''out of fuel'')"
| "lock_win32_loop (Suc n) draw name deadline delay =
     bindM (try_lock name) (\<lambda>locked.
       if locked then ret ()
       else
         bindM now_us (\<lambda>now.
           if deadline \<le> now then raise (os_error (''Could not acquire file lock '' @ name))
           else thenM (sleepM (min (delay * (1 + draw n)) 2)) (lock_win32_loop n draw name deadline (min (delay * 1.5) 2))))"

definition lock_fuel :: "int \<Rightarrow> nat" where
  "lock_fuel timeout = Suc (nat (timeout * 20) + 1)"

definition lock_win32 :: "(nat \<Rightarrow> real) \<Rightarrow> string \<Rightarrow> int \<Rightarrow> ('z token_world_scheme, unit) eff" where
  "lock_win32 draw name timeout =
     bindM now_us (\<lambda>now. lock_win32_loop (lock_fuel timeout) draw name (now + timeout * 1000000) 0.05)"

text \<open>The fuel suffices: a round without the lock sleeps for a twentieth of a second at least.\<close>

lemma lock_loop_has_fuel:
  fixes w :: "'z token_world_scheme"
  assumes "\<And>k. 0 \<le> draw k"
  shows "0.05 \<le> delay \<Longrightarrow> delay \<le> 2 \<Longrightarrow> deadline \<le> st_clock w + 50000 * int n \<Longrightarrow>
    fst (lock_win32_loop (Suc n) draw name deadline delay w) \<noteq> Inl (os_error ''out of fuel'')"
proof (induction n arbitrary: delay w)
  case 0
  then show ?case
    by (auto simp: try_lock_def now_us_def run_bindM run_asks run_ret run_raise os_error_def split: nat.split)
next
  case (Suc n)
  let ?d = "min (delay * (1 + draw (Suc n))) 2"
  have d: "0.05 \<le> ?d"
  proof -
    have "delay * 1 \<le> delay * (1 + draw (Suc n))" using Suc.prems(1) assms [of "Suc n"] by (intro mult_left_mono) simp_all
    then have "0.05 \<le> delay * (1 + draw (Suc n))" using Suc.prems(1) by linarith
    then show ?thesis by (rule min.boundedI) simp
  qed
  have "50000 \<le> \<lceil>x * 1000000\<rceil>" if "0.05 \<le> x" for x :: real
  proof -
    have "50000 \<le> x * 1000000" using that by simp
    then show ?thesis by linarith
  qed
  from this [OF d] have "50000 \<le> max 0 \<lceil>?d * 1000000\<rceil>" by simp
  then have clock: "deadline \<le> st_clock u + max 0 \<lceil>?d * 1000000\<rceil> + 50000 * int n" if "st_clock u = st_clock w"
    for u :: "'z token_world_scheme"
    using Suc.prems(3) that by simp
  show ?case
    using clock Suc.IH [of "min (delay * 1.5) 2"] Suc.prems(1,2)
    by (auto simp: try_lock_def now_us_def sleepM_def run_bindM run_thenM run_asks run_ret run_raise run_modifyM os_error_def
        simp del: lock_win32_loop.simps(2) simp add: lock_win32_loop.simps(2) [of "Suc n"] split: nat.split)
qed

lemma lock_fuel_enough:
  fixes w :: "'z token_world_scheme"
  assumes "\<And>k. 0 \<le> draw k"
  shows "fst (lock_win32 draw name timeout w) \<noteq> Inl (os_error ''out of fuel'')"
proof -
  have "st_clock w + timeout * 1000000 \<le> st_clock w + 50000 * int (nat (timeout * 20) + 1)" by simp
  from lock_loop_has_fuel [where name = name and draw = draw, OF assms _ _ this, of "0.05"]
  show ?thesis by (simp only: lock_win32_def lock_fuel_def now_us_def run_bindM run_asks prod.case sum.case) simp
qed

definition file_lock_enter :: "bool \<Rightarrow> (nat \<Rightarrow> real) \<Rightarrow> string \<Rightarrow> int \<Rightarrow> ('z token_world_scheme, unit) eff" where
  "file_lock_enter win32 draw name timeout = (if win32 then lock_win32 draw name timeout else flock_ex name)"

definition file_lock_exit :: "string \<Rightarrow> ('z token_world_scheme, unit) eff" where
  "file_lock_exit name = modifyM (\<lambda>w. w\<lparr>tk_held := remove1 name (tk_held w)\<rparr>)"

section \<open>LockedTokenCredential\<close>

text \<open>\<open>with FileLock(...): return credential.get_token(...)\<close>.\<close>

definition locked_call :: "('w, unit) eff \<Rightarrow> ('w, unit) eff \<Rightarrow> ('w, 'a) eff \<Rightarrow> ('w, 'a) eff" where
  "locked_call lock unlock inner = thenM lock (finallyM inner unlock)"

text \<open>The attempts that are left, and the number of the next one.\<close>

fun token_loop :: "(real \<Rightarrow> ('w, unit) eff) \<Rightarrow> token_policy \<Rightarrow> ('w, 'a) eff \<Rightarrow> nat \<Rightarrow> int \<Rightarrow> ('w, 'a) eff" where
  "token_loop sleep policy call 0 attempt = raise (PyExn OtherError ''AssertionError'')"
| "token_loop sleep policy call (Suc n) attempt =
     tryM call (\<lambda>e.
       if exn_class e \<noteq> CredentialUnavailableError then raise e
       else if tp_max_retries policy < attempt then raise e
       else
         thenM (sleep (min (tp_initial_delay_seconds policy * of_int attempt) (tp_max_delay_seconds policy)))
           (token_loop sleep policy call n (attempt + 1)))"

definition get_token ::
    "(real \<Rightarrow> ('w, unit) eff) \<Rightarrow> token_policy \<Rightarrow> ('w, unit) eff \<Rightarrow> ('w, unit) eff \<Rightarrow> ('w, 'a) eff \<Rightarrow> ('w, 'a) eff" where
  "get_token sleep policy lock unlock inner =
     token_loop sleep policy (locked_call lock unlock inner) (nat (tp_max_retries policy + 1)) 1"

text \<open>
  What the lock promises: entering takes it or raises without it, leaving frees it; the credential inside
  does not touch it, and neither does waiting.
\<close>

locale token_source =
  fixes lock unlock :: "('w, unit) eff"
    and inner :: "('w, 'a) eff"
    and sleep :: "real \<Rightarrow> ('w, unit) eff"
    and free :: "'w \<Rightarrow> bool"
  assumes lock_law: "free w \<Longrightarrow> wp lock (\<lambda>_ w'. \<exists>v. free v \<and> unlock w' = (Inr (), v)) (\<lambda>_. free) w"
    and inner_law: "\<exists>v. free v \<and> unlock w = (Inr (), v) \<Longrightarrow>
      wp inner (\<lambda>_ w'. \<exists>v. free v \<and> unlock w' = (Inr (), v)) (\<lambda>_ w'. \<exists>v. free v \<and> unlock w' = (Inr (), v)) w"
    and sleep_law: "free w \<Longrightarrow> wp (sleep d) (\<lambda>_. free) (\<lambda>_. free) w"
begin

lemma call_frees: "free w \<Longrightarrow> wp (locked_call lock unlock inner) (\<lambda>_. free) (\<lambda>x w'. exn_class x = ProcessKilled \<or> free w') w"
  unfolding locked_call_def wp_thenM
  by (rule wp_mono [OF lock_law], assumption) (auto simp: wp_finallyM wp_def [of unlock] intro!: wp_mono [OF inner_law])

lemma get_token_frees:
  assumes "free w"
  shows "wp (get_token sleep policy lock unlock inner) (\<lambda>_. free) (\<lambda>x w'. exn_class x = ProcessKilled \<or> free w' ) w"
proof -
  have "wp (token_loop sleep policy (locked_call lock unlock inner) n attempt) (\<lambda>_. free)
      (\<lambda>x w'. exn_class x = ProcessKilled \<or> free w') w" if "free w" for n attempt w
    using that
  proof (induction n arbitrary: attempt w)
    case (Suc n)
    have wait: "wp (thenM (sleep d) (token_loop sleep policy (locked_call lock unlock inner) n (attempt + 1))) (\<lambda>_. free)
        (\<lambda>x w'. exn_class x = ProcessKilled \<or> free w') u" if "free u" for d u
      unfolding wp_thenM by (rule wp_mono [OF sleep_law [OF that]]) (use Suc.IH in auto)
    show ?case
      unfolding token_loop.simps wp_tryM
      by (rule wp_mono [OF call_frees [OF Suc.prems]]) (auto simp: wp_raise wait)
  qed (simp add: wp_raise)
  then show ?thesis unfolding get_token_def using assms by blast
qed

end

section \<open>FileLock keeps the contract\<close>

definition lock_free :: "string \<Rightarrow> 'z token_world_scheme \<Rightarrow> bool" where
  "lock_free name w \<longleftrightarrow> name \<notin> set (tk_held w)"

definition token_request :: "string \<Rightarrow> ('z store_scheme, string) eff" where
  "token_request token = storage_call (ret token)"

text \<open>Held by the call that is under way: leaving frees it.\<close>

definition held_once :: "string \<Rightarrow> 'z token_world_scheme \<Rightarrow> bool" where
  "held_once name w \<longleftrightarrow> name \<notin> set (remove1 name (tk_held w))"

lemma held_once_unlock: "(\<exists>v. lock_free name v \<and> file_lock_exit name w = (Inr (), v)) \<longleftrightarrow> held_once name w"
  by (simp add: lock_free_def held_once_def file_lock_exit_def modifyM_def)

lemma lock_win32_law:
  fixes w :: "'z token_world_scheme"
  shows "lock_free name w \<Longrightarrow> wp (lock_win32_loop n draw name deadline delay) (\<lambda>_. held_once name) (\<lambda>_. lock_free name) w"
proof (induction n arbitrary: delay w)
  case (Suc n)
  have "wp (sleepM d) (\<lambda>_. lock_free name) e u" if "lock_free name u" for d e and u :: "'z token_world_scheme"
    using that by (simp add: sleepM_def wp_modifyM lock_free_def)
  then have wait: "wp (thenM (sleepM d) (lock_win32_loop n draw name deadline d')) (\<lambda>_. held_once name) (\<lambda>_. lock_free name) u"
    if "lock_free name u" for d d' and u :: "'z token_world_scheme"
    unfolding wp_thenM by (rule wp_mono) (use that Suc.IH in auto)
  have "wp (try_lock name) (\<lambda>b u. if b then held_once name u else lock_free name u) e w" for e
    using Suc.prems by (auto simp: wp_def try_lock_def lock_free_def held_once_def split: nat.split)
  then show ?case
    unfolding lock_win32_loop.simps wp_bindM [of "try_lock name"]
    by (rule wp_mono) (auto simp: wp_ret wp_raise wp_bindM now_us_def wp_asks wait split: if_splits)
qed (simp add: wp_raise)

lemma file_lock_laws:
  fixes w :: "'z token_world_scheme"
  shows "lock_free name w \<Longrightarrow> wp (file_lock_enter win32 draw name timeout) (\<lambda>_. held_once name) (\<lambda>_. lock_free name) w"
    and "held_once name w \<Longrightarrow> wp (token_request token) (\<lambda>_. held_once name) (\<lambda>_. held_once name) w"
    and "lock_free name w \<Longrightarrow> wp (sleepM d) (\<lambda>_. lock_free name) (\<lambda>_. lock_free name) w"
proof -
  show "wp (file_lock_enter win32 draw name timeout) (\<lambda>_. held_once name) (\<lambda>_. lock_free name) w" if "lock_free name w"
    using that lock_win32_law [OF that]
    by (auto simp: file_lock_enter_def lock_win32_def wp_bindM now_us_def wp_asks flock_ex_def wp_modifyM held_once_def lock_free_def)
  show "wp (token_request token) (\<lambda>_. held_once name) (\<lambda>_. held_once name) w" if "held_once name w"
    unfolding token_request_def using that by (intro wp_storage_call) (simp_all add: wp_ret held_once_def)
  show "wp (sleepM d) (\<lambda>_. lock_free name) (\<lambda>_. lock_free name) w" if "lock_free name w"
    using that by (simp add: sleepM_def wp_modifyM lock_free_def)
qed

interpretation file_locked: token_source "file_lock_enter win32 draw name timeout" "file_lock_exit name"
    "token_request token" sleepM "lock_free name :: 'z token_world_scheme \<Rightarrow> bool" for win32 draw name timeout token
  by unfold_locales (unfold held_once_unlock, (rule file_lock_laws, assumption)+)

section \<open>How often a token is requested\<close>

definition total_delay :: "token_policy \<Rightarrow> int \<Rightarrow> nat \<Rightarrow> int" where
  "total_delay policy attempt n =
     (\<Sum>i\<leftarrow>[0..<n]. max 0 \<lceil>min (tp_initial_delay_seconds policy * of_int (attempt + int i)) (tp_max_delay_seconds policy) * 1000000\<rceil>)"

lemma total_delay_Suc:
  "total_delay policy attempt (Suc n) =
     max 0 \<lceil>min (tp_initial_delay_seconds policy * of_int attempt) (tp_max_delay_seconds policy) * 1000000\<rceil> + total_delay policy (attempt + 1) n"
proof -
  have "[0..<Suc n] = 0 # map Suc [0..<n]" by (simp add: map_Suc_upt upt_conv_Cons del: upt_Suc)
  then show ?thesis unfolding total_delay_def by (simp add: o_def add.assoc add.commute [of 1] del: upt_Suc)
qed

lemma locked_request:
  fixes w :: "'z token_world_scheme"
  shows "st_faults w = NoFault # fs \<Longrightarrow> locked_call (flock_ex name) (file_lock_exit name) (token_request token) w =
      (Inr token, w\<lparr>st_faults := fs, tk_busy := 0\<rparr>)"
    and "st_faults w = FailBefore (NoCredential m) # fs \<Longrightarrow> locked_call (flock_ex name) (file_lock_exit name) (token_request token) w =
      (Inl (PyExn CredentialUnavailableError m), w\<lparr>st_faults := fs, tk_busy := 0\<rparr>)"
  by (simp_all add: locked_call_def flock_ex_def run_thenM run_modifyM finallyM_def token_request_def storage_call_def
      file_lock_exit_def run_ret)

lemma then_sleep: "thenM (sleepM d) k w = k (w\<lparr>st_clock := st_clock w + max 0 \<lceil>d * 1000000\<rceil>\<rparr>)"
  by (simp add: sleepM_def run_thenM_modifyM)

lemma token_loop_run:
  fixes w :: "'z token_world_scheme"
  assumes "st_faults w = map (FailBefore \<circ> NoCredential) ms @ NoFault # fs" and "attempt + int (length ms) \<le> tp_max_retries policy + 1"
    and "length ms < n"
  shows "token_loop sleepM policy (locked_call (flock_ex name) (file_lock_exit name) (token_request token)) n attempt w =
      (Inr token, w\<lparr>st_faults := fs, tk_busy := 0, st_clock := st_clock w + total_delay policy attempt (length ms)\<rparr>)"
  using assms
proof (induction ms arbitrary: w n attempt)
  case Nil
  then show ?case by (cases n) (simp_all add: run_tryM locked_request(1) total_delay_def)
next
  case (Cons m ms)
  then obtain k where n: "n = Suc k" by (cases n) auto
  let ?d = "min (tp_initial_delay_seconds policy * of_int attempt) (tp_max_delay_seconds policy)"
  let ?w = "w\<lparr>st_faults := map (FailBefore \<circ> NoCredential) ms @ NoFault # fs, tk_busy := 0, st_clock := st_clock w + max 0 \<lceil>?d * 1000000\<rceil>\<rparr>"
  have IH: "token_loop sleepM policy (locked_call (flock_ex name) (file_lock_exit name) (token_request token)) k (attempt + 1) ?w =
      (Inr token, ?w\<lparr>st_faults := fs, tk_busy := 0, st_clock := st_clock ?w + total_delay policy (attempt + 1) (length ms)\<rparr>)"
    using Cons.prems n by (intro Cons.IH) simp_all
  have "\<not> tp_max_retries policy < attempt" using Cons.prems(2) by simp
  then have step: "token_loop sleepM policy (locked_call (flock_ex name) (file_lock_exit name) (token_request token)) n attempt w =
      token_loop sleepM policy (locked_call (flock_ex name) (file_lock_exit name) (token_request token)) k (attempt + 1) ?w"
    using Cons.prems(1) by (simp add: n run_tryM locked_request(2) then_sleep comp_def)
  show ?case unfolding step IH by (simp add: total_delay_Suc add.assoc)
qed

text \<open>
  C0: \<open>get_token\<close> outlasts a transient failure of the credential: when at most \<open>max_retries\<close> requests fail
  before one succeeds, it returns that token, having waited exactly the linear, capped delays in between,
  and the lock is free again.
\<close>

theorem token_acquired_within_retries:
  fixes w :: "'z token_world_scheme"
  assumes "st_faults w = map (FailBefore \<circ> NoCredential) ms @ NoFault # fs" and "int (length ms) \<le> tp_max_retries policy"
  shows "get_token sleepM policy (file_lock_enter False draw name timeout) (file_lock_exit name) (token_request token) w =
      (Inr token, w\<lparr>st_faults := fs, tk_busy := 0, st_clock := st_clock w + total_delay policy 1 (length ms)\<rparr>)"
  using assms token_loop_run [OF assms(1), of 1 policy "nat (tp_max_retries policy + 1)"]
  by (simp add: get_token_def file_lock_enter_def)

theorem token_acquired_within_retries_witness:
  "let w = \<lparr>st_faults = [FailBefore (NoCredential ''az''), NoFault], st_clock = 0, st_etag = 0, st_tables = (\<lambda>_. empty_dir),
      tk_held = [], tk_busy = 0\<rparr> in
   fst (get_token sleepM default_token_policy (file_lock_enter False (\<lambda>_. 0) ''l'' 120) (file_lock_exit ''l'') (token_request ''t'') w) = Inr ''t''"
  unfolding Let_def
  by (subst token_acquired_within_retries [where ms = "[''az'']" and fs = "[]"]) (simp_all add: default_token_policy_def)

section \<open>build\_credential\<close>

datatype credential_source = AzureCli | CustomCredential string "(string \<times> json) list"

record locked_credential =
  lc_source :: credential_source
  lc_lock :: string
  lc_policy :: token_policy

definition build_credential :: "scope_credentials \<Rightarrow> token_policy option \<Rightarrow> locked_credential" where
  "build_credential c given =
     (let policy = (case given of Some p \<Rightarrow> p | None \<Rightarrow> from_http_retries (Some (http_retries c)));
          auth = py_lower (if authentication c = [] then ''cli'' else authentication c) in
      if auth = ''token_credential''
      then \<lparr>lc_source = CustomCredential (case credential_class c of None \<Rightarrow> [] | Some d \<Rightarrow> d) (credential_kwargs c),
             lc_lock = ''dbt-scope-fabric-token'', lc_policy = policy\<rparr>
      else \<lparr>lc_source = AzureCli, lc_lock = ''dbt-scope-az-cli-token'', lc_policy = policy\<rparr>)"

section \<open>load\_custom\_credential\<close>

text \<open>\<open>_DOTTED_PATH_PATTERN\<close>: identifiers joined by dots, two at least; \<open>$\<close> also matches before a final line break.\<close>

definition is_identifier :: "string \<Rightarrow> bool" where
  "is_identifier s =
     (case s of [] \<Rightarrow> False | c # t \<Rightarrow> (is_alpha c \<or> c = CHR ''_'') \<and> list_all (\<lambda>d. is_alpha d \<or> is_digit d \<or> d = CHR ''_'') t)"

fun split_dots :: "string \<Rightarrow> string list" where
  "split_dots [] = [[]]"
| "split_dots (c # s) =
     (if c = CHR ''.'' then [] # split_dots s
      else case split_dots s of p # ps \<Rightarrow> (c # p) # ps | [] \<Rightarrow> [[c]])"

definition is_dotted_path :: "string \<Rightarrow> bool" where
  "is_dotted_path s \<longleftrightarrow>
     (let t = (if s \<noteq> [] \<and> last s = CHR 0x0A then butlast s else s); parts = split_dots t
      in 2 \<le> length parts \<and> list_all is_identifier parts)"

text \<open>What Python's import system answers: modules, their attributes, and what calling a class gives.\<close>

record ('c, 'k) importer =
  im_module :: "string \<Rightarrow> pyexn + unit"
  im_class :: "string \<Rightarrow> string \<Rightarrow> 'k option"
  im_new :: "'k \<Rightarrow> (string \<times> json) list \<Rightarrow> pyexn + 'c"
  im_is_credential :: "'c \<Rightarrow> bool"

type_synonym 'c credential_cache = "((string \<times> (string \<times> json) list) \<times> 'c) list"

definition cache_key :: "string \<Rightarrow> (string \<times> json) list \<Rightarrow> string \<times> (string \<times> json) list" where
  "cache_key dotted kwargs = (dotted, sort_key fst kwargs)"

text \<open>The result and the cache afterwards; an exception that no \<open>except\<close> names is passed on as it is.\<close>

definition load_custom_credential ::
    "('c, 'k) importer \<Rightarrow> string \<Rightarrow> (string \<times> json) list \<Rightarrow> 'c credential_cache \<Rightarrow> (pyexn + 'c) \<times> 'c credential_cache" where
  "load_custom_credential im dotted kwargs cache =
     (if dotted = [] then
        (Inl (dbt_error (''authentication='' @ squoted ''token_credential'' @ '' requires `credential_class` (dotted path to an azure.core.credentials.TokenCredential).'')), cache)
      else if \<not> is_dotted_path dotted then
        (Inl (dbt_error (''credential_class must be a dotted path like '' @ squoted ''pkg.module.ClassName'' @ '', got: '' @ jrepr (JStr dotted))), cache)
      else case map_of cache (cache_key dotted kwargs) of
        Some c \<Rightarrow> (Inr c, cache)
      | None \<Rightarrow>
          (let parts = split_dots dotted; module_path = py_join ''.'' (butlast parts); class_name = last parts in
           case im_module im module_path of
             Inl e \<Rightarrow> (Inl (dbt_error (''Could not import module for credential_class='' @ jrepr (JStr dotted) @ '': '' @ exn_text e)), cache)
           | Inr _ \<Rightarrow>
               (case im_class im module_path class_name of
                  None \<Rightarrow> (Inl (dbt_error (''Module '' @ jrepr (JStr module_path) @ '' has no attribute '' @ jrepr (JStr class_name) @
                    '' (from credential_class='' @ jrepr (JStr dotted) @ '')'')), cache)
                | Some k \<Rightarrow>
                    (case im_new im k kwargs of
                       Inl e \<Rightarrow>
                         (if exn_class e = TypeErr
                          then (Inl (dbt_error (''Failed to instantiate '' @ jrepr (JStr dotted) @ '' with credential_kwargs: '' @ exn_text e)), cache)
                          else (Inl e, cache))
                     | Inr c \<Rightarrow>
                         if \<not> im_is_credential im c then
                           (Inl (dbt_error (jrepr (JStr dotted) @ '' must implement azure.core.credentials.TokenCredential (missing callable get_token).'')), cache)
                         else (Inr c, assoc_put (cache_key dotted kwargs) c cache)))))"

lemma load_custom_credential_cached:
  assumes "load_custom_credential im dotted kwargs cache = (Inr c, cache')"
  shows "load_custom_credential im dotted kwargs cache' = (Inr c, cache')"
    and "map_of cache' (cache_key dotted kwargs) = Some c"
  using assms
  by (auto simp: load_custom_credential_def Let_def split: if_splits option.splits sum.splits)

end
