(* ===== verification/Token_Relay.thy ===== *)
theory Token_Relay
  imports Source_Paths Storage_World
begin

text \<open>
  The token relay of the CI (\<open>.github/scripts/imds_relay_router.py\<close>): the HTTP routes, the token cache and
  the requests to the relay with their retries. The signature of a request, Base64 of an HMAC-SHA256, is
  an argument, and so are the relay's answers; reading the text of an \<open>HTTPError\<close> may fail as well. The
  lemmas show which token a request is served, how often the relay is asked, and that what is sent to
  it can be read back. Strings are UTF-8 bytes; a request target and the relay's URL hold no white space
  and no unbalanced brackets.
\<close>

section \<open>urllib.parse\<close>

definition is_unreserved :: "char \<Rightarrow> bool" where
  "is_unreserved c \<longleftrightarrow> is_alnum_ascii c \<or> c \<in> {CHR ''_'', CHR ''.'', CHR ''-'', CHR ''~''}"

definition hex_digit :: "nat \<Rightarrow> char" where
  "hex_digit d = (if d < 10 then char_of (48 + d) else char_of (55 + d))"

definition percent :: "char \<Rightarrow> string" where
  "percent c = [CHR ''%'', hex_digit (of_char c div 16), hex_digit (of_char c mod 16)]"

text \<open>\<open>quote(s, safe='')\<close>, \<open>quote_plus(s)\<close> and \<open>unquote(s.replace('+', ' '))\<close>.\<close>

definition url_quote :: "string \<Rightarrow> string" where
  "url_quote s = concat (map (\<lambda>c. if is_unreserved c then [c] else percent c) s)"

definition quote_plus :: "string \<Rightarrow> string" where
  "quote_plus s = concat (map (\<lambda>c. if is_unreserved c then [c] else if c = CHR '' '' then ''+'' else percent c) s)"

definition unquote_plus :: "string \<Rightarrow> string" where
  "unquote_plus s = unquote (replace_char CHR ''+'' '' '' s)"

fun split_char :: "char \<Rightarrow> string \<Rightarrow> string list" where
  "split_char d [] = [[]]"
| "split_char d (c # s) =
     (if c = d then [] # split_char d s
      else case split_char d s of [] \<Rightarrow> [[c]] | t # ts \<Rightarrow> (c # t) # ts)"

text \<open>\<open>parse_qs\<close> as the list of its fields; a field without \<open>=\<close> or without a value is dropped.\<close>

definition parse_field :: "string \<Rightarrow> (string \<times> string) option" where
  "parse_field f =
     (let v = drop 1 (dropWhile (\<lambda>c. c \<noteq> CHR ''='') f)
      in if v = [] then None else Some (unquote_plus (before_first CHR ''='' f), unquote_plus v))"

definition parse_qs :: "string \<Rightarrow> (string \<times> string) list" where
  "parse_qs q = List.map_filter parse_field (split_char CHR ''&'' q)"

record url =
  ur_netloc :: string
  ur_path :: string
  ur_query :: string

text \<open>
  \<open>urlparse\<close>: the scheme, the network location, then fragment, query and the parameters of the last
  path segment, which schemes other than \<open>http\<close>, \<open>https\<close> and the empty one are not used with here.
\<close>

definition after_first :: "char \<Rightarrow> string \<Rightarrow> string" where
  "after_first d s = drop 1 (dropWhile (\<lambda>c. c \<noteq> d) s)"

definition drop_scheme :: "string \<Rightarrow> string" where
  "drop_scheme s =
     (let scheme = before_first CHR '':'' s
      in if scheme \<noteq> [] \<and> scheme \<noteq> s \<and> is_alpha (hd s) \<and> list_all is_scheme_char scheme then after_first CHR '':'' s else s)"

definition drop_params :: "string \<Rightarrow> string" where
  "drop_params p = take (length p - length (after_last CHR ''/'' p)) p @ before_first CHR '';'' (after_last CHR ''/'' p)"

definition urlparse :: "string \<Rightarrow> url" where
  "urlparse s =
     (let rest = drop_scheme s;
          has = py_startswith rest ''//'';
          netloc = (if has then takeWhile (\<lambda>c. c \<notin> {CHR ''/'', CHR ''?'', CHR ''#''}) (drop 2 rest) else []);
          rest = (if has then drop (2 + length netloc) rest else rest);
          rest = before_first CHR ''#'' rest
      in \<lparr>ur_netloc = netloc, ur_path = drop_params (before_first CHR ''?'' rest), ur_query = after_first CHR ''?'' rest\<rparr>)"

text \<open>\<open>parsed.hostname\<close>: without user, port and the brackets of an IPv6 address, in lower case up to its zone.\<close>

definition hostname :: "url \<Rightarrow> string option" where
  "hostname u =
     (let info = after_last CHR ''@'' (ur_netloc u);
          name = (if CHR ''['' \<in> set info then before_first CHR '']'' (after_first CHR ''['' info) else before_first CHR '':'' info);
          host = before_first CHR ''%'' name
      in if name = [] then None else Some (py_lower host @ drop (length host) name))"

section \<open>The relay\<close>

record relay_config =
  rc_relay_url :: string
  rc_sender_key :: string
  rc_key_name :: string
  rc_identity_header :: string
  rc_max_attempts :: int
  rc_skew_sec :: int
  rc_probe_resource :: string
  rc_probe_client_id :: "string option"
  rc_subscription_id :: string
  rc_signature :: "string \<Rightarrow> string \<Rightarrow> string"

text \<open>
  What the \<open>try\<close> block meets: the decoded body, an \<open>HTTPError\<close> with its status and text, or another
  exception (name and message) of the request, its timeout or the decoder. The text of an \<open>HTTPError\<close>
  is read and decoded in the handler: its bytes may not be UTF-8, and the connection may fail.
\<close>

datatype error_text = ErrorText string | Undecodable string | Unreadable string

datatype relay_answer = Answered json | HttpError int error_text | Failed string string

definition read_error_text :: "error_text \<Rightarrow> pyexn + string" where
  "read_error_text t = (case t of
     ErrorText detail \<Rightarrow> Inr detail
   | Undecodable message \<Rightarrow> Inl (PyExn ValueErr message)
   | Unreadable message \<Rightarrow> Inl (PyExn OtherError message))"

record token_entry =
  te_access_token :: json
  te_expires_on :: int

text \<open>
  \<open>rl_answers\<close> are the answers to come; when there is none left, the relay refuses the connection.
  \<open>rl_exchanges\<close> records what was sent, URL and \<open>ServiceBusAuthorization\<close>, and how it was answered.
\<close>

record relay = store +
  rl_answers :: "relay_answer list"
  rl_exchanges :: "(string \<times> string \<times> relay_answer) list"
  rl_cache :: "(string \<times> token_entry) list"

definition relay_sas_uri :: "string \<Rightarrow> string" where
  "relay_sas_uri s =
     (let u = urlparse s; path = rstrip_if is_slash (ur_path u);
          path = (if py_endswith path ''/token'' then take (length path - 6) path else path)
      in ''http://'' @ (case hostname u of None \<Rightarrow> ''None'' | Some h \<Rightarrow> h) @ path)"

definition generate_sas_token :: "relay_config \<Rightarrow> string \<Rightarrow> int \<Rightarrow> ('z relay_scheme, string) eff" where
  "generate_sas_token c uri expiry_seconds =
     bindM now_seconds (\<lambda>now.
     let expiry = now + expiry_seconds; sts = url_quote uri @ CHR 0x0A # show_int expiry
     in ret (''SharedAccessSignature sr='' @ url_quote uri @ ''&sig='' @ url_quote (rc_signature c (rc_sender_key c) sts) @
       ''&se='' @ show_int expiry @ ''&skn='' @ rc_key_name c))"

definition relay_request :: "string \<Rightarrow> string \<Rightarrow> ('z relay_scheme, relay_answer) eff" where
  "relay_request uri sas = (\<lambda>w.
     let a = (case rl_answers w of
                [] \<Rightarrow> Failed ''URLError'' ''<urlopen error [Errno 111] Connection refused>''
              | a # _ \<Rightarrow> a)
     in (Inr a, w\<lparr>rl_answers := drop 1 (rl_answers w), rl_exchanges := rl_exchanges w @ [(uri, sas, a)]\<rparr>))"

fun json_type :: "json \<Rightarrow> string" where
  "json_type JNull = ''NoneType''"
| "json_type (JBool _) = ''bool''"
| "json_type (JInt _) = ''int''"
| "json_type (JStr _) = ''str''"
| "json_type (JList _) = ''list''"
| "json_type (JDict _) = ''dict''"

text \<open>
  One attempt: the token of an answer, or the error to remember; an exception out of the \<open>HTTPError\<close>
  clause is caught by no clause of the same \<open>try\<close>.
\<close>

definition usable :: "relay_answer \<Rightarrow> pyexn + (string + (string \<times> json) list)" where
  "usable a =
     (case a of
        Answered (JDict body) \<Rightarrow>
          Inr (if jtruthy (dget body ''access_token'' (JStr [])) then Inr body else Inl ''relay returned empty access_token'')
      | Answered v \<Rightarrow> Inr (Inl (''AttributeError: '' @ squoted (json_type v) @ '' object has no attribute '' @ squoted ''get''))
      | HttpError code text \<Rightarrow>
          bindE (read_error_text text) (\<lambda>detail. Inr (Inl (''Relay HTTP '' @ show_int code @ '': '' @ take 200 detail)))
      | Failed name message \<Rightarrow> Inr (Inl (name @ '': '' @ message)))"

fun fetch_loop ::
    "relay_config \<Rightarrow> string \<Rightarrow> nat \<Rightarrow> nat \<Rightarrow> string \<Rightarrow> ('z relay_scheme, (string \<times> json) list option \<times> string) eff" where
  "fetch_loop c uri 0 attempt last_error = ret (None, last_error)"
| "fetch_loop c uri (Suc n) attempt last_error =
     bindM (generate_sas_token c (relay_sas_uri (rc_relay_url c)) 3600) (\<lambda>sas.
     bindM (relay_request uri sas) (\<lambda>answer.
     bindM (liftE (usable answer)) (\<lambda>attempted.
       case attempted of
         Inr body \<Rightarrow> ret (Some body, [])
       | Inl e \<Rightarrow> thenM (whenM (n \<noteq> 0) (sleepM (min (2 ^ attempt) 10))) (fetch_loop c uri n (Suc attempt) e))))"

definition relay_uri :: "relay_config \<Rightarrow> string \<Rightarrow> string option \<Rightarrow> string" where
  "relay_uri c resource client_id =
     rc_relay_url c @ ''?resource='' @ quote_plus resource @
     (case client_id of None \<Rightarrow> [] | Some i \<Rightarrow> if i = [] then [] else ''&client_id='' @ quote_plus i)"

definition fetch_token_from_relay ::
    "relay_config \<Rightarrow> string \<Rightarrow> string option \<Rightarrow> ('z relay_scheme, (string \<times> json) list option \<times> string) eff" where
  "fetch_token_from_relay c resource client_id =
     fetch_loop c (relay_uri c resource client_id) (nat (rc_max_attempts c)) 1 ''unknown error''"

section \<open>TokenCache\<close>

definition is_fresh :: "relay_config \<Rightarrow> int \<Rightarrow> token_entry \<Rightarrow> bool" where
  "is_fresh c now e \<longleftrightarrow> rc_skew_sec c < te_expires_on e - now"

definition cache_get :: "relay_config \<Rightarrow> string \<Rightarrow> ('z relay_scheme, token_entry option) eff" where
  "cache_get c key =
     bindM now_seconds (\<lambda>now.
     bindM (asks (\<lambda>w. map_of (rl_cache w) key)) (\<lambda>hit.
       case hit of
         None \<Rightarrow> ret None
       | Some e \<Rightarrow>
           if is_fresh c now e then ret (Some e)
           else thenM (modifyM (\<lambda>w. w\<lparr>rl_cache := filter (\<lambda>x. fst x \<noteq> key) (rl_cache w)\<rparr>)) (ret None)))"

definition cache_set :: "string \<Rightarrow> token_entry \<Rightarrow> ('z relay_scheme, unit) eff" where
  "cache_set key e = modifyM (\<lambda>w. w\<lparr>rl_cache := assoc_put key e (rl_cache w)\<rparr>)"

definition parse_expires_on :: "json \<Rightarrow> int option" where
  "parse_expires_on v = (case jint v of Inr i \<Rightarrow> Some i | Inl _ \<Rightarrow> None)"

section \<open>Handler\<close>

text \<open>A response: the status and the fields of the JSON object.\<close>

type_synonym response = "int \<times> (string \<times> json) list"

definition relay_cache_key :: "string \<Rightarrow> string option \<Rightarrow> string" where
  "relay_cache_key resource client_id =
     (case client_id of None \<Rightarrow> resource | Some i \<Rightarrow> if i = [] then resource else resource @ ''|client_id='' @ i)"

definition token_response :: "json \<Rightarrow> string \<Rightarrow> string \<Rightarrow> response" where
  "token_response access_token expires_on resource =
     (200, [(''access_token'', access_token), (''expires_on'', JStr expires_on), (''resource'', JStr resource),
            (''token_type'', JStr ''Bearer'')])"

definition requested_resource :: "string \<Rightarrow> string" where
  "requested_resource q = (case map_of (parse_qs q) ''resource'' of None \<Rightarrow> ''https://management.azure.com/'' | Some r \<Rightarrow> r)"

definition handle_token :: "relay_config \<Rightarrow> string option \<Rightarrow> string \<Rightarrow> ('z relay_scheme, response) eff" where
  "handle_token c header query =
     (if (case header of None \<Rightarrow> [] | Some h \<Rightarrow> h) \<noteq> rc_identity_header c
      then ret (403, [(''error'', JStr ''Invalid X-IDENTITY-HEADER'')])
      else
        let resource = requested_resource query; client_id = map_of (parse_qs query) ''client_id''
        in if rc_relay_url c = [] \<or> rc_sender_key c = []
           then ret (500, [(''error'', JStr ''IMDS_RELAY_URL or IMDS_RELAY_SENDER_KEY not set'')])
           else
             let key = relay_cache_key resource client_id in
             bindM (cache_get c key) (\<lambda>cached.
               case cached of
                 Some e \<Rightarrow> ret (token_response (te_access_token e) (show_int (te_expires_on e)) resource)
               | None \<Rightarrow>
                   bindM (fetch_token_from_relay c resource client_id) (\<lambda>(body, error).
                     case body of
                       Some b \<Rightarrow>
                         let token = dget b ''access_token'' (JStr []) in
                         thenM (case parse_expires_on (dget b ''expires_on'' JNull) of
                                  Some i \<Rightarrow> cache_set key \<lparr>te_access_token = token, te_expires_on = i\<rparr>
                                | None \<Rightarrow> ret ())
                           (ret (token_response token (jstr (dget b ''expires_on'' (JStr []))) resource))
                     | None \<Rightarrow> ret (502, [(''error'', JStr ''Relay token request failed''), (''detail'', JStr (take 500 error))]))))"

definition do_GET :: "relay_config \<Rightarrow> string option \<Rightarrow> string \<Rightarrow> ('z relay_scheme, response) eff" where
  "do_GET c header target =
     (let path = ur_path (urlparse target) in
      if path = ''/healthz'' then ret (200, [(''Healthy'', JBool True)])
      else if path \<in> {''/metadata/identity/oauth2/token'', ''/token''} then handle_token c header (ur_query (urlparse target))
      else if py_startswith path ''/metadata/instance''
      then ret (200, [(''compute'', JDict [(''subscriptionId'', JStr (rc_subscription_id c)),
        (''resourceGroupName'', JStr ''github-actions''), (''name'', JStr ''github-runner'')])])
      else ret (404, [(''error'', JStr ''Not found'')]))"

text \<open>\<open>_validate_startup\<close>: \<open>False\<close> is \<open>sys.exit(1)\<close>.\<close>

definition validate_startup :: "relay_config \<Rightarrow> ('z relay_scheme, bool) eff" where
  "validate_startup c =
     (if rc_relay_url c = [] \<or> rc_sender_key c = [] then ret False
      else
        bindM (fetch_token_from_relay c (rc_probe_resource c)
                 (case rc_probe_client_id c of Some i \<Rightarrow> if i = [] then None else Some i | None \<Rightarrow> None)) (\<lambda>(body, _).
          ret (case body of None \<Rightarrow> False | Some b \<Rightarrow> jtruthy (dget b ''access_token'' (JStr [])))))"

section \<open>What is quoted can be read back\<close>

lemma hex_val_digit: "d < 16 \<Longrightarrow> hex_val (hex_digit d) = Some d"
  by (auto simp: hex_val_def hex_digit_def Let_def)

lemma nibbles: "(of_char (c :: char) :: nat) div 16 < 16" "(of_char (c :: char) :: nat) mod 16 < 16"
  by (simp_all add: less_mult_imp_div_less)

lemma unquote_percent: "unquote (percent c @ s) = c # unquote s"
  using nibbles [of c] by (simp add: percent_def hex_val_digit)

lemma unquote_plain: "c \<noteq> CHR ''%'' \<Longrightarrow> unquote (c # s) = c # unquote s"
  by (cases s; cases "tl s") auto

lemma unreserved_plain: "is_unreserved c \<Longrightarrow> c \<notin> {CHR ''%'', CHR ''+'', CHR ''&'', CHR ''='', CHR '' ''}"
  by (auto simp: is_unreserved_def is_alnum_ascii_def is_alpha_def is_upper_def is_lower_def is_digit_def)

lemma hex_digit_plain: "d < 16 \<Longrightarrow> hex_digit d \<notin> {CHR ''+'', CHR ''&'', CHR ''='', CHR '' ''}"
proof
  assume "d < 16" and "hex_digit d \<in> {CHR ''+'', CHR ''&'', CHR ''='', CHR '' ''}"
  moreover have "hex_val x = None" if "x \<in> {CHR ''+'', CHR ''&'', CHR ''='', CHR '' ''}" for x
    using that by (auto simp: hex_val_def)
  ultimately show False by (metis hex_val_digit option.distinct(1))
qed

lemma unquote_url_quote: "unquote (url_quote s) = s"
  by (induction s) (auto simp: url_quote_def unquote_percent unquote_plain dest: unreserved_plain)

lemma percent_plain: "x \<in> set (percent c) \<Longrightarrow> x \<notin> {CHR ''+'', CHR ''&'', CHR ''='', CHR '' ''}"
  using hex_digit_plain [OF nibbles(1) [of c]] hex_digit_plain [OF nibbles(2) [of c]] by (auto simp: percent_def)

lemma replace_char_append: "replace_char d r (s @ t) = replace_char d r s @ replace_char d r t"
  by (simp add: replace_char_def)

lemma replace_char_absent: "d \<notin> set s \<Longrightarrow> replace_char d r s = s"
  by (induction s) (auto simp: replace_char_def)

lemma replace_char_single: "replace_char d r [d] = r"
  by (simp add: replace_char_def)

lemma unquote_quote_plus: "unquote_plus (quote_plus s) = s"
proof (induction s)
  case Nil
  show ?case by (simp add: unquote_plus_def quote_plus_def replace_char_def)
next
  case (Cons c s)
  have pc: "CHR ''+'' \<notin> set (percent c)" using percent_plain by blast
  have up: "is_unreserved c \<Longrightarrow> CHR ''+'' \<notin> set [c]" using unreserved_plain [of c] by auto
  let ?p = "if is_unreserved c then [c] else if c = CHR '' '' then ''+'' else percent c"
  have "unquote_plus (quote_plus (c # s)) = unquote (replace_char CHR ''+'' '' '' ?p @ replace_char CHR ''+'' '' '' (quote_plus s))"
    by (simp add: unquote_plus_def quote_plus_def replace_char_append)
  moreover have "replace_char CHR ''+'' '' '' ?p = (if is_unreserved c then [c] else if c = CHR '' '' then '' '' else percent c)"
    using pc up by (auto simp: replace_char_absent replace_char_single)
  ultimately show ?case
    using Cons.IH unreserved_plain [of c]
    by (cases "is_unreserved c"; cases "c = CHR '' ''") (simp_all add: unquote_plus_def unquote_percent unquote_plain)
qed

lemma quote_plus_set: "x \<in> set (quote_plus s) \<Longrightarrow> \<exists>c. x = CHR ''+'' \<or> is_unreserved x \<or> x \<in> set (percent c)"
  unfolding quote_plus_def by (induction s) (simp_all split: if_splits, blast+)

lemma quote_plus_plain: "CHR ''&'' \<notin> set (quote_plus s)" "CHR ''='' \<notin> set (quote_plus s)"
proof -
  have *: "x \<noteq> CHR ''&'' \<and> x \<noteq> CHR ''=''" if "x \<in> set (quote_plus s)" for x
    using quote_plus_set [OF that]
  proof (elim exE disjE)
    assume "x = CHR ''+''" then show ?thesis by simp
  next
    assume "is_unreserved x" then show ?thesis by (auto dest: unreserved_plain)
  next
    fix c assume "x \<in> set (percent c)" then show ?thesis by (auto dest: percent_plain)
  qed
  show "CHR ''&'' \<notin> set (quote_plus s)" "CHR ''='' \<notin> set (quote_plus s)" using * by blast+
qed

lemma quote_plus_Nil [simp]: "quote_plus s = [] \<longleftrightarrow> s = []"
proof (cases s)
  case (Cons c t)
  have "percent c \<noteq> []" by (simp add: percent_def)
  then show ?thesis unfolding Cons quote_plus_def by simp
qed (simp add: quote_plus_def)

lemma split_char_absent: "d \<notin> set s \<Longrightarrow> split_char d s = [s]"
  by (induction s) auto

lemma split_char_append: "d \<notin> set s \<Longrightarrow> split_char d (s @ d # t) = s # split_char d t"
  by (induction s) auto

lemma parse_quoted_field:
  assumes "CHR ''='' \<notin> set n" and "unquote_plus n = m"
  shows "parse_field (n @ CHR ''='' # quote_plus v) = (if v = [] then None else Some (m, v))"
  using assms by (simp add: parse_field_def before_first_def takeWhile_not_mem_append dropWhile_not_mem_append unquote_quote_plus)

text \<open>The query of the relay's URL names exactly the resource and the client that were asked for.\<close>

lemma relay_query_names_scope:
  assumes "resource \<noteq> []"
  shows "parse_qs (drop (length (rc_relay_url c) + 1) (relay_uri c resource client_id)) =
    (''resource'', resource) # (case client_id of None \<Rightarrow> [] | Some i \<Rightarrow> if i = [] then [] else [(''client_id'', i)])"
proof -
  have n: "unquote_plus ''resource'' = ''resource''" "unquote_plus ''client_id'' = ''client_id''"
    by (simp_all add: unquote_plus_def replace_char_def)
  have amp: "CHR ''&'' \<notin> set (''resource='' @ quote_plus resource)" "CHR ''&'' \<notin> set (''client_id='' @ quote_plus i)" for i
    using quote_plus_plain(1) by simp_all
  have one: "parse_field (''resource='' @ quote_plus resource) = Some (''resource'', resource)"
    using parse_quoted_field [of "''resource''", OF _ n(1)] assms by simp
  have two: "parse_field (''client_id='' @ quote_plus i) = (if i = [] then None else Some (''client_id'', i))" for i
    using parse_quoted_field [of "''client_id''", OF _ n(2)] by simp
  show ?thesis
  proof (cases "\<exists>i. client_id = Some i \<and> i \<noteq> []")
    case True
    then obtain i where i: "client_id = Some i" "i \<noteq> []" by blast
    have "drop (length (rc_relay_url c) + 1) (relay_uri c resource client_id) =
        (''resource='' @ quote_plus resource) @ CHR ''&'' # (''client_id='' @ quote_plus i)"
      using i by (simp add: relay_uri_def)
    then show ?thesis
      unfolding parse_qs_def by (simp only: split_char_append [OF amp(1)] split_char_absent [OF amp(2)])
        (use i in \<open>simp add: map_filter_simps one two del: append.simps\<close>)
  next
    case False
    then have "drop (length (rc_relay_url c) + 1) (relay_uri c resource client_id) = ''resource='' @ quote_plus resource"
      by (auto simp: relay_uri_def split: option.split)
    then show ?thesis
      unfolding parse_qs_def by (simp only: split_char_absent [OF amp(1)])
        (use False in \<open>auto simp: map_filter_simps one simp del: append.simps split: option.split\<close>)
  qed
qed

section \<open>Fetching\<close>

lemma generate_sas_token_runs: "\<exists>s. generate_sas_token c u x w = (Inr s, w)"
  by (simp add: generate_sas_token_def now_seconds_def now_us_def eff_run Let_def bindM_def)

definition tokenless :: "relay_answer \<Rightarrow> bool" where
  "tokenless a = (case usable a of Inr (Inl _) \<Rightarrow> True | _ \<Rightarrow> False)"

lemma usable_raises: "usable a = Inl x \<Longrightarrow> \<exists>code text. a = HttpError code text \<and> read_error_text text = Inl x"
  by (auto simp: usable_def bindE_def split: relay_answer.splits json.splits sum.splits)

lemma read_error_text_raises: "read_error_text t = Inl x \<Longrightarrow> exn_class x \<in> {ValueErr, OtherError}"
  by (auto simp: read_error_text_def split: error_text.splits)

text \<open>The time slept before the request that follows attempt \<open>k\<close>, and the exchanges of one fetch.\<close>

definition backoff :: "nat \<Rightarrow> int" where
  "backoff k = min (2 ^ k) 10 * 1000000"

definition fetched ::
    "nat \<Rightarrow> string \<Rightarrow> (string \<times> string \<times> relay_answer) list \<Rightarrow> pyexn + (string \<times> json) list option \<Rightarrow> bool" where
  "fetched n uri new result \<longleftrightarrow>
     length new \<le> n \<and> (\<forall>x\<in>set new. fst x = uri) \<and> (\<forall>x\<in>set (butlast new). tokenless (snd (snd x))) \<and>
     (case result of
        Inr None \<Rightarrow> length new = n \<and> (\<forall>x\<in>set new. tokenless (snd (snd x)))
      | Inr (Some b) \<Rightarrow> new \<noteq> [] \<and> usable (snd (snd (last new))) = Inr (Inr b)
      | Inl x \<Rightarrow> new \<noteq> [] \<and> (\<exists>code text. snd (snd (last new)) = HttpError code text \<and> read_error_text text = Inl x))"

lemma fetched_Nil [simp]: "fetched 0 uri [] (Inr None)"
  by (simp add: fetched_def)

lemma fetched_one: "usable a = Inr (Inr b) \<Longrightarrow> fetched (Suc n) uri [(uri, s, a)] (Inr (Some b))"
  by (simp add: fetched_def)

lemma fetched_raise: "usable a = Inl x \<Longrightarrow> fetched (Suc n) uri [(uri, s, a)] (Inl x)"
  using usable_raises [of a x] by (simp add: fetched_def)

lemma fetched_Cons: "fetched n uri new r \<Longrightarrow> usable a = Inr (Inl e) \<Longrightarrow> fetched (Suc n) uri ((uri, s, a) # new) r"
  by (auto simp: fetched_def tokenless_def split: sum.splits option.splits if_splits)

lemma sleep_backoff: "sleepM (min (2 ^ k) 10) w = (Inr (), w\<lparr>st_clock := st_clock w + backoff k\<rparr>)"
proof -
  have le: "(2 :: real) ^ k \<le> 10 \<longleftrightarrow> (2 :: int) ^ k \<le> 10"
    using of_int_le_iff [where 'a = real, of "2 ^ k" 10] by (simp only: of_int_power of_int_numeral)
  have "(min (2 ^ k) 10 :: real) * 1000000 = of_int (backoff k)"
  proof (cases "(2 :: int) ^ k \<le> 10")
    case True
    then have "min (2 ^ k) 10 = (2 :: real) ^ k" "min (2 ^ k) 10 = (2 :: int) ^ k" using le by (simp_all only: min_absorb1)
    then show ?thesis unfolding backoff_def by simp
  next
    case False
    then have "min (2 ^ k) 10 = (10 :: real)" "min (2 ^ k) 10 = (10 :: int)" using le by linarith+
    then show ?thesis unfolding backoff_def by simp
  qed
  moreover have "0 \<le> backoff k" by (simp add: backoff_def)
  ultimately show ?thesis by (simp add: sleepM_def modifyM_def)
qed

lemma fetch_loop_exchanges:
  "\<exists>r new. \<exists>w'. fetch_loop c uri n k e0 w = (r, w') \<and> rl_exchanges w' = rl_exchanges w @ new \<and>
     rl_cache w' = rl_cache w \<and> fetched n uri new (map_sum id fst r) \<and>
     st_clock w' = st_clock w + (\<Sum>j = k..<k + (length new - 1). backoff j)"
proof (induction n arbitrary: k e0 w)
  case 0
  show ?case by (simp add: ret_def)
next
  case (Suc n)
  obtain s where s: "generate_sas_token c (relay_sas_uri (rc_relay_url c)) 3600 w = (Inr s, w)"
    using generate_sas_token_runs by blast
  obtain a w1 where a: "relay_request uri s w = (Inr a, w1)" "rl_exchanges w1 = rl_exchanges w @ [(uri, s, a)]"
    "rl_cache w1 = rl_cache w" "st_clock w1 = st_clock w"
    by (simp add: relay_request_def Let_def)
  consider (raises) x where "usable a = Inl x" | (token) b where "usable a = Inr (Inr b)" | (retry) e where "usable a = Inr (Inl e)"
    by (metis sum.exhaust)
  then show ?case
  proof cases
    case raises
    have "fetch_loop c uri (Suc n) k e0 w = (Inl x, w1)"
      using s a raises by (simp add: bindM_def liftE_def)
    then show ?thesis using a fetched_raise [OF raises, of n uri s] by fastforce
  next
    case token
    have "fetch_loop c uri (Suc n) k e0 w = (Inr (Some b, []), w1)"
      using s a token by (simp add: bindM_def liftE_def ret_def)
    then show ?thesis using a fetched_one [OF token, of n uri s] by fastforce
  next
    case retry
    define w2 where "w2 = (if n = 0 then w1 else w1\<lparr>st_clock := st_clock w1 + backoff k\<rparr>)"
    have run: "fetch_loop c uri (Suc n) k e0 w = fetch_loop c uri n (Suc k) e w2"
      using s a retry by (simp add: bindM_def liftE_def thenM_def whenM_def ret_def sleep_backoff w2_def)
    obtain r new w' where r: "fetch_loop c uri n (Suc k) e w2 = (r, w')"
      "rl_exchanges w' = rl_exchanges w2 @ new" "rl_cache w' = rl_cache w2" "fetched n uri new (map_sum id fst r)"
      "st_clock w' = st_clock w2 + (\<Sum>j = Suc k..<Suc k + (length new - 1). backoff j)"
      using Suc.IH [of "Suc k" e w2] by blast
    have new: "new = []" if "n = 0" using r(4) that by (simp add: fetched_def)
    have ne: "new \<noteq> []" if "n \<noteq> 0" using r(4) that by (auto simp: fetched_def split: sum.splits option.splits)
    have "st_clock w' = st_clock w + (\<Sum>j = k..<k + (length ((uri, s, a) # new) - 1). backoff j)"
    proof (cases "n = 0")
      case True
      then show ?thesis using r(5) new a by (simp add: w2_def)
    next
      case False
      then have "(\<Sum>j = k..<k + length new. backoff j) = backoff k + (\<Sum>j = Suc k..<Suc k + (length new - 1). backoff j)"
        using ne by (subst sum.atLeast_Suc_lessThan) (auto simp: Suc_leI)
      then show ?thesis using r(5) False a by (simp add: w2_def)
    qed
    moreover have "rl_exchanges w' = rl_exchanges w @ (uri, s, a) # new" "rl_cache w' = rl_cache w"
      using r a by (simp_all add: w2_def)
    ultimately show ?thesis
      using run r(1) fetched_Cons [OF r(4) retry, of s]
      by (intro exI [of _ r] exI [of _ "(uri, s, a) # new"] exI [of _ w'] conjI) (simp_all add: id_def)
  qed
qed


text \<open>
  The docstring promises a pair \<open>(None, error)\<close> on failure, yet an \<open>HTTPError\<close> whose text is not UTF-8
  ends the attempts with an exception, although attempts are left.
\<close>

lemma undecodable_error_ends_the_attempts:
  assumes "0 < rc_max_attempts c" and "rl_answers w = HttpError code (Undecodable m) # answers"
  shows "\<exists>w'. fetch_token_from_relay c resource client_id w = (Inl (PyExn ValueErr m), w')"
proof -
  obtain n where n: "nat (rc_max_attempts c) = Suc n" using assms(1) by (cases "nat (rc_max_attempts c)") auto
  have "usable (HttpError code (Undecodable m)) = Inl (PyExn ValueErr m)"
    by (simp add: usable_def read_error_text_def bindE_def)
  then show ?thesis
    using generate_sas_token_runs [of c "relay_sas_uri (rc_relay_url c)" 3600 w] assms(2)
    by (auto simp: fetch_token_from_relay_def n bindM_def relay_request_def liftE_def Let_def)
qed

section \<open>Serving\<close>

text \<open>A token that a usable answer of the relay delivered for a scope with this cache key.\<close>

definition scope_delivered :: "relay_config \<Rightarrow> 'z relay_scheme \<Rightarrow> string \<Rightarrow> json \<Rightarrow> bool" where
  "scope_delivered c w key token \<longleftrightarrow>
     (\<exists>resource client_id sas a b. relay_cache_key resource client_id = key \<and>
        (relay_uri c resource client_id, sas, a) \<in> set (rl_exchanges w) \<and> usable a = Inr (Inr b) \<and>
        token = dget b ''access_token'' (JStr []))"

definition cache_true :: "relay_config \<Rightarrow> 'z relay_scheme \<Rightarrow> bool" where
  "cache_true c w \<longleftrightarrow> (\<forall>(key, e)\<in>set (rl_cache w). scope_delivered c w key (te_access_token e))"

definition authorized :: "relay_config \<Rightarrow> string option \<Rightarrow> bool" where
  "authorized c header \<longleftrightarrow> (case header of None \<Rightarrow> [] | Some h \<Rightarrow> h) = rc_identity_header c \<and>
     rc_relay_url c \<noteq> [] \<and> rc_sender_key c \<noteq> []"

definition query_key :: "string \<Rightarrow> string" where
  "query_key q = relay_cache_key (requested_resource q) (map_of (parse_qs q) ''client_id'')"

definition token_answer_ok :: "relay_config \<Rightarrow> 'z relay_scheme \<Rightarrow> string option \<Rightarrow> string \<Rightarrow> response \<Rightarrow> bool" where
  "token_answer_ok c w header q r \<longleftrightarrow>
     (fst r = 200 \<longrightarrow> authorized c header \<and> scope_delivered c w (query_key q) (dget (snd r) ''access_token'' JNull))"

lemma scope_delivered_cache [simp]: "scope_delivered c (w\<lparr>rl_cache := m\<rparr>) = scope_delivered c w"
  by (simp add: scope_delivered_def fun_eq_iff)

lemma scope_delivered_mono:
  "scope_delivered c w key t \<Longrightarrow> set (rl_exchanges w) \<subseteq> set (rl_exchanges w') \<Longrightarrow> scope_delivered c w' key t"
  unfolding scope_delivered_def by blast

lemma cache_true_mono:
  "cache_true c w \<Longrightarrow> set (rl_exchanges w) \<subseteq> set (rl_exchanges w') \<Longrightarrow> set (rl_cache w') \<subseteq> set (rl_cache w) \<Longrightarrow>
   cache_true c w'"
  unfolding cache_true_def using scope_delivered_mono by blast

lemma set_assoc_put: "set (assoc_put k v m) \<subseteq> insert (k, v) (set m)"
  by (induction k v m rule: assoc_put.induct) auto

lemma wp_cache_get:
  "wp (cache_get c key)
     (\<lambda>hit w'. rl_exchanges w' = rl_exchanges w \<and> set (rl_cache w') \<subseteq> set (rl_cache w) \<and> st_clock w' = st_clock w \<and>
        (case hit of None \<Rightarrow> True | Some e \<Rightarrow> (key, e) \<in> set (rl_cache w) \<and> w' = w \<and> is_fresh c (st_clock w div 1000000) e))
     (\<lambda>_ _. False) w"
  by (auto simp: cache_get_def now_seconds_def now_us_def eff_rules dest: map_of_SomeD split: option.split)

text \<open>An exception of a request comes from an answer of the relay that could not be read.\<close>

definition unreadable_answer :: "'z relay_scheme \<Rightarrow> bool" where
  "unreadable_answer w \<longleftrightarrow>
     (\<exists>uri sas code text e. (uri, sas, HttpError code text) \<in> set (rl_exchanges w) \<and> read_error_text text = Inl e)"

definition relay_failure :: "relay_config \<Rightarrow> 'z relay_scheme \<Rightarrow> pyexn \<Rightarrow> 'z relay_scheme \<Rightarrow> bool" where
  "relay_failure c w x w' \<longleftrightarrow> exn_class x \<noteq> ProcessKilled \<and> cache_true c w' \<and>
     set (rl_exchanges w) \<subseteq> set (rl_exchanges w') \<and> unreadable_answer w'"

lemma unreadable_answer_mono: "unreadable_answer w \<Longrightarrow> set (rl_exchanges w) \<subseteq> set (rl_exchanges w') \<Longrightarrow> unreadable_answer w'"
  unfolding unreadable_answer_def by blast

lemma wp_fetch:
  "wp (fetch_token_from_relay c resource client_id)
     (\<lambda>(body, _) w'. rl_cache w' = rl_cache w \<and> set (rl_exchanges w) \<subseteq> set (rl_exchanges w') \<and>
        (case body of None \<Rightarrow> True | Some b \<Rightarrow>
           scope_delivered c w' (relay_cache_key resource client_id) (dget b ''access_token'' (JStr []))))
     (\<lambda>x w'. exn_class x \<noteq> ProcessKilled \<and> rl_cache w' = rl_cache w \<and>
        set (rl_exchanges w) \<subseteq> set (rl_exchanges w') \<and> unreadable_answer w') w"
proof -
  obtain r new w' where r: "fetch_token_from_relay c resource client_id w = (r, w')"
    "rl_exchanges w' = rl_exchanges w @ new" "rl_cache w' = rl_cache w"
    "fetched (nat (rc_max_attempts c)) (relay_uri c resource client_id) new (map_sum id fst r)"
    unfolding fetch_token_from_relay_def
    using fetch_loop_exchanges [of c "relay_uri c resource client_id" "nat (rc_max_attempts c)" 1 "''unknown error''" w] by blast
  have "scope_delivered c w' (relay_cache_key resource client_id) (dget b ''access_token'' (JStr []))" if "r = Inr (Some b, e)" for b e
  proof -
    have "new \<noteq> []" "usable (snd (snd (last new))) = Inr (Inr b)" "fst (last new) = relay_uri c resource client_id"
      using r(4) that by (simp_all add: fetched_def)
    then show ?thesis
      unfolding scope_delivered_def r(2) by (metis Un_iff last_in_set prod.collapse set_append)
  qed
  moreover have "exn_class x \<noteq> ProcessKilled \<and> unreadable_answer w'" if "r = Inl x" for x
  proof -
    have "new \<noteq> [] \<and> (\<exists>code text. snd (snd (last new)) = HttpError code text \<and> read_error_text text = Inl x)"
      using r(4) unfolding fetched_def that by simp
    then obtain code detail where t: "new \<noteq> []" "snd (snd (last new)) = HttpError code detail" "read_error_text detail = Inl x"
      by blast
    have "last new \<in> set (rl_exchanges w')" using last_in_set [OF t(1)] unfolding r(2) by simp
    then have "(fst (last new), fst (snd (last new)), HttpError code detail) \<in> set (rl_exchanges w')"
      using t(2) by (metis prod.collapse)
    then have "unreadable_answer w'" using t(3) unfolding unreadable_answer_def by blast
    then show ?thesis using read_error_text_raises [OF t(3)] by auto
  qed
  ultimately show ?thesis using r by (cases r) (auto simp: wp_def split: option.split)
qed

lemma wp_handle_token:
  fixes w :: "'z relay_scheme"
  assumes "cache_true c w"
  shows "wp (handle_token c header q)
     (\<lambda>r w'. cache_true c w' \<and> set (rl_exchanges w) \<subseteq> set (rl_exchanges w') \<and> token_answer_ok c w' header q r)
     (relay_failure c w) w"
proof (cases "authorized c header")
  case False
  then show ?thesis
    using assms by (auto simp: handle_token_def authorized_def token_answer_ok_def Let_def eff_rules)
next
  case True
  define resource where "resource = requested_resource q"
  define client_id where "client_id = map_of (parse_qs q) ''client_id''"
  define key where "key = relay_cache_key resource client_id"
  have key: "query_key q = key" by (simp add: query_key_def key_def resource_def client_id_def)
  let ?Q = "\<lambda>r w'. cache_true c w' \<and> set (rl_exchanges w) \<subseteq> set (rl_exchanges w') \<and> token_answer_ok c w' header q r"
  let ?E = "relay_failure c w"
  let ?served = "\<lambda>(body, error). case body of
      Some b \<Rightarrow>
        thenM (case parse_expires_on (dget b ''expires_on'' JNull) of
                 Some i \<Rightarrow> cache_set key \<lparr>te_access_token = dget b ''access_token'' (JStr []), te_expires_on = i\<rparr>
               | None \<Rightarrow> ret ())
          (ret (token_response (dget b ''access_token'' (JStr [])) (jstr (dget b ''expires_on'' (JStr []))) resource))
    | None \<Rightarrow> ret (502, [(''error'', JStr ''Relay token request failed''), (''detail'', JStr (take 500 error))])"
  have handle: "handle_token c header q = bindM (cache_get c key) (\<lambda>cached. case cached of
      Some e \<Rightarrow> ret (token_response (te_access_token e) (show_int (te_expires_on e)) resource)
    | None \<Rightarrow> bindM (fetch_token_from_relay c resource client_id) ?served)"
    using True by (simp add: handle_token_def authorized_def Let_def key_def resource_def client_id_def cong: option.case_cong)
  have token: "token_answer_ok c w' header q (token_response t s r)" if "scope_delivered c w' key t" for w' t s r
    using that True key by (simp add: token_answer_ok_def token_response_def dget_def)
  have stored: "cache_true c (w'\<lparr>rl_cache := assoc_put key e (rl_cache w')\<rparr>)"
    if "cache_true c w'" "scope_delivered c w' key (te_access_token e)" for w' e
    using that set_assoc_put [of key e "rl_cache w'"] by (auto simp: cache_true_def)
  have fetched: "wp (bindM (fetch_token_from_relay c resource client_id) ?served) ?Q ?E w1"
    if w1: "cache_true c w1" "set (rl_exchanges w) \<subseteq> set (rl_exchanges w1)" for w1 :: "'z relay_scheme"
    unfolding wp_bindM
  proof (rule wp_mono [OF wp_fetch], goal_cases)
    case (1 x w2)
    obtain body error where x: "x = (body, error)" by (cases x)
    have 2: "rl_cache w2 = rl_cache w1" "set (rl_exchanges w1) \<subseteq> set (rl_exchanges w2)"
      "case body of None \<Rightarrow> True | Some b \<Rightarrow> scope_delivered c w2 (relay_cache_key resource client_id) (dget b ''access_token'' (JStr []))"
      using 1 unfolding x by simp_all
    have ct: "cache_true c w2" by (rule cache_true_mono [OF w1(1)]) (simp_all add: 2(1,2))
    have "wp (?served (body, error)) ?Q ?E w2"
    proof (cases body)
      case None
      then show ?thesis using ct w1 2 by (auto simp: eff_rules token_answer_ok_def)
    next
      case (Some b)
      have sd: "scope_delivered c w2 key (dget b ''access_token'' (JStr []))" using 2(3) Some by (simp add: key_def)
      show ?thesis
      proof (cases "parse_expires_on (dget b ''expires_on'' JNull)")
        case None
        then show ?thesis using Some ct w1 2(2) token [OF sd] by (simp add: eff_rules)
      next
        case (Some i)
        let ?e = "\<lparr>te_access_token = dget b ''access_token'' (JStr []), te_expires_on = i\<rparr>"
        have "cache_true c (w2\<lparr>rl_cache := assoc_put key ?e (rl_cache w2)\<rparr>)" using stored [OF ct, of ?e] sd by simp
        then show ?thesis using Some \<open>body = Some b\<close> w1 2(2) sd by (auto simp: eff_rules cache_set_def intro!: token)
      qed
    qed
    then show ?case by (simp only: x)
  next
    case (2 x w2)
    then have "cache_true c w2" using cache_true_mono [OF w1(1), of w2] by simp
    then show ?case using 2 w1(2) by (auto simp: relay_failure_def)
  qed
  show ?thesis
    unfolding handle wp_bindM
  proof (rule wp_mono [OF wp_cache_get])
    fix hit and w1 :: "'z relay_scheme"
    assume 1: "rl_exchanges w1 = rl_exchanges w \<and> set (rl_cache w1) \<subseteq> set (rl_cache w) \<and> st_clock w1 = st_clock w \<and>
      (case hit of None \<Rightarrow> True | Some e \<Rightarrow> (key, e) \<in> set (rl_cache w) \<and> w1 = w \<and> is_fresh c (st_clock w div 1000000) e)"
    show "wp (case hit of
        Some e \<Rightarrow> ret (token_response (te_access_token e) (show_int (te_expires_on e)) resource)
      | None \<Rightarrow> bindM (fetch_token_from_relay c resource client_id) ?served) ?Q ?E w1"
    proof (cases hit)
      case None
      then show ?thesis using fetched [of w1] cache_true_mono [OF assms, of w1] 1 by simp
    next
      case (Some e)
      then have "scope_delivered c w key (te_access_token e)" "w1 = w" using 1 assms by (auto simp: cache_true_def)
      then show ?thesis using Some assms token by (simp add: eff_rules)
    qed
  qed simp
qed

text \<open>The cache key of a scope without a client can be the key of a scope with one.\<close>

lemma cache_keys_collide: "relay_cache_key (resource @ ''|client_id='' @ i) None = relay_cache_key resource (Some i) \<longleftrightarrow> i \<noteq> []"
  by (simp add: relay_cache_key_def)

definition token_route :: "string \<Rightarrow> bool" where
  "token_route target \<longleftrightarrow> ur_path (urlparse target) \<in> {''/metadata/identity/oauth2/token'', ''/token''}"

definition get_answer_ok :: "relay_config \<Rightarrow> 'z relay_scheme \<Rightarrow> string option \<times> string \<Rightarrow> response \<Rightarrow> bool" where
  "get_answer_ok c w = (\<lambda>(header, target) r.
     token_route target \<longrightarrow> token_answer_ok c w header (ur_query (urlparse target)) r)"

lemma get_answer_ok_mono:
  "get_answer_ok c w x r \<Longrightarrow> set (rl_exchanges w) \<subseteq> set (rl_exchanges w') \<Longrightarrow> get_answer_ok c w' x r"
  by (auto simp: get_answer_ok_def token_answer_ok_def intro: scope_delivered_mono)

lemma wp_do_GET:
  assumes "cache_true c w"
  shows "wp (do_GET c header target)
     (\<lambda>r w'. cache_true c w' \<and> set (rl_exchanges w) \<subseteq> set (rl_exchanges w') \<and> get_answer_ok c w' (header, target) r)
     (relay_failure c w) w"
proof (cases "token_route target")
  case True
  then have "do_GET c header target w = handle_token c header (ur_query (urlparse target)) w"
    by (auto simp: do_GET_def token_route_def Let_def)
  then show ?thesis
    using wp_handle_token [OF assms, of header "ur_query (urlparse target)"] True by (simp add: get_answer_ok_def wp_def)
next
  case False
  then show ?thesis
    using assms by (auto simp: do_GET_def token_route_def get_answer_ok_def Let_def eff_rules)
qed

text \<open>
  \<open>ThreadingHTTPServer\<close> ends a request whose handler raises without a response, and serves the next one.
\<close>

definition serve_request :: "relay_config \<Rightarrow> string option \<times> string \<Rightarrow> ('z relay_scheme, response option) eff" where
  "serve_request c request =
     (case request of (header, target) \<Rightarrow>
        tryM (bindM (do_GET c header target) (\<lambda>r. ret (Some r))) (\<lambda>_. ret None))"

definition reply_ok :: "relay_config \<Rightarrow> 'z relay_scheme \<Rightarrow> string option \<times> string \<Rightarrow> response option \<Rightarrow> bool" where
  "reply_ok c w request reply = (case reply of Some r \<Rightarrow> get_answer_ok c w request r | None \<Rightarrow> unreadable_answer w)"

lemma reply_ok_mono:
  "reply_ok c w x r \<Longrightarrow> set (rl_exchanges w) \<subseteq> set (rl_exchanges w') \<Longrightarrow> reply_ok c w' x r"
  by (cases r) (auto simp: reply_ok_def intro: get_answer_ok_mono unreadable_answer_mono)

lemma wp_serve_request:
  assumes "cache_true c w"
  shows "wp (serve_request c request)
     (\<lambda>r w'. cache_true c w' \<and> set (rl_exchanges w) \<subseteq> set (rl_exchanges w') \<and> reply_ok c w' request r) (\<lambda>_ _. False) w"
proof -
  obtain h t where x: "request = (h, t)" by (cases request)
  show ?thesis
    unfolding x serve_request_def prod.case wp_tryM wp_bindM
    by (rule wp_mono [OF wp_do_GET [OF assms, of h t]]) (auto simp: eff_rules reply_ok_def relay_failure_def)
qed

lemma wp_serve:
  fixes w :: "'z relay_scheme"
  shows "cache_true c w \<Longrightarrow> wp (mapM (serve_request c) reqs)
     (\<lambda>rs w'. set (rl_exchanges w) \<subseteq> set (rl_exchanges w') \<and> list_all2 (reply_ok c w') reqs rs) (\<lambda>_ _. False) w"
proof (induction reqs arbitrary: w)
  case Nil
  show ?case by (simp add: eff_rules)
next
  case (Cons x reqs)
  show ?case
    unfolding mapM.simps wp_bindM
  proof (rule wp_mono [OF wp_serve_request [OF Cons.prems]])
    fix r and w1 :: "'z relay_scheme"
    assume 1: "cache_true c w1 \<and> set (rl_exchanges w) \<subseteq> set (rl_exchanges w1) \<and> reply_ok c w1 x r"
    show "wp (mapM (serve_request c) reqs) (\<lambda>rs. wp (ret (r # rs))
        (\<lambda>rs w'. set (rl_exchanges w) \<subseteq> set (rl_exchanges w') \<and> list_all2 (reply_ok c w') (x # reqs) rs) (\<lambda>_ _. False))
        (\<lambda>_ _. False) w1"
    proof (rule wp_mono [OF Cons.IH])
      show "cache_true c w1" using 1 by blast
    qed (use 1 in \<open>auto simp: eff_rules intro: reply_ok_mono\<close>)
  qed simp
qed

text \<open>
  C38: The router serves only tokens of the relay: however the relay answers a sequence of requests to a router that
  starts with an empty cache, no request ends the server, every request is answered unless the text of
  some \<open>HTTPError\<close> of the relay could not be read, and a token is served only to a request with the
  configured identity header, by a router with a relay, and it is one that the relay delivered to a
  request for a scope with the same cache key.
\<close>

theorem served_tokens_relayed:
  "case mapM (serve_request c) requests (w\<lparr>rl_cache := []\<rparr>) of
     (Inr replies, w') \<Rightarrow> list_all2 (reply_ok c w') requests replies
   | (Inl _, _) \<Rightarrow> False"
proof -
  have "cache_true c (w\<lparr>rl_cache := []\<rparr>)" by (simp add: cache_true_def)
  from wp_serve [OF this, of requests] show ?thesis by (simp add: wp_def split: prod.splits sum.splits)
qed

end
