(* ===== verification/Gen1_Session.thy ===== *)
theory Gen1_Session
  imports Storage_World
begin

text \<open>
  How \<open>AdlsGen1Client\<close> reaches the service (\<open>adls_gen1_client.py\<close>): the choice of the file system client,
  and \<open>_LegacyDataLakeCredentialAdapter\<close>, which gives the old SDK sessions with a bearer token. The
  credential is an argument. The lemmas show how long the token of a session is still valid.
\<close>

section \<open>The file system client\<close>

datatype fs_client = TokenClient string | LegacyClient string

record gen1_client =
  gc_account :: string
  gc_has_credential :: bool
  gc_fs :: "fs_client option"

text \<open>
  \<open>params\<close> are the parameters of \<open>AzureDLFileSystem.__init__\<close>, or \<open>None\<close> when they cannot be inspected.
\<close>

definition legacy_gen1_sdk_in_use :: "string list option \<Rightarrow> bool" where
  "legacy_gen1_sdk_in_use params = (case params of None \<Rightarrow> False | Some ps \<Rightarrow> ''token_credential'' \<notin> set ps)"

definition get_fs :: "string list option \<Rightarrow> gen1_client \<Rightarrow> pyexn + fs_client \<times> gen1_client" where
  "get_fs params g =
     (case gc_fs g of
        Some fs \<Rightarrow> Inr (fs, g)
      | None \<Rightarrow>
          if \<not> gc_has_credential g then
            Inl (PyExn RuntimeErr (''AdlsGen1Client requires an explicit ``credential``; callers should pass '' @
              ''``credential=build_credential(creds)``.''))
          else
            let fs = (if legacy_gen1_sdk_in_use params then LegacyClient (gc_account g) else TokenClient (gc_account g))
            in Inr (fs, g\<lparr>gc_fs := Some fs\<rparr>))"

definition hides_record :: "string \<Rightarrow> bool" where
  "hides_record message \<longleftrightarrow> py_contains ''FileNotFoundError'' message \<or> py_contains ''FileNotFoundException'' message"

section \<open>The legacy credential adapter\<close>

record legacy_adapter = store +
  la_access_token :: "string option"
  la_expires_on :: int

definition refresh :: "('z legacy_adapter_scheme, string \<times> int) eff \<Rightarrow> ('z legacy_adapter_scheme, unit) eff" where
  "refresh credential =
     bindM credential (\<lambda>(token, expires). modifyM (\<lambda>w. w\<lparr>la_access_token := Some token, la_expires_on := expires\<rparr>))"

definition signed_session :: "('z legacy_adapter_scheme, string \<times> int) eff \<Rightarrow> ('z legacy_adapter_scheme, string) eff" where
  "signed_session credential =
     bindM now_seconds (\<lambda>now.
     bindM (asks (\<lambda>w. (case la_access_token w of None \<Rightarrow> True | Some t \<Rightarrow> t = []) \<or> la_expires_on w - 300 < now)) (\<lambda>stale.
     thenM (whenM stale (refresh credential))
       (bindM (asks la_access_token) (\<lambda>bearer.
         ret (''Bearer '' @ (case bearer of None \<Rightarrow> ''None'' | Some t \<Rightarrow> t))))))"

definition refresh_token :: "('z legacy_adapter_scheme, string \<times> int) eff \<Rightarrow> ('z legacy_adapter_scheme, unit) eff" where
  "refresh_token credential = refresh credential"

section \<open>Properties\<close>

text \<open>The client is chosen once.\<close>

lemma get_fs_idem: "get_fs params g = Inr (fs, g') \<Longrightarrow> get_fs params' g' = Inr (fs, g')"
  by (auto simp: get_fs_def Let_def split: option.splits if_splits)

text \<open>
  A session carries the token the credential has just returned, or the one at hand, which then is valid
  for 300 seconds at least.
\<close>

lemma session_token:
  assumes "wp credential (\<lambda>(t, expires) _. R t) (\<lambda>_ _. True) w"
  shows "wp (signed_session credential)
    (\<lambda>bearer w'. \<exists>t. bearer = ''Bearer '' @ t \<and> (R t \<or> w' = w \<and> la_access_token w = Some t \<and>
       st_clock w div 1000000 \<le> la_expires_on w - 300)) (\<lambda>_ _. True) w"
proof -
  have "wp (refresh credential) (\<lambda>_ w'. \<exists>t. la_access_token w' = Some t \<and> R t) (\<lambda>_ _. True) w"
    unfolding refresh_def wp_bindM by (rule wp_mono [OF assms]) (auto simp: wp_modifyM)
  note refreshed = wp_mono [OF this]
  show ?thesis
    unfolding signed_session_def now_seconds_def now_us_def wp_bindM wp_asks wp_ret wp_thenM wp_whenM
    by (auto split: option.splits intro!: refreshed)
qed

end
