(* ===== verification/Scope_Sql.thy ===== *)
theory Scope_Sql
  imports Py_Text
begin

text \<open>
  The SQL parser of the adapter (\<open>sqlglot_parser.py\<close>, the only implementation of \<open>sql_parser.py\<close>): the
  rewriting of SCOPE syntax and the search for a top-level \<open>WHERE\<close>. The \<open>sqlglot\<close> package is an argument.
  The lemmas give the search by parenthesis depth its meaning: it finds exactly a \<open>WHERE\<close> that stands as
  a word at depth 0. Texts are ASCII, where \<open>\w\<close> is a letter, a digit or an underscore.
\<close>

section \<open>Rewriting SCOPE syntax\<close>

definition is_word :: "char \<Rightarrow> bool" where
  "is_word c \<longleftrightarrow> is_alpha c \<or> is_digit c \<or> c = CHR ''_''"

definition upper_char :: "char \<Rightarrow> char" where
  "upper_char c = (if is_lower c then char_of (of_char c - 32 :: nat) else c)"

definition py_upper :: "string \<Rightarrow> string" where
  "py_upper s = map upper_char s"

lemma drop_while_less: "length (dropWhile P s) - n < Suc (length s)"
  by (simp add: le_imp_less_Suc length_dropWhile_le trans_le_add1 le_diff_conv)

text \<open>\<open>re.sub(r"\.\w+\([^)]*\)", "", sql)\<close> and \<open>re.sub(r"@(\w+)", r"_scope_\1", sql)\<close>.\<close>

function strip_methods :: "string \<Rightarrow> string" where
  "strip_methods [] = []"
| "strip_methods (c # s) =
     (let name = takeWhile is_word s; rest = dropWhile is_word s in
      if c = CHR ''.'' \<and> name \<noteq> [] \<and> py_startswith rest ''('' \<and> CHR '')'' \<in> set rest
      then strip_methods (drop 1 (dropWhile (\<lambda>x. x \<noteq> CHR '')'') rest))
      else c # strip_methods s)"
  by pat_completeness auto
termination
proof (relation "measure length", simp, goal_cases)
  case (1 c s name rest)
  have "length (dropWhile (\<lambda>x. x \<noteq> CHR '')'') rest) - 1 < Suc (length rest)" by (rule drop_while_less)
  also have "\<dots> \<le> Suc (length s)" using 1(2) by (simp add: length_dropWhile_le)
  finally show ?case by simp
qed simp

function replace_variables :: "string \<Rightarrow> string" where
  "replace_variables [] = []"
| "replace_variables (c # s) =
     (let name = takeWhile is_word s in
      if c = CHR ''@'' \<and> name \<noteq> [] then ''_scope_'' @ name @ replace_variables (dropWhile is_word s)
      else c # replace_variables s)"
  by pat_completeness auto
termination
  by (relation "measure length") (simp_all add: le_imp_less_Suc length_dropWhile_le)

fun single_equals :: "string \<Rightarrow> string" where
  "single_equals (a # b # s) =
     (if a = CHR ''='' \<and> b = CHR ''='' then CHR ''='' # single_equals s else a # single_equals (b # s))"
| "single_equals s = s"

definition normalize_scope_sql :: "string \<Rightarrow> string" where
  "normalize_scope_sql sql = single_equals (replace_variables (strip_methods sql))"

section \<open>Top-level WHERE\<close>

text \<open>\<open>re.sub(r'"[^"]*"', '""', sql)\<close> for the quote \<open>q\<close>.\<close>

function empty_literals :: "char \<Rightarrow> string \<Rightarrow> string" where
  "empty_literals q [] = []"
| "empty_literals q (c # s) =
     (if c = q \<and> q \<in> set s then q # q # empty_literals q (drop 1 (dropWhile (\<lambda>x. x \<noteq> q) s))
      else c # empty_literals q s)"
  by pat_completeness auto
termination
  by (relation "measure (\<lambda>(q, s). length s)") (simp_all add: drop_while_less [where n = "Suc 0", simplified])

text \<open>
  The tokens of \<open>re.split(r"(\(|\)|\bWHERE\b)", cleaned)\<close> that are a match, in order: the text between
  them is no parenthesis and not \<open>WHERE\<close>. The flag says whether a word character precedes the text.
\<close>

function where_tokens :: "bool \<Rightarrow> string \<Rightarrow> string list" where
  "where_tokens after_word [] = []"
| "where_tokens after_word (c # s) =
     (if c = CHR ''('' \<or> c = CHR '')'' then [c] # where_tokens False s
      else if \<not> after_word \<and> py_upper (take 5 (c # s)) = ''WHERE'' \<and> \<not> list_ex is_word (take 1 (drop 5 (c # s)))
      then take 5 (c # s) # where_tokens True (drop 5 (c # s))
      else where_tokens (is_word c) s)"
  by pat_completeness auto
termination
  by (relation "measure (\<lambda>(b, s). length s)") simp_all

fun where_loop :: "nat \<Rightarrow> string list \<Rightarrow> bool" where
  "where_loop depth [] = False"
| "where_loop depth (token # tokens) =
     (if token = ''('' then where_loop (depth + 1) tokens
      else if token = '')'' then where_loop (depth - 1) tokens
      else if py_upper token = ''WHERE'' \<and> depth = 0 then True
      else where_loop depth tokens)"

definition regex_has_where :: "string \<Rightarrow> bool" where
  "regex_has_where sql =
     (let cleaned = empty_literals (CHR 0x27) (empty_literals (CHR 0x22) sql)
      in where_loop 0 (where_tokens False cleaned))"

text \<open>
  \<open>parse sql\<close> says whether \<open>sqlglot\<close> reads a \<open>Select\<close> with a \<open>where\<close> argument; it is \<open>None\<close> when it raises.
\<close>

definition has_top_level_where :: "(string \<Rightarrow> bool option) \<Rightarrow> string \<Rightarrow> bool" where
  "has_top_level_where parse sql =
     (case parse (normalize_scope_sql sql) of
        Some True \<Rightarrow> True
      | _ \<Rightarrow> regex_has_where sql)"

section \<open>What the search finds\<close>

text \<open>The depth after a text that starts at depth \<open>d\<close>, and a \<open>WHERE\<close> that stands as a word at depth 0.\<close>

fun depth_after :: "nat \<Rightarrow> string \<Rightarrow> nat" where
  "depth_after d [] = d"
| "depth_after d (c # s) =
     depth_after (if c = CHR ''('' then d + 1 else if c = CHR '')'' then d - 1 else d) s"

definition word_at_depth :: "nat \<Rightarrow> bool \<Rightarrow> string \<Rightarrow> bool" where
  "word_at_depth d after_word s \<longleftrightarrow>
     (\<exists>pre w post. s = pre @ w @ post \<and> py_upper w = ''WHERE'' \<and> depth_after d pre = 0 \<and>
        \<not> (if pre = [] then after_word else is_word (last pre)) \<and> \<not> list_ex is_word (take 1 post))"

lemma depth_after_append: "depth_after d (s @ t) = depth_after (depth_after d s) t"
  by (induction s arbitrary: d) auto

definition where_here :: "bool \<Rightarrow> string \<Rightarrow> bool" where
  "where_here after_word s \<longleftrightarrow>
     \<not> after_word \<and> py_upper (take 5 s) = ''WHERE'' \<and> \<not> list_ex is_word (take 1 (drop 5 s))"

lemma word_at_depth_Nil [simp]: "\<not> word_at_depth d b []"
  by (auto simp: word_at_depth_def py_upper_def)

lemma word_at_depth_Cons:
  "word_at_depth d b (c # s) \<longleftrightarrow>
     where_here b (c # s) \<and> d = 0 \<or>
     word_at_depth (if c = CHR ''('' then d + 1 else if c = CHR '')'' then d - 1 else d) (is_word c) s"
    (is "?L \<longleftrightarrow> ?H \<or> ?R")
proof
  assume ?L
  then obtain pre w post where L: "c # s = pre @ w @ post" "py_upper w = ''WHERE''" "depth_after d pre = 0"
    "\<not> (if pre = [] then b else is_word (last pre))" "\<not> list_ex is_word (take 1 post)"
    unfolding word_at_depth_def by blast
  have len: "length w = 5" using arg_cong [OF L(2), of length] by (simp add: py_upper_def)
  show "?H \<or> ?R"
  proof (cases pre)
    case Nil
    then show ?thesis using L len by (simp add: where_here_def)
  next
    case (Cons x pre')
    then have "?R"
      unfolding word_at_depth_def using L by (intro exI [of _ pre'] exI [of _ w] exI [of _ post]) (auto split: if_splits)
    then show ?thesis by simp
  qed
next
  assume "?H \<or> ?R"
  then show ?L
  proof
    assume ?H
    then show ?L
      unfolding word_at_depth_def where_here_def
      by (intro exI [of _ "[]"] exI [of _ "take 5 (c # s)"] exI [of _ "drop 5 (c # s)"]) simp
  next
    assume ?R
    then obtain pre w post where R: "s = pre @ w @ post" "py_upper w = ''WHERE''"
      "depth_after (if c = CHR ''('' then d + 1 else if c = CHR '')'' then d - 1 else d) pre = 0"
      "\<not> (if pre = [] then is_word c else is_word (last pre))" "\<not> list_ex is_word (take 1 post)"
      unfolding word_at_depth_def by blast
    then show ?L
      unfolding word_at_depth_def
      by (intro exI [of _ "c # pre"] exI [of _ w] exI [of _ post]) (auto split: if_splits)
  qed
qed

lemma word_at_depth_skip: "list_all is_word w \<Longrightarrow> word_at_depth d True (w @ s) = word_at_depth d True s"
proof (induction w)
  case (Cons c w)
  have "c \<noteq> CHR ''(''" "c \<noteq> CHR '')''"
    using Cons.prems by (auto simp: is_word_def is_alpha_def is_upper_def is_lower_def is_digit_def)
  then show ?case using Cons by (simp add: word_at_depth_Cons where_here_def)
qed simp

lemma upper_where_word: "upper_char c \<in> set ''WHERE'' \<Longrightarrow> is_word c"
  by (cases "is_lower c") (auto simp: upper_char_def is_word_def is_alpha_def is_upper_def)

lemma where_word: "py_upper w = ''WHERE'' \<Longrightarrow> list_all is_word w"
proof -
  assume w: "py_upper w = ''WHERE''"
  have "upper_char c \<in> set ''WHERE''" if "c \<in> set w" for c
    using that unfolding w [symmetric] py_upper_def by simp
  then show ?thesis by (simp only: list_all_iff) (blast intro: upper_where_word)
qed

lemma loop_where: "py_upper w = ''WHERE'' \<Longrightarrow> where_loop d (w # ts) \<longleftrightarrow> d = 0 \<or> where_loop d ts"
  by (auto simp: py_upper_def)

lemma where_loop_exact: "where_loop d (where_tokens b s) = word_at_depth d b s"
proof (induction b s arbitrary: d rule: where_tokens.induct)
  case (2 b c s)
  have paren: "\<not> where_here b (c # s)" "\<not> is_word c" if "c = CHR ''('' \<or> c = CHR '')''"
    using that by (auto simp: where_here_def py_upper_def upper_char_def is_lower_def is_word_def is_alpha_def is_upper_def is_digit_def)
  show ?case
  proof (cases "c = CHR ''('' \<or> c = CHR '')''")
    case True
    then show ?thesis using 2(1) paren by (auto simp: word_at_depth_Cons)
  next
    case False
    show ?thesis
    proof (cases "where_here b (c # s)")
      case here: True
      let ?w = "take 5 (c # s)"
      have upper: "py_upper ?w = ''WHERE''" using here unfolding where_here_def by blast
      note w = where_word [OF upper] upper
      have tokens: "where_tokens b (c # s) = ?w # where_tokens True (drop 5 (c # s))"
        using False here unfolding where_here_def where_tokens.simps by (simp only: if_False if_True simp_thms)
      have "where_loop d (where_tokens True (drop 5 (c # s))) = word_at_depth d True (drop 5 (c # s))"
        using 2(2) [OF False] here unfolding where_here_def by blast
      then have "where_loop d (where_tokens b (c # s)) = (d = 0 \<or> word_at_depth d True (drop 5 (c # s)))"
        unfolding tokens loop_where [OF upper] by (rule arg_cong)
      also have "word_at_depth d True (drop 5 (c # s)) = word_at_depth d True s"
        using word_at_depth_skip [of "take 4 s" d "drop 4 s"] w(1) by simp
      finally show ?thesis using False here w(1) by (simp add: word_at_depth_Cons)
    next
      case not_here: False
      then show ?thesis using False 2(3) [OF False, of d] by (auto simp: word_at_depth_Cons where_here_def)
    qed
  qed
qed simp

text \<open>
  \<open>has_top_level_where\<close> answers yes exactly when \<open>sqlglot\<close> finds a \<open>where\<close> in a \<open>Select\<close>, or the text
  without the contents of its string literals has a \<open>WHERE\<close> that stands as a word of its own outside of
  all parentheses; a \<open>sqlglot\<close> that raises makes no difference.
\<close>

theorem top_level_where_exact:
  "has_top_level_where parse sql \<longleftrightarrow>
     parse (normalize_scope_sql sql) = Some True \<or>
     word_at_depth 0 False (empty_literals (CHR 0x27) (empty_literals (CHR 0x22) sql))"
  by (simp add: has_top_level_where_def regex_has_where_def where_loop_exact split: option.split bool.split)

text \<open>
  Double quotes are emptied first, also where they stand inside single quotes: the text
  \<open>select '"' where x = '"'\<close> loses its \<open>WHERE\<close>.
\<close>

lemma quotes_in_literals_hide_where:
  "\<not> regex_has_where (''select '' @ [CHR 0x27, CHR 0x22, CHR 0x27] @ '' where x = '' @ [CHR 0x27, CHR 0x22, CHR 0x27])"
  by code_simp

lemma rewriting_example:
  "normalize_scope_sql ''a == @b.ToString(1)'' = ''a = _scope_b''"
  by code_simp

end
