(* ===== verification/Adapter_Surface.thy ===== *)
theory Adapter_Surface
  imports Delta_Client Credentials
begin

text \<open>
  What dbt asks of an adapter and SCOPE answers with little more than a constant (\<open>impl.py\<close>,
  \<open>relation.py\<close>, \<open>column.py\<close>): type names, relations and schemas, and \<open>list_relations_without_caching\<close>,
  which finds the Delta tables by probing directories. The lemmas show what the probing reports when
  requests fail.
\<close>

section \<open>Columns\<close>

definition scope_to_dbt :: "(string \<times> string) list" where
  "scope_to_dbt =
     [(''string'', ''text''), (''bool'', ''boolean''), (''sbyte'', ''integer''), (''short'', ''integer''), (''int'', ''integer''),
      (''long'', ''integer''), (''float'', ''float''), (''double'', ''float''), (''decimal'', ''numeric''), (''DateTime'', ''datetime''),
      (''byte[]'', ''text'')]"

definition type_labels :: "(string \<times> string) list" where
  "type_labels =
     [(''INTEGER'', ''integer''), (''FLOAT'', ''float''), (''NUMERIC'', ''numeric''), (''TEXT'', ''text''), (''BOOLEAN'', ''boolean''),
      (''TIMESTAMP'', ''datetime'')]"

record scope_column =
  sc_column :: string
  sc_dtype :: string

definition translate_type :: "string \<Rightarrow> string" where
  "translate_type dtype =
     (case map_of scope_to_dbt (py_strip (rstrip_if (\<lambda>c. c = CHR ''?'') dtype)) of None \<Rightarrow> ''text'' | Some t \<Rightarrow> t)"

definition from_scope_type :: "string \<Rightarrow> string \<Rightarrow> scope_column" where
  "from_scope_type name scope_type = \<lparr>sc_column = name, sc_dtype = scope_type\<rparr>"

definition is_scope_nullable :: "scope_column \<Rightarrow> bool" where
  "is_scope_nullable c \<longleftrightarrow> py_endswith (sc_dtype c) ''?''"

section \<open>Relations\<close>

record scope_relation =
  sl_database :: string
  sl_schema :: string
  sl_identifier :: "string option"

definition render_relation :: "scope_relation \<Rightarrow> string" where
  "render_relation r = (case sl_identifier r of None \<Rightarrow> [] | Some i \<Rightarrow> i)"

section \<open>Constants and no-ops\<close>

definition list_schemas :: "scope_credentials \<Rightarrow> string list" where
  "list_schemas c = [cred_container c]"

definition check_schema_exists :: "scope_credentials \<Rightarrow> string \<Rightarrow> bool" where
  "check_schema_exists c schema \<longleftrightarrow> schema = cred_container c"

text \<open>The cache of relations is dbt's; \<open>drop_relation\<close> removes the relation from it and nothing else.\<close>

definition drop_relation :: "scope_relation option \<Rightarrow> scope_relation list \<Rightarrow> scope_relation list" where
  "drop_relation r cache = (case r of None \<Rightarrow> cache | Some x \<Rightarrow> filter (\<lambda>y. y \<noteq> x) cache)"

definition rename_relation :: "scope_relation \<Rightarrow> scope_relation \<Rightarrow> pyexn + unit" where
  "rename_relation from_relation to_relation =
     Inl (PyExn DbtRuntimeError ''SCOPE does not support renaming Delta tables. Use --full-refresh instead.'')"

definition get_columns_in_relation :: "scope_relation \<Rightarrow> scope_column list" where
  "get_columns_in_relation r = []"

definition valid_incremental_strategies :: "string list" where
  "valid_incremental_strategies = [''microbatch'', ''append'']"

text \<open>\<open>agate.HasNulls\<close> of the column is the argument.\<close>

definition convert_number_type :: "bool \<Rightarrow> string" where
  "convert_number_type has_nulls = (if has_nulls then ''double'' else ''long'')"

section \<open>list\_relations\_without\_caching\<close>

text \<open>
  \<open>paths\<close> and \<open>probe\<close> are \<open>get_paths\<close> below the base path, names with a flag for directories, and
  \<open>get_directory_properties\<close>. \<open>m\<close> holds the message retry policy of the credentials.
\<close>

definition probe_table :: "manager \<Rightarrow> (string \<Rightarrow> ('z store_scheme, unit) eff) \<Rightarrow> string \<Rightarrow> ('z store_scheme, bool) eff" where
  "probe_table m probe name =
     or_on_error (bindM (mg_retry m (probe (name @ ''/_delta_log''))) (\<lambda>_. ret True)) False"

definition table_relation :: "scope_credentials \<Rightarrow> string \<Rightarrow> scope_relation" where
  "table_relation c name =
     \<lparr>sl_database = storage_account c, sl_schema = cred_container c, sl_identifier = Some (after_last CHR ''/'' name)\<rparr>"

fun probe_tables ::
    "manager \<Rightarrow> scope_credentials \<Rightarrow> (string \<Rightarrow> ('z store_scheme, unit) eff) \<Rightarrow> string list \<Rightarrow> ('z store_scheme, scope_relation list) eff" where
  "probe_tables m c probe [] = ret []"
| "probe_tables m c probe (name # names) =
     bindM (probe_table m probe name) (\<lambda>found.
     bindM (probe_tables m c probe names) (\<lambda>rest.
       ret (if found then table_relation c name # rest else rest)))"

definition list_relations ::
    "manager \<Rightarrow> scope_credentials \<Rightarrow> (string \<Rightarrow> ('z store_scheme, (string \<times> bool) list) eff) \<Rightarrow>
      (string \<Rightarrow> ('z store_scheme, unit) eff) \<Rightarrow> ('z store_scheme, scope_relation list) eff" where
  "list_relations m c paths probe =
     (if storage_account c = [] \<or> cred_container c = [] then ret []
      else
        or_on_error
          (bindM (mg_retry m (bindM (paths (delta_base_path c)) (\<lambda>ps. ret (map fst (filter snd ps))))) (\<lambda>dirs.
             probe_tables m c probe dirs)) [])"

section \<open>What the listing reports\<close>

definition listed_tables :: "scope_credentials \<Rightarrow> (string \<times> bool) list \<Rightarrow> string set \<Rightarrow> scope_relation list" where
  "listed_tables c ps logs = map (table_relation c) (filter (\<lambda>n. n @ ''/_delta_log'' \<in> logs) (map fst (filter snd ps)))"

text \<open>
  A service whose listing is \<open>ps\<close> and where the directories \<open>logs\<close> exist: a request may fail at any
  time, and a successful one tells the truth. \<open>J\<close> is what the requests keep.
\<close>

locale table_listing =
  fixes J :: "'z store_scheme \<Rightarrow> bool"
    and paths :: "string \<Rightarrow> ('z store_scheme, (string \<times> bool) list) eff"
    and probe :: "string \<Rightarrow> ('z store_scheme, unit) eff"
    and ps :: "(string \<times> bool) list" and logs :: "string set"
  assumes clock: "clock_free J"
    and listed: "J w \<Longrightarrow> wp (paths base) (\<lambda>r w. r = ps \<and> J w) (\<lambda>_. J) w"
    and probed: "J w \<Longrightarrow> wp (probe d) (\<lambda>_ w. d \<in> logs \<and> J w) (\<lambda>_. J) w"
begin

lemma wp_retried: "J w \<Longrightarrow> (\<And>w. J w \<Longrightarrow> wp op q (\<lambda>_. J) w) \<Longrightarrow> wp (mg_retry m op) q (\<lambda>_. J) w"
  using wp_mg_retry [OF clock, of op q "\<lambda>_. True" w m] by simp

lemma wp_probe_table: "J w \<Longrightarrow> wp (probe_table m probe n) (\<lambda>b w. (b \<longrightarrow> n @ ''/_delta_log'' \<in> logs) \<and> J w)
    (\<lambda>x _. exn_class x \<in> {CredentialUnavailableError, ProcessKilled}) w"
  unfolding probe_table_def or_on_error_def wp_tryM wp_bindM
  by (rule wp_mono [OF wp_retried [OF _ probed]]) (auto simp: eff_rules)

lemma wp_probe_tables:
  "J w \<Longrightarrow> wp (probe_tables m c probe names)
     (\<lambda>rs w. subseq rs (map (table_relation c) (filter (\<lambda>n. n @ ''/_delta_log'' \<in> logs) names)) \<and> J w)
     (\<lambda>x _. exn_class x \<in> {CredentialUnavailableError, ProcessKilled}) w"
proof (induction names arbitrary: w)
  case Nil
  then show ?case by (simp add: eff_rules)
next
  case (Cons n names)
  show ?case
    unfolding probe_tables.simps wp_bindM
  proof (rule wp_mono [OF wp_probe_table [OF Cons.prems]])
    fix b and w1 :: "'z store_scheme"
    assume 1: "(b \<longrightarrow> n @ ''/_delta_log'' \<in> logs) \<and> J w1"
    then have "J w1" by blast
    from Cons.IH [OF this]
    show "wp (probe_tables m c probe names) (\<lambda>rest. wp (ret (if b then table_relation c n # rest else rest)) (\<lambda>rs w. subseq rs (map (table_relation c) (filter (\<lambda>n. n @ ''/_delta_log'' \<in> logs) (n # names))) \<and> J w)
        (\<lambda>x _. exn_class x \<in> {CredentialUnavailableError, ProcessKilled}))
        (\<lambda>x _. exn_class x \<in> {CredentialUnavailableError, ProcessKilled}) w1"
      by (rule wp_mono) (use 1 in \<open>auto simp: wp_ret intro: subseq_Cons'\<close>)
  qed simp
qed

text \<open>However requests fail, what is reported are tables, in the order of the listing.\<close>

lemma wp_list_relations:
  "J w \<Longrightarrow> wp (list_relations m c paths probe) (\<lambda>rs w. subseq rs (listed_tables c ps logs))
     (\<lambda>x _. exn_class x \<in> {CredentialUnavailableError, ProcessKilled}) w"
proof -
  assume "J w"
  have dirs: "wp (mg_retry m (bindM (paths (delta_base_path c)) (\<lambda>ps. ret (map fst (filter snd ps)))))
      (\<lambda>dirs w. dirs = map fst (filter snd ps) \<and> J w) (\<lambda>_. J) w"
    by (rule wp_retried [OF \<open>J w\<close>]) (simp add: wp_bindM, rule wp_mono [OF listed], auto simp: wp_ret)
  show ?thesis
    unfolding list_relations_def or_on_error_def
    by (auto simp: wp_ret wp_raise wp_tryM wp_bindM listed_tables_def intro!: wp_mono [OF dirs] wp_mono [OF wp_probe_tables])
qed

end

text \<open>Without failures every table is reported.\<close>

locale calm_listing = table_listing +
  assumes listed_calm: "J w \<Longrightarrow> wp (paths base) (\<lambda>r w. r = ps \<and> J w) (\<lambda>_ _. False) w"
    and probed_calm: "J w \<Longrightarrow> wp (probe d) (\<lambda>_ w. d \<in> logs \<and> J w)
      (\<lambda>x w. d \<notin> logs \<and> exn_class x \<notin> {CredentialUnavailableError, ProcessKilled} \<and> J w) w"
begin

lemma wp_retried_calm: "wp op q (\<lambda>_ _. False) w \<Longrightarrow> wp (mg_retry m op) q (\<lambda>_ _. False) w"
proof -
  assume op: "wp op q (\<lambda>_ _. False) w"
  obtain r w' where run: "op w = (r, w')" by fastforce
  with op obtain a where "r = Inr a" "q a w'" by (cases r) (auto simp: wp_def)
  then show ?thesis using mg_retry_success [of op w a w' m] run by (simp add: wp_def)
qed

lemma wp_probe_table_calm:
  assumes "J w"
  shows "wp (probe_table m probe n) (\<lambda>b w. b = (n @ ''/_delta_log'' \<in> logs) \<and> J w) (\<lambda>_ _. False) w"
proof (cases "n @ ''/_delta_log'' \<in> logs")
  case True
  have "wp (probe (n @ ''/_delta_log'')) (\<lambda>_ w. J w) (\<lambda>_ _. False) w"
    by (rule wp_mono [OF probed_calm [OF assms]]) (use True in auto)
  from wp_retried_calm [OF this, of m] show ?thesis
    unfolding probe_table_def or_on_error_def wp_tryM wp_bindM by (rule wp_mono) (use True in \<open>auto simp: wp_ret\<close>)
next
  case False
  have "wp (mg_retry m (probe (n @ ''/_delta_log''))) (\<lambda>_ _. False)
      (\<lambda>x w. J w \<and> exn_class x \<notin> {CredentialUnavailableError, ProcessKilled}) w"
    by (rule wp_mg_retry [OF clock _ _ assms])
       (auto intro: wp_mono [OF probed_calm [of _ "n @ ''/_delta_log''"]] simp: False)
  then show ?thesis
    unfolding probe_table_def or_on_error_def wp_tryM wp_bindM by (rule wp_mono) (use False in \<open>auto simp: wp_ret\<close>)
qed

lemma wp_probe_tables_calm:
  "J w \<Longrightarrow> wp (probe_tables m c probe names)
     (\<lambda>rs w. rs = map (table_relation c) (filter (\<lambda>n. n @ ''/_delta_log'' \<in> logs) names)) (\<lambda>_ _. False) w"
proof (induction names arbitrary: w)
  case (Cons n names)
  show ?case
    unfolding probe_tables.simps wp_bindM
    by (rule wp_mono [OF wp_probe_table_calm [OF Cons.prems]])
       (auto simp: wp_ret intro!: wp_mono [OF Cons.IH])
qed (simp add: wp_ret)

lemma wp_list_relations_calm:
  assumes "J w" and "storage_account c \<noteq> []" and "cred_container c \<noteq> []"
  shows "wp (list_relations m c paths probe) (\<lambda>rs w. rs = listed_tables c ps logs) (\<lambda>_ _. False) w"
proof -
  have "wp (mg_retry m (bindM (paths (delta_base_path c)) (\<lambda>ps. ret (map fst (filter snd ps)))))
      (\<lambda>dirs w. dirs = map fst (filter snd ps) \<and> J w) (\<lambda>_ _. False) w"
    by (rule wp_retried_calm) (simp add: wp_bindM, rule wp_mono [OF listed_calm [OF assms(1)]], auto simp: wp_ret)
  note dirs = wp_mono [OF this]
  show ?thesis
    using assms(2,3) unfolding list_relations_def or_on_error_def
    by (auto simp: wp_tryM wp_bindM listed_tables_def intro!: dirs wp_mono [OF wp_probe_tables_calm])
qed

end

section \<open>The storage service\<close>

definition dir_paths :: "(string \<times> bool) list \<Rightarrow> string \<Rightarrow> ('z store_scheme, (string \<times> bool) list) eff" where
  "dir_paths ps base = storage_call (ret ps)"

definition dir_probe :: "string set \<Rightarrow> string \<Rightarrow> ('z store_scheme, unit) eff" where
  "dir_probe logs d = storage_call (if d \<in> logs then ret () else raise (not_found d))"

interpretation directories: table_listing "\<lambda>_. True" "dir_paths ps" "dir_probe logs" ps logs
  by unfold_locales
     (auto simp: clock_free_def dir_paths_def dir_probe_def wp_ret wp_raise intro!: wp_storage_call)

interpretation calm_directories: calm_listing "\<lambda>w. st_faults w = []" "dir_paths ps" "dir_probe logs" ps logs
  by unfold_locales
     (auto simp: clock_free_def dir_paths_def dir_probe_def wp_def storage_call_no_fault ret_def raise_def not_found_def)

text \<open>
  \<open>list_relations_without_caching\<close> under any outages: what it reports are Delta tables below the base
  path, in the order of the listing, and it raises only when there is no credential or the process dies;
  without outages it reports them all. A table whose probe fails is left out without an error.
\<close>

theorem listed_relations_are_tables:
  assumes "storage_account c \<noteq> []" and "cred_container c \<noteq> []"
  shows "case list_relations m c (dir_paths ps) (dir_probe logs) w of
    (Inr rs, _) \<Rightarrow> subseq rs (listed_tables c ps logs) \<and> (st_faults w \<noteq> [] \<or> rs = listed_tables c ps logs)
  | (Inl x, _) \<Rightarrow> exn_class x \<in> {CredentialUnavailableError, ProcessKilled} \<and> st_faults w \<noteq> []"
proof -
  have "wp (list_relations m c (dir_paths ps) (dir_probe logs)) (\<lambda>rs _. subseq rs (listed_tables c ps logs))
      (\<lambda>x _. exn_class x \<in> {CredentialUnavailableError, ProcessKilled}) w"
    by (rule directories.wp_list_relations) simp
  moreover have "wp (list_relations m c (dir_paths ps) (dir_probe logs)) (\<lambda>rs _. rs = listed_tables c ps logs) (\<lambda>_ _. False) w"
    if "st_faults w = []"
    using calm_directories.wp_list_relations_calm [OF that assms] .
  ultimately show ?thesis by (auto simp: wp_def split: prod.splits sum.splits)
qed

text \<open>One refused request on the way, and an existing table is not reported.\<close>

lemma failed_probe_hides_table:
  fixes w :: store
  assumes "\<not> retry_enabled (mg_policy m)" and "st_faults w = [NoFault, FailBefore (ConnectionLost ''reset'')]"
    and "storage_account c \<noteq> []" and "cred_container c \<noteq> []"
  shows "fst (list_relations m c (dir_paths [(''delta/t'', True)]) (dir_probe {''delta/t/_delta_log''}) w) = Inr [] \<and>
    listed_tables c [(''delta/t'', True)] {''delta/t/_delta_log''} = [table_relation c ''delta/t'']"
  using assms
  by (simp add: list_relations_def probe_table_def or_on_error_def mg_retry_def retry_on_message_def dir_paths_def dir_probe_def
      storage_call_def listed_tables_def run_bindM run_tryM run_ret)

end
