(* ===== verification/Adla_Connection.thy ===== *)
theory Adla_Connection
  imports Job_Shutdown Token_Credential
begin

text \<open>
  The connection below the jobs: the start of a run, the settings of the next job, the token cache and
  \<open>_request\<close> of \<open>ScopeConnectionHandle\<close>, \<open>ScopeConnectionManager.open\<close> (\<open>connections.py\<close>), and the
  installation of the signal and exit handlers (\<open>impl.py\<close>). What the service answers, and what
  \<open>LockedTokenCredential\<close> returns, are arguments. The lemmas show which token a request carries, and that
  the handlers are installed once and keep the handlers that were there before.
\<close>

section \<open>Runs\<close>

definition start_new_run :: "('z adla_scheme, unit) eff" where
  "start_new_run =
     bindM next_uuid (\<lambda>i. bindM now_us (\<lambda>now.
       modifyM (\<lambda>w. w\<lparr>aw_run := \<lparr>own_run_id = i, own_run_started_at = utc_dt now\<rparr>, aw_cancelled_models := [], aw_claimed := []\<rparr>)))"

text \<open>\<open>ScopeAdapter.__init__\<close>.\<close>

definition adapter_init :: "('z adla_scheme, unit) eff" where
  "adapter_init = thenM (modifyM (\<lambda>w. w\<lparr>aw_shutdown_in := None\<rparr>)) start_new_run"

section \<open>Settings of the next job\<close>

definition set_next_job_name :: "string \<Rightarrow> ('z adla_scheme, unit) eff" where
  "set_next_job_name name = modifyM (\<lambda>w. w\<lparr>hd_next_name := Some name\<rparr>)"

definition set_next_job_model_name :: "string \<Rightarrow> ('z adla_scheme, unit) eff" where
  "set_next_job_model_name model_name = modifyM (\<lambda>w. w\<lparr>hd_next_model := Some model_name\<rparr>)"

definition set_next_job_au :: "int \<Rightarrow> ('z adla_scheme, unit) eff" where
  "set_next_job_au au = modifyM (\<lambda>w. w\<lparr>hd_next_au := Some au\<rparr>)"

definition set_next_job_priority :: "int \<Rightarrow> ('z adla_scheme, unit) eff" where
  "set_next_job_priority priority = modifyM (\<lambda>w. w\<lparr>hd_next_priority := Some priority\<rparr>)"

definition set_next_job_timeout_seconds :: "int \<Rightarrow> ('z adla_scheme, unit) eff" where
  "set_next_job_timeout_seconds timeout = modifyM (\<lambda>w. w\<lparr>hd_next_timeout := Some timeout\<rparr>)"

section \<open>Requests\<close>

text \<open>
  A response: its status, its text (empty when it has no content) and what \<open>resp.json()\<close> does. The
  world of a handle holds its token, and records each request with the token it carries and the time.
\<close>

record http_response =
  hr_status :: int
  hr_text :: string
  hr_json :: "pyexn + json"

record adla_http = adla +
  ht_cached_token :: "string option"
  ht_token_expires_at :: int
  ht_sent :: "(string \<times> string \<times> string \<times> int) list"

definition handle_token_of :: "('z adla_http_scheme, string \<times> int) eff \<Rightarrow> ('z adla_http_scheme, string) eff" where
  "handle_token_of credential =
     bindM (asks (\<lambda>w. w)) (\<lambda>w.
       case ht_cached_token w of
         Some t \<Rightarrow>
           if t \<noteq> [] \<and> st_clock w < (ht_token_expires_at w - 300) * 1000000 then ret t
           else bindM credential (\<lambda>(t, expires). thenM (modifyM (\<lambda>w. w\<lparr>ht_cached_token := Some t, ht_token_expires_at := expires\<rparr>)) (ret t))
       | None \<Rightarrow>
           bindM credential (\<lambda>(t, expires). thenM (modifyM (\<lambda>w. w\<lparr>ht_cached_token := Some t, ht_token_expires_at := expires\<rparr>)) (ret t)))"

definition send_once ::
    "('z adla_http_scheme, string \<times> int) eff \<Rightarrow> ('z adla_http_scheme, http_response) eff \<Rightarrow> string \<Rightarrow> string \<Rightarrow>
      ('z adla_http_scheme, json) eff" where
  "send_once credential answer method url =
     bindM (handle_token_of credential) (\<lambda>token.
     thenM (modifyM (\<lambda>w. w\<lparr>ht_sent := ht_sent w @ [(method, url, token, st_clock w)]\<rparr>))
       (bindM answer (\<lambda>resp.
          if 400 \<le> hr_status resp then
            raise (PyExn DbtDatabaseError (''ADLA API '' @ method @ '' '' @ url @ '' returned '' @ show_int (hr_status resp) @ '': '' @
              take 500 (hr_text resp)))
          else if hr_text resp = [] then ret (JDict [])
          else liftE (hr_json resp))))"

definition adla_request ::
    "manager \<Rightarrow> ('z adla_http_scheme, string \<times> int) eff \<Rightarrow> ('z adla_http_scheme, http_response) eff \<Rightarrow> string \<Rightarrow> string \<Rightarrow>
      ('z adla_http_scheme, json) eff" where
  "adla_request m credential answer method url = mg_retry m (send_once credential answer method url)"

section \<open>Signal and exit handlers\<close>

text \<open>
  What \<open>signal.getsignal\<close> can return: the default, ignoring, none that Python knows, another handler, or
  the adapter's own with the handlers it found for SIGTERM and SIGINT.
\<close>

datatype sig_handler = SigDfl | SigIgn | NotFromPython | OtherHandler nat | ScopeHandler sig_handler sig_handler

datatype sig = SIGTERM | SIGINT

record process =
  ps_installed :: bool
  ps_sigterm :: sig_handler
  ps_sigint :: sig_handler
  ps_atexit_registered :: bool
  ps_atexit :: nat
  ps_observed :: observed

definition install_signal_handlers :: "bool \<Rightarrow> process \<Rightarrow> process" where
  "install_signal_handlers main_thread p =
     (if ps_installed p then p
      else if \<not> main_thread then p
      else p\<lparr>ps_sigterm := ScopeHandler (ps_sigterm p) (ps_sigint p), ps_sigint := ScopeHandler (ps_sigterm p) (ps_sigint p),
             ps_installed := True\<rparr>)"

definition register_atexit :: "process \<Rightarrow> process" where
  "register_atexit p =
     (if ps_atexit_registered p then p else p\<lparr>ps_atexit := Suc (ps_atexit p), ps_atexit_registered := True\<rparr>)"

definition scope_open_hook :: "bool \<Rightarrow> nat \<Rightarrow> scope_credentials \<Rightarrow> process \<Rightarrow> process" where
  "scope_open_hook main_thread key c p =
     register_atexit (install_signal_handlers main_thread (p\<lparr>ps_observed := observe_credentials key c (ps_observed p)\<rparr>))"

text \<open>The handler that \<open>_handler\<close> calls in the end: the one found at installation, if it can be called.\<close>

definition previous_handler :: "sig \<Rightarrow> process \<Rightarrow> nat option" where
  "previous_handler s p =
     (case (if s = SIGTERM then ps_sigterm p else ps_sigint p) of
        ScopeHandler prev_sigterm prev_sigint \<Rightarrow>
          (case (if s = SIGTERM then prev_sigterm else prev_sigint) of OtherHandler h \<Rightarrow> Some h | _ \<Rightarrow> None)
      | _ \<Rightarrow> None)"

text \<open>\<open>ScopeConnectionManager.open\<close>: the state of the connection, its handle, and the process.\<close>

record connection =
  cn_open :: bool
  cn_handle :: "scope_credentials option"

definition open_connection :: "bool \<Rightarrow> nat \<Rightarrow> scope_credentials \<Rightarrow> connection \<times> process \<Rightarrow> connection \<times> process" where
  "open_connection main_thread key c =
     (\<lambda>(conn, p). if cn_open conn then (conn, p)
       else (conn\<lparr>cn_handle := Some c, cn_open := True\<rparr>, scope_open_hook main_thread key c p))"

section \<open>Properties\<close>

text \<open>
  \<open>expires t\<close> is when the token \<open>t\<close> expires, in seconds. A handle is sound when it knows the expiry of its
  token and every request went out with more than 300 seconds left.
\<close>

definition live_requests :: "(string \<Rightarrow> int) \<Rightarrow> 'z adla_http_scheme \<Rightarrow> bool" where
  "live_requests expires w \<longleftrightarrow>
     (case ht_cached_token w of None \<Rightarrow> True | Some t \<Rightarrow> ht_token_expires_at w = expires t) \<and>
     (\<forall>(method, url, t, sent)\<in>set (ht_sent w). sent < (expires t - 300) * 1000000)"

text \<open>What a credential and the service promise: a new token lasts, and neither touches what the handle keeps.\<close>

definition issues_live_tokens :: "(string \<Rightarrow> int) \<Rightarrow> ('z adla_http_scheme, string \<times> int) eff \<Rightarrow> bool" where
  "issues_live_tokens expires credential \<longleftrightarrow>
     (\<forall>w. live_requests expires w \<longrightarrow>
        wp credential (\<lambda>(t, until) w'. until = expires t \<and> st_clock w' < (expires t - 300) * 1000000 \<and> live_requests expires w')
          (\<lambda>_. live_requests expires) w)"

definition leaves_requests :: "(string \<Rightarrow> int) \<Rightarrow> ('z adla_http_scheme, 'a) eff \<Rightarrow> bool" where
  "leaves_requests expires op \<longleftrightarrow>
     (\<forall>w. live_requests expires w \<longrightarrow> wp op (\<lambda>_. live_requests expires) (\<lambda>_. live_requests expires) w)"

lemma wp_handle_token_of:
  assumes "issues_live_tokens expires credential" and "live_requests expires w"
  shows "wp (handle_token_of credential)
    (\<lambda>t w'. st_clock w' < (expires t - 300) * 1000000 \<and> live_requests expires w') (\<lambda>_. live_requests expires) w"
proof -
  have "wp (bindM credential (\<lambda>(t, until). thenM (modifyM (\<lambda>w. w\<lparr>ht_cached_token := Some t, ht_token_expires_at := until\<rparr>)) (ret t)))
      (\<lambda>t w'. st_clock w' < (expires t - 300) * 1000000 \<and> live_requests expires w') (\<lambda>_. live_requests expires) w"
    unfolding wp_bindM
    by (rule wp_mono [OF assms(1) [unfolded issues_live_tokens_def, rule_format, OF assms(2)]])
       (auto simp: wp_thenM wp_modifyM wp_ret live_requests_def)
  then show ?thesis
    using assms(2) by (auto simp: handle_token_of_def wp_bindM [of "asks _"] wp_asks wp_ret live_requests_def split: option.split)
qed

text \<open>Every request, also a repeated one, carries a token that is valid for more than 300 seconds.\<close>

lemma requests_carry_live_tokens:
  assumes "issues_live_tokens expires credential" and "leaves_requests expires answer" and "live_requests expires w"
  shows "wp (adla_request m credential answer method url) (\<lambda>_. live_requests expires) (\<lambda>_. live_requests expires) w"
proof -
  have once: "wp (send_once credential answer method url) (\<lambda>_. live_requests expires) (\<lambda>_ w. live_requests expires w \<and> True) w"
    if "live_requests expires w" for w
    unfolding send_once_def wp_bindM
  proof (rule wp_mono [OF wp_handle_token_of [OF assms(1) that]], goal_cases)
    case (1 t w1)
    let ?w = "w1\<lparr>ht_sent := ht_sent w1 @ [(method, url, t, st_clock w1)]\<rparr>"
    have "live_requests expires ?w" using 1 by (auto simp: live_requests_def split: option.splits)
    then have "wp answer (\<lambda>_. live_requests expires) (\<lambda>_. live_requests expires) ?w"
      using assms(2) by (simp add: leaves_requests_def)
    then show ?case
      unfolding wp_thenM wp_modifyM wp_bindM
      by (rule wp_mono) (auto simp: wp_raise wp_ret wp_liftE split: sum.split)
  qed simp
  have "wp (adla_request m credential answer method url) (\<lambda>_. live_requests expires) (\<lambda>_ w. live_requests expires w \<and> True) w"
    unfolding adla_request_def
    by (rule wp_mg_retry [OF _ once]) (use assms(3) in \<open>auto simp: clock_free_def live_requests_def split: option.splits\<close>)
  then show ?thesis by simp
qed

text \<open>The handlers found at installation are never the adapter's own, so no signal runs the handler twice.\<close>

fun own_handler :: "sig_handler \<Rightarrow> bool" where
  "own_handler (ScopeHandler a b) = True"
| "own_handler _ = False"

definition process_ok :: "sig_handler \<Rightarrow> sig_handler \<Rightarrow> process \<Rightarrow> bool" where
  "process_ok sigterm sigint p \<longleftrightarrow>
     (if ps_installed p then ps_sigterm p = ScopeHandler sigterm sigint \<and> ps_sigint p = ScopeHandler sigterm sigint
      else ps_sigterm p = sigterm \<and> ps_sigint p = sigint) \<and>
     ps_atexit p = (if ps_atexit_registered p then 1 else 0)"

lemma open_keeps_process_ok: "process_ok a b p \<Longrightarrow> process_ok a b (snd (open_connection main key c (conn, p)))"
  by (auto simp: open_connection_def scope_open_hook_def install_signal_handlers_def register_atexit_def process_ok_def)

text \<open>Whatever connections are opened on whatever threads, a signal is passed on to the handler of before.\<close>

lemma opening_keeps_handlers:
  assumes "process_ok a b p" and "\<not> own_handler a" and "\<not> own_handler b"
    and "p' = fold (\<lambda>(main, key, c, conn) p. snd (open_connection main key c (conn, p))) opens p"
    and "previous_handler s p' = Some h"
  shows "(if s = SIGTERM then a else b) = OtherHandler h \<and> ps_atexit p' \<le> 1"
proof -
  have "process_ok a b (fold (\<lambda>(main, key, c, conn) p. snd (open_connection main key c (conn, p))) opens p)"
    using assms(1) by (induction opens arbitrary: p) (auto intro: open_keeps_process_ok)
  then show ?thesis
    using assms(2-) by (auto simp: previous_handler_def process_ok_def split: if_splits sig_handler.splits)
qed

end
