(* ===== verification/File_Tables.thy ===== *)
theory File_Tables
  imports File_Batching
begin

text \<open>
  What the adapter writes to its log about files (\<open>impl.py\<close>, \<open>file_tracker.py\<close>, \<open>adls_gen1_client.py\<close>):
  sizes, times and the frame of the file tables. The body of a table, which pandas and tabulate
  render from the raw listing entries, is an argument. Sizes are not negative and below \<open>2^53\<close>, so that a float
  holds them and their quotients by 1024 exactly. The lemma bounds the error of a printed size.
\<close>

section \<open>Sizes\<close>

text \<open>\<open>n / m\<close> rounded to the nearest number, a tie to the even one, as \<open>format\<close> does.\<close>

definition round_div :: "nat \<Rightarrow> nat \<Rightarrow> nat" where
  "round_div n m =
     (let q = n div m; r = n mod m
      in if 2 * r < m then q else if m < 2 * r then q + 1 else if even q then q else q + 1)"

text \<open>\<open>f"{n / m:.{digits}f}"\<close>.\<close>

definition fixed_point :: "nat \<Rightarrow> nat \<Rightarrow> nat \<Rightarrow> string" where
  "fixed_point digits n m =
     (let x = round_div (n * 10 ^ digits) m
      in show_nat (x div 10 ^ digits) @ CHR ''.'' # pad_nat digits (x mod 10 ^ digits))"

fun format_units :: "nat \<Rightarrow> nat \<Rightarrow> nat \<Rightarrow> string list \<Rightarrow> string" where
  "format_units digits bytes m [] = fixed_point digits bytes m @ '' PB''"
| "format_units digits bytes m (unit # units) =
     (if bytes < 1024 * m then fixed_point digits bytes m @ '' '' @ unit else format_units digits bytes (1024 * m) units)"

definition size_units :: "string list" where
  "size_units = [''B'', ''KB'', ''MB'', ''GB'', ''TB'']"

definition format_bytes :: "nat option \<Rightarrow> string" where
  "format_bytes bytes = (case bytes of None \<Rightarrow> ''N/A'' | Some s \<Rightarrow> format_units 2 s 1 size_units)"

definition tracker_format_bytes :: "nat \<Rightarrow> string" where
  "tracker_format_bytes bytes = format_units 1 bytes 1 size_units"

definition format_bytes_simple :: "nat \<Rightarrow> string" where
  "format_bytes_simple bytes = format_units 1 bytes 1 size_units"

section \<open>Times\<close>

text \<open>\<open>fromtimestamp\<close> refuses a year outside 1 to 9999.\<close>

definition epoch_ms_to_iso :: "int option \<Rightarrow> string option" where
  "epoch_ms_to_iso epoch_ms =
     (case epoch_ms of
        None \<Rightarrow> None
      | Some ms \<Rightarrow> Some (if dt_ok (utc_dt (ms * 1000)) then isoformat (utc_dt (ms * 1000)) else show_int ms))"

section \<open>Tables\<close>

definition em_dash :: string where
  "em_dash = [CHR 0xE2, CHR 0x80, CHR 0x94]"

text \<open>\<open>table fs\<close> is the rendered data frame, or \<open>None\<close> when no file of \<open>fs\<close> has raw metadata.\<close>

definition pretty_print_file_tables :: "(file_info list \<Rightarrow> string option) \<Rightarrow> file_info list \<Rightarrow> file_info list \<Rightarrow> string" where
  "pretty_print_file_tables table batch backlog =
     (let n = show_nat (length batch); k = show_nat (length backlog) in
      py_join ''\<newline>''
        ((case table batch of
            Some t \<Rightarrow> [''=== CURRENT BATCH ('' @ n @ '' files) ==='', t]
          | None \<Rightarrow> [''=== CURRENT BATCH ('' @ n @ '' files '' @ em_dash @ '' no raw metadata) ===''])
         @ (if backlog \<noteq> [] then
              (case table backlog of
                 Some t \<Rightarrow> [''\<newline>=== BACKLOG ('' @ k @ '' files remaining) ==='', t]
               | None \<Rightarrow> [''\<newline>=== BACKLOG ('' @ k @ '' files '' @ em_dash @ '' no raw metadata) ===''])
            else [''\<newline>=== BACKLOG (0 files remaining) ==='']))) "

section \<open>Properties\<close>

lemma round_div_error: "0 < m \<Longrightarrow> 2 * (round_div n m * m) \<le> 2 * n + m \<and> 2 * n \<le> 2 * (round_div n m * m) + m"
proof -
  assume m: "0 < m"
  define q r where "q = n div m" and "r = n mod m"
  have n: "n = q * m + r" and r: "r < m" using m by (simp_all add: q_def r_def)
  have "round_div n m = (if 2 * r < m then q else if m < 2 * r then q + 1 else if even q then q else q + 1)"
    by (simp add: round_div_def q_def r_def Let_def)
  then consider "round_div n m = q" "2 * r \<le> m" | "round_div n m = q + 1" "m \<le> 2 * r" by (auto split: if_splits)
  then show ?thesis
  proof cases
    case 1
    then show ?thesis unfolding 1(1) unfolding n by simp
  next
    case 2
    then show ?thesis using r unfolding 2(1) unfolding n by (simp add: add_mult_distrib)
  qed
qed

text \<open>The unit is the largest one in which the size is at least 1, up to \<open>PB\<close>.\<close>

lemma format_units_spec:
  "m \<le> bytes \<Longrightarrow> 0 < m \<Longrightarrow>
   \<exists>k u. format_units digits bytes m units = fixed_point digits bytes (m * 1024 ^ k) @ '' '' @ u \<and>
     m * 1024 ^ k \<le> bytes \<and> (k < length units \<and> u = units ! k \<and> bytes < m * 1024 ^ Suc k \<or> k = length units \<and> u = ''PB'')"
proof (induction units arbitrary: m)
  case Nil
  then show ?case by (intro exI [of _ 0]) simp
next
  case (Cons unit units)
  show ?case
  proof (cases "bytes < 1024 * m")
    case True
    then show ?thesis using Cons.prems by (intro exI [of _ 0] exI [of _ unit]) simp
  next
    case False
    then obtain k u where "format_units digits bytes (1024 * m) units = fixed_point digits bytes (1024 * m * 1024 ^ k) @ '' '' @ u"
      "1024 * m * 1024 ^ k \<le> bytes" "k < length units \<and> u = units ! k \<and> bytes < 1024 * m * 1024 ^ Suc k \<or> k = length units \<and> u = ''PB''"
      using Cons.IH [of "1024 * m"] Cons.prems by auto
    then show ?thesis using False by (intro exI [of _ "Suc k"] exI [of _ u]) (auto simp: mult_ac)
  qed
qed

text \<open>Rounding can reach 1024 of a unit.\<close>

lemma size_examples:
  "format_bytes (Some 1536) = ''1.50 KB''" "format_bytes (Some 1048575) = ''1024.00 KB''" "format_bytes None = ''N/A''"
  by (simp_all add: format_bytes_def size_units_def fixed_point_def round_div_def Let_def) code_simp+

end
