(* ===== verification/Run_Frame.thy ===== *)
theory Run_Frame
  imports Adapter_Batches Job_Guarantees Schema_Evolution
begin

text \<open>
  What the operations of the adapter and of a job leave alone beside the tables: a property of the
  world that looks at no table, no job, no registry and no handle setting is kept by every operation of
  a run, however it ends. The lemmas give one \<open>keeps\<close> fact per operation, by its structure.
\<close>

section \<open>Jobs\<close>

text \<open>\<open>J\<close> looks at no job, at none of the registries and settings of a handle, and not at the clock.\<close>

definition handle_free :: "('z adla_scheme \<Rightarrow> bool) \<Rightarrow> bool" where
  "handle_free J \<longleftrightarrow> job_free J \<and> (\<forall>w x. J w \<longrightarrow> J (w\<lparr>aw_uuids_used := x\<rparr>)) \<and>
     (\<forall>w x. J w \<longrightarrow> J (w\<lparr>aw_plans := x\<rparr>)) \<and> (\<forall>w x. J w \<longrightarrow> J (w\<lparr>aw_active := x\<rparr>)) \<and>
     (\<forall>w x. J w \<longrightarrow> J (w\<lparr>aw_shutdown_in := x\<rparr>)) \<and> (\<forall>w x. J w \<longrightarrow> J (w\<lparr>hd_next_name := x\<rparr>)) \<and>
     (\<forall>w x. J w \<longrightarrow> J (w\<lparr>hd_next_au := x\<rparr>)) \<and> (\<forall>w x. J w \<longrightarrow> J (w\<lparr>hd_next_priority := x\<rparr>)) \<and>
     (\<forall>w x. J w \<longrightarrow> J (w\<lparr>hd_next_timeout := x\<rparr>)) \<and> (\<forall>w x. J w \<longrightarrow> J (w\<lparr>hd_next_model := x\<rparr>))"

lemma handle_freeD:
  assumes "handle_free J"
  shows "job_free J" "quiet J" and "J w \<Longrightarrow> J (w\<lparr>aw_uuids_used := n\<rparr>)" and "J w \<Longrightarrow> J (w\<lparr>aw_plans := ps\<rparr>)"
    and "J w \<Longrightarrow> J (w\<lparr>aw_active := a\<rparr>)" and "J w \<Longrightarrow> J (w\<lparr>aw_shutdown_in := s\<rparr>)"
    and "J w \<Longrightarrow> J (w\<lparr>hd_next_name := x1\<rparr>)" and "J w \<Longrightarrow> J (w\<lparr>hd_next_au := x2\<rparr>)"
    and "J w \<Longrightarrow> J (w\<lparr>hd_next_priority := x2\<rparr>)" and "J w \<Longrightarrow> J (w\<lparr>hd_next_timeout := x2\<rparr>)"
    and "J w \<Longrightarrow> J (w\<lparr>hd_next_model := x1\<rparr>)"
  using assms by (simp_all add: handle_free_def job_free_quiet)

lemma keeps_handle_updates [keeps_intros]:
  assumes "handle_free J"
  shows "keeps J (modifyM (\<lambda>w. w\<lparr>aw_active := f2 w\<rparr>))"
    and "keeps J (modifyM (\<lambda>w. w\<lparr>hd_next_name := f3 w\<rparr>))" and "keeps J (modifyM (\<lambda>w. w\<lparr>hd_next_au := f4 w\<rparr>))"
    and "keeps J (modifyM (\<lambda>w. w\<lparr>hd_next_priority := f4 w\<rparr>))" and "keeps J (modifyM (\<lambda>w. w\<lparr>hd_next_timeout := f4 w\<rparr>))"
    and "keeps J (modifyM (\<lambda>w. w\<lparr>hd_next_model := f3 w\<rparr>))"
  by (intro keepsI; simp add: wp_modifyM handle_freeD [OF assms])+

lemma keeps_consume_job_settings [keeps_intros]:
  assumes "handle_free J"
  shows "keeps J consume_job_settings"
proof (rule keepsI)
  fix w :: "'a adla_scheme"
  assume "J w"
  then have "J (w\<lparr>hd_next_name := None, hd_next_au := None, hd_next_priority := None, hd_next_timeout := None\<rparr>)"
    by (intro handle_freeD(7-10) [OF assms])
  then show "wp consume_job_settings (\<lambda>_. J) (\<lambda>_. J) w" by (simp only: consume_job_settings_def wp_modifyM)
qed

lemma keeps_finallyM [keeps_intros]: "keeps J op \<Longrightarrow> keeps J f \<Longrightarrow> keeps J (finallyM op f)"
  by (rule keepsI, unfold wp_finallyM, rule wp_mono [OF keepsD], assumption+)
     (simp_all add: keepsD wp_mono [OF keepsD])

lemma keeps_wrap_exception [keeps_intros]: "keeps J op \<Longrightarrow> keeps J (wrap_exception op)"
  unfolding wrap_exception_def by (intro keeps_intros)

lemma keeps_retry_on_message [keeps_intros]:
  assumes "quiet J" and "keeps J op" and "\<And>a. abort = Some a \<Longrightarrow> keeps J a"
  shows "keeps J (retry_on_message eng p sleepM abort op)"
proof (rule keepsI)
  fix w assume "J w"
  have "wp (retry_on_message eng p sleepM abort op) (\<lambda>_. J) (\<lambda>x w. J w \<and> True) w"
    by (rule wp_retry_on_message)
       (use assms \<open>J w\<close> keepsD [OF keeps_sleepM [OF assms(1)]] in \<open>auto dest: keepsD\<close>)
  then show "wp (retry_on_message eng p sleepM abort op) (\<lambda>_. J) (\<lambda>_. J) w" by simp
qed

lemma keeps_shutdown_flag [keeps_intros]: "handle_free J \<Longrightarrow> keeps J shutdown_is_set"
  by (intro keepsI) (auto simp: wp_def shutdown_is_set_def handle_freeD split: option.split nat.split)

lemma keeps_next_uuid [keeps_intros]: "handle_free J \<Longrightarrow> keeps J next_uuid" "handle_free J \<Longrightarrow> keeps J fresh_uuid"
  by (intro keepsI; simp add: next_uuid_def fresh_uuid_def wp_def handle_freeD)+

text \<open>
  A \<open>PUT\<close> is also put on record. \<open>puts_kept h sql J\<close>: \<open>J\<close> survives the \<open>PUT\<close> of a job with the script \<open>sql\<close>,
  as it does when it does not look at that record.
\<close>

definition put_free :: "('z adla_scheme \<Rightarrow> bool) \<Rightarrow> bool" where
  "put_free J \<longleftrightarrow> (\<forall>w x. J w \<longrightarrow> J (w\<lparr>aw_puts := x\<rparr>))"

definition puts_kept :: "handle_config \<Rightarrow> string \<Rightarrow> ('z adla_scheme \<Rightarrow> bool) \<Rightarrow> bool" where
  "puts_kept h sql J \<longleftrightarrow>
     (\<forall>i run name au pr model. keeps J (put_job (hc_manager h) i (job_body h run i name sql au pr model)))"

lemma put_freeD: "put_free J \<Longrightarrow> J w \<Longrightarrow> J (w\<lparr>aw_puts := x\<rparr>)"
  by (simp add: put_free_def)

lemma keeps_put_job: "handle_free J \<Longrightarrow> put_free J \<Longrightarrow> keeps J (put_job m i body)"
  unfolding put_job_def
  by (intro keeps_mg_retry keeps_storage_call handle_freeD(2) keepsI)
     (auto simp: wp_def handle_freeD put_freeD job_freeD [OF handle_freeD(1)] split: list.split put_plan.split)

lemma put_free_kept: "handle_free J \<Longrightarrow> put_free J \<Longrightarrow> puts_kept h sql J"
  by (simp add: puts_kept_def keeps_put_job)

lemma keeps_cancel_job [keeps_intros]:
  assumes "job_free J"
  shows "keeps J (cancel_job m i iv mw)" and "keeps J (cancel_own_job m i ws)"
proof -
  have loop: "keeps J (cancel_loop n m i iv mw start)" for n iv mw start
    by (induction n) (auto intro!: keeps_intros job_free_quiet assms)
  show job: "keeps J (cancel_job m i iv mw)" for iv mw
    unfolding cancel_job_def by (intro keeps_intros loop assms)
  show "keeps J (cancel_own_job m i ws)"
    unfolding cancel_own_job_def whenM_def by (intro keeps_intros job assms)
qed

lemma keeps_cancel_orphaned_jobs [keeps_intros]:
  assumes "job_free J"
  shows "keeps J (cancel_orphaned_jobs m model)"
proof -
  have "keeps J (cancel_orphans m jobs)" for jobs
    by (induction jobs) (auto intro!: keeps_intros assms)
  then show ?thesis unfolding cancel_orphaned_jobs_def by (intro keeps_intros assms)
qed

lemma keeps_list_jobs [keeps_intros]: "quiet J \<Longrightarrow> keeps J (list_jobs m flt n)"
  unfolding list_jobs_def by (intro keeps_intros keeps_reading) (auto split: sum.split)

lemma keeps_retry_with_quota_eviction [keeps_intros]:
  assumes "job_free J" and "keeps J op"
  shows "keeps J (retry_with_quota_eviction (handle_ctx m) p sleepM draw op)"
proof -
  have victims: "keeps J (cancel_victims (handle_ctx m) vs)" for vs
    by (induction vs) (auto simp: handle_ctx_def intro!: keeps_intros assms)
  have "keeps J (eviction_loop (handle_ctx m) p sleepM draw op n e)" for n e
  proof (induction n arbitrary: e)
    case (Suc n)
    show ?case
      unfolding eviction_loop.simps gather_and_cancel_def
      by (intro keeps_intros victims Suc.IH assms job_free_quiet [OF assms(1)])
         (auto simp: handle_ctx_def intro!: keeps_intros job_free_quiet assms)
  qed (simp add: keeps_raise)
  then show ?thesis using assms(2) by (simp add: retry_with_quota_eviction_def)
qed

lemma keeps_submit_job [keeps_intros]:
  assumes "handle_free J" and "puts_kept h script J"
  shows "keeps J (submit_job h name script au pr model)"
proof -
  have "keeps J (case update_from_response (new_job i name) r of (job, None) \<Rightarrow> ret job | (_, Some e) \<Rightarrow> raise e)" for i r
    by (auto split: prod.split option.split intro: keeps_intros)
  then show ?thesis
    unfolding submit_job_def
    by (intro keeps_intros handle_freeD(1) assms(1)) (use assms(2) in \<open>simp add: puts_kept_def\<close>)
qed

lemma keeps_poll_job [keeps_intros]: "job_free J \<Longrightarrow> keeps J (poll_job h job)"
  unfolding poll_job_def by (intro keeps_intros)

lemma keeps_wait_loop:
  assumes "handle_free J"
  shows "keeps J (wait_loop n h name iv mw wc start job fails)"
proof (induction n arbitrary: job fails)
  case (Suc n)
  have "keeps J (case polled of Inr (job', None) \<Rightarrow> wait_loop n h name iv mw wc start job' 0
      | Inr (job', Some e) \<Rightarrow> ret (job', Some e)
      | Inl e \<Rightarrow> if exn_class e \<in> {RequestsConnectionError, RequestsTimeout} then
            if max_consecutive_poll_failures \<le> Suc fails
            then ret (job, Some (job_error DbtDatabaseError name job (''poll failed '' @
              show_nat (Suc fails) @ '' consecutive times: '' @ exn_text e)))
            else wait_loop n h name iv mw wc start job (Suc fails)
          else ret (job, Some e))" for polled
    by (auto split: sum.split prod.split option.split intro: Suc.IH keeps_ret)
  then show ?case
    unfolding wait_loop.simps by (intro keeps_intros handle_freeD(1,2) assms)
qed (simp add: keeps_raise)

lemma keeps_tracking [keeps_intros]:
  assumes "handle_free J"
  shows "keeps J (track_job h name iv mw model wc job)"
  unfolding track_job_def give_up_job_def final_poll_def finish_job_def
  by (intro keeps_intros keeps_wait_loop handle_freeD(1,2) assms)

lemma keeps_submit_and_wait [keeps_intros]:
  assumes "handle_free J" and "puts_kept h script J"
  shows "keeps J (submit_and_wait h name script au pr iv mw model wc)"
  unfolding submit_and_wait_def register_active_def deregister_active_def
  by (intro keeps_intros handle_freeD(1,2) assms)

lemma keeps_execute [keeps_intros]:
  assumes "handle_free J" and "puts_kept h sql J"
  shows "keeps J (execute h c sql name)"
proof -
  have token: "keeps J get_token_request"
    unfolding get_token_request_def by (intro keeps_storage_call keeps_reading handle_freeD(2) [OF assms(1)]) simp
  show ?thesis
    unfolding execute_def Let_def
    by (intro keeps_intros token handle_freeD(1,2) assms) (simp add: keeps_shutdown_flag assms)
qed

text \<open>A statement that needs no job changes nothing.\<close>

lemma keeps_execute_idle: "needs_no_job sql \<Longrightarrow> keeps J (execute h c sql name)"
  by (simp add: execute_def keeps_ret)

section \<open>The scripts that are sent\<close>

definition put_script :: "job_dict \<Rightarrow> string" where
  "put_script body =
     (case dget body ''properties'' JNull of
        JDict ps \<Rightarrow> (case dget ps ''script'' JNull of JStr s \<Rightarrow> s | _ \<Rightarrow> [])
      | _ \<Rightarrow> [])"

lemma put_script_job_body [simp]: "put_script (job_body h run i name script au pr model) = script"
  by (simp add: put_script_def job_body_def dget_def)

text \<open>Since \<open>P\<close>, the service has accepted jobs with the script \<open>sql\<close> only; and at least one.\<close>

definition only_sent :: "string \<Rightarrow> job_dict list \<Rightarrow> 'z adla_scheme \<Rightarrow> bool" where
  "only_sent sql P w \<longleftrightarrow> (\<exists>bs. aw_puts w = P @ bs \<and> (\<forall>b \<in> set bs. put_script b = sql))"

definition some_sent :: "string \<Rightarrow> job_dict list \<Rightarrow> 'z adla_scheme \<Rightarrow> bool" where
  "some_sent sql P w \<longleftrightarrow> (\<exists>bs. bs \<noteq> [] \<and> aw_puts w = P @ bs \<and> (\<forall>b \<in> set bs. put_script b = sql))"

lemma some_only_sent: "some_sent sql P w \<Longrightarrow> only_sent sql P w"
  by (auto simp: some_sent_def only_sent_def)

lemma sent_frame:
  assumes "handle_free K"
  shows "handle_free (\<lambda>w. K w \<and> only_sent sql P w)" and "handle_free (\<lambda>w. K w \<and> some_sent sql P w)"
  using assms
  by (simp_all add: handle_free_def job_free_def quiet_def clock_free_def fault_free_def only_sent_def some_sent_def)

lemma sent_snoc:
  assumes "only_sent sql P w" and "aw_puts u = aw_puts w @ [b]" and "put_script b = sql"
  shows "some_sent sql P u"
proof -
  obtain bs where "aw_puts w = P @ bs" "\<forall>b \<in> set bs. put_script b = sql" using assms(1) by (auto simp: only_sent_def)
  then show ?thesis using assms(2,3) by (simp add: some_sent_def exI [of _ "bs @ [b]"])
qed

lemma wp_put_job_sends:
  fixes w :: "'z adla_scheme"
  assumes K: "handle_free K" "put_free K" and "K w \<and> only_sent sql P w" and "put_script body = sql"
  shows "wp (put_job m i body) (\<lambda>_ u. K u \<and> some_sent sql P u) (\<lambda>_ u. K u \<and> only_sent sql P u) w"
proof -
  have new: "K (u\<lparr>aw_plans := ps, aw_puts := bs, aw_jobs := js\<rparr>)" if "K u" for ps bs js and u :: "'z adla_scheme"
    by (intro job_freeD(1) [OF handle_freeD(1) [OF K(1)]] handle_freeD(4) [OF K(1)] put_freeD [OF K(2)] that)
  let ?req = "\<lambda>w. case aw_plans w of
       [] \<Rightarrow> (Inl (http_error ''ADLA API PUT returned 500''), w)
     | Refuses text # ps \<Rightarrow> (Inl (http_error text), w\<lparr>aw_plans := ps\<rparr>)
     | Accepts response polls # ps \<Rightarrow>
         (Inr response, w\<lparr>aw_plans := ps, aw_puts := aw_puts w @ [body], aw_jobs := (if i \<in> sj_id ` set (aw_jobs w) then aw_jobs w
            else aw_jobs w @ [\<lparr>sj_id = i, sj_dict = body, sj_polls = polls\<rparr>])\<rparr>)"
  have req: "wp ?req (\<lambda>_ v. (K v \<and> some_sent sql P v) \<and> K v \<and> only_sent sql P v) (\<lambda>_ v. K v \<and> only_sent sql P v) u"
    if u: "K u \<and> only_sent sql P u" for u :: "'z adla_scheme"
  proof (cases "aw_plans u")
    case Nil
    then show ?thesis using u by (simp add: wp_def)
  next
    case (Cons plan ps)
    show ?thesis
    proof (cases plan)
      case (Accepts response polls)
      let ?v = "u\<lparr>aw_plans := ps, aw_puts := aw_puts u @ [body], aw_jobs := (if i \<in> sj_id ` set (aw_jobs u) then aw_jobs u
            else aw_jobs u @ [\<lparr>sj_id = i, sj_dict = body, sj_polls = polls\<rparr>])\<rparr>"
      have "some_sent sql P ?v" by (rule sent_snoc [of sql P u]) (use u assms(4) in simp_all)
      moreover have "K ?v" using new u by blast
      ultimately have "(K ?v \<and> some_sent sql P ?v) \<and> K ?v \<and> only_sent sql P ?v" using some_only_sent by blast
      then show ?thesis unfolding wp_def Cons Accepts list.case put_plan.case prod.case sum.case .
    next
      case (Refuses msg)
      have "only_sent sql P (u\<lparr>aw_plans := ps\<rparr>)" using u by (simp add: only_sent_def)
      then show ?thesis using u handle_freeD(4) [OF K(1)] Cons Refuses by (simp add: wp_def)
    qed
  qed
  show ?thesis
    unfolding put_job_def
    by (rule wp_quiet_request [OF handle_freeD(2) [OF sent_frame(1) [OF K(1)]] assms(3) req])
qed

lemma puts_kept_sent:
  assumes "handle_free K" and "put_free K"
  shows "puts_kept h sql (\<lambda>w. K w \<and> only_sent sql P w)"
  unfolding puts_kept_def
  by (intro allI keepsI wp_mono [OF wp_put_job_sends [OF assms]]) (auto intro: some_only_sent)

lemma wp_submit_job_sends:
  fixes w :: "'z adla_scheme"
  assumes K: "handle_free K" "put_free K" and start: "K w \<and> only_sent sql P w"
  shows "wp (submit_job h name sql au pr model) (\<lambda>_ u. K u \<and> some_sent sql P u) (\<lambda>_ u. K u \<and> only_sent sql P u) w"
proof -
  let ?m = "hc_manager h" and ?J = "\<lambda>u. K u \<and> only_sent sql P u"
  let ?M = "\<lambda>u. K u \<and> some_sent sql P u"
  note J = sent_frame(1) [OF K(1), of sql P]
  let ?put = "\<lambda>run i. retry_with_quota_eviction (handle_ctx ?m) (hc_quota h) sleepM (hc_draw h)
      (put_job ?m i (job_body h run i name sql au pr model))"
  have posted: "wp (?put run i) (\<lambda>_. ?M) (\<lambda>_. ?J) u" if "?J u" for run i u
    by (rule wp_retry_quota [where J = ?J, OF that wp_put_job_sends [OF K]])
       (use J in \<open>auto intro!: keeps_gather keeps_sleepM keeps_cancel_job_async handle_freeD(1,2)\<close>)
  have "wp (bindM (?put run i) (\<lambda>response. case update_from_response (new_job i name) response of
      (job, None) \<Rightarrow> ret job | (_, Some e) \<Rightarrow> raise e)) (\<lambda>_. ?M) (\<lambda>_. ?J) u" if "?J u" for run i u
    unfolding wp_bindM
    by (rule wp_mono [OF posted [OF that]]) (auto simp: wp_ret wp_raise some_only_sent split: prod.splits option.splits)
  then have put: "wp (bindM (asks aw_run) (\<lambda>run. bindM (?put (own_run_id run) i) (\<lambda>response.
      case update_from_response (new_job i name) response of (job, None) \<Rightarrow> ret job | (_, Some e) \<Rightarrow> raise e))) (\<lambda>_. ?M) (\<lambda>_. ?J) u"
    if "?J u" for i u
    using that unfolding wp_bindM [of "asks _"] wp_asks by blast
  have fresh: "wp (bindM next_uuid (\<lambda>i. bindM (asks aw_run) (\<lambda>run. bindM (?put (own_run_id run) i) (\<lambda>response.
      case update_from_response (new_job i name) response of (job, None) \<Rightarrow> ret job | (_, Some e) \<Rightarrow> raise e)))) (\<lambda>_. ?M) (\<lambda>_. ?J) u"
    if "?J u" for u
    unfolding wp_bindM [of next_uuid] by (rule wp_mono [OF keepsD [OF keeps_next_uuid(1) [OF J] that]]) (rule put, assumption)
  show ?thesis
    unfolding submit_job_def wp_bindM [of shutdown_is_set]
    by (rule wp_mono [OF keepsD [OF keeps_shutdown_flag [OF J] start]]) (auto intro!: wp_if fresh simp: wp_raise)
qed

lemma wp_submit_and_wait_sends:
  fixes w :: "'z adla_scheme"
  assumes K: "handle_free K" "put_free K" and start: "K w \<and> only_sent sql P w"
  shows "wp (submit_and_wait h name sql au pr iv mw model wait) (\<lambda>_ u. K u \<and> some_sent sql P u)
    (\<lambda>_ u. K u \<and> only_sent sql P u) w" (is "wp _ ?q ?e w")
proof -
  let ?J = "\<lambda>u. K u \<and> only_sent sql P u" and ?M = "\<lambda>u. K u \<and> some_sent sql P u"
  note J = sent_frame(1) [OF K(1), of sql P] and M = sent_frame(2) [OF K(1), of sql P]
  have rest: "wp (thenM (register_active (jb_id job)) (finallyM (track_job h name iv mw model wait job) (deregister_active (jb_id job))))
      ?q ?e u" if "?M u" for job u
  proof -
    have "keeps ?M (thenM (register_active (jb_id job)) (finallyM (track_job h name iv mw model wait job) (deregister_active (jb_id job))))"
      unfolding register_active_def deregister_active_def by (intro keeps_intros M)
    from keepsD [OF this that] show ?thesis by (rule wp_mono) (auto intro: some_only_sent)
  qed
  have submitted: "wp (bindM (submit_job h name sql au pr model) (\<lambda>job. thenM (register_active (jb_id job))
      (finallyM (track_job h name iv mw model wait job) (deregister_active (jb_id job))))) ?q ?e u" if "?J u" for u
    unfolding wp_bindM [of "submit_job _ _ _ _ _ _"] by (rule wp_mono [OF wp_submit_job_sends [OF K that]]) (rule rest, assumption)
  show ?thesis
    unfolding submit_and_wait_def wp_thenM [of "ensure_table_owner _ _"]
    by (rule wp_mono [OF keepsD [OF keeps_ensure_table_owner [OF handle_freeD(2) [OF J]] start]]) (rule submitted, assumption)
qed


text \<open>A script that \<open>execute\<close> turns into a job: it is neither skipped nor answered at once.\<close>

definition runs_job :: "string \<Rightarrow> bool" where
  "runs_job sql \<longleftrightarrow> \<not> needs_no_job sql \<and> \<not> is_debug_query sql"

lemma wp_execute_sends:
  fixes w :: "'z adla_scheme"
  assumes K: "handle_free K" "put_free K" and start: "K w \<and> only_sent sql P w"
  shows "wp (execute h c sql name) (\<lambda>_ u. K u \<and> only_sent sql P u \<and> (runs_job sql \<longrightarrow> some_sent sql P u))
    (\<lambda>_ u. K u \<and> only_sent sql P u) w"
proof (cases "runs_job sql")
  case False
  have "keeps (\<lambda>u. K u \<and> only_sent sql P u) (execute h c sql name)"
    by (intro keeps_execute sent_frame puts_kept_sent K)
  from keepsD [OF this start] show ?thesis by (rule wp_mono) (use False in auto)
next
  case True
  let ?J = "\<lambda>u. K u \<and> only_sent sql P u" and ?M = "\<lambda>u. K u \<and> some_sent sql P u" and ?m = "hc_manager h"
  note J = sent_frame(1) [OF K(1), of sql P]
  let ?go = "\<lambda>au pr mw jn model. retry_on_message (mg_engine ?m) (hc_job_retry h) sleepM (Some shutdown_is_set)
      (submit_and_wait h jn sql au pr (poll_interval_seconds c) mw model (wait_on_cancel_seconds c))"
  let ?settle = "\<lambda>model. if or_default_text model [] = [] then ret ()
      else bindM (cancel_orphaned_jobs ?m (or_default_text model [])) (\<lambda>_. ret ())"
  have go: "wp (?go au pr mw jn model) (\<lambda>_. ?M) (\<lambda>_. ?J) u" if "?J u" for au pr mw jn model u
  proof -
    have "wp (?go au pr mw jn model) (\<lambda>_. ?M) (\<lambda>x u. ?J u \<and> True) u"
      by (rule wp_retry_on_message)
         (use that wp_submit_and_wait_sends [OF K] keepsD [OF keeps_sleepM [OF handle_freeD(2) [OF J]]]
            keepsD [OF keeps_shutdown_flag [OF J]] in auto)
    then show ?thesis by simp
  qed
  have settle: "keeps ?J (?settle model)" for model by (intro keeps_intros handle_freeD(1) J)
  have run: "wp (thenM consume_job_settings (thenM (?settle model) (?go au pr mw jn model))) (\<lambda>_. ?M) (\<lambda>_. ?J) u"
    if "?J u" for au pr mw jn model u
    unfolding wp_thenM
    by (rule wp_mono [OF keepsD [OF keeps_consume_job_settings [OF J] that]], rule wp_mono [OF keepsD [OF settle]])
       (assumption | rule go)+
  let ?body = "bindM (asks (\<lambda>w. w)) (\<lambda>w.
           let name = or_default_text (hd_next_name w) name; au = or_default (hd_next_au w) (cred_au c);
               priority = or_default (hd_next_priority w) (cred_priority c);
               max_wait = or_default (hd_next_timeout w) (job_timeout_seconds c); model = hd_next_model w
           in
           thenM consume_job_settings (thenM (?settle model) (?go au priority max_wait name model)))"
  have body: "wp ?body (\<lambda>_. ?M) (\<lambda>_. ?J) w" unfolding wp_bindM wp_asks Let_def by (rule run [OF start])
  have "wp (wrap_exception ?body) (\<lambda>_. ?M) (\<lambda>_. ?J) w"
    unfolding wrap_exception_def wp_tryM by (rule wp_mono [OF body]) (simp_all add: wp_raise)
  then show ?thesis
    using True unfolding execute_def runs_job_def wp_bindM [of "wrap_exception _"]
    by (simp add: wp_bindM [of "wrap_exception _"] wp_ret) (erule wp_mono, auto simp: wp_ret intro: some_only_sent)
qed

section \<open>Schema evolution\<close>

text \<open>DuckDB works on the files of the table; \<open>duck_keeps\<close> says that it changes nothing that \<open>J\<close> looks at.\<close>

definition duck_keeps :: "('w \<Rightarrow> bool) \<Rightarrow> 'w duckdb \<Rightarrow> bool" where
  "duck_keeps J dk \<longleftrightarrow> keeps J (dk_open dk) \<and> (\<forall>q. keeps J (dk_execute dk q)) \<and> keeps J (dk_token dk) \<and>
     (\<forall>q. keeps J (dk_fetchall dk q)) \<and> (\<forall>q. keeps J (dk_description dk q)) \<and> keeps J (dk_close dk)"

lemma keeps_or_on_error [keeps_intros]: "keeps J op \<Longrightarrow> keeps J (or_on_error op d)"
  unfolding or_on_error_def by (intro keeps_intros)

lemma keeps_compute_schema_evolution [keeps_intros]:
  assumes "quiet J" and "duck_keeps J dk"
  shows "keeps J (compute_schema_evolution m dk loc cols part)"
proof -
  have listing: "keeps J (log_listing k)" for k
    unfolding log_listing_def by (intro keeps_storage_call keeps_reading assms) (auto split: option.split)
  have schema: "keeps J (get_schema dk loc)"
    using assms(2) unfolding get_schema_def describe_def with_connection_def duck_keeps_def by (intro keeps_intros) auto
  show ?thesis
    unfolding compute_schema_evolution_def delta_log_exists_def by (intro keeps_intros listing schema assms)
qed

section \<open>Properties that look at no table\<close>

definition aside :: "('z adapter_scheme \<Rightarrow> bool) \<Rightarrow> bool" where
  "aside J \<longleftrightarrow> handle_free J \<and> (\<forall>w x. J w \<longrightarrow> J (w\<lparr>st_tables := x\<rparr>)) \<and> (\<forall>w x. J w \<longrightarrow> J (w\<lparr>st_etag := x\<rparr>)) \<and>
     (\<forall>w x. J w \<longrightarrow> J (w\<lparr>ad_pending := x\<rparr>))"

lemma asideD:
  assumes "aside J"
  shows "job_free J" "quiet J" "handle_free J"
    and "J w \<Longrightarrow> J (w\<lparr>st_tables := t\<rparr>)" and "J w \<Longrightarrow> J (w\<lparr>st_etag := e\<rparr>)" and "J w \<Longrightarrow> J (w\<lparr>ad_pending := p\<rparr>)"
  using assms handle_freeD [of J] by (simp_all add: aside_def)

lemma aside_upd_table: "aside J \<Longrightarrow> J w \<Longrightarrow> J (upd_table k f w)"
  by (simp add: upd_table_def asideD)

lemma aside_owner_file: "aside J \<Longrightarrow> J w \<Longrightarrow> J (set_owner_file k f w)"
  unfolding set_owner_file_def upd_table_def by (auto dest: asideD)

lemma aside_frees:
  assumes "aside J"
  shows "source_free J" and "owner_free J"
  using assms aside_upd_table [OF assms] aside_owner_file [OF assms] asideD(2) [OF assms]
  by (simp_all add: source_free_def owner_free_def)

lemma keeps_ad_pending [keeps_intros]: "aside J \<Longrightarrow> keeps J (modifyM (\<lambda>w. w\<lparr>ad_pending := f w\<rparr>))"
  by (intro keepsI) (simp add: wp_modifyM asideD)

section \<open>The checkpoint\<close>

lemma keeps_upload_text: "aside J \<Longrightarrow> keeps J (upload_text put k)"
  unfolding upload_text_def
  by (intro keeps_storage_call asideD(2) keepsI) (simp_all add: wp_def aside_upd_table)

lemma keeps_delete_text: "aside J \<Longrightarrow> keeps J (delete_text present drop_it name k)"
  unfolding delete_text_def
  by (intro keeps_storage_call asideD(2) keepsI) (simp_all add: wp_def aside_upd_table)

lemma keeps_create_checkpoint_dir: "quiet J \<Longrightarrow> keeps J (create_checkpoint_dir k)"
  unfolding create_checkpoint_dir_def by (intro keeps_storage_call keeps_reading) simp_all

lemma keeps_checkpoint_writes [keeps_intros]:
  assumes "aside J"
  shows "keeps J (write_watermark m loc wm)" and "keeps J (write_pending m loc p)" and "keeps J (delete_pending m loc strict)"
  unfolding write_watermark_def write_pending_def delete_pending_def Let_def
  by (intro keeps_intros asideD(2) [OF assms] keeps_create_checkpoint_dir keeps_upload_text keeps_delete_text assms)+

lemma keeps_delete_source: "aside J \<Longrightarrow> keeps J (delete_source k name)"
  unfolding delete_source_def
  by (intro keeps_storage_call asideD(2) keepsI) (auto simp: wp_def aside_upd_table split: option.split)

lemma keeps_list_sources: "quiet J \<Longrightarrow> keeps J (list_sources k)"
  unfolding list_sources_def by (intro keeps_storage_call keeps_reading) (auto split: option.split)

lemma keeps_delete_each: "aside J \<Longrightarrow> keeps J (delete_each k names n)"
  by (induction names arbitrary: n) (auto intro!: keeps_intros keeps_delete_source)

lemma keeps_delete_checkpoint [keeps_intros]:
  assumes "aside J"
  shows "keeps J (delete_checkpoint c loc)"
  unfolding delete_checkpoint_def delete_watermark_def delete_all_sources_def Let_def
  by (intro keeps_intros asideD(2) [OF assms] keeps_delete_text keeps_list_sources keeps_delete_each assms)

lemma keeps_record_batch [keeps_intros]:
  assumes "aside J"
  shows "keeps J (record_batch c loc fs wm v iv rt)"
  unfolding record_batch_def Let_def by (intro keeps_intros asideD(2) aside_frees assms)

lemma keeps_begin_batch [keeps_intros]:
  assumes "aside J"
  shows "keeps J (begin_batch c loc paths name)"
  unfolding begin_batch_def Let_def by (intro keeps_intros asideD(2,3) assms)

lemma keeps_resolve_pending [keeps_intros]:
  assumes "aside J"
  shows "keeps J (resolve_pending c loc wm vs latest iv rt)"
  unfolding resolve_pending_def Let_def by (intro keeps_intros asideD(2,3) assms)

text \<open>Reconciling may list source files, so the property must not look at the listings either.\<close>

lemma keeps_reconcile [keeps_intros]:
  assumes "aside J" and "cacheless J"
  shows "keeps J (reconcile_checkpoint c loc roots patterns model buf iv rt)"
  unfolding reconcile_checkpoint_def adopt_step_def adopt_unrecorded_commits_def Let_def
  by (intro keeps_intros asideD(1,2) aside_frees assms)

lemma keeps_update_checkpoint [keeps_intros]:
  assumes "aside J" and "cacheless J"
  shows "keeps J (update_checkpoint c loc roots patterns paths iv rt)"
  unfolding update_checkpoint_def Let_def by (intro keeps_intros asideD(1,2) assms)

text \<open>Files that the cache knows are not listed again.\<close>

lemma wp_update_checkpoint_known:
  fixes w :: "'z adapter_scheme"
  assumes "aside J" and "J w" and "\<forall>q \<in> set paths. map_of (ad_cache w) q \<noteq> None"
  shows "wp (update_checkpoint c loc roots patterns paths iv rt) (\<lambda>_. J) (\<lambda>_. J) w"
proof -
  define K where "K u \<longleftrightarrow> J u \<and> ad_cache u = ad_cache w" for u :: "'z adapter_scheme"
  have K: "aside K"
    using assms(1) by (simp add: K_def aside_def handle_free_def job_free_def quiet_def clock_free_def fault_free_def)
  let ?m = "en_manager c" and ?C = "ad_cache w"
  let ?commit = "\<lambda>current processed. bindM (asks (\<lambda>w. map_of (ad_pending w) loc)) (\<lambda>pending.
           thenM (modifyM (\<lambda>w. w\<lparr>ad_pending := filter (\<lambda>e. fst e \<noteq> loc) (ad_pending w)\<rparr>))
             (bindM (committed_delta_version c loc pending) (\<lambda>version.
              thenM (record_batch c loc processed current version iv rt)
                (if pending \<noteq> None then delete_pending ?m loc False else ret ()))))"
  have commit: "keeps J (?commit current processed)" for current processed
    by (intro keeps_intros asideD(1,2) assms(1))
  have none: "filter (\<lambda>p. map_of ?C p = None) paths = []" using assms(3) by (simp add: filter_empty_conv)
  have cached: "wp (bindM (asks ad_cache) (\<lambda>cache.
         let uncached = filter (\<lambda>p. map_of cache p = None) paths in
         bindM (if uncached = [] then ret [] else list_uncached c uncached (root_patterns roots patterns) [])
           (\<lambda>found.
         let processed = List.map_filter (map_of cache) paths @ found in
         if processed = [] then ret () else ?commit current processed))) (\<lambda>_. J) (\<lambda>_. J) u"
    if "K u" for current and u :: "'z adapter_scheme"
    using that none keepsD [OF commit] by (simp add: K_def wp_bindM [of "asks ad_cache"] wp_asks Let_def wp_bindM [of "ret _"] wp_ret)
  have owner: "keeps K (ensure_own_table c)" and read: "keeps K (read_watermark ?m loc True)"
    by (intro keeps_intros asideD(1,2) K)+
  have K_J: "J u" if "K u" for u :: "'z adapter_scheme" using that by (simp add: K_def)
  have "K w" using assms(2) by (simp add: K_def)
  then show ?thesis
    unfolding update_checkpoint_def Let_def [of ?m] wp_thenM [of "ensure_own_table _"] wp_bindM [of "read_watermark _ _ _"]
    by (intro wp_mono [OF keepsD [OF owner]] wp_mono [OF keepsD [OF read]]) (assumption | rule cached K_J)+
qed

end

