(* ===== verification/Incremental_Run.thy ===== *)
theory Incremental_Run
  imports Run_Frame Trigger_Config
begin

text \<open>
  A run of a model, as the materializations \<open>incremental.sql\<close> and \<open>table.sql\<close> compose the methods of the
  adapter: delete the checkpoint of a full refresh, reconcile, then discover, announce, submit and
  checkpoint one batch after the other. The text of a script, which Jinja renders, and what the SCOPE
  engine does to the tables' logs are arguments. \<open>ob_batches\<close> records what the jobs were asked for: whether
  the script deletes the rows first, and the files. The lemmas show that no outage and no interruption
  lets a later batch take a file of an earlier one, or an older one.
\<close>

record model =
  md_tag :: string
  md_loc :: string
  md_roots :: "string list"
  md_patterns :: "string list"
  md_max_files :: int
  md_max_bytes :: int
  md_buf :: int
  md_starting :: "string option"
  md_fallback :: bool
  md_interval :: int
  md_retention :: int
  md_columns :: "dbt_column list"
  md_partition :: partition_spec
  md_au :: "int option"
  md_priority :: "int option"
  md_timeout :: "int option"

record observed = adapter +
  ob_batches :: "(bool \<times> file_info list) list"

text \<open>The script for: whether to delete first, the columns to add, the table properties and the files.\<close>

type_synonym script = "bool \<Rightarrow> dbt_column list \<Rightarrow> (string \<times> string) list \<Rightarrow> string list \<Rightarrow> string"

text \<open>What a run relies on: the adapter, the connection handle, DuckDB, the templates and the engine.\<close>

record 'w run_setup =
  su_env :: env
  su_handle :: handle_config
  su_credentials :: scope_credentials
  su_duckdb :: "'w duckdb"
  su_script :: script
  su_engine :: "'w \<Rightarrow> table_key \<Rightarrow> (string \<times> log_file) list option"
  su_thread :: nat

section \<open>One batch\<close>

definition set_next_job :: "string \<Rightarrow> model \<Rightarrow> ('z adla_scheme, unit) eff" where
  "set_next_job name md =
     thenM (modifyM (\<lambda>w. w\<lparr>hd_next_name := Some name\<rparr>))
       (thenM (whenM (or_default (md_au md) 0 \<noteq> 0) (modifyM (\<lambda>w. w\<lparr>hd_next_au := md_au md\<rparr>)))
         (thenM (whenM (or_default (md_priority md) 0 \<noteq> 0) (modifyM (\<lambda>w. w\<lparr>hd_next_priority := md_priority md\<rparr>)))
           (whenM (or_default (md_timeout md) 0 \<noteq> 0) (modifyM (\<lambda>w. w\<lparr>hd_next_timeout := md_timeout md\<rparr>)))))"

definition note_batch :: "bool \<Rightarrow> string list \<Rightarrow> ('z observed_scheme, unit) eff" where
  "note_batch refresh paths =
     modifyM (\<lambda>w. w\<lparr>ob_batches := ob_batches w @ [(refresh, List.map_filter (map_of (ad_cache w)) paths)]\<rparr>)"

definition submit_batch ::
    "('z observed_scheme) run_setup \<Rightarrow> model \<Rightarrow> dbt_column list \<Rightarrow> bool \<Rightarrow> string \<Rightarrow> (string \<times> string) list \<Rightarrow> string list \<Rightarrow>
     ('z observed_scheme, unit) eff" where
  "submit_batch su md evolve refresh name props paths =
     thenM (set_next_job name md)
       (thenM (modifyM (\<lambda>w. w\<lparr>lk_log := su_engine su w\<rparr>))
         (bindM (execute (su_handle su) (su_credentials su) (su_script su refresh evolve props paths) ''dbt-scope'')
           (\<lambda>_. ret ())))"

definition batch_job_name :: "model \<Rightarrow> bool \<Rightarrow> nat \<Rightarrow> nat \<Rightarrow> nat \<Rightarrow> string" where
  "batch_job_name md full n planned files =
     md_tag md @ ''_'' @ (if full then ''full-refresh'' else ''incremental'') @ ''_batch_'' @ show_nat n @
     ''_of_'' @ show_nat planned @ ''_files_'' @ show_nat files"

definition discover :: "env \<Rightarrow> model \<Rightarrow> ('z adapter_scheme, string list) eff" where
  "discover c md = discover_files c (md_roots md) (md_patterns md) (md_max_files md) (md_loc md) (md_buf md)
     (md_starting md) (md_max_bytes md) (md_fallback md)"

definition run_batch ::
    "('z observed_scheme) run_setup \<Rightarrow> model \<Rightarrow> dbt_column list \<Rightarrow> bool \<Rightarrow> string \<Rightarrow> string list \<Rightarrow>
     ('z observed_scheme, unit) eff" where
  "run_batch su md evolve refresh name paths =
     bindM (begin_batch (su_env su) (md_loc md) paths name) (\<lambda>props.
     thenM (note_batch refresh paths)
       (thenM (submit_batch su md evolve refresh name props paths)
         (update_checkpoint (su_env su) (md_loc md) (md_roots md) (md_patterns md) paths (md_interval md) (md_retention md))))"

section \<open>The loop\<close>

text \<open>
  The trigger is \<open>None\<close> for \<open>available_now\<close>, else the interval and the bound on the cycles. The next cycle
  gives \<open>keep_running\<close> and the files. The number of batches announced in the names of the jobs is the one
  of the first discovery throughout: what a loop of Jinja sets is gone at the end of the iteration, and
  \<open>get_total_batches\<close> only reads.
\<close>

type_synonym trigger = "(real \<times> nat option) option"

definition next_cycle ::
    "env \<Rightarrow> nat \<Rightarrow> model \<Rightarrow> real \<times> nat option \<Rightarrow> ('z adapter_scheme, bool \<times> string list) eff" where
  "next_cycle c thread md t =
     thenM clear_file_discovery_cache
       (bindM (wait_for_next_cycle thread (fst t) (snd t)) (\<lambda>go.
          if \<not> go then ret (False, [])
          else bindM (discover c md) (\<lambda>paths. bindM get_total_batches (\<lambda>_. ret (True, paths)))))"

text \<open>\<open>for _ in range(loop_cap)\<close>; the result is the number of batches that were run and the files left.\<close>

fun batch_loop ::
    "nat \<Rightarrow> ('z observed_scheme) run_setup \<Rightarrow> model \<Rightarrow> bool \<Rightarrow> trigger \<Rightarrow> dbt_column list \<Rightarrow> nat \<Rightarrow> bool \<Rightarrow> nat \<Rightarrow> string list \<Rightarrow>
     ('z observed_scheme, nat \<times> string list) eff" where
  "batch_loop 0 su md full trigger evolve planned go n paths = ret (n, paths)"
| "batch_loop (Suc k) su md full trigger evolve planned go n paths =
     (if \<not> go then batch_loop k su md full trigger evolve planned go n paths
      else if paths = [] then
        (case trigger of
           None \<Rightarrow> batch_loop k su md full trigger evolve planned go n paths
         | Some t \<Rightarrow> bindM (next_cycle (su_env su) (su_thread su) md t) (\<lambda>(go, paths).
             batch_loop k su md full trigger evolve planned go n paths))
      else
        thenM (run_batch su md evolve (full \<and> n = 0) (batch_job_name md full (Suc n) planned (length paths)) paths)
          (bindM (discover (su_env su) md) (\<lambda>more.
             case trigger of
               None \<Rightarrow> batch_loop k su md full trigger evolve planned go (Suc n) more
             | Some t \<Rightarrow>
                 if more \<noteq> [] then batch_loop k su md full trigger evolve planned go (Suc n) more
                 else bindM (next_cycle (su_env su) (su_thread su) md t) (\<lambda>(go, paths).
                   batch_loop k su md full trigger evolve planned go (Suc n) paths))))"

definition loop_cap :: "trigger \<Rightarrow> nat" where
  "loop_cap trigger = (case trigger of None \<Rightarrow> 1000 | Some _ \<Rightarrow> 99999)"

definition no_op_script :: string where
  "no_op_script = ''-- no-op: no source files found''"

text \<open>Up to the first discovery: settings, the deletion of a full refresh, recovery.\<close>

definition prepare_run :: "('z observed_scheme) run_setup \<Rightarrow> model \<Rightarrow> bool \<Rightarrow> trigger \<Rightarrow> ('z observed_scheme, unit) eff" where
  "prepare_run su md full trigger =
     (let c = su_env su in
      thenM (whenM (trigger \<noteq> None \<and> or_default (md_timeout md) 0 = 0)
               (modifyM (\<lambda>w. w\<lparr>hd_next_timeout := Some default_processing_time_timeout_seconds\<rparr>)))
        (thenM (whenM full (delete_checkpoint c (md_loc md)))
          (thenM (modifyM (\<lambda>w. w\<lparr>hd_next_model := Some (md_tag md)\<rparr>))
            (thenM (reconcile_checkpoint c (md_loc md) (md_roots md) (md_patterns md) (md_tag md) (md_buf md)
                      (md_interval md) (md_retention md))
              (whenM (trigger \<noteq> None) (reset_cycle_count (su_thread su)))))))"

definition incremental_run ::
    "('z observed_scheme) run_setup \<Rightarrow> model \<Rightarrow> bool \<Rightarrow> trigger \<Rightarrow> ('z observed_scheme, nat) eff" where
  "incremental_run su md full trigger =
     thenM (prepare_run su md full trigger)
       (bindM (discover (su_env su) md) (\<lambda>paths.
          if paths = [] \<and> trigger = None then
            bindM (execute (su_handle su) (su_credentials su) no_op_script ''dbt-scope'') (\<lambda>_. ret 0)
          else
            bindM get_total_batches (\<lambda>planned.
            bindM (compute_schema_evolution (en_manager (su_env su)) (su_duckdb su) (md_loc md) (md_columns md)
                     (md_partition md)) (\<lambda>evolve.
            bindM (batch_loop (loop_cap trigger) su md full trigger evolve planned True 0 paths) (\<lambda>(n, _). ret n)))))"

text \<open>\<open>table.sql\<close> is the full refresh of an \<open>available_now\<close> model.\<close>

definition table_run :: "('z observed_scheme) run_setup \<Rightarrow> model \<Rightarrow> ('z observed_scheme, nat) eff" where
  "table_run su md = incremental_run su md True None"

section \<open>Discovery\<close>

lemma remembered_ex:
  "q \<in> fi_path ` set fs \<Longrightarrow> \<exists>f \<in> set fs. map_of (fold (\<lambda>f. assoc_put (fi_path f) f) fs m) q = Some f \<and> fi_path f = q"
  by (induction fs rule: rev_induct) auto

text \<open>The cache holds the files \<open>paths\<close>, each under its own path and after the instant \<open>t\<close>.\<close>

definition known_after :: "int option \<Rightarrow> string list \<Rightarrow> 'z adapter_scheme \<Rightarrow> bool" where
  "known_after t paths w \<longleftrightarrow> (\<forall>q \<in> set paths. \<exists>f. map_of (ad_cache w) q = Some f \<and> fi_path f = q \<and> after_watermark t f)"

lemma wp_find_latest:
  fixes w :: "'z adapter_scheme"
  assumes "cacheless J" and "J w"
  shows "wp (find_latest_available_file c buf rps latest) (\<lambda>_. J) (\<lambda>_. J) w"
  using assms(2)
proof (induction rps arbitrary: latest w)
  case (Cons rp rps)
  have "keeps J (tracker_discover c (fst rp) (snd rp) None buf)"
    unfolding tracker_discover_def by (intro keeps_intros assms(1))
  from keepsD [OF this Cons.prems] show ?case
    by (cases rp) (simp add: wp_bindM, erule wp_mono, erule Cons.IH, assumption)
qed (simp add: wp_ret)

lemma wp_validate_starting:
  fixes w :: "'z adapter_scheme"
  assumes "cacheless J" and "J w"
  shows "wp (validate_starting_timestamp c v rps) (\<lambda>_. J) (\<lambda>_. J) w"
  using assms(2)
proof (induction rps arbitrary: w)
  case (Cons rp rps)
  have "keeps J (tracker_discover c (fst rp) (snd rp) None 0)"
    unfolding tracker_discover_def by (intro keeps_intros assms(1))
  from keepsD [OF this Cons.prems] show ?case
    by (cases rp) (simp add: wp_bindM, erule wp_mono, simp add: wp_raise Cons.IH, assumption)
qed (simp add: wp_ret)

lemma after_enriched:
  assumes "list_all2 same_file fs gs" and "\<forall>f \<in> set fs. after_watermark t f"
  shows "\<forall>g \<in> set gs. after_watermark t g"
proof
  fix g assume "g \<in> set gs"
  then obtain i where i: "i < length gs" "gs ! i = g" by (auto simp: in_set_conv_nth)
  then have "same_file (fs ! i) g" and "fs ! i \<in> set fs"
    using list_all2_nthD2 [OF assms(1) i(1)] list_all2_lengthD [OF assms(1)] by simp_all
  moreover from this assms(2) have "after_watermark t (fs ! i)" by blast
  ultimately show "after_watermark t g" by (auto simp: same_file_def after_watermark_def split: option.splits)
qed

lemma wp_enrich_and_take:
  fixes w :: "'z adapter_scheme"
  assumes "frame J" and "J w" and "\<forall>f \<in> set fs. after_watermark t f"
  shows "wp (bindM (enrich_with_estimates m (sort_key fi_modification_time fs)) (\<lambda>backlog.
      thenM (remember_files backlog)
        (thenM (modifyM (\<lambda>w. w\<lparr>ad_total := count_batches backlog mf mb\<rparr>))
          (ret (map fi_path (get_next_batch backlog mf mb))))))
    (\<lambda>paths u. J u \<and> known_after t paths u) (\<lambda>_. J) w"
proof -
  have "J u \<and> known_after t (map fi_path (get_next_batch gs mf mb)) u"
    if "J v" and gs: "\<forall>g \<in> set gs. after_watermark t g"
      and u: "u = v\<lparr>ad_cache := fold (\<lambda>f. assoc_put (fi_path f) f) gs (ad_cache v)\<rparr>\<lparr>ad_total := n\<rparr>"
    for gs n and u v :: "'z adapter_scheme"
  proof
    show "J u" unfolding u by (intro frameD(6,8) [OF assms(1)] that(1))
    show "known_after t (map fi_path (get_next_batch gs mf mb)) u"
      unfolding known_after_def u
    proof
      fix q assume "q \<in> set (map fi_path (get_next_batch gs mf mb))"
      moreover have "set (get_next_batch gs mf mb) \<subseteq> set gs"
        by (rule get_next_batch_take [of gs mf mb]) (simp add: set_take_subset)
      ultimately have "q \<in> fi_path ` set gs" by auto
      from remembered_ex [OF this, of "ad_cache v"] obtain f
        where "map_of (fold (\<lambda>f. assoc_put (fi_path f) f) gs (ad_cache v)) q = Some f" "f \<in> set gs" "fi_path f = q" by blast
      with gs show "\<exists>f. map_of (ad_cache (v\<lparr>ad_cache := fold (\<lambda>f. assoc_put (fi_path f) f) gs (ad_cache v)\<rparr>\<lparr>ad_total := n\<rparr>)) q
          = Some f \<and> fi_path f = q \<and> after_watermark t f" by auto
    qed
  qed
  note step = this
  have "\<forall>f \<in> set (sort_key fi_modification_time fs). after_watermark t f" using assms(3) by simp
  from after_enriched [OF _ this] step show ?thesis
    unfolding wp_bindM
    by (intro wp_mono [OF wp_enrich [OF frameD(1) [OF assms(1)] assms(2)]])
       (auto simp: remember_files_def wp_thenM wp_modifyM wp_ret)
qed

lemma wp_discover:
  fixes w :: "'z adapter_scheme"
  assumes "frame J" and "J w" and "abfss_parse (md_loc md) = Some l"
    and fixed: "\<And>u. J u \<Longrightarrow> view (st_tables u (table_key l)) = v0"
  shows "wp (discover c md) (\<lambda>paths u. J u \<and> (\<exists>wm. view_watermark v0 = Inr wm \<and> known_after (wm_instant wm) paths u)) (\<lambda>_. J) w"
proof -
  let ?m = "en_manager c" and ?given = "case md_starting md of None \<Rightarrow> [] | Some v \<Rightarrow> v"
    and ?rps = "root_patterns (md_roots md) (md_patterns md)"
  let ?take = "\<lambda>fs. bindM (enrich_with_estimates ?m (sort_key fi_modification_time fs)) (\<lambda>backlog.
      thenM (remember_files backlog)
        (thenM (modifyM (\<lambda>w. w\<lparr>ad_total := count_batches backlog (md_max_files md) (md_max_bytes md)\<rparr>))
          (ret (map fi_path (get_next_batch backlog (md_max_files md) (md_max_bytes md))))))"
  let ?q = "\<lambda>paths u. J u \<and> (\<exists>wm. view_watermark v0 = Inr wm \<and> known_after (wm_instant wm) paths u)"
  note cl = frameD(1) [OF assms(1)]
  have take: "wp (?take fs) ?q (\<lambda>_. J) u"
    if "J u" and "view_watermark v0 = Inr wm" and "\<forall>f \<in> set fs. after_watermark (wm_instant wm) f"
    for fs wm and u :: "'z adapter_scheme"
    by (rule wp_mono [OF wp_enrich_and_take [OF assms(1) that(1,3)]]) (use that(2) in auto)
  have none: "\<forall>f \<in> set fs. after_watermark (wm_instant None) f" for fs
    by (simp add: wm_instant_def after_watermark_def)
  let ?fall = "\<lambda>used listed. if used \<and> listed = [] then
      if md_fallback md then bindM (find_latest_available_file c (md_buf md) ?rps None) (\<lambda>latest.
        ret (case latest of None \<Rightarrow> [] | Some f \<Rightarrow> [f]))
      else thenM (validate_starting_timestamp c ?given ?rps) (ret listed)
    else ret listed"
  have fall: "wp (bindM (?fall used listed) ?take) ?q (\<lambda>_. J) u"
    if u: "J u" and wm: "view_watermark v0 = Inr wm" and used: "used \<Longrightarrow> wm = None"
      and listed: "\<forall>f \<in> set listed. after_watermark (wm_instant wm) f"
    for used listed wm and u :: "'z adapter_scheme"
  proof (cases "used \<and> listed = []")
    case True
    then have n: "wm = None" using used by blast
    have any: "wp (?take fs) ?q (\<lambda>_. J) u" if "J u" for fs and u :: "'z adapter_scheme"
      by (rule take [OF that wm]) (simp add: n none)
    have "wp (bindM (find_latest_available_file c (md_buf md) ?rps None) (\<lambda>latest.
        ret (case latest of None \<Rightarrow> [] | Some f \<Rightarrow> [f]))) (\<lambda>fs. wp (?take fs) ?q (\<lambda>_. J)) (\<lambda>_. J) u"
      unfolding wp_bindM [of "find_latest_available_file _ _ _ _"] wp_ret
      by (rule wp_mono [OF wp_find_latest [OF cl u]]) (rule any)
    moreover have "wp (thenM (validate_starting_timestamp c ?given ?rps) (ret listed))
        (\<lambda>fs. wp (?take fs) ?q (\<lambda>_. J)) (\<lambda>_. J) u"
      unfolding wp_thenM [of "validate_starting_timestamp _ _ _"] wp_ret
      by (rule wp_mono [OF wp_validate_starting [OF cl u]]) (rule any)
    ultimately show ?thesis
      unfolding if_P [OF True] wp_bindM [of "if _ then _ else _"] by (cases "md_fallback md") (simp_all only: if_True if_False)
  next
    case False
    show ?thesis
      unfolding if_not_P [OF False] wp_bindM [of "ret _"] wp_ret using u wm listed by (rule take)
  qed
  have rest: "wp (bindM (list_unprocessed c (md_roots md) (md_patterns md)
        (case wm of Some w \<Rightarrow> Some w | None \<Rightarrow> map_option (\<lambda>d. watermark_at (isoformat d)) starting) (md_buf md)) (\<lambda>listed.
      bindM (?fall (wm = None \<and> starting \<noteq> None) listed) ?take)) ?q (\<lambda>_. J) u"
    if "J u" and "view_watermark v0 = Inr wm" for wm starting and u :: "'z adapter_scheme"
    unfolding wp_bindM [of "list_unprocessed _ _ _ _ _"]
    by (rule wp_mono [OF wp_list_unprocessed [OF cl that(1)]])
       (rule fall [OF _ that(2)], use none in \<open>auto split: option.splits\<close>)
  have read: "wp (read_watermark ?m (md_loc md) True) (\<lambda>r u. J u \<and> view_watermark v0 = Inr r) (\<lambda>_. J) u"
    if "J u" for u :: "'z adapter_scheme"
    by (rule wp_mono [OF wp_read_watermark_strict [OF frameD(5) [OF assms(1)] that assms(3)]])
       (use fixed in \<open>auto simp: stored_view\<close>)
  have "wp (bindM (read_watermark ?m (md_loc md) True) (\<lambda>wm.
      bindM (list_unprocessed c (md_roots md) (md_patterns md)
        (case wm of Some w \<Rightarrow> Some w | None \<Rightarrow> map_option (\<lambda>d. watermark_at (isoformat d)) starting) (md_buf md)) (\<lambda>listed.
      bindM (?fall (wm = None \<and> starting \<noteq> None) listed) ?take))) ?q (\<lambda>_. J) w" for starting
    unfolding wp_bindM [of "read_watermark _ _ _"]
    by (rule wp_mono [OF read [OF assms(2)]]) (use rest in auto)
  note main = this
  have "wp (if ?given \<noteq> [] then bindM (liftE (parse_starting_timestamp ?given)) (\<lambda>d. ret (Some d)) else ret None)
      (\<lambda>_ u. u = w) (\<lambda>_. J) w"
    using assms(2) by (auto simp: wp_bindM wp_liftE wp_ret split: sum.split)
  then show ?thesis
    unfolding discover_def discover_files_def Let_def wp_bindM [of "if ?given \<noteq> [] then _ else _"]
    by (rule wp_mono) (hypsubst, rule main, assumption)
qed

section \<open>The order of the batches\<close>

definition times_known :: "(bool \<times> file_info list) list \<Rightarrow> bool" where
  "times_known bs \<longleftrightarrow> (\<forall>b \<in> set bs. times_ok (snd b))"

definition in_order :: "(bool \<times> file_info list) list \<Rightarrow> bool" where
  "in_order bs \<longleftrightarrow> sorted_wrt (\<lambda>b b'. \<forall>f \<in> set (snd b). \<forall>g \<in> set (snd b').
     fi_modification_time f < fi_modification_time g) bs"

definition passed :: "int option \<Rightarrow> (bool \<times> file_info list) list \<Rightarrow> bool" where
  "passed t bs \<longleftrightarrow> (\<forall>b \<in> set bs. \<forall>f \<in> set (snd b). \<not> after_watermark t f)"

text \<open>
  The scripts the service accepted, batch after batch: those of a batch delete first exactly when the
  batch does, and name exactly its files; a job retry sends the same script again. When the scripts of
  the setup run as jobs, every batch that is complete has sent one.
\<close>

definition script_sent :: "'w run_setup \<Rightarrow> bool \<times> file_info list \<Rightarrow> job_dict list \<Rightarrow> bool" where
  "script_sent su b jobs \<longleftrightarrow>
     (\<exists>evolve props. \<forall>j \<in> set jobs. put_script j = su_script su (fst b) evolve props (map fi_path (snd b)))"

definition sent_for :: "'w run_setup \<Rightarrow> (bool \<times> file_info list) list \<Rightarrow> job_dict list \<Rightarrow> bool" where
  "sent_for su bs puts \<longleftrightarrow> (\<exists>parts. puts = concat parts \<and> list_all2 (script_sent su) bs parts)"

definition real_scripts :: "'w run_setup \<Rightarrow> bool" where
  "real_scripts su \<longleftrightarrow> (\<forall>refresh evolve props paths. runs_job (su_script su refresh evolve props paths))"

definition all_sent :: "'w run_setup \<Rightarrow> (bool \<times> file_info list) list \<Rightarrow> job_dict list \<Rightarrow> bool" where
  "all_sent su bs puts \<longleftrightarrow> (\<exists>parts. puts = concat parts \<and> list_all2 (script_sent su) bs parts \<and>
     (real_scripts su \<longrightarrow> [] \<notin> set parts))"

definition sent_next :: "'w run_setup \<Rightarrow> bool \<Rightarrow> bool \<times> file_info list \<Rightarrow> job_dict list \<Rightarrow> 'z observed_scheme \<Rightarrow> bool" where
  "sent_next su whole b P w \<longleftrightarrow> (\<exists>part. aw_puts w = P @ part \<and> script_sent su b part \<and>
     (whole \<and> real_scripts su \<longrightarrow> part \<noteq> []))"

text \<open>The first batch deletes the rows when the run is a full refresh, a later one never does.\<close>

definition deletes_once :: "bool \<Rightarrow> (bool \<times> file_info list) list \<Rightarrow> bool" where
  "deletes_once full bs \<longleftrightarrow> (case bs of [] \<Rightarrow> True | b # rest \<Rightarrow> fst b = full \<and> list_all (\<lambda>b. \<not> fst b) rest)"

lemma deletes_once_snoc:
  "deletes_once full bs \<Longrightarrow> refresh \<longleftrightarrow> full \<and> bs = [] \<Longrightarrow> deletes_once full (bs @ [(refresh, fs)])"
  by (auto simp: deletes_once_def split: list.splits)

lemma all_sent_for: "all_sent su bs puts \<Longrightarrow> sent_for su bs puts"
  by (auto simp: all_sent_def sent_for_def)

lemma sent_snoc_batch:
  "sent_for su bs P \<Longrightarrow> sent_next su whole b P w \<Longrightarrow> sent_for su (bs @ [b]) (aw_puts w)"
  "all_sent su bs P \<Longrightarrow> sent_next su True b P w \<Longrightarrow> all_sent su (bs @ [b]) (aw_puts w)"
proof -
  assume "sent_for su bs P" "sent_next su whole b P w"
  then obtain parts part where "P = concat parts" "list_all2 (script_sent su) bs parts" "aw_puts w = P @ part" "script_sent su b part"
    by (auto simp: sent_for_def sent_next_def)
  then show "sent_for su (bs @ [b]) (aw_puts w)"
    unfolding sent_for_def by (intro exI [of _ "parts @ [part]"]) (simp add: list_all2_appendI)
next
  assume "all_sent su bs P" "sent_next su True b P w"
  then obtain parts part where "P = concat parts" "list_all2 (script_sent su) bs parts" "real_scripts su \<longrightarrow> [] \<notin> set parts"
    "aw_puts w = P @ part" "script_sent su b part" "real_scripts su \<longrightarrow> part \<noteq> []"
    by (auto simp: all_sent_def sent_next_def)
  then show "all_sent su (bs @ [b]) (aw_puts w)"
    unfolding all_sent_def by (intro exI [of _ "parts @ [part]"]) (auto simp: list_all2_appendI)
qed

definition so_far :: "'w run_setup \<Rightarrow> bool \<Rightarrow> table_key \<Rightarrow> watermark option \<Rightarrow> 'z observed_scheme \<Rightarrow> bool" where
  "so_far su full k wm w \<longleftrightarrow> view_watermark (view (st_tables w k)) = Inr wm \<and>
     (times_known (ob_batches w) \<longrightarrow> in_order (ob_batches w) \<and> passed (wm_instant wm) (ob_batches w)) \<and>
     all_sent su (ob_batches w) (aw_puts w) \<and> deletes_once full (ob_batches w)"

definition ordered :: "'w run_setup \<Rightarrow> bool \<Rightarrow> 'z observed_scheme \<Rightarrow> bool" where
  "ordered su full w \<longleftrightarrow> (times_known (ob_batches w) \<longrightarrow> in_order (ob_batches w)) \<and>
     sent_for su (ob_batches w) (aw_puts w) \<and> deletes_once full (ob_batches w)"

lemma so_far_ordered: "so_far su full k wm w \<Longrightarrow> ordered su full w"
  by (simp add: so_far_def ordered_def all_sent_for)

text \<open>The next batch lies after the watermark, and the watermark computed from it on no file of a batch.\<close>

lemma in_order_snoc:
  assumes "in_order bs" and "passed t bs" and "\<forall>f \<in> set fs. after_watermark t f"
  shows "in_order (bs @ [(r, fs)])"
proof -
  have "fi_modification_time f < fi_modification_time g"
    if "b \<in> set bs" "f \<in> set (snd b)" "g \<in> set fs" for b f g
  proof -
    have "\<not> after_watermark t f" "after_watermark t g" using that assms(2,3) by (auto simp: passed_def)
    then show ?thesis by (cases t) (auto simp: after_watermark_def)
  qed
  then show ?thesis using assms(1) by (auto simp: in_order_def sorted_wrt_append)
qed

lemma passed_snoc:
  assumes "passed t bs" and "\<forall>f \<in> set fs. after_watermark t f" and "fs \<noteq> []" and "times_ok fs"
  shows "passed (wm_instant (Some (new_watermark fs wm v))) (bs @ [(r, fs)])"
proof -
  let ?m = "Max (set (map fi_modification_time fs))"
  have inst: "wm_instant (Some (new_watermark fs wm v)) = Some ?m"
    using wm_instant_compute_new_watermark [OF assms(3,4), of wm]
    by (simp add: new_watermark_def wm_instant_def modified_time_dt_def cong: if_cong)
  have new: "fi_modification_time f \<le> ?m" if "f \<in> set fs" for f
    using that by simp
  obtain g where g: "g \<in> set fs" using assms(3) by (cases fs) auto
  have old: "fi_modification_time f \<le> ?m" if "b \<in> set bs" "f \<in> set (snd b)" for b f
  proof -
    have "\<not> after_watermark t f" "after_watermark t g" using that g assms(1,2) by (auto simp: passed_def)
    then have "fi_modification_time f < fi_modification_time g" by (cases t) (auto simp: after_watermark_def)
    with new [OF g] show ?thesis by simp
  qed
  show ?thesis unfolding inst using new old by (auto simp: passed_def after_watermark_def not_less)
qed

lemma known_files:
  assumes "known_after t paths w" and "paths \<noteq> []"
  shows "List.map_filter (map_of (ad_cache w)) paths \<noteq> []"
    and "\<forall>f \<in> set (List.map_filter (map_of (ad_cache w)) paths). after_watermark t f"
    and "processed_files (ad_cache w) paths fs \<longleftrightarrow> fs = List.map_filter (map_of (ad_cache w)) paths"
    and "map fi_path (List.map_filter (map_of (ad_cache w)) paths) = paths"
proof -
  show "map fi_path (List.map_filter (map_of (ad_cache w)) paths) = paths"
    using assms(1) by (induction paths) (auto simp: known_after_def map_filter_simps)
  have all: "map_of (ad_cache w) q \<noteq> None" if "q \<in> set paths" for q
    using assms(1) that by (force simp: known_after_def)
  show "List.map_filter (map_of (ad_cache w)) paths \<noteq> []"
    using assms(2) all [of "hd paths"] by (cases paths) (auto simp: map_filter_simps)
  show "\<forall>f \<in> set (List.map_filter (map_of (ad_cache w)) paths). after_watermark t f"
    using assms(1) by (fastforce simp: known_after_def map_filter_def)
  have "{q \<in> set paths. map_of (ad_cache w) q = None} = {}" using all by auto
  then show "processed_files (ad_cache w) paths fs \<longleftrightarrow> fs = List.map_filter (map_of (ad_cache w)) paths"
    unfolding processed_files_def by (simp only: subset_empty image_is_empty set_empty) auto
qed

lemma wp_submit_batch_sends:
  fixes w :: "'z observed_scheme"
  assumes K: "handle_free K" "put_free K" "\<And>w x. K w \<Longrightarrow> K (w\<lparr>lk_log := x\<rparr>)" and "K w" and "aw_puts w = P"
    and sql: "sql = su_script su refresh evolve props paths"
  shows "wp (submit_batch su md evolve refresh name props paths)
    (\<lambda>_ u. K u \<and> only_sent sql P u \<and> (runs_job sql \<longrightarrow> some_sent sql P u)) (\<lambda>_ u. K u \<and> only_sent sql P u) w"
proof -
  let ?J = "\<lambda>u. K u \<and> only_sent sql P u"
  note J = sent_frame(1) [OF K(1), of sql P]
  have settings: "keeps ?J (set_next_job name md)"
    unfolding set_next_job_def whenM_def by (intro keeps_intros J)
  have log: "keeps ?J (modifyM (\<lambda>w. w\<lparr>lk_log := su_engine su w\<rparr>))"
    by (intro keeps_modifyM) (simp add: K(3) only_sent_def)
  have start: "?J w" using assms(4,5) by (simp add: only_sent_def)
  have run: "wp (bindM (execute (su_handle su) (su_credentials su) sql ''dbt-scope'') (\<lambda>_. ret ()))
      (\<lambda>_ u. K u \<and> only_sent sql P u \<and> (runs_job sql \<longrightarrow> some_sent sql P u)) (\<lambda>_. ?J) u" if "?J u" for u
    unfolding wp_bindM [of "execute _ _ _ _"] by (rule wp_mono [OF wp_execute_sends [OF K(1,2) that]]) (simp_all add: wp_ret)
  show ?thesis
    unfolding submit_batch_def sql [symmetric] wp_thenM [of "set_next_job _ _"] wp_thenM [of "modifyM _"]
    by (rule wp_mono [OF keepsD [OF settings start]], rule wp_mono [OF keepsD [OF log]]) (assumption | rule run)+
qed

lemma sent_next_submitted:
  assumes "only_sent (su_script su refresh evolve props paths) P u" and "map fi_path fs = paths"
  shows "sent_next su False (refresh, fs) P u"
    and "(runs_job (su_script su refresh evolve props paths) \<longrightarrow> some_sent (su_script su refresh evolve props paths) P u) \<Longrightarrow>
      sent_next su True (refresh, fs) P u"
proof -
  let ?sql = "su_script su refresh evolve props paths"
  have part: "script_sent su (refresh, fs) part" if "\<forall>b \<in> set part. put_script b = ?sql" for part
    using that assms(2) unfolding script_sent_def by (intro exI [of _ evolve] exI [of _ props]) simp
  then show "sent_next su False (refresh, fs) P u"
    using assms(1) unfolding sent_next_def only_sent_def by blast
  assume "runs_job ?sql \<longrightarrow> some_sent ?sql P u"
  then show "sent_next su True (refresh, fs) P u"
    using assms(1) part unfolding sent_next_def only_sent_def some_sent_def real_scripts_def by blast
qed

text \<open>
  A batch moves the watermark over its files, is on record as submitted, and has sent its script; where
  it fails it may or may not have been submitted. \<open>K\<close> is any property that looks at no table, job or
  handle setting.
\<close>

lemma sent_next_cong: "aw_puts u = aw_puts v \<Longrightarrow> sent_next su whole b P u = sent_next su whole b P v"
  by (simp add: sent_next_def)

lemma wp_run_batch_exact:
  fixes w :: "'z observed_scheme"
  assumes loc: "abfss_parse (md_loc md) = Some l" and wm: "view_watermark (view (st_tables w (table_key l))) = Inr wm"
    and paths: "known_after (wm_instant wm) paths w" "paths \<noteq> []" and fs: "fs = List.map_filter (map_of (ad_cache w)) paths"
    and K: "aside K" "put_free K" "\<And>w x. K w \<Longrightarrow> K (w\<lparr>ob_batches := x\<rparr>)" "\<And>w x. K w \<Longrightarrow> K (w\<lparr>lk_log := x\<rparr>)" "K w"
  shows "wp (run_batch su md evolve refresh name paths)
    (\<lambda>_ u. K u \<and> ob_batches u = ob_batches w @ [(refresh, fs)] \<and> sent_next su True (refresh, fs) (aw_puts w) u \<and>
       (\<exists>version. view_watermark (view (st_tables u (table_key l))) = Inr (Some (new_watermark fs wm version))))
    (\<lambda>_ u. K u \<and> (ob_batches u = ob_batches w \<and> aw_puts u = aw_puts w \<or>
       ob_batches u = ob_batches w @ [(refresh, fs)] \<and> sent_next su False (refresh, fs) (aw_puts w) u)) w"
    (is "wp _ ?q ?e w")
proof -
  let ?c = "su_env su" and ?k = "table_key l" and ?B = "ob_batches w" and ?C = "ad_cache w" and ?v = "view (st_tables w (table_key l))"
  let ?B' = "?B @ [(refresh, fs)]" and ?P = "aw_puts w"
  note known = known_files [OF paths, folded fs]
  have all: "\<forall>q \<in> set paths. map_of ?C q \<noteq> None" using paths(1) by (auto simp: known_after_def)
  define J1 where "J1 u \<longleftrightarrow> K u \<and> ob_batches u = ?B \<and> ad_cache u = ?C \<and> aw_puts u = ?P" for u :: "'z observed_scheme"
  define J2 where "J2 v u \<longleftrightarrow> K u \<and> ob_batches u = ?B' \<and> ad_cache u = ?C \<and> view (st_tables u ?k) = v" for v and u :: "'z observed_scheme"
  define J3 where "J3 u \<longleftrightarrow> K u \<and> ob_batches u = ?B' \<and> ad_cache u = ?C \<and> sent_next su True (refresh, fs) ?P u" for u :: "'z observed_scheme"
  have J1: "aside J1" and J2: "handle_free (J2 v)" and J3: "aside J3" and J2_put: "put_free (J2 v)" for v
    using K(1,2)
    by (simp_all add: J1_def J2_def J3_def aside_def handle_free_def job_free_def quiet_def clock_free_def fault_free_def
        put_free_def sent_next_def)
  have partly: "sent_next su False b P u" if "sent_next su True b P u" for b P and u :: "'z observed_scheme"
    using that by (auto simp: sent_next_def)
  have checkpoint: "wp (update_checkpoint ?c (md_loc md) (md_roots md) (md_patterns md) paths (md_interval md) (md_retention md))
      ?q ?e u" if u: "J2 (set_pend p ?v) u" and sent: "sent_next su True (refresh, fs) ?P u" for p and u :: "'z observed_scheme"
  proof -
    have C: "ad_cache u = ?C" and B: "J3 u" and v: "view_in ?k (log_files u ?k) (\<lambda>v. v = set_pend p ?v) u"
      using u sent by (simp_all add: J2_def J3_def view_in_def)
    have upd: "wp (update_checkpoint ?c (md_loc md) (md_roots md) (md_patterns md) paths (md_interval md) (md_retention md))
        (\<lambda>_. J3) (\<lambda>_. J3) u"
      by (rule wp_update_checkpoint_known [OF J3 B]) (use all C in simp)
    have fs: "processed_files (ad_cache u) paths gs \<longleftrightarrow> gs = fs" for gs using known(3) C by simp
    show ?thesis
      by (rule wp_mono [OF wp_conj [OF wp_update_checkpoint [OF v loc HOL.refl] upd]])
         (use wm known(1) partly in \<open>auto simp: fs J3_def view_in_def\<close>)
  qed
  have submit: "wp (thenM (submit_batch su md evolve refresh name props paths)
      (update_checkpoint ?c (md_loc md) (md_roots md) (md_patterns md) paths (md_interval md) (md_retention md)))
      ?q ?e u" if "\<exists>p. J2 (set_pend p ?v) u \<and> aw_puts u = ?P" for props and u :: "'z observed_scheme"
  proof -
    let ?sql = "su_script su refresh evolve props paths"
    from that obtain p where p: "J2 (set_pend p ?v) u" "aw_puts u = ?P" by blast
    have lk: "J2 v (u\<lparr>lk_log := x\<rparr>)" if "J2 v u" for v x and u :: "'z observed_scheme"
      using that by (simp add: J2_def K(4))
    have sent: "sent_next su False (refresh, fs) ?P u" if "only_sent ?sql ?P u" for u :: "'z observed_scheme"
      by (rule sent_next_submitted(1) [OF that known(4)])
    have done_it: "wp (update_checkpoint ?c (md_loc md) (md_roots md) (md_patterns md) paths (md_interval md) (md_retention md)) ?q ?e u"
      if "J2 (set_pend p ?v) u \<and> only_sent ?sql ?P u \<and> (runs_job ?sql \<longrightarrow> some_sent ?sql ?P u)" for u :: "'z observed_scheme"
      using that by (intro checkpoint sent_next_submitted(2) [OF _ known(4)]) auto
    have failed: "?e x u" if "J2 (set_pend p ?v) u \<and> only_sent ?sql ?P u" for x and u :: "'z observed_scheme"
      using that sent by (simp add: J2_def)
    show ?thesis
      unfolding wp_thenM [of "submit_batch _ _ _ _ _ _ _"]
      by (rule wp_mono [OF wp_submit_batch_sends [OF J2 J2_put lk p HOL.refl]]) (assumption | rule done_it, assumption | rule failed, assumption)+
  qed
  have begin_ok: "wp (begin_batch ?c (md_loc md) paths name) (\<lambda>props u. \<exists>p. J1 u \<and> view (st_tables u ?k) = set_pend p ?v) ?e w"
  proof -
    have "view_in ?k (log_files w ?k) (\<lambda>v. v = ?v) w" by (simp add: view_in_def)
    from wp_begin_batch [OF this loc HOL.refl wm, of ?c paths name]
    have "wp (begin_batch ?c (md_loc md) paths name) (\<lambda>props u. \<exists>p. view (st_tables u ?k) = set_pend p ?v) (\<lambda>_ _. True) w"
      by (rule wp_mono) (auto simp: view_in_def)
    moreover have "keeps J1 (begin_batch ?c (md_loc md) paths name)" by (intro keeps_intros J1)
    moreover have "J1 w" by (simp add: J1_def K(5))
    ultimately have "wp (begin_batch ?c (md_loc md) paths name)
        (\<lambda>props u. (\<exists>p. view (st_tables u ?k) = set_pend p ?v) \<and> J1 u) (\<lambda>_ u. True \<and> J1 u) w"
      by (intro wp_conj keepsD)
    then show ?thesis by (rule wp_mono) (auto simp: J1_def)
  qed
  show ?thesis
    unfolding run_batch_def wp_bindM [of "begin_batch _ _ _ _"] wp_thenM [of "note_batch _ _"]
    by (rule wp_mono [OF begin_ok])
       (auto simp: note_batch_def wp_modifyM J1_def fs [symmetric] intro!: submit simp: J2_def K(3))
qed

lemma wp_run_batch:
  fixes w :: "'z observed_scheme"
  assumes loc: "abfss_parse (md_loc md) = Some l" and start: "so_far su full (table_key l) wm w"
    and paths: "known_after (wm_instant wm) paths w" "paths \<noteq> []"
    and refresh: "refresh \<longleftrightarrow> full \<and> ob_batches w = []"
  shows "wp (run_batch su md evolve refresh name paths)
    (\<lambda>_ u. (\<exists>wm. so_far su full (table_key l) wm u) \<and> length (ob_batches u) = Suc (length (ob_batches w)))
    (\<lambda>_. ordered su full) w"
proof -
  let ?k = "table_key l" and ?B = "ob_batches w" and ?fs = "List.map_filter (map_of (ad_cache w)) paths"
  let ?B' = "?B @ [(refresh, ?fs)]" and ?P = "aw_puts w"
  note known = known_files [OF paths]
  have order: "in_order ?B'" if "times_known ?B'"
    using start that by (intro in_order_snoc [OF _ _ known(2)]) (auto simp: so_far_def times_known_def)
  have deletes: "deletes_once full ?B'"
    using start refresh by (intro deletes_once_snoc) (simp_all add: so_far_def)
  have S: "all_sent su ?B ?P" using start by (simp add: so_far_def)
  have moved: "\<exists>wm. so_far su full ?k wm u"
    if "ob_batches u = ?B'" "view_watermark (view (st_tables u ?k)) = Inr (Some (new_watermark ?fs wm version))"
      "sent_next su True (refresh, ?fs) ?P u" for version and u :: "'z observed_scheme"
    using that start order deletes passed_snoc [OF _ known(2,1), of ?B wm version refresh] sent_snoc_batch(2) [OF S that(3)]
    by (intro exI [of _ "Some (new_watermark ?fs wm version)"]) (auto simp: so_far_def times_known_def)
  have kept: "ordered su full u"
    if "ob_batches u = ?B \<and> aw_puts u = ?P \<or> ob_batches u = ?B' \<and> sent_next su False (refresh, ?fs) ?P u" for u :: "'z observed_scheme"
    using that start order deletes sent_snoc_batch(1) [OF all_sent_for [OF S], of False "(refresh, ?fs)" u]
    by (auto simp: so_far_def ordered_def all_sent_for)
  have free: "aside (\<lambda>_ :: 'z observed_scheme. True)" "put_free (\<lambda>_ :: 'z observed_scheme. True)"
    by (simp_all add: aside_def handle_free_def job_free_def quiet_def clock_free_def fault_free_def put_free_def)
  have wm: "view_watermark (view (st_tables w ?k)) = Inr wm" using start by (simp add: so_far_def)
  show ?thesis
    by (rule wp_mono [OF wp_run_batch_exact [OF loc wm paths HOL.refl free]]) (auto intro: moved kept)
qed

lemma frame_conj: "frame J \<Longrightarrow> frame K \<Longrightarrow> frame (\<lambda>w. J w \<and> K w)"
  by (simp add: frame_def cacheless_def source_free_def owner_free_def job_free_def quiet_def clock_free_def fault_free_def)

lemma frame_batches: "frame (\<lambda>w. ob_batches (w :: 'z observed_scheme) = B \<and> aw_puts w = P)"
  by (simp add: frame_def cacheless_def source_free_def owner_free_def job_free_def quiet_def clock_free_def fault_free_def
      upd_table_def set_owner_file_def)

lemma wp_discover_next:
  fixes w :: "'z observed_scheme"
  assumes loc: "abfss_parse (md_loc md) = Some l" and start: "so_far su full (table_key l) wm w"
  shows "wp (discover c md)
    (\<lambda>paths u. so_far su full (table_key l) wm u \<and> ob_batches u = ob_batches w \<and> known_after (wm_instant wm) paths u)
    (\<lambda>_. ordered su full) w"
proof -
  let ?k = "table_key l" and ?B = "ob_batches w" and ?P = "aw_puts w" and ?v = "view (st_tables w (table_key l))"
  define J where "J u \<longleftrightarrow> view_in ?k (log_files w ?k) (\<lambda>v. v = ?v) u \<and> ob_batches u = ?B \<and> aw_puts u = ?P" for u :: "'z observed_scheme"
  have fr: "frame J"
    unfolding J_def by (intro frame_conj frame_view_in frame_batches)
  have w: "J w" by (simp add: J_def view_in_def)
  have v: "view (st_tables u ?k) = ?v" if "J u" for u :: "'z observed_scheme"
    using that by (simp add: J_def view_in_def)
  have same: "so_far su full ?k wm u \<and> ob_batches u = ?B" if "J u" for u :: "'z observed_scheme"
    using that start by (simp add: so_far_def J_def view_in_def)
  have "view_watermark ?v = Inr wm" using start by (simp add: so_far_def)
  then show ?thesis
    by (intro wp_mono [OF wp_discover [OF fr w loc v]]) (auto dest!: same intro: so_far_ordered)
qed

lemma handle_free_so_far: "handle_free (\<lambda>w. so_far su full k wm w \<and> ob_batches w = B)"
  by (auto simp: so_far_def handle_free_def job_free_def quiet_def clock_free_def fault_free_def)

lemma wp_next_cycle:
  fixes w :: "'z observed_scheme"
  assumes loc: "abfss_parse (md_loc md) = Some l" and start: "so_far su full (table_key l) wm w"
  shows "wp (next_cycle c thread md t)
    (\<lambda>(go, paths) u. so_far su full (table_key l) wm u \<and> ob_batches u = ob_batches w \<and> known_after (wm_instant wm) paths u)
    (\<lambda>_. ordered su full) w"
proof -
  let ?J = "\<lambda>u :: 'z observed_scheme. so_far su full (table_key l) wm u \<and> ob_batches u = ob_batches w"
  have waiting: "keeps ?J (wait_for_next_cycle thread (fst t) (snd t))"
    unfolding wait_for_next_cycle_def forget_cycle_def
    by (intro keeps_intros keeps_modifyM handle_free_so_far handle_freeD(2) [OF handle_free_so_far]) (auto simp: so_far_def)
  have going: "wp (bindM (discover c md) (\<lambda>paths. bindM get_total_batches (\<lambda>n. ret (True, paths))))
      (\<lambda>(go, paths) u. ?J u \<and> known_after (wm_instant wm) paths u) (\<lambda>_. ordered su full) u"
    if J: "?J u" for u :: "'z observed_scheme"
    unfolding wp_bindM [of "discover _ _"]
    by (rule wp_mono [OF wp_discover_next [OF loc conjunct1 [OF J]]])
       (use J in \<open>simp_all add: get_total_batches_def wp_bindM wp_asks wp_ret\<close>)
  have "wp (bindM (wait_for_next_cycle thread (fst t) (snd t)) (\<lambda>go. if \<not> go then ret (False, [])
      else bindM (discover c md) (\<lambda>paths. bindM get_total_batches (\<lambda>n. ret (True, paths)))))
      (\<lambda>(go, paths) u. ?J u \<and> known_after (wm_instant wm) paths u) (\<lambda>_. ordered su full) u"
    if "?J u" for u :: "'z observed_scheme"
    unfolding wp_bindM [of "wait_for_next_cycle _ _ _"]
    by (rule wp_mono [OF keepsD [OF waiting that]])
       (use going in \<open>auto simp: wp_ret known_after_def intro: so_far_ordered\<close>)
  then show ?thesis
    unfolding next_cycle_def wp_thenM clear_file_discovery_cache_def clear_file_cache_def wp_modifyM
    using start by (simp add: so_far_def)
qed

text \<open>
  The loop keeps \<open>I n paths\<close>, with the batches run and the files at hand, if each of its steps does; \<open>M\<close>
  holds between a batch and the next discovery, \<open>F\<close> after a failure.
\<close>

lemma wp_batch_loop:
  assumes batch: "\<And>n paths name w. I n paths w \<Longrightarrow> paths \<noteq> [] \<Longrightarrow>
      wp (run_batch su md evolve (full \<and> n = 0) name paths) (\<lambda>_. M n) (\<lambda>_. F) w"
    and nxt: "\<And>n w. M n w \<Longrightarrow> wp (discover (su_env su) md) (\<lambda>more. I (Suc n) more) (\<lambda>_. F) w"
    and cycle: "\<And>n t w. trigger = Some t \<Longrightarrow> I n [] w \<Longrightarrow>
      wp (next_cycle (su_env su) (su_thread su) md t) (\<lambda>(go, paths). I n paths) (\<lambda>_. F) w"
  shows "I n paths w \<Longrightarrow>
    wp (batch_loop k su md full trigger evolve planned go n paths) (\<lambda>(n, rest). I n rest) (\<lambda>_. F) w"
proof (induction k arbitrary: go n paths w)
  case 0
  then show ?case by (simp add: wp_ret)
next
  case (Suc k)
  let ?q = "\<lambda>(n, rest). I n rest"
  let ?again = "\<lambda>n (go, paths). batch_loop k su md full trigger evolve planned go n paths"
  have again: "wp (bindM (next_cycle (su_env su) (su_thread su) md t) (?again n)) ?q (\<lambda>_. F) u"
    if "trigger = Some t" "I n [] u" for t n u
    unfolding wp_bindM by (rule wp_mono [OF cycle [OF that]]) (auto intro: Suc.IH)
  have more: "wp (bindM (discover (su_env su) md) (\<lambda>more. case trigger of
        None \<Rightarrow> batch_loop k su md full trigger evolve planned go (Suc n) more
      | Some t \<Rightarrow> if more \<noteq> [] then batch_loop k su md full trigger evolve planned go (Suc n) more
          else bindM (next_cycle (su_env su) (su_thread su) md t) (?again (Suc n)))) ?q (\<lambda>_. F) u"
    if "M n u" for u
    unfolding wp_bindM [of "discover _ _"]
    by (rule wp_mono [OF nxt [OF that]])
       (use Suc.IH [of "Suc n" _ _ go] again [of _ "Suc n"] in \<open>auto split: option.split\<close>)
  have "wp (thenM (run_batch su md evolve (full \<and> n = 0) (batch_job_name md full (Suc n) planned (length paths)) paths)
        (bindM (discover (su_env su) md) (\<lambda>more. case trigger of
            None \<Rightarrow> batch_loop k su md full trigger evolve planned go (Suc n) more
          | Some t \<Rightarrow> if more \<noteq> [] then batch_loop k su md full trigger evolve planned go (Suc n) more
              else bindM (next_cycle (su_env su) (su_thread su) md t) (?again (Suc n))))) ?q (\<lambda>_. F) w"
    if "paths \<noteq> []"
    unfolding wp_thenM by (rule wp_mono [OF batch [OF Suc.prems that]]) (auto intro: more)
  then show ?case
    using Suc.IH [OF Suc.prems] again [of _ n w] Suc.prems by (auto split: option.split)
qed

text \<open>DuckDB only reads: it changes nothing but the clock and the schedule of outages.\<close>

definition duck_reads :: "('z store_scheme) duckdb \<Rightarrow> bool" where
  "duck_reads dk \<longleftrightarrow> (\<forall>J. quiet J \<longrightarrow> duck_keeps J dk)"

lemma wp_first_discover:
  fixes w :: "'z observed_scheme"
  assumes loc: "abfss_parse (md_loc md) = Some l" and "ob_batches w = [] \<and> aw_puts w = []"
  shows "wp (discover c md)
    (\<lambda>paths u. \<exists>wm. so_far su full (table_key l) wm u \<and> ob_batches u = [] \<and> known_after (wm_instant wm) paths u)
    (\<lambda>_. ordered su full) w"
proof -
  let ?k = "table_key l" and ?v = "view (st_tables w (table_key l))"
  define J where "J u \<longleftrightarrow> view_in ?k (log_files w ?k) (\<lambda>v. v = ?v) u \<and> ob_batches u = [] \<and> aw_puts u = []" for u :: "'z observed_scheme"
  have fr: "frame J" unfolding J_def by (intro frame_conj frame_view_in frame_batches)
  have w: "J w" by (simp add: J_def view_in_def assms(2))
  have v: "view (st_tables u ?k) = ?v" if "J u" for u :: "'z observed_scheme"
    using that by (simp add: J_def view_in_def)
  have none: "J u \<Longrightarrow> view_watermark ?v = Inr wm \<Longrightarrow> so_far su full ?k wm u \<and> ob_batches u = []" "J u \<Longrightarrow> ordered su full u"
    for wm and u :: "'z observed_scheme"
    by (simp_all add: so_far_def ordered_def J_def view_in_def in_order_def passed_def all_sent_def sent_for_def deletes_once_def)
  show ?thesis
    by (rule wp_mono [OF wp_discover [OF fr w loc v]]) (use none in auto)
qed

lemma wp_announced_loop:
  fixes w :: "'z observed_scheme"
  assumes loc: "abfss_parse (md_loc md) = Some l" and "duck_reads (su_duckdb su)"
    and "so_far su full (table_key l) wm w" and "ob_batches w = []" and "known_after (wm_instant wm) paths w"
  shows "wp (bindM get_total_batches (\<lambda>planned.
      bindM (compute_schema_evolution m (su_duckdb su) (md_loc md) (md_columns md) (md_partition md)) (\<lambda>evolve.
      bindM (batch_loop k su md full trigger evolve planned True 0 paths) (\<lambda>(n, _). ret n))))
    (\<lambda>_. ordered su full) (\<lambda>_. ordered su full) w"
proof -
  let ?F = "ordered su full" and ?k = "table_key l"
  let ?I = "\<lambda>(n :: nat) paths u. \<exists>wm. so_far su full ?k wm u \<and> length (ob_batches u) = n \<and>
    known_after (wm_instant wm) paths (u :: 'z observed_scheme)"
  let ?M = "\<lambda>(n :: nat) (u :: 'z observed_scheme). (\<exists>wm. so_far su full ?k wm u) \<and> length (ob_batches u) = Suc n"
  define J where "J u \<longleftrightarrow> so_far su full ?k wm u \<and> ob_batches u = [] \<and> known_after (wm_instant wm) paths u" for u :: "'z observed_scheme"
  have quiet: "quiet J"
    by (auto simp: J_def so_far_def known_after_def quiet_def clock_free_def fault_free_def)
  have "keeps J (compute_schema_evolution m (su_duckdb su) (md_loc md) (md_columns md) (md_partition md))"
    using assms(2) quiet by (intro keeps_intros) (simp_all add: duck_reads_def)
  from keepsD [OF this] assms(3-5)
  have evolved: "wp (compute_schema_evolution m (su_duckdb su) (md_loc md) (md_columns md) (md_partition md)) (\<lambda>_. J) (\<lambda>_. J) w"
    by (simp add: J_def)
  have batch: "wp (run_batch su md evolve (full \<and> n = 0) name paths) (\<lambda>_. ?M n) (\<lambda>_. ?F) u"
    if I: "?I n paths u" and "paths \<noteq> []" for evolve n paths name and u :: "'z observed_scheme"
  proof -
    from I obtain wm where wm: "so_far su full ?k wm u" "length (ob_batches u) = n" "known_after (wm_instant wm) paths u" by blast
    have "(full \<and> n = 0) \<longleftrightarrow> full \<and> ob_batches u = []" using wm(2) by auto
    from wp_run_batch [OF loc wm(1,3) that(2) this] show ?thesis by (rule wp_mono) (use wm(2) in auto)
  qed
  have more: "wp (discover (su_env su) md) (\<lambda>more. ?I (Suc n) more) (\<lambda>_. ?F) u" if M: "?M n u" for n and u :: "'z observed_scheme"
  proof -
    from M obtain wm where wm: "so_far su full ?k wm u" by blast
    show ?thesis by (rule wp_mono [OF wp_discover_next [OF loc wm]]) (use M in auto)
  qed
  have cycle: "wp (next_cycle (su_env su) (su_thread su) md t) (\<lambda>(go, paths). ?I n paths) (\<lambda>_. ?F) u"
    if I: "?I n [] u" for n t and u :: "'z observed_scheme"
  proof -
    from I obtain wm where wm: "so_far su full ?k wm u" "length (ob_batches u) = n" by blast
    show ?thesis by (rule wp_mono [OF wp_next_cycle [OF loc wm(1)]]) (use wm(2) in auto)
  qed
  have "wp (bindM (batch_loop k su md full trigger evolve planned True 0 paths) (\<lambda>(n, _). ret n))
      (\<lambda>_. ?F) (\<lambda>_. ?F) u" if "J u" for evolve planned and u :: "'z observed_scheme"
  proof -
    have start: "?I 0 paths u" using that by (auto simp: J_def)
    have "wp (batch_loop k su md full trigger evolve planned True 0 paths) (\<lambda>(n, rest). ?I n rest) (\<lambda>_. ?F) u"
      by (rule wp_batch_loop [where M = ?M and I = ?I, OF batch more cycle start])
    then show ?thesis
      unfolding wp_bindM by (rule wp_mono) (auto simp: wp_ret intro: so_far_ordered)
  qed
  then show ?thesis
    unfolding get_total_batches_def wp_bindM [of "asks _"] wp_asks wp_bindM [of "compute_schema_evolution _ _ _ _ _"]
    by (intro wp_mono [OF evolved]) (auto simp: J_def intro: so_far_ordered)
qed

lemma no_op_idle: "needs_no_job no_op_script"
  by code_simp

lemma keeps_prepare_run:
  fixes J :: "'z observed_scheme \<Rightarrow> bool"
  assumes "aside J" "cacheless J" "handle_free J" "\<And>w x. J w \<Longrightarrow> J (w\<lparr>ad_cycles := x\<rparr>)"
  shows "keeps J (prepare_run su md full trigger)"
proof -
  have "keeps J (reset_cycle_count (su_thread su))"
    unfolding reset_cycle_count_def forget_cycle_def by (intro keeps_modifyM) (rule assms(4))
  then show ?thesis unfolding prepare_run_def whenM_def Let_def by (intro keeps_intros assms(1-3))
qed

definition idle :: "'z observed_scheme \<Rightarrow> bool" where
  "idle w \<longleftrightarrow> ob_batches w = [] \<and> aw_puts w = []"

lemma keeps_idle: "keeps idle (prepare_run su md full trigger)"
  by (rule keeps_prepare_run)
     (simp_all add: idle_def aside_def handle_free_def job_free_def cacheless_def quiet_def clock_free_def fault_free_def)

lemma ordered_run:
  fixes w :: "'z observed_scheme"
  assumes loc: "abfss_parse (md_loc md) = Some l" and "duck_reads (su_duckdb su)" and "ob_batches w = []" and "aw_puts w = []"
  shows "wp (incremental_run su md full trigger) (\<lambda>_. ordered su full) (\<lambda>_. ordered su full) w"
proof -
  let ?F = "ordered su full"
  have fresh: "?F u" if "idle u" for u :: "'z observed_scheme"
    using that by (simp add: idle_def ordered_def in_order_def sent_for_def deletes_once_def)
  let ?rest = "\<lambda>paths. if paths = [] \<and> trigger = None then
      bindM (execute (su_handle su) (su_credentials su) no_op_script ''dbt-scope'') (\<lambda>_. ret 0)
    else bindM get_total_batches (\<lambda>planned.
      bindM (compute_schema_evolution (en_manager (su_env su)) (su_duckdb su) (md_loc md) (md_columns md) (md_partition md)) (\<lambda>evolve.
      bindM (batch_loop (loop_cap trigger) su md full trigger evolve planned True 0 paths) (\<lambda>(n, _). ret n)))"
  have rest: "wp (?rest paths) (\<lambda>_. ?F) (\<lambda>_. ?F) u"
    if "so_far su full (table_key l) wm u" "ob_batches u = []" "known_after (wm_instant wm) paths u" for paths wm and u :: "'z observed_scheme"
  proof -
    have "wp (bindM (execute (su_handle su) (su_credentials su) no_op_script ''dbt-scope'') (\<lambda>_. ret (0 :: nat)))
        (\<lambda>_. ?F) (\<lambda>_. ?F) u"
      unfolding wp_bindM
      by (rule wp_mono [OF keepsD [where J = ?F, OF keeps_execute_idle [OF no_op_idle] so_far_ordered [OF that(1)]]]) (simp_all add: wp_ret)
    with wp_announced_loop [OF loc assms(2) that] show ?thesis by simp
  qed
  have found: "wp (bindM (discover (su_env su) md) ?rest) (\<lambda>_. ?F) (\<lambda>_. ?F) u" if "idle u" for u :: "'z observed_scheme"
    unfolding wp_bindM [of "discover _ _"]
    by (rule wp_mono [OF wp_first_discover [OF loc that [unfolded idle_def]]]) (elim exE conjE, rule rest, assumption+)
  have "idle w" using assms(3,4) by (simp add: idle_def)
  from keepsD [OF keeps_idle this] show ?thesis
    unfolding incremental_run_def wp_thenM by (rule wp_mono) (erule found, erule fresh)
qed

section \<open>Properties\<close>


text \<open>Three files, two of them per batch, and a service that accepts two jobs.\<close>

definition sample_model :: model where
  "sample_model = \<lparr>md_tag = ''m'', md_loc = sample_loc, md_roots = [''/d''], md_patterns = [[]], md_max_files = 2,
     md_max_bytes = 1000, md_buf = 30, md_starting = None, md_fallback = False, md_interval = 10, md_retention = 100,
     md_columns = [], md_partition = NoPartition, md_au = None, md_priority = None, md_timeout = None\<rparr>"

definition no_duckdb :: "'w duckdb" where
  "no_duckdb = \<lparr>dk_open = ret (), dk_execute = (\<lambda>_. ret ()), dk_token = ret [], dk_fetchall = (\<lambda>_. ret []),
     dk_description = (\<lambda>_. ret []), dk_close = ret ()\<rparr>"

definition sample_setup :: "observed run_setup" where
  "sample_setup = \<lparr>su_env = sample_env, su_handle = sample_handle, su_credentials = default_credentials,
     su_duckdb = no_duckdb, su_script = (\<lambda>refresh _ _ fs. (if refresh then ''DELETE; INSERT'' else ''INSERT'') @ concat fs),
     su_engine = lk_log, su_thread = 0\<rparr>"

definition sample_folder :: gen1_entry where
  "sample_folder = G1Dir ''/d'' [G1File ''/d/a.ss'' (Some 5) (Some 1000), G1File ''/d/b.ss'' (Some 5) (Some 2000),
     G1File ''/d/c.ss'' (Some 5) (Some 3000)]"

definition sample_observed :: "table_dir \<Rightarrow> observed" where
  "sample_observed d = adapter.extend (sample_adapter d [] []) \<lparr>ob_batches = []\<rparr>
     \<lparr>aw_plans := [accepted, accepted], st_clock := 100000000,
      g1_lookup := (\<lambda>p. if p = ''/d'' then Some sample_folder else None)\<rparr>"

lemma no_duckdb_reads: "duck_reads no_duckdb"
  by (simp add: duck_reads_def duck_keeps_def no_duckdb_def keeps_ret)

lemma sample_model_simps [simp]:
  "abfss_parse (md_loc sample_model) = Some sample_location" "ob_batches (sample_observed d) = []"
  "duck_reads (su_duckdb sample_setup)" "aw_puts (sample_observed d) = []"
  by (simp_all add: sample_model_def parse_sample_loc sample_observed_def adapter.extend_def sample_setup_def no_duckdb_reads
      sample_adapter_def)


end
