(* ===== verification/Run_Completeness.thy ===== *)
theory Run_Completeness
  imports Incremental_Run "HOL-Library.Code_Target_Numeral"
begin

text \<open>
  What a run leaves behind. Only the first batch of a full refresh deletes rows; and once an
  \<open>available_now\<close> run returns, every file of the listing that was eligible when it began has been
  submitted, but for the files whose modification time a batch ended on.
\<close>

section \<open>What a discovery finds\<close>

definition eligible :: "int option \<Rightarrow> int \<Rightarrow> file_info \<Rightarrow> bool" where
  "eligible t cutoff f \<longleftrightarrow> fi_modification_time f \<le> cutoff \<and> after_watermark t f"

lemma discovered_exact:
  assumes "discover_unprocessed_files fs now wm buf = Inr out"
  shows "out = filter (eligible (wm_instant wm) (now - buf * 1000000)) fs"
proof (cases "wm_readable wm")
  case True
  then show ?thesis using assms by (auto simp: discover_unprocessed_filter eligible_def cong: filter_cong)
next
  case False
  let ?cut = "now - buf * 1000000"
  have naive: "keep_unprocessed cut (Some d) fs = Inr out \<Longrightarrow> \<not> is_aware d \<Longrightarrow>
      out = [] \<and> (\<forall>f \<in> set fs. cut < fi_modification_time f)" for cut d
    by (induction fs arbitrary: out) (auto split: if_splits)
  obtain v where wm: "wm = Some v" using False by (cases wm) (auto simp: wm_readable_def)
  obtain md where md: "modified_time_dt v = Inr md"
    using assms wm by (cases "modified_time_dt v") (auto simp: discover_unprocessed_files_def bindE_def)
  obtain d where d: "md = Some d" "\<not> is_aware d"
    using False wm md by (auto simp: wm_readable_def split: option.splits)
  have "keep_unprocessed ?cut (Some d) fs = Inr out"
    using assms wm md d(1) by (simp add: discover_unprocessed_files_def Let_def bindE_def)
  from naive [OF this d(2)] show ?thesis by (force simp: eligible_def filter_empty_conv eq_commute [of "[]"])
qed

text \<open>The cached listing of the only root and pattern.\<close>

definition listed :: "string \<Rightarrow> string \<Rightarrow> file_info list \<Rightarrow> 'z gen1_scheme \<Rightarrow> bool" where
  "listed r p L w \<longleftrightarrow> map_of (g1_listings w) (r, p) = Some L"

lemma wp_list_files_cached:
  assumes "cacheless J" and "J w"
  shows "wp (list_files m r p) (\<lambda>fs u. J u \<and> listed r p fs u \<and> (\<forall>L. listed r p L w \<longrightarrow> L = fs)) (\<lambda>_. J) w"
proof (cases "map_of (g1_listings w) (r, p)")
  case None
  have "wp (bindM (walk_root m r) (\<lambda>entries.
      let fs = listed_files (mg_engine m) p entries in
      thenM (modifyM (\<lambda>w. w\<lparr>g1_listings := assoc_put (r, p) fs (g1_listings w)\<rparr>)) (ret fs)))
      (\<lambda>fs u. J u \<and> listed r p fs u) (\<lambda>_. J) w"
    unfolding wp_bindM
    by (rule wp_mono [OF wp_walk_root [OF cacheless_quiet [OF assms(1)] assms(2)]])
       (use assms(1) in \<open>auto simp: Let_def eff_rules cacheless_def listed_def\<close>)
  with None assms(2) show ?thesis by (simp add: list_files_def wp_bindM wp_asks wp_raise listed_def)
next
  case (Some L)
  with assms(2) show ?thesis by (simp add: list_files_def wp_bindM wp_asks wp_ret listed_def)
qed

lemma add_unseen_distinct:
  "distinct (map fi_path (gs @ fs)) \<Longrightarrow> add_unseen gs fs = gs @ fs"
  by (induction fs arbitrary: gs) auto

text \<open>
  \<open>found\<close>: the paths are the next batch of the files that were eligible at some time from \<open>t0\<close> on, with
  their estimates, and the cache knows these files.
\<close>

definition found :: "model \<Rightarrow> int \<Rightarrow> int option \<Rightarrow> file_info list \<Rightarrow> string list \<Rightarrow> 'z adapter_scheme \<Rightarrow> bool" where
  "found md t0 t L paths w \<longleftrightarrow> (\<exists>now backlog. t0 \<le> now \<and>
     list_all2 same_file (sort_key fi_modification_time (filter (eligible t (now - md_buf md * 1000000)) L)) backlog \<and>
     paths = map fi_path (get_next_batch backlog (md_max_files md) (md_max_bytes md)) \<and>
     List.map_filter (map_of (ad_cache w)) paths = get_next_batch backlog (md_max_files md) (md_max_bytes md))"

lemma remembered:
  assumes "distinct (map fi_path fs)" and "f \<in> set fs"
  shows "map_of (fold (\<lambda>f. assoc_put (fi_path f) f) fs m) (fi_path f) = Some f"
proof -
  obtain g where "g \<in> set fs" "map_of (fold (\<lambda>f. assoc_put (fi_path f) f) fs m) (fi_path f) = Some g" "fi_path g = fi_path f"
    using remembered_ex [of "fi_path f" fs m] assms(2) by blast
  moreover from this have "g = f" using assms by (auto simp: distinct_map dest: inj_onD)
  ultimately show ?thesis by simp
qed

lemma remembered_batch:
  assumes "distinct (map fi_path fs)" and "set gs \<subseteq> set fs"
  shows "List.map_filter (map_of (fold (\<lambda>f. assoc_put (fi_path f) f) fs m)) (map fi_path gs) = gs"
  using assms(2) remembered [OF assms(1)] by (induction gs) (simp_all add: map_filter_simps)

lemma same_paths: "list_all2 same_file fs gs \<Longrightarrow> map fi_path fs = map fi_path gs"
  by (induction rule: list_all2_induct) (simp_all add: same_file_def)

lemma wp_enrich_found:
  fixes w :: "'z adapter_scheme"
  assumes J: "frame J" "J w" and L: "listed r p L w"
    and fs: "distinct (map fi_path L) \<Longrightarrow> fs = filter (eligible t (now - md_buf md * 1000000)) L" and "t0 \<le> now"
  shows "wp (bindM (enrich_with_estimates m (sort_key fi_modification_time fs)) (\<lambda>backlog.
      thenM (remember_files backlog)
        (thenM (modifyM (\<lambda>w. w\<lparr>ad_total := count_batches backlog (md_max_files md) (md_max_bytes md)\<rparr>))
          (ret (map fi_path (get_next_batch backlog (md_max_files md) (md_max_bytes md)))))))
    (\<lambda>paths u. J u \<and> listed r p L u \<and> (distinct (map fi_path L) \<longrightarrow> found md t0 t L paths u)) (\<lambda>_. J) w"
proof -
  have free: "estimates_free (\<lambda>u. J u \<and> listed r p L u)"
    using frameD(1) [OF J(1)]
    by (simp add: estimates_free_def cacheless_def quiet_def clock_free_def fault_free_def listed_def)
  have found: "found md t0 t L (map fi_path (get_next_batch gs (md_max_files md) (md_max_bytes md)))
      (v\<lparr>ad_cache := fold (\<lambda>f. assoc_put (fi_path f) f) gs (ad_cache v)\<rparr>\<lparr>ad_total := n\<rparr>)"
    if "list_all2 same_file (sort_key fi_modification_time fs) gs" "distinct (map fi_path L)" for gs n and v :: "'z adapter_scheme"
  proof -
    have "distinct (map fi_path gs)"
      unfolding same_paths [OF that(1), symmetric] fs [OF that(2)] using that(2)
      by (simp add: distinct_map inj_on_def)
    moreover have "set (get_next_batch gs mf mb) \<subseteq> set gs" for mf mb
      by (rule get_next_batch_take [of gs mf mb]) (simp add: set_take_subset)
    ultimately show ?thesis
      using that assms(5) unfolding found_def fs [OF that(2)]
      by (intro exI [of _ now] exI [of _ gs]) (simp add: remembered_batch)
  qed
  have "wp (enrich_with_estimates m (sort_key fi_modification_time fs))
      (\<lambda>gs u. (J u \<and> listed r p L u) \<and> list_all2 same_file (sort_key fi_modification_time fs) gs) (\<lambda>_ u. J u \<and> listed r p L u) w"
    by (rule wp_enrich_estimates [OF free]) (use J L in simp)
  then show ?thesis
    unfolding wp_bindM
    by (rule wp_mono)
       (use found in \<open>auto simp: remember_files_def wp_thenM wp_modifyM wp_ret listed_def frameD(6,8) [OF J(1)]\<close>)
qed

lemma wp_discover_exact:
  fixes w :: "'z adapter_scheme"
  assumes J: "frame J" "J w" and loc: "abfss_parse (md_loc md) = Some l"
    and single: "md_roots md = [r]" "md_patterns md = [p]" "md_starting md = None"
    and fixed: "\<And>u. J u \<Longrightarrow> view (st_tables u (table_key l)) = v0" and late: "\<And>u. J u \<Longrightarrow> t0 \<le> st_clock u"
    and wm: "view_watermark v0 = Inr wm"
  shows "wp (discover c md) (\<lambda>paths u. J u \<and> (\<exists>L. listed r p L u \<and> (\<forall>L'. listed r p L' w \<longrightarrow> L = L') \<and>
      (distinct (map fi_path L) \<longrightarrow> found md t0 (wm_instant wm) L paths u))) (\<lambda>_. J) w"
    (is "wp _ ?q _ w")
proof -
  let ?m = "en_manager c"
  note cl = frameD(1) [OF J(1)]
  let ?take = "\<lambda>fs. bindM (enrich_with_estimates ?m (sort_key fi_modification_time fs)) (\<lambda>backlog.
      thenM (remember_files backlog)
        (thenM (modifyM (\<lambda>w. w\<lparr>ad_total := count_batches backlog (md_max_files md) (md_max_bytes md)\<rparr>))
          (ret (map fi_path (get_next_batch backlog (md_max_files md) (md_max_bytes md))))))"
  let ?same = "\<lambda>u. \<forall>L'. listed r p L' w \<longrightarrow> listed r p L' u"
  define K where "K u \<longleftrightarrow> J u \<and> ?same u" for u :: "'z adapter_scheme"
  have list_it: "wp (list_files ?m r p) (\<lambda>fs u. J u \<and> listed r p fs u \<and> (\<forall>L'. listed r p L' w \<longrightarrow> fs = L')) (\<lambda>_. J) u"
    if "K u" for u :: "'z adapter_scheme"
    by (rule wp_mono [OF wp_list_files_cached [OF cl]]) (use that in \<open>auto simp: K_def\<close>)
  have pairs: "wp (bindM (list_unprocessed c [r] [p] wm (md_buf md)) ?take) ?q (\<lambda>_. J) u" if u: "K u" for u :: "'z adapter_scheme"
  proof -
    have step: "wp (bindM now_us (\<lambda>now. liftE (discover_unprocessed_files L now wm (md_buf md))))
        (\<lambda>fs. wp (ret (add_unseen [] fs)) (\<lambda>fs. wp (?take fs) ?q (\<lambda>_. J)) (\<lambda>_. J)) (\<lambda>_. J) v"
      if v: "J v" "listed r p L v" "\<forall>L'. listed r p L' w \<longrightarrow> L = L'" for L and v :: "'z adapter_scheme"
    proof -
      let ?now = "st_clock v"
      have "wp (?take (add_unseen [] fs)) ?q (\<lambda>_. J) v" if "discover_unprocessed_files L ?now wm (md_buf md) = Inr fs" for fs
      proof -
        have fs: "fs = filter (eligible (wm_instant wm) (?now - md_buf md * 1000000)) L" by (rule discovered_exact [OF that])
        have "distinct (map fi_path L) \<Longrightarrow> add_unseen [] fs = filter (eligible (wm_instant wm) (?now - md_buf md * 1000000)) L"
          unfolding fs by (subst add_unseen_distinct) (simp_all add: distinct_map inj_on_def)
        from wp_enrich_found [OF J(1) v(1,2) this late [OF v(1)]] show ?thesis
          by (rule wp_mono) (use v(3) in auto)
      qed
      then show ?thesis
        using v(1) by (simp add: now_us_def wp_bindM [of "asks _"] wp_asks wp_liftE wp_ret split: sum.split)
    qed
    have "(list_unprocessed c [r] [p] wm (md_buf md) :: ('z adapter_scheme, file_info list) eff) = bindM (bindM (list_files ?m r p) (\<lambda>L.
        bindM now_us (\<lambda>now. liftE (discover_unprocessed_files L now wm (md_buf md))))) (\<lambda>fs. ret (add_unseen [] fs))"
      by (simp add: list_unprocessed_def root_patterns_def tracker_discover_def)
    then have "wp (list_unprocessed c [r] [p] wm (md_buf md)) (\<lambda>fs. wp (?take fs) ?q (\<lambda>_. J)) (\<lambda>_. J) u"
      by (simp only: wp_bindM [of "bindM _ _"] wp_bindM [of "list_files _ _ _"])
         (rule wp_mono [OF list_it [OF u]], elim conjE, rule step, assumption+)
    then show ?thesis by (simp only: wp_bindM [of "list_unprocessed _ _ _ _ _"])
  qed
  have read: "wp (read_watermark ?m (md_loc md) True) (\<lambda>wm' u. K u \<and> wm' = wm) (\<lambda>_. J) w"
  proof -
    have "quiet K" and "K w"
      using frameD(5) [OF J(1)] J(2) by (simp_all add: K_def quiet_def clock_free_def fault_free_def listed_def)
    from wp_read_watermark_strict [OF this loc] show ?thesis
      by (rule wp_mono) (use fixed wm in \<open>auto simp: stored_view K_def\<close>)
  qed
  have same_wm: "(case wm of None \<Rightarrow> None | Some x \<Rightarrow> Some x) = wm" by (cases wm) simp_all
  have bind_ret: "bindM (ret a) k = k a" for a and k :: "file_info list \<Rightarrow> ('z adapter_scheme, string list) eff"
    by (simp add: bindM_def ret_def)
  show ?thesis
    unfolding discover_def discover_files_def Let_def single option.case simp_thms if_False if_True
      wp_bindM [of "ret _"] wp_ret wp_bindM [of "read_watermark _ _ _"]
    by (rule wp_mono [OF read]) (elim conjE, hypsubst, simp only: option.map(1) same_wm bind_ret if_False, rule pairs, assumption+)
qed

section \<open>Every eligible file is submitted\<close>

definition handled :: "(bool \<times> file_info list) list \<Rightarrow> file_info \<Rightarrow> bool" where
  "handled bs f \<longleftrightarrow> (\<exists>b \<in> set bs. snd b \<noteq> [] \<and>
     (fi_path f \<in> fi_path ` set (snd b) \<or> fi_modification_time f = fi_modification_time (last (snd b))))"

text \<open>An accepted job asks for the file: its script is the one of the batch that takes the file.\<close>

definition asked_for :: "'w run_setup \<Rightarrow> (bool \<times> file_info list) list \<Rightarrow> job_dict list \<Rightarrow> file_info \<Rightarrow> bool" where
  "asked_for su bs puts f \<longleftrightarrow> (\<exists>b \<in> set bs. handled [b] f \<and>
     (\<exists>j \<in> set puts. \<exists>evolve props. put_script j = su_script su (fst b) evolve props (map fi_path (snd b))))"

lemma handled_asked:
  assumes "handled bs f" and "all_sent su bs puts" and "real_scripts su"
  shows "asked_for su bs puts f"
proof -
  obtain parts where parts: "puts = concat parts" "list_all2 (script_sent su) bs parts" "[] \<notin> set parts"
    using assms(2,3) by (auto simp: all_sent_def)
  obtain b where "b \<in> set bs" "handled [b] f" using assms(1) by (auto simp: handled_def)
  then obtain i where i: "i < length bs" "handled [bs ! i] f" by (metis in_set_conv_nth)
  have len: "length parts = length bs" using parts(2) by (simp add: list_all2_lengthD)
  then have part: "parts ! i \<in> set parts" using i(1) by simp
  with parts(3) obtain j where j: "j \<in> set (parts ! i)" by (metis last_in_set)
  have "script_sent su (bs ! i) (parts ! i)" using parts(2) i(1) by (rule list_all2_nthD)
  with j have "\<exists>evolve props. put_script j = su_script su (fst (bs ! i)) evolve props (map fi_path (snd (bs ! i)))"
    by (auto simp: script_sent_def)
  moreover have "j \<in> set puts" using j part parts(1) by auto
  ultimately show ?thesis unfolding asked_for_def using i nth_mem by blast
qed

definition covered :: "int option \<Rightarrow> int \<Rightarrow> file_info list \<Rightarrow> int option \<Rightarrow> (bool \<times> file_info list) list \<Rightarrow> bool" where
  "covered start cutoff L t bs \<longleftrightarrow>
     (\<forall>f \<in> set L. eligible start cutoff f \<longrightarrow> after_watermark t f \<or> handled bs f)"

lemma handled_snoc: "handled bs f \<Longrightarrow> handled (bs @ [b]) f"
  by (auto simp: handled_def)

lemma same_times: "list_all2 same_file fs gs \<Longrightarrow> map fi_modification_time fs = map fi_modification_time gs"
  by (induction rule: list_all2_induct) (simp_all add: same_file_def)

text \<open>The watermark never passes a file that was eligible and is neither in the batch nor tied with its last file.\<close>

lemma covered_batch:
  assumes found: "found md t0 t L paths w" and fs: "fs = List.map_filter (map_of (ad_cache w)) paths" and "paths \<noteq> []"
    and L: "times_ok L" and old: "covered start (t0 - md_buf md * 1000000) L t bs"
  shows "covered start (t0 - md_buf md * 1000000) L (wm_instant (Some (new_watermark fs wm v))) (bs @ [(refresh, fs)])"
proof -
  let ?mf = "md_max_files md" and ?mb = "md_max_bytes md" and ?t = fi_modification_time
  obtain now backlog where now: "t0 \<le> now"
    and same: "list_all2 same_file (sort_key ?t (filter (eligible t (now - md_buf md * 1000000)) L)) backlog"
    and paths: "paths = map fi_path (get_next_batch backlog ?mf ?mb)" and batch: "fs = get_next_batch backlog ?mf ?mb"
    using found unfolding found_def fs by blast
  let ?S = "sort_key ?t (filter (eligible t (now - md_buf md * 1000000)) L)"
  have sorted: "sorted (map ?t backlog)" unfolding same_times [OF same, symmetric] by simp
  have "fs \<noteq> []" using assms(3) paths batch by simp
  obtain k where k: "fs = take k backlog" using get_next_batch_take [of backlog ?mf ?mb] batch by metis
  have ok: "times_ok fs"
  proof -
    have "?t ` set backlog \<subseteq> ?t ` set L"
      using arg_cong [OF same_times [OF same], of set] by auto
    then have "?t ` set fs \<subseteq> ?t ` set L" unfolding k by (meson image_mono order_trans set_take_subset)
    then show ?thesis using L by (fastforce simp: times_ok_def)
  qed
  have snoc: "fs = butlast fs @ [last fs]" using \<open>fs \<noteq> []\<close> by simp
  have app: "backlog = fs @ drop k backlog" using k by simp
  have "sorted (map ?t fs)" using sorted by (subst (asm) app) (simp add: sorted_append)
  then have max: "Max (set (map ?t fs)) = ?t (last fs)"
    using Max_sorted_snoc [of "butlast fs" "last fs"] snoc by simp
  have inst: "wm_instant (Some (new_watermark fs wm v)) = Some (?t (last fs))"
    using wm_instant_compute_new_watermark [OF \<open>fs \<noteq> []\<close> ok, of wm] max
    by (simp add: new_watermark_def wm_instant_def modified_time_dt_def cong: if_cong)
  have "after_watermark (Some (?t (last fs))) f \<or> handled (bs @ [(refresh, fs)]) f"
    if f: "f \<in> set L" "eligible start (t0 - md_buf md * 1000000) f" for f
  proof (cases "handled bs f")
    case False
    then have "after_watermark t f" using old f by (auto simp: covered_def)
    then have "eligible t (now - md_buf md * 1000000) f" using f(2) now by (simp add: eligible_def)
    then have "f \<in> set ?S" using f(1) by simp
    then obtain g where g: "g \<in> set backlog" "same_file f g"
      using same by (metis in_set_conv_nth list_all2_conv_all_nth)
    then have t: "?t f = ?t g" and path: "fi_path f = fi_path g" by (simp_all add: same_file_def)
    show ?thesis
    proof (cases "g \<in> set fs")
      case True
      then show ?thesis using path \<open>fs \<noteq> []\<close> by (auto simp: handled_def)
    next
      case False
      then have "g \<in> set (drop k backlog)" using g(1) app by (metis Un_iff set_append)
      moreover have "last fs \<in> set fs" using \<open>fs \<noteq> []\<close> by simp
      ultimately have "?t (last fs) \<le> ?t g" using sorted by (subst (asm) app) (auto simp: sorted_append)
      then show ?thesis using t \<open>fs \<noteq> []\<close> by (auto simp: after_watermark_def handled_def)
    qed
  qed (simp add: handled_snoc)
  then show ?thesis by (simp add: covered_def inst)
qed

lemma sort_key_Nil: "sort_key f xs = [] \<longleftrightarrow> xs = []"
  by (metis set_empty2 set_sort)

lemma covered_end:
  assumes "covered start (t0 - md_buf md * 1000000) L t bs" and "found md t0 t L [] w"
    and "f \<in> set L" and "eligible start (t0 - md_buf md * 1000000) f"
  shows "handled bs f"
proof -
  obtain now where now: "t0 \<le> now" and none: "filter (eligible t (now - md_buf md * 1000000)) L = []"
    using assms(2) by (auto simp: found_def sort_key_Nil)
  have "\<not> after_watermark t f"
    using none assms(3,4) now by (auto simp: eligible_def filter_empty_conv)
  then show ?thesis using assms(1,3,4) by (auto simp: covered_def)
qed

section \<open>The run\<close>

text \<open>Between two batches, and with the files at hand.\<close>

definition caught_up :: "'w run_setup \<Rightarrow> table_key \<Rightarrow> string \<Rightarrow> string \<Rightarrow> int option \<Rightarrow> int \<Rightarrow> int \<Rightarrow> watermark option \<Rightarrow> file_info list \<Rightarrow>
    'z observed_scheme \<Rightarrow> bool" where
  "caught_up su k r p start t0 cutoff wm L w \<longleftrightarrow> view_watermark (view (st_tables w k)) = Inr wm \<and> t0 \<le> st_clock w \<and>
     listed r p L w \<and> all_sent su (ob_batches w) (aw_puts w) \<and>
     (distinct (map fi_path L) \<and> times_ok L \<longrightarrow> covered start cutoff L (wm_instant wm) (ob_batches w))"

definition at_hand :: "model \<Rightarrow> int \<Rightarrow> watermark option \<Rightarrow> file_info list \<Rightarrow> string list \<Rightarrow> 'z adapter_scheme \<Rightarrow> bool" where
  "at_hand md t0 wm L paths w \<longleftrightarrow> known_after (wm_instant wm) paths w \<and>
     (distinct (map fi_path L) \<longrightarrow> found md t0 (wm_instant wm) L paths w)"

lemma frame_late: "frame (\<lambda>w. t0 \<le> st_clock w)"
  by (simp add: frame_def cacheless_def source_free_def owner_free_def job_free_def quiet_def clock_free_def fault_free_def
      upd_table_def set_owner_file_def)

lemma wp_discover_at_hand:
  fixes w :: "'z observed_scheme"
  assumes loc: "abfss_parse (md_loc md) = Some l"
    and single: "md_roots md = [r]" "md_patterns md = [p]" "md_starting md = None"
    and wm: "view_watermark (view (st_tables w (table_key l))) = Inr wm" and late: "t0 \<le> st_clock w"
  shows "wp (discover c md) (\<lambda>paths u. \<exists>L. listed r p L u \<and> (\<forall>L'. listed r p L' w \<longrightarrow> L = L') \<and>
      view_watermark (view (st_tables u (table_key l))) = Inr wm \<and> ob_batches u = ob_batches w \<and>
      aw_puts u = aw_puts w \<and> t0 \<le> st_clock u \<and> at_hand md t0 wm L paths u) (\<lambda>_ _. True) w"
proof -
  let ?k = "table_key l" and ?B = "ob_batches w" and ?P = "aw_puts w" and ?v = "view (st_tables w (table_key l))"
  define J where "J u \<longleftrightarrow> (view_in ?k (log_files w ?k) (\<lambda>v. v = ?v) u \<and> ob_batches u = ?B \<and> aw_puts u = ?P) \<and> t0 \<le> st_clock u" for u :: "'z observed_scheme"
  have fr: "frame J" unfolding J_def by (intro frame_conj frame_view_in frame_batches frame_late)
  have w: "J w" using late by (simp add: J_def view_in_def)
  have v: "view (st_tables u ?k) = ?v" and l: "t0 \<le> st_clock u" if "J u" for u :: "'z observed_scheme"
    using that by (simp_all add: J_def view_in_def)
  show ?thesis
    by (rule wp_mono [OF wp_conj [OF wp_discover [OF fr w loc v] wp_discover_exact [OF fr w loc single v l wm]]])
       (use wm in \<open>auto simp: J_def view_in_def at_hand_def\<close>)
qed

text \<open>Without a trigger the loop ends with no file left, unless its cap is reached.\<close>

lemma wp_batch_loop_ends:
  fixes w :: "'z observed_scheme"
  shows "wp (batch_loop k su md full None evolve planned True n paths) (\<lambda>(m, rest) _. rest = [] \<or> m = n + k) (\<lambda>_ _. True) w"
proof (induction k arbitrary: n paths w)
  case (Suc k n paths w)
  have done_now: "wp (batch_loop k su md full None evolve planned True n []) (\<lambda>(m, rest) _. rest = [] \<or> m = Suc (n + k)) (\<lambda>_ _. True) w"
  proof -
    have "batch_loop k su md full None evolve planned True n [] = ret (n, [])" by (induction k) simp_all
    then show ?thesis by (simp add: wp_ret)
  qed
  have free: "keeps (\<lambda>_. True) op" for op :: "('z observed_scheme, 'a) eff"
    by (rule keepsI) (auto simp: wp_def split: prod.split sum.split)
  have rest: "wp (bindM (discover (su_env su) md) (\<lambda>more. batch_loop k su md full None evolve planned True (Suc n) more))
      (\<lambda>(m, rest) _. rest = [] \<or> m = Suc (n + k)) (\<lambda>_ _. True) u" for u :: "'z observed_scheme"
    unfolding wp_bindM by (rule wp_mono [OF keepsD [OF free TrueI]], rule Suc.IH [of "Suc n", unfolded add_Suc], rule TrueI)
  have "wp (thenM (run_batch su md evolve (full \<and> n = 0) (batch_job_name md full (Suc n) planned (length paths)) paths)
      (bindM (discover (su_env su) md) (\<lambda>more. batch_loop k su md full None evolve planned True (Suc n) more)))
      (\<lambda>(m, rest) _. rest = [] \<or> m = Suc (n + k)) (\<lambda>_ _. True) w"
    unfolding wp_thenM by (rule wp_mono [OF keepsD [OF free TrueI]], rule rest, rule TrueI)
  with done_now show ?case by simp
qed (simp add: wp_ret)

lemma wp_complete_loop:
  fixes w :: "'z observed_scheme"
  assumes loc: "abfss_parse (md_loc md) = Some l"
    and single: "md_roots md = [r]" "md_patterns md = [p]" "md_starting md = None"
    and start: "caught_up su (table_key l) r p start t0 (t0 - md_buf md * 1000000) wm L w" "at_hand md t0 wm L paths w"
  shows "wp (batch_loop k su md full None evolve planned True n paths)
    (\<lambda>(m, rest) u. m < n + k \<longrightarrow> (\<exists>L. listed r p L u \<and> all_sent su (ob_batches u) (aw_puts u) \<and> (distinct (map fi_path L) \<and> times_ok L \<longrightarrow>
       (\<forall>f \<in> set L. eligible start (t0 - md_buf md * 1000000) f \<longrightarrow> handled (ob_batches u) f)))) (\<lambda>_ _. True) w"
proof -
  let ?k = "table_key l" and ?cut = "t0 - md_buf md * 1000000"
  let ?up = "\<lambda>wm L (u :: 'z observed_scheme). caught_up su ?k r p start t0 ?cut wm L u"
  let ?I = "\<lambda>(n :: nat) paths u. \<exists>wm L. ?up wm L u \<and> at_hand md t0 wm L paths u"
  have batch: "wp (run_batch su md evolve (full \<and> n = 0) name paths) (\<lambda>_ u. \<exists>wm L. ?up wm L u) (\<lambda>_ _. True) u"
    if I: "?I n paths u" and "paths \<noteq> []" for n paths name and u :: "'z observed_scheme"
  proof -
    obtain wm L where up: "?up wm L u" and hand: "at_hand md t0 wm L paths u" using I by blast
    let ?K = "\<lambda>u :: 'z observed_scheme. listed r p L u \<and> t0 \<le> st_clock u"
    have K: "aside ?K" "put_free ?K" "\<And>u x. ?K u \<Longrightarrow> ?K (u\<lparr>ob_batches := x\<rparr>)" "\<And>u x. ?K u \<Longrightarrow> ?K (u\<lparr>lk_log := x\<rparr>)" "?K u"
      using up
      by (auto simp: aside_def handle_free_def job_free_def quiet_def clock_free_def fault_free_def put_free_def listed_def
          caught_up_def)
    have wm: "view_watermark (view (st_tables u ?k)) = Inr wm" using up by (simp add: caught_up_def)
    have paths: "known_after (wm_instant wm) paths u" using hand by (simp add: at_hand_def)
    have sent: "all_sent su (ob_batches u) (aw_puts u)" using up by (simp add: caught_up_def)
    let ?fs = "List.map_filter (map_of (ad_cache u)) paths"
    have moved: "\<exists>wm L. ?up wm L v"
      if "?K v" "ob_batches v = ob_batches u @ [(full \<and> n = 0, ?fs)]"
        "sent_next su True (full \<and> n = 0, ?fs) (aw_puts u) v"
        "view_watermark (view (st_tables v ?k)) = Inr (Some (new_watermark ?fs wm version))"
      for version and v :: "'z observed_scheme"
    proof (intro exI)
      show "?up (Some (new_watermark ?fs wm version)) L v"
        using that up hand \<open>paths \<noteq> []\<close> sent_snoc_batch(2) [OF sent that(3)]
        by (auto simp: caught_up_def at_hand_def intro!: covered_batch)
    qed
    show ?thesis
      by (rule wp_mono [OF wp_run_batch_exact [OF loc wm paths that(2) HOL.refl K]]) (assumption | elim conjE exE, rule moved, simp_all)+
  qed
  have nxt: "wp (discover (su_env su) md) (\<lambda>more. ?I (Suc n) more) (\<lambda>_ _. True) u"
    if M: "\<exists>wm L. ?up wm L u" for n and u :: "'z observed_scheme"
  proof -
    obtain wm L where up: "?up wm L u" using M by blast
    then have wm: "view_watermark (view (st_tables u ?k)) = Inr wm" and late: "t0 \<le> st_clock u" by (simp_all add: caught_up_def)
    show ?thesis
      by (rule wp_mono [OF wp_discover_at_hand [OF loc single wm late]])
         (use up in \<open>fastforce simp: caught_up_def\<close>)+
  qed
  have I: "?I n paths w" using start by blast
  have "wp (batch_loop k su md full None evolve planned True n paths) (\<lambda>(m, rest). ?I m rest) (\<lambda>_ _. True) w"
    by (rule wp_batch_loop [where M = "\<lambda>_ u. \<exists>wm L. ?up wm L u"]) (use batch nxt I in \<open>auto\<close>)
  from wp_conj [OF this wp_batch_loop_ends] show ?thesis
  proof (rule wp_mono)
    fix x and u :: "'z observed_scheme"
    assume *: "(case x of (m, rest) \<Rightarrow> ?I m rest) u \<and> (case x of (m, rest) \<Rightarrow> \<lambda>_. rest = [] \<or> m = n + k) u"
    obtain m rest where x: "x = (m, rest)" by (cases x)
    show "(case x of (m, rest) \<Rightarrow> \<lambda>u. m < n + k \<longrightarrow> (\<exists>L. listed r p L u \<and> all_sent su (ob_batches u) (aw_puts u) \<and> (distinct (map fi_path L) \<and> times_ok L \<longrightarrow>
       (\<forall>f \<in> set L. eligible start ?cut f \<longrightarrow> handled (ob_batches u) f)))) u"
      using * unfolding x by (fastforce simp: caught_up_def at_hand_def dest: covered_end)
  qed simp
qed

lemma wp_complete_run:
  fixes w :: "'z observed_scheme"
  assumes loc: "abfss_parse (md_loc md) = Some l" and duck: "duck_reads (su_duckdb su)"
    and single: "md_roots md = [r]" "md_patterns md = [p]" "md_starting md = None"
    and wm: "view_watermark (view (st_tables w (table_key l))) = Inr wm" and t0: "t0 = st_clock w"
    and none: "ob_batches w = []" "aw_puts w = []"
  shows "wp (bindM (discover (su_env su) md) (\<lambda>paths.
      if paths = [] \<and> None = (None :: trigger) then
        bindM (execute (su_handle su) (su_credentials su) no_op_script ''dbt-scope'') (\<lambda>_. ret 0)
      else
        bindM get_total_batches (\<lambda>planned.
        bindM (compute_schema_evolution m (su_duckdb su) (md_loc md) (md_columns md) (md_partition md)) (\<lambda>evolve.
        bindM (batch_loop 1000 su md full None evolve planned True 0 paths) (\<lambda>(n, _). ret n)))))
    (\<lambda>n u. n < 1000 \<longrightarrow> (\<exists>L. listed r p L u \<and> all_sent su (ob_batches u) (aw_puts u) \<and> (distinct (map fi_path L) \<and> times_ok L \<longrightarrow>
       (\<forall>f \<in> set L. eligible (wm_instant wm) (t0 - md_buf md * 1000000) f \<longrightarrow> handled (ob_batches u) f)))) (\<lambda>_ _. True) w"
    (is "wp (bindM _ ?next) ?q _ w")
proof -
  let ?k = "table_key l" and ?cut = "t0 - md_buf md * 1000000"
  let ?up = "\<lambda>L (u :: 'z observed_scheme). caught_up su ?k r p (wm_instant wm) t0 ?cut wm L u"
  have enter: "?up L u" if "listed r p L u" "view_watermark (view (st_tables u ?k)) = Inr wm" "t0 \<le> st_clock u"
      "ob_batches u = ob_batches w" "aw_puts u = aw_puts w" for L and u :: "'z observed_scheme"
    using that none by (simp add: caught_up_def covered_def eligible_def all_sent_def)
  have idle: "wp (?next []) ?q (\<lambda>_ _. True) u"
    if up: "?up L u" "at_hand md t0 wm L [] u" for L and u :: "'z observed_scheme"
  proof -
    have "wp (execute (su_handle su) (su_credentials su) no_op_script ''dbt-scope'') (\<lambda>_. ?up L) (\<lambda>_. ?up L) u"
      by (rule keepsD [where J = "?up L", OF keeps_execute_idle [OF no_op_idle] up(1)])
    then show ?thesis
      unfolding if_P [OF conjI [OF HOL.refl HOL.refl]] wp_bindM
      by (rule wp_mono) (use up in \<open>auto simp: wp_ret caught_up_def at_hand_def dest: covered_end\<close>)
  qed
  have going: "wp (bindM get_total_batches (\<lambda>planned.
        bindM (compute_schema_evolution m (su_duckdb su) (md_loc md) (md_columns md) (md_partition md)) (\<lambda>evolve.
        bindM (batch_loop 1000 su md full None evolve planned True 0 paths) (\<lambda>(n, _). ret n)))) ?q (\<lambda>_ _. True) u"
    if up: "?up L u" "at_hand md t0 wm L paths u" for L paths and u :: "'z observed_scheme"
  proof -
    define J where "J v \<longleftrightarrow> ?up L v \<and> at_hand md t0 wm L paths v" for v :: "'z observed_scheme"
    have "quiet J"
      by (simp add: J_def caught_up_def at_hand_def listed_def known_after_def found_def quiet_def clock_free_def fault_free_def)
    then have "keeps J (compute_schema_evolution m (su_duckdb su) (md_loc md) (md_columns md) (md_partition md))"
      using duck by (intro keeps_intros) (simp_all add: duck_reads_def)
    from keepsD [OF this, of u] up
    have evolved: "wp (compute_schema_evolution m (su_duckdb su) (md_loc md) (md_columns md) (md_partition md)) (\<lambda>_. J) (\<lambda>_. J) u"
      by (simp add: J_def)
    have "wp (bindM (batch_loop 1000 su md full None evolve planned True 0 paths) (\<lambda>(n, _). ret n)) ?q (\<lambda>_ _. True) v"
      if "J v" for evolve planned and v :: "'z observed_scheme"
    proof -
      have "?up L v" "at_hand md t0 wm L paths v" using that by (simp_all add: J_def)
      from wp_complete_loop [OF loc single this] show ?thesis
        unfolding wp_bindM by (rule wp_mono) (auto simp: wp_ret)
    qed
    then show ?thesis
      unfolding get_total_batches_def wp_bindM [of "asks _"] wp_asks wp_bindM [of "compute_schema_evolution _ _ _ _ _"]
      by (intro wp_mono [OF evolved]) auto
  qed
  have "wp (discover (su_env su) md) (\<lambda>paths u. \<exists>L. ?up L u \<and> at_hand md t0 wm L paths u) (\<lambda>_ _. True) w"
    by (rule wp_mono [OF wp_discover_at_hand [OF loc single wm, of t0]]) (use t0 in \<open>simp, blast intro: enter [unfolded t0], simp\<close>)
  then show ?thesis
    unfolding wp_bindM [of "discover _ _"]
  proof (rule wp_mono)
    fix paths and u :: "'z observed_scheme"
    assume "\<exists>L. ?up L u \<and> at_hand md t0 wm L paths u"
    then obtain L where L: "?up L u" "at_hand md t0 wm L paths u" by blast
    show "wp (?next paths) ?q (\<lambda>_ _. True) u"
    proof (cases "paths = []")
      case True
      show ?thesis unfolding True by (rule idle [OF L [unfolded True]])
    next
      case False
      then show ?thesis using going [OF L] by simp
    qed
  qed simp
qed

section \<open>Properties\<close>


text \<open>
  C4: only the first batch of a full refresh deletes the table's rows: under any outages, however the run
  ends, and for both triggers, the scripts that the service accepts are those of the batches, in order,
  and they are rendered with deletion for the first batch of a full refresh, without it for every other one.
\<close>

theorem rows_deleted_once:
  assumes "abfss_parse (md_loc md) = Some l" and "duck_reads (su_duckdb su)" and "ob_batches w = []" and "aw_puts w = []"
  shows "case incremental_run su md full trigger w of (res, w') \<Rightarrow>
    deletes_once full (ob_batches w') \<and> sent_for su (ob_batches w') (aw_puts w')"
  using ordered_run [OF assms, of full trigger] by (auto simp: wp_def ordered_def split: prod.splits sum.splits)

text \<open>
  For the evaluation of a whole run: an instant that is not known yet is not printed, and a loop that is
  over is not unfolded to its cap.
\<close>

lemma isoformat_when_known [code]:
  "isoformat d = (if 0 \<le> dt_wall d \<or> dt_wall d < 0 then
     (case ord2ymd (dt_wall d div us_per_day + epoch_ordinal) of (y, m, dd) \<Rightarrow>
        pad_nat 4 (nat y) @ CHR ''-'' # pad_nat 2 m @ CHR ''-'' # pad_nat 2 (nat dd) @
        CHR ''T'' # fmt_hms True (nat (dt_wall d mod us_per_day)) @ fmt_offset (dt_offset d)) else [])"
  unfolding isoformat_def by auto

lemma batch_loop_stopped: "batch_loop k su md full trigger evolve planned False n paths = ret (n, paths)"
  by (induction k) simp_all

lemma batch_loop_finished: "batch_loop k su md full None evolve planned go n [] = ret (n, [])"
  by (induction k) (auto simp: batch_loop_stopped)

lemma batch_loop_when_needed [code]:
  "batch_loop k su md full trigger evolve planned go n paths =
     (if \<not> go \<or> paths = [] \<and> trigger = None \<or> k = 0 then ret (n, paths)
      else if paths = [] then
        (case trigger of
           None \<Rightarrow> ret (n, paths)
         | Some t \<Rightarrow> bindM (next_cycle (su_env su) (su_thread su) md t) (\<lambda>(go, paths).
             batch_loop (k - 1) su md full trigger evolve planned go n paths))
      else
        thenM (run_batch su md evolve (full \<and> n = 0) (batch_job_name md full (Suc n) planned (length paths)) paths)
          (bindM (discover (su_env su) md) (\<lambda>more.
             case trigger of
               None \<Rightarrow> batch_loop (k - 1) su md full trigger evolve planned go (Suc n) more
             | Some t \<Rightarrow>
                 if more \<noteq> [] then batch_loop (k - 1) su md full trigger evolve planned go (Suc n) more
                 else bindM (next_cycle (su_env su) (su_thread su) md t) (\<lambda>(go, paths).
                   batch_loop (k - 1) su md full trigger evolve planned go (Suc n) paths))))"
proof (cases k)
  case (Suc j)
  show ?thesis
  proof (cases trigger)
    case None
    show ?thesis unfolding Suc None diff_Suc_1 by (simp add: batch_loop_stopped batch_loop_finished)
  next
    case (Some t)
    show ?thesis unfolding Suc Some diff_Suc_1 by (simp add: batch_loop_stopped)
  qed
qed simp

text \<open>Three files, the last two modified at the same time, and batches of two.\<close>

definition tied_folder :: gen1_entry where
  "tied_folder = G1Dir ''/d'' [G1File ''/d/a.ss'' (Some 5) (Some 1000), G1File ''/d/b.ss'' (Some 5) (Some 2000),
     G1File ''/d/c.ss'' (Some 5) (Some 2000)]"

definition tied_world :: observed where
  "tied_world = (sample_observed empty_dir)\<lparr>g1_lookup := (\<lambda>p. if p = ''/d'' then Some tied_folder else None)\<rparr>"

definition tied_listing :: "file_info list" where
  "tied_listing = map (\<lambda>(n, t). \<lparr>fi_path = ''/d/'' @ n, fi_name = n, fi_length = 5, fi_modification_time = t,
     fi_estimated_bytes = None, fi_contributing_files = []\<rparr>)
     [(''a.ss'', 1000000), (''b.ss'', 2000000), (''c.ss'', 2000000)]"

lemma tied_run:
  "case prepare_run sample_setup sample_model False None tied_world of (res, w0) \<Rightarrow>
     res = Inr () \<and> view_watermark (view (st_tables w0 (table_key sample_location))) = Inr None \<and> st_clock w0 = 100000000"
  "case incremental_run sample_setup sample_model False None tied_world of (res, w') \<Rightarrow>
     res = Inr 1 \<and> map_of (g1_listings w') (''/d'', []) = Some tied_listing \<and>
     map (map fi_path \<circ> snd) (ob_batches w') = [[''/d/a.ss'', ''/d/b.ss'']]"
  "case incremental_run sample_setup sample_model True None tied_world of (res, w') \<Rightarrow>
     res = Inr 1 \<and> map put_script (aw_puts w') = [''DELETE; INSERT/d/a.ss/d/b.ss'']"
  by code_simp+

lemma sample_scripts: "real_scripts sample_setup"
proof -
  have letters: "\<forall>c \<in> set ''DI''. \<not> is_space c \<and> lower_char c \<noteq> CHR ''s'' \<and> \<not> is_space (lower_char c) \<and>
      lower_char c \<noteq> CHR '';'' \<and> c \<noteq> CHR ''-''"
    by code_simp
  have no_space: "runs_job (c # s)" if "c = CHR ''D'' \<or> c = CHR ''I''" for c s
  proof -
    have keep: "\<exists>t. rev (dropWhile p (rev (c # s))) = c # t" if "\<not> p c" for p :: "char \<Rightarrow> bool" and c s
      using that by (intro exI [of _ "rev (dropWhile p (rev s))"]) (auto simp: dropWhile_append)
    have "\<not> is_space c" "lower_char c \<noteq> CHR ''s''" "\<not> is_space (lower_char c)" "lower_char c \<noteq> CHR '';''" "c \<noteq> CHR ''-''"
      using that letters by auto
    moreover from this keep [of is_space c s] obtain t where "py_strip (c # s) = c # t"
      by (auto simp: py_strip_def rstrip_if_def)
    moreover from calculation keep [of "\<lambda>c. c = CHR '';''" "lower_char c" "map lower_char t"] obtain u
      where "strip_semicolons (py_lower (c # t)) = lower_char c # u" by (auto simp: strip_semicolons_def py_lower_def)
    moreover from calculation keep [of is_space "lower_char c" u] obtain v where "py_strip (lower_char c # u) = lower_char c # v"
      by (auto simp: py_strip_def rstrip_if_def)
    ultimately show ?thesis
      by (simp add: runs_job_def needs_no_job_def is_debug_query_def py_startswith_def)
  qed
  then show ?thesis by (simp add: real_scripts_def sample_setup_def)
qed

theorem rows_deleted_once_witness:
  "\<exists>w'. incremental_run sample_setup sample_model True None tied_world = (Inr 1, w') \<and>
     deletes_once True (ob_batches w') \<and> sent_for sample_setup (ob_batches w') (aw_puts w') \<and>
     map put_script (aw_puts w') = [''DELETE; INSERT/d/a.ss/d/b.ss'']"
proof -
  obtain w' where w': "incremental_run sample_setup sample_model True None tied_world = (Inr 1, w')"
      "map put_script (aw_puts w') = [''DELETE; INSERT/d/a.ss/d/b.ss'']"
    using tied_run(3) by (auto split: prod.splits)
  have "ob_batches tied_world = []" "aw_puts tied_world = []" by (simp_all add: tied_world_def)
  from rows_deleted_once [OF sample_model_simps(1,3) this, of True None] w' show ?thesis by auto
qed


end
