(* ===== verification/Spec2Isabelle.thy ===== *)
theory Spec2Isabelle
  imports Checkpoint_Records File_Batching Credentials Message_Retry Abfss_Location Storage_World
    Source_Log Checkpoint_Manager Owner_Protocol Delta_Log Gen1_Listing Adla_Jobs Adapter_Batches
    Quota_Eviction Job_Lifecycle Job_Guarantees Job_Shutdown Delta_Client Schema_Evolution Script_Builder
    Trigger_Config Token_Credential Token_Relay Gen1_Session Scope_Sql Adapter_Surface Adla_Connection File_Tables
    Run_Completeness
begin

text \<open>
  The \<open>dbt-scope\<close> adapter (\<open>src/dbt/adapters/scope/\<close>): it runs dbt models as SCOPE jobs of Azure Data Lake
  Analytics. A model reads files below its source roots and appends to a Delta table. A run discovers
  the files that are newer than the table's watermark, cuts them into batches, submits one job per batch
  and moves the watermark on. The state that outlives a run is in \<open>_checkpoint/\<close> beside the table:
  \<open>watermark.json\<close>, \<open>pending.json\<close> (the batch whose job may be running), \<open>owner.json\<close> (the run that owns the
  table) and \<open>sources/\<close> (what was processed). The Delta log tells whether the job of a pending batch has
  committed: its script stamps the batch's token into the table properties.

  \<^bold>\<open>How code is modelled.\<close> A Python function that touches the world is an effect (\<open>Py_Effects\<close>): a function
  from a world to a result, an exception or a value, and the world afterwards. \<open>try\<close>, \<open>finally\<close>, loops and
  early returns are the combinators of that theory; \<open>wp\<close> is their weakest precondition, and the proofs
  rewrite with one equation per combinator. Worlds are records that extend each other, as the components
  do: \<open>store\<close> (tables, clock, outages), \<open>lake\<close> (Delta logs), \<open>gen1\<close> (source files), \<open>adla\<close> (the job service and
  the registries of the process), \<open>observed\<close> (a run and what it submitted). An exception has its class and
  text (\<open>Scope_Prelude\<close>). A \<open>dict\<close> is an association list, a string a list of UTF-8 bytes, an \<open>int\<close> is
  unbounded, a \<open>datetime\<close> counts microseconds and carries its offset (\<open>Py_Datetime\<close>), a \<open>float\<close> is a real.

  \<^bold>\<open>Outages.\<close> Every request to a service is a \<open>storage_call\<close>. The schedule \<open>st_faults\<close>, which is arbitrary,
  decides whether it is served, fails before it takes effect, takes effect and loses its response, or is
  the point where the process dies; then no handler runs any more. A theorem without a condition on the
  schedule holds for every pattern of failures, a theorem with \<open>st_faults w = []\<close> for a run without any.

  \<^bold>\<open>Theories and code.\<close>
  \<^item> \<open>checkpoint.py\<close>: \<open>Checkpoint_Records\<close> (the records and their JSON), \<open>Storage_World\<close> and
    \<open>Checkpoint_Manager\<close> (every read and write of the three files, with conditional writes),
    \<open>Source_Log\<close> (diffs, snapshots, retention), \<open>Owner_Protocol\<close> (many runs claiming one table, their requests
    interleaved, as a step relation).
  \<^item> \<open>file_tracker.py\<close>: \<open>File_Batching\<close>. \<open>adls_gen1_client.py\<close>: \<open>Gen1_Listing\<close>, a walk over a directory
    tree, and \<open>Gen1_Session\<close>.
  \<^item> \<open>delta_lake.py\<close>: \<open>Abfss_Location\<close>, \<open>Delta_Log\<close> (commits and the search for a batch token),
    \<open>Delta_Client\<close> (the queries), \<open>Schema_Evolution\<close>, \<open>Token_Credential\<close> (with \<open>_file_lock.py\<close> and
    \<open>custom_credential.py\<close>).
  \<^item> \<open>impl.py\<close>: \<open>Source_Paths\<close>, \<open>Adapter_Discovery\<close>, \<open>Adapter_Checkpoint\<close> (\<open>begin_batch\<close>,
    \<open>update_checkpoint\<close>, \<open>reconcile_checkpoint\<close>, \<open>delete_checkpoint\<close>), \<open>Adapter_Surface\<close> (with \<open>column.py\<close>
    and \<open>relation.py\<close>), \<open>File_Tables\<close>, and with \<open>connections.py\<close> \<open>Job_Shutdown\<close> and \<open>Adla_Connection\<close>.
  \<^item> \<open>connections.py\<close>: \<open>Adla_Jobs\<close> (orphaned jobs, \<open>claim_table\<close>, \<open>ensure_table_owner\<close>), \<open>Job_Lifecycle\<close>
    (submitting, polling, cancelling, \<open>submit_and_wait\<close>, \<open>execute\<close>), \<open>Adla_Connection\<close> (tokens and requests).
    \<open>quota_eviction.py\<close>: \<open>Quota_Eviction\<close>. \<open>message_retry.py\<close>: \<open>Message_Retry\<close>.
  \<^item> \<open>credentials.py\<close>: \<open>Credentials\<close>. \<open>trigger_config.py\<close>: \<open>Trigger_Config\<close>. \<open>script_builder.py\<close>:
    \<open>Script_Builder\<close>. \<open>sqlglot_parser.py\<close>: \<open>Scope_Sql\<close>.
  \<^item> \<open>include/scope/macros/materializations/\<close>: \<open>Incremental_Run\<close>, the batching loop of \<open>incremental.sql\<close> and
    \<open>table.sql\<close> over the adapter's methods. \<open>.github/scripts/imds_relay_router.py\<close>: \<open>Token_Relay\<close>.

  \<^bold>\<open>What is shown.\<close>
  \<^item> Checkpoint. The files are written atomically, and reads never report a false absence
    (\<open>Checkpoint_Manager\<close>). A batch is recorded exactly once when its commit is in the log, and not otherwise,
    wherever the process dies and however often recovery is interrupted (\<open>Adapter_Recovery\<close>,
    \<open>Adapter_Batches\<close>, \<open>Adapter_Guarantees\<close>); without outages recovery finishes (\<open>Calm_Runs\<close>). Adopted files
    hide no other file (\<open>Source_Paths\<close>). The source log keeps the whole history (\<open>Source_Log\<close>).
  \<^item> Ownership. The rank of the recorded owner never decreases under any interleaving, and a superseded run
    stays superseded (\<open>Owner_Protocol\<close>); \<open>claim_table\<close> leaves a higher-ranked run alone or ends the orphaned jobs
    (\<open>Adla_Jobs\<close>).
  \<^item> Jobs. A job that is returned succeeded and has ended, one that is given up has ended or was asked to cancel,
    the registry is left clean, polling ends, and eviction spares the own run (\<open>Job_Outcomes\<close>,
    \<open>Job_Guarantees\<close>, \<open>Job_Shutdown\<close>).
  \<^item> Runs. A run submits no file twice, a run that returns has submitted every eligible file but for ties
    of modification times, and only the first batch of a full refresh deletes rows (\<open>Incremental_Run\<close>,
    \<open>Run_Completeness\<close>). \<open>Adapter_Frame\<close> and \<open>Run_Frame\<close> say what each operation leaves alone.
  \<^item> Parts. Batches are maximal prefixes and partition the files; listings are complete without failures; the
    schema diff is exact; scripts and queries keep file names and values inside their quotes; triggers are
    well-formed; retries are bounded; a top-level \<open>WHERE\<close> is found exactly; tokens are live when they are sent.
  \<^item> Defects of the code are theorems too where they can be stated: files tied at the cut of a batch are skipped,
    a swallowed listing error loses files for good, a full history of snapshots makes the clean-up delete every diff,
    a lost submission runs on unregistered, a failed log listing skips the schema check, the back-off overflows.

  \<^bold>\<open>Fuel.\<close> A loop that waits has fuel: \<open>settle_fuel max_wait poll\<close> is \<open>max_wait div poll + 2\<close> rounds for a loop
    that sleeps \<open>poll\<close> seconds per round and stops after \<open>max_wait\<close>; \<open>job_loops_end\<close> shows that it never runs
    out for the loops of a job. \<open>lock_fuel timeout\<close> is \<open>20 * timeout + 2\<close>, and a round without the lock sleeps a
    twentieth of a second at least (\<open>lock_fuel_enough\<close>). Retry loops count the attempts that their policy allows. \<open>batch_loop\<close>
    counts the code's own \<open>loop_cap\<close> (1000, or 99999 with a processing-time trigger).

  \<^bold>\<open>Parameters.\<close> Code outside of the repository is an argument: regular expressions other than those written
  out here (\<open>regex_engine\<close>), DuckDB and its Delta extension, the Azure credentials and SDK clients, \<open>random\<close> and
  \<open>uuid\<close>, \<open>sqlglot\<close>, the Jinja templates of a script, HMAC and Base64. What the code relies on is stated as a
  locale and interpreted on the model: \<open>tagged_register\<close> (conditional writes) on \<open>owner.json\<close>,
  \<open>eviction_context\<close> on the connection handle, \<open>token_source\<close> on the file lock, \<open>table_listing\<close> on the directories
  of the store.

  \<^bold>\<open>Not modelled.\<close> Threads: the workers of a pool run one after another, and locks inside of the process only order
  them; runs in different processes interleave in \<open>Owner_Protocol\<close> and through the outages. Log messages, but for
  sizes, times and the frame of the file tables, whose body pandas renders. The HTTP session with its own retries, what
  SDK clients do when they are created, and functions that return a constant type name. The bytes of a Parquet snapshot and of a
  DuckDB log checkpoint: the store holds what they say. The text that the macros other than the two
  materializations render.
\<close>

end
